(* ===== verification/Wam_Prelude.thy ===== *)
theory Wam_Prelude
  imports Main "HOL-Library.Word" "HOL-Library.Multiset"
begin

text \<open>
  What every component of the development shares: the result type of code that can raise,
  the state-and-exception programs of the scripts that talk to a node or to files, positional
  number systems (a number against the list of its digits), byte strings and the conversions
  \<open>int.from_bytes\<close> / \<open>int.to_bytes\<close> of Python, and a few facts about lists.
\<close>

section \<open>Collections of facts\<close>

named_theorems result_simps \<open>unfolding of the result and program combinators\<close>
named_theorems byte_simps \<open>lengths and conversions of byte strings\<close>

section \<open>Results and programs\<close>

text \<open>A Python computation that may raise: \<open>Inl\<close> is what was raised, \<open>Inr\<close> what was returned.\<close>

definition rbind :: "'e + 'a \<Rightarrow> ('a \<Rightarrow> 'e + 'b) \<Rightarrow> 'e + 'b" where
  "rbind m f = (case m of Inl e \<Rightarrow> Inl e | Inr x \<Rightarrow> f x)"

lemma rbind_simps [simp, result_simps]:
  "rbind (Inl e) f = Inl e"
  "rbind (Inr x) f = f x"
  by (simp_all add: rbind_def)

lemma rbind_eq_Inr [simp]: "rbind m f = Inr y \<longleftrightarrow> (\<exists>x. m = Inr x \<and> f x = Inr y)"
  by (cases m) auto

lemma Inr_eq_rbind: "Inr y = rbind m f \<longleftrightarrow> (\<exists>x. m = Inr x \<and> f x = Inr y)"
  by (cases m) auto

lemma rbind_eq_Inl: "rbind m f = Inl e \<longleftrightarrow> m = Inl e \<or> (\<exists>x. m = Inr x \<and> f x = Inl e)"
  by (cases m) auto

text \<open>The exceptions of the language that the modelled code can raise.\<close>

datatype py_error =
    KeyError string | IndexError | TypeError | AttributeError | ValueError | OverflowError
  | ZeroDivisionError | AssertionError | RuntimeError | OSError | LookupError | DecimalOverflow
  | SystemExit int | TimeoutExpired | EOFError | StructError | PatchError | RandomXError
  | CalledProcessError

text \<open>\<open>//\<close> and \<open>>>\<close> on Python's integers.\<close>

definition py_floordiv :: "int \<Rightarrow> int \<Rightarrow> py_error + int" where
  "py_floordiv a b = (if b = 0 then Inl ZeroDivisionError else Inr (a div b))"

definition py_shr :: "int \<Rightarrow> int \<Rightarrow> py_error + int" where
  "py_shr a n = (if n < 0 then Inl ValueError else Inr (drop_bit (nat n) a))"

text \<open>A comprehension or a loop that appends, stopping at the first exception.\<close>

fun rmap :: "('a \<Rightarrow> 'e + 'b) \<Rightarrow> 'a list \<Rightarrow> 'e + 'b list" where
  "rmap f [] = Inr []"
| "rmap f (x # xs) = rbind (f x) (\<lambda>y. rbind (rmap f xs) (\<lambda>ys. Inr (y # ys)))"

lemma rmap_Inr_iff: "rmap f xs = Inr ys \<longleftrightarrow> list_all2 (\<lambda>x y. f x = Inr y) xs ys"
  by (induction xs arbitrary: ys) (auto simp: list_all2_Cons1)

lemma rmap_Inr_length: "rmap f xs = Inr ys \<Longrightarrow> length ys = length xs"
  by (auto simp: rmap_Inr_iff dest: list_all2_lengthD)

lemma rmap_append:
  "rmap f (xs @ ys) = rbind (rmap f xs) (\<lambda>us. rbind (rmap f ys) (\<lambda>vs. Inr (us @ vs)))"
  by (induction xs) (auto simp: rbind_def split: sum.splits)

lemma rmap_map_Inr: "(\<And>x. x \<in> set xs \<Longrightarrow> f x = Inr (g x)) \<Longrightarrow> rmap f xs = Inr (map g xs)"
  by (induction xs) auto

text \<open>A comprehension with a condition that can raise.\<close>

fun rfilter :: "('a \<Rightarrow> 'e + bool) \<Rightarrow> 'a list \<Rightarrow> 'e + 'a list" where
  "rfilter f [] = Inr []"
| "rfilter f (x # xs) =
     rbind (f x) (\<lambda>b. rbind (rfilter f xs) (\<lambda>ys. Inr (if b then x # ys else ys)))"

lemma rfilter_Inr: "rfilter f xs = Inr ys \<Longrightarrow> ys = filter (\<lambda>x. f x = Inr True) xs"
  by (induction xs arbitrary: ys) (auto split: if_splits)

text \<open>
  A script that changes the world it runs in (files, the terminal, the node): it takes the world
  and gives the result with the world it leaves behind. The world survives an exception.
\<close>

type_synonym ('w, 'e, 'a) prog = "'w \<Rightarrow> ('e + 'a) \<times> 'w"

definition ret :: "'a \<Rightarrow> ('w, 'e, 'a) prog" where
  "ret x = (\<lambda>w. (Inr x, w))"

definition throw :: "'e \<Rightarrow> ('w, 'e, 'a) prog" where
  "throw e = (\<lambda>w. (Inl e, w))"

definition lift :: "'e + 'a \<Rightarrow> ('w, 'e, 'a) prog" where
  "lift r = (\<lambda>w. (r, w))"

definition bnd :: "('w, 'e, 'a) prog \<Rightarrow> ('a \<Rightarrow> ('w, 'e, 'b) prog) \<Rightarrow> ('w, 'e, 'b) prog" where
  "bnd m f = (\<lambda>w. case m w of (Inl e, w') \<Rightarrow> (Inl e, w') | (Inr x, w') \<Rightarrow> f x w')"

fun for_each :: "('a \<Rightarrow> ('w, 'e, 'b) prog) \<Rightarrow> 'a list \<Rightarrow> ('w, 'e, 'b list) prog" where
  "for_each f [] = ret []"
| "for_each f (x # xs) = bnd (f x) (\<lambda>y. bnd (for_each f xs) (\<lambda>ys. ret (y # ys)))"

lemmas prog_defs [result_simps] = ret_def throw_def lift_def bnd_def

lemma bnd_ok_iff:
  "bnd m f w = (Inr y, w') \<longleftrightarrow> (\<exists>x v. m w = (Inr x, v) \<and> f x v = (Inr y, w'))"
  by (auto simp: bnd_def split: prod.splits sum.splits)

lemma bnd_cases:
  assumes "bnd m f w = (r, w')"
  obtains (raised) e where "m w = (Inl e, w')" "r = Inl e"
        | (returned) x v where "m w = (Inr x, v)" "f x v = (r, w')"
  using assms by (auto simp: bnd_def split: prod.splits sum.splits)

lemma bnd_run: "m w = (Inr x, v) \<Longrightarrow> bnd m f w = f x v"
  by (simp add: bnd_def)

lemma bnd_assoc: "bnd (bnd m f) g = bnd m (\<lambda>x. bnd (f x) g)"
  by (simp add: bnd_def fun_eq_iff split: prod.splits sum.splits)

lemma ret_iff [simp]: "ret x w = (r, w') \<longleftrightarrow> r = Inr x \<and> w' = w"
  by (auto simp: ret_def)

lemma throw_iff [simp]: "throw e w = (r, w') \<longleftrightarrow> r = Inl e \<and> w' = w"
  by (auto simp: throw_def)

lemma lift_iff [simp]: "lift q w = (r, w') \<longleftrightarrow> r = q \<and> w' = w"
  by (auto simp: lift_def)

lemma for_each_length: "for_each f xs w = (Inr ys, w') \<Longrightarrow> length ys = length xs"
  by (induction xs arbitrary: ys w) (auto simp: bnd_ok_iff)

text \<open>
  What a program does to the world, as a triple: from a world with \<open>P\<close> it either returns \<open>x\<close> in a
  world with \<open>Q x\<close>, or raises and leaves a world with \<open>E\<close>.
\<close>

definition triple ::
  "('w \<Rightarrow> bool) \<Rightarrow> ('w, 'e, 'a) prog \<Rightarrow> ('a \<Rightarrow> 'w \<Rightarrow> bool) \<Rightarrow> ('w \<Rightarrow> bool) \<Rightarrow> bool" where
  "triple P m Q E \<longleftrightarrow>
     (\<forall>w x w'. P w \<longrightarrow> m w = (Inr x, w') \<longrightarrow> Q x w') \<and>
     (\<forall>w e w'. P w \<longrightarrow> m w = (Inl e, w') \<longrightarrow> E w')"

named_theorems triples \<open>rules that run a program\<close>

lemma triple_bnd [triples]:
  "triple P m R E \<Longrightarrow> (\<And>x. triple (R x) (f x) Q E) \<Longrightarrow> triple P (bnd m f) Q E"
  unfolding triple_def by (auto elim!: bnd_cases)

lemma triple_ret [triples]: "(\<And>w. P w \<Longrightarrow> Q x w) \<Longrightarrow> triple P (ret x) Q E"
  by (auto simp: triple_def)

lemma triple_throw [triples]: "(\<And>w. P w \<Longrightarrow> E w) \<Longrightarrow> triple P (throw e) Q E"
  by (auto simp: triple_def)

lemma triple_lift:
  "(\<And>w x. r = Inr x \<Longrightarrow> P w \<Longrightarrow> Q x w) \<Longrightarrow> (\<And>w. P w \<Longrightarrow> E w) \<Longrightarrow> triple P (lift r) Q E"
  by (auto simp: triple_def)

lemma triple_conseq:
  "triple P' m Q' E' \<Longrightarrow> (\<And>w. P w \<Longrightarrow> P' w) \<Longrightarrow> (\<And>x w. Q' x w \<Longrightarrow> Q x w) \<Longrightarrow>
   (\<And>w. E' w \<Longrightarrow> E w) \<Longrightarrow> triple P m Q E"
  unfolding triple_def by blast

lemma triple_if [triples]:
  "(c \<Longrightarrow> triple P m Q E) \<Longrightarrow> (\<not> c \<Longrightarrow> triple P n Q E) \<Longrightarrow> triple P (if c then m else n) Q E"
  by simp

text \<open>A loop keeps an invariant over the results so far.\<close>

lemma triple_for_each:
  assumes "\<And>x ys. x \<in> set xs \<Longrightarrow> triple (I ys) (f x) (\<lambda>y. I (ys @ [(x, y)])) E"
  shows "triple (I acc) (for_each f xs) (\<lambda>ys. I (acc @ zip xs ys)) E"
  using assms
proof (induction xs arbitrary: acc)
  case Nil
  then show ?case by (simp add: triple_ret)
next
  case (Cons x xs)
  have "triple (I (acc @ [(x, y)])) (for_each f xs) (\<lambda>ys. I ((acc @ [(x, y)]) @ zip xs ys)) E" for y
    using Cons.prems by (intro Cons.IH) simp
  then have "triple (I (acc @ [(x, y)])) (bnd (for_each f xs) (\<lambda>ys. ret (y # ys)))
      (\<lambda>ys. I (acc @ zip (x # xs) ys)) E" for y
    by (rule triple_bnd) (simp add: triple_ret)
  with Cons.prems show ?case
    unfolding for_each.simps by (intro triple_bnd [where R = "\<lambda>y. I (acc @ [(x, y)])"]) simp_all
qed

lemma tripleD:
  "triple P m Q E \<Longrightarrow> P w \<Longrightarrow> m w = (Inr x, w') \<Longrightarrow> Q x w'"
  "triple P m Q E \<Longrightarrow> P w \<Longrightarrow> m w = (Inl e, w') \<Longrightarrow> E w'"
  unfolding triple_def by blast+

lemma triple_world:
  "triple P m (\<lambda>_. R) R \<Longrightarrow> P w \<Longrightarrow> R (snd (m w))"
  unfolding triple_def by (cases "m w"; cases "fst (m w)") auto

section \<open>Numbers and their digits\<close>

text \<open>
  \<open>digs b n\<close> are the digits of \<open>n\<close> in base \<open>b\<close>, least significant first and without a zero on
  top; \<open>undigs\<close> is the value of a digit list. Base 58, base 256 and the decimal digits of the
  scripts are all instances.
\<close>

function digs :: "nat \<Rightarrow> nat \<Rightarrow> nat list" where
  "digs b n = (if n = 0 \<or> b < 2 then [] else n mod b # digs b (n div b))"
  by pat_completeness auto
termination
  by (relation "measure snd") auto

declare digs.simps [simp del]

fun undigs :: "nat \<Rightarrow> nat list \<Rightarrow> nat" where
  "undigs b [] = 0"
| "undigs b (d # ds) = d + b * undigs b ds"

definition proper_digits :: "nat \<Rightarrow> nat list \<Rightarrow> bool" where
  "proper_digits b ds \<longleftrightarrow> (\<forall>d \<in> set ds. d < b) \<and> (ds \<noteq> [] \<longrightarrow> last ds \<noteq> 0)"

lemma digs_0 [simp]: "digs b 0 = []"
  by (simp add: digs.simps)

lemma digs_pos: "2 \<le> b \<Longrightarrow> 0 < n \<Longrightarrow> digs b n = n mod b # digs b (n div b)"
  by (subst digs.simps) simp

lemma digs_eq_Nil [simp]: "2 \<le> b \<Longrightarrow> digs b n = [] \<longleftrightarrow> n = 0"
  by (cases "n = 0") (simp_all add: digs_pos)

lemma undigs_digs [simp]:
  assumes "2 \<le> b" shows "undigs b (digs b n) = n"
proof (induction n rule: less_induct)
  case (less n)
  show ?case
  proof (cases "n = 0")
    case False
    with assms have "n div b < n" by simp
    with False less assms show ?thesis by (simp add: digs_pos)
  qed simp
qed

lemma digs_less:
  assumes "2 \<le> b" "d \<in> set (digs b n)" shows "d < b"
  using assms(2)
proof (induction n rule: less_induct)
  case (less n)
  show ?case
  proof (cases "n = 0")
    case False
    with less.prems assms(1) consider "d = n mod b" | "d \<in> set (digs b (n div b))"
      by (auto simp: digs_pos)
    then show ?thesis
    proof cases
      case 1
      with assms(1) show ?thesis by simp
    next
      case 2
      with less.IH [of "n div b"] False assms(1) show ?thesis by simp
    qed
  qed (use less.prems in simp)
qed

lemma last_digs:
  assumes "2 \<le> b" "0 < n" shows "last (digs b n) \<noteq> 0"
  using assms(2)
proof (induction n rule: less_induct)
  case (less n)
  show ?case
  proof (cases "n div b = 0")
    case True
    with less.prems assms(1) have "n < b" by (simp add: div_eq_0_iff)
    with less.prems assms(1) True show ?thesis by (simp add: digs_pos)
  next
    case False
    with less assms(1) have "last (digs b (n div b)) \<noteq> 0" by simp
    with False less.prems assms(1) show ?thesis by (simp add: digs_pos [of b n])
  qed
qed

lemma proper_digs: "2 \<le> b \<Longrightarrow> proper_digits b (digs b n)"
  by (cases "n = 0") (auto simp: proper_digits_def digs_less last_digs)

lemma undigs_pos: "2 \<le> b \<Longrightarrow> proper_digits b ds \<Longrightarrow> ds \<noteq> [] \<Longrightarrow> 0 < undigs b ds"
proof (induction ds)
  case (Cons d ds)
  show ?case
  proof (cases "ds = []")
    case True
    with Cons.prems show ?thesis by (simp add: proper_digits_def)
  next
    case False
    with Cons.prems have "proper_digits b ds" by (simp add: proper_digits_def)
    with Cons False show ?thesis by simp
  qed
qed simp

lemma digs_undigs:
  assumes "2 \<le> b" shows "proper_digits b ds \<Longrightarrow> digs b (undigs b ds) = ds"
proof (induction ds)
  case (Cons d ds)
  have "d < b" using Cons.prems by (simp add: proper_digits_def)
  moreover have ds: "digs b (undigs b ds) = ds"
    using Cons by (cases "ds = []") (auto simp: proper_digits_def)
  moreover have "0 < undigs b (d # ds)"
    using undigs_pos [OF assms Cons.prems] by simp
  ultimately show ?case using assms by (simp add: digs_pos)
qed simp

lemma undigs_append: "undigs b (xs @ ys) = undigs b xs + b ^ length xs * undigs b ys"
  by (induction xs) (simp_all add: algebra_simps)

lemma undigs_zeros [simp]: "undigs b (replicate k 0) = 0"
  by (induction k) simp_all

lemma undigs_less:
  "(\<forall>d \<in> set ds. d < b) \<Longrightarrow> undigs b ds < b ^ length ds"
proof (induction ds)
  case (Cons d ds)
  then have "undigs b ds + 1 \<le> b ^ length ds" and "d < b" by auto
  then have "d + b * undigs b ds < b * (undigs b ds + 1)" by simp
  also have "\<dots> \<le> b * b ^ length ds"
    using \<open>undigs b ds + 1 \<le> _\<close> by (rule mult_left_mono) simp
  finally show ?case by simp
qed simp

text \<open>How many digits a number has, from its size.\<close>

lemma length_digs_le:
  assumes "2 \<le> b" shows "n < b ^ k \<Longrightarrow> length (digs b n) \<le> k"
proof (induction k arbitrary: n)
  case (Suc k)
  show ?case
  proof (cases "n = 0")
    case False
    from Suc.prems have "n div b < b ^ k"
      using assms by (simp add: less_mult_imp_div_less mult.commute)
    with Suc.IH False assms show ?thesis by (simp add: digs_pos)
  qed simp
qed simp

lemma length_digs_ge:
  assumes "2 \<le> b" shows "b ^ k \<le> n \<Longrightarrow> k < length (digs b n)"
proof (rule ccontr)
  assume le: "b ^ k \<le> n" and "\<not> k < length (digs b n)"
  then have "length (digs b n) \<le> k" by simp
  moreover have "undigs b (digs b n) < b ^ length (digs b n)"
    using assms by (intro undigs_less) (auto intro: digs_less)
  ultimately have "n < b ^ k"
    using assms by (simp add: order_less_le_trans power_increasing)
  with le show False by simp
qed

lemma length_digs_eq:
  "2 \<le> b \<Longrightarrow> b ^ k \<le> n \<Longrightarrow> n < b ^ Suc k \<Longrightarrow> length (digs b n) = Suc k"
  using length_digs_le [of b n "Suc k"] length_digs_ge [of b k n] by linarith

lemma digs_nth_top:
  assumes "2 \<le> b" shows "length (digs b n) = Suc k \<Longrightarrow> last (digs b n) = n div b ^ k"
proof (induction k arbitrary: n)
  case 0
  then obtain d where d: "digs b n = [d]" by (cases "digs b n") auto
  then have "n = d" using undigs_digs [OF assms, of n] by simp
  with d show ?case by simp
next
  case (Suc k)
  then have "0 < n" using assms by (cases "n = 0") auto
  with Suc.prems assms have "length (digs b (n div b)) = Suc k" by (simp add: digs_pos)
  with Suc.IH have "last (digs b (n div b)) = n div b div b ^ k" by blast
  moreover have "digs b (n div b) \<noteq> []" using \<open>length (digs b (n div b)) = Suc k\<close> by auto
  ultimately show ?case
    using \<open>0 < n\<close> assms by (simp add: digs_pos [of b n] div_mult2_eq)
qed

section \<open>Byte strings\<close>

type_synonym byte = "8 word"
type_synonym bytes = "byte list"

text \<open>\<open>int.from_bytes\<close>, big and little endian.\<close>

definition from_bytes_le :: "bytes \<Rightarrow> nat" where
  "from_bytes_le bs = undigs 256 (map unat bs)"

definition from_bytes_be :: "bytes \<Rightarrow> nat" where
  "from_bytes_be bs = from_bytes_le (rev bs)"

text \<open>
  \<open>n.to_bytes(k, 'little')\<close> and \<open>'big'\<close> where \<open>n\<close> fits; the callers that can overflow check
  \<open>n < 256 ^ k\<close> first and raise \<open>OverflowError\<close>, as \<open>int.to_bytes\<close> does.
\<close>

fun to_bytes_le :: "nat \<Rightarrow> nat \<Rightarrow> bytes" where
  "to_bytes_le 0 n = []"
| "to_bytes_le (Suc k) n = word_of_nat (n mod 256) # to_bytes_le k (n div 256)"

definition to_bytes_be :: "nat \<Rightarrow> nat \<Rightarrow> bytes" where
  "to_bytes_be k n = rev (to_bytes_le k n)"

lemma unat_byte_less [simp]: "unat (b :: byte) < 256"
  using unsigned_less [of b] by simp

lemma unat_byte_of_nat [simp]: "unat (word_of_nat n :: byte) = n mod 256"
  by (simp add: unat_of_nat)

lemma word_of_nat_byte_mod [simp]: "(word_of_nat (n mod 256) :: byte) = word_of_nat n"
  by (rule word_unat_eq_iff [THEN iffD2]) simp

lemma length_to_bytes_le [simp, byte_simps]: "length (to_bytes_le k n) = k"
  by (induction k arbitrary: n) simp_all

lemma length_to_bytes_be [simp, byte_simps]: "length (to_bytes_be k n) = k"
  by (simp add: to_bytes_be_def)

lemma from_to_bytes_le: "from_bytes_le (to_bytes_le k n) = n mod 256 ^ k"
proof (induction k arbitrary: n)
  case (Suc k)
  then show ?case
    by (simp add: from_bytes_le_def mod_mult2_eq)
qed (simp add: from_bytes_le_def)

lemma from_to_bytes_le_id [simp, byte_simps]:
  "n < 256 ^ k \<Longrightarrow> from_bytes_le (to_bytes_le k n) = n"
  by (simp add: from_to_bytes_le)

lemma from_to_bytes_be_id [simp, byte_simps]:
  "n < 256 ^ k \<Longrightarrow> from_bytes_be (to_bytes_be k n) = n"
  by (simp add: from_bytes_be_def to_bytes_be_def)

lemma to_from_bytes_le [simp, byte_simps]: "to_bytes_le (length bs) (from_bytes_le bs) = bs"
  by (induction bs) (simp_all add: from_bytes_le_def div_mult_self1 word_unat_eq_iff)

lemma to_from_bytes_be [simp, byte_simps]: "to_bytes_be (length bs) (from_bytes_be bs) = bs"
  using to_from_bytes_le [of "rev bs"] by (simp add: to_bytes_be_def from_bytes_be_def)

lemma from_bytes_le_less: "from_bytes_le bs < 256 ^ length bs"
  using undigs_less [of "map unat bs" 256] by (auto simp: from_bytes_le_def)

lemma from_bytes_be_less: "from_bytes_be bs < 256 ^ length bs"
  using from_bytes_le_less [of "rev bs"] by (simp add: from_bytes_be_def)

lemma from_bytes_be_Nil [simp]: "from_bytes_be [] = 0"
  by (simp add: from_bytes_be_def from_bytes_le_def)

lemma from_bytes_be_Cons:
  "from_bytes_be (b # bs) = unat b * 256 ^ length bs + from_bytes_be bs"
  by (simp add: from_bytes_be_def from_bytes_le_def undigs_append algebra_simps)

lemma from_bytes_be_append:
  "from_bytes_be (xs @ ys) = from_bytes_be xs * 256 ^ length ys + from_bytes_be ys"
  by (induction xs) (simp_all add: from_bytes_be_Cons power_add algebra_simps)

text \<open>The least number of bytes that hold \<open>n\<close>: \<open>n.to_bytes((n.bit_length() + 7) // 8, 'big')\<close>.\<close>

definition bit_length :: "nat \<Rightarrow> nat" where
  "bit_length n = length (digs 2 n)"

definition minimal_bytes_be :: "nat \<Rightarrow> bytes" where
  "minimal_bytes_be n = to_bytes_be ((bit_length n + 7) div 8) n"

lemma bit_length_0 [simp]: "bit_length 0 = 0"
  by (simp add: bit_length_def)

lemma bit_length_upper: "n < 2 ^ bit_length n"
  using undigs_less [of "digs 2 n" 2] digs_less [of 2 _ n] by (simp add: bit_length_def)

lemma bit_length_lower: "0 < n \<Longrightarrow> 2 ^ (bit_length n - 1) \<le> n"
proof -
  assume n: "0 < n"
  show ?thesis
  proof (rule ccontr)
    assume "\<not> 2 ^ (bit_length n - 1) \<le> n"
    then have "bit_length n \<le> bit_length n - 1"
      using length_digs_le [of 2 n "bit_length n - 1"] by (simp add: bit_length_def)
    moreover have "0 < bit_length n" using n by (simp add: bit_length_def)
    ultimately show False by simp
  qed
qed

lemma bit_length_le_iff: "bit_length n \<le> k \<longleftrightarrow> n < 2 ^ k"
proof
  assume "bit_length n \<le> k"
  then have "(2::nat) ^ bit_length n \<le> 2 ^ k" by (simp add: power_increasing)
  with bit_length_upper [of n] show "n < 2 ^ k" by linarith
next
  assume "n < 2 ^ k"
  then show "bit_length n \<le> k"
    using length_digs_le [of 2 n k] by (simp add: bit_length_def)
qed

lemma minimal_bytes_count: "(bit_length n + 7) div 8 = length (digs 256 n)"
proof (rule antisym)
  let ?k = "length (digs 256 n)"
  have "n < 256 ^ ?k"
    using undigs_less [of "digs 256 n" 256] digs_less [of 256 _ n] by simp
  also have "(256::nat) ^ ?k = 2 ^ (8 * ?k)"
    by (simp add: power_mult)
  finally have "bit_length n \<le> 8 * ?k" by (simp add: bit_length_le_iff)
  then show "(bit_length n + 7) div 8 \<le> ?k" by linarith
next
  let ?m = "(bit_length n + 7) div 8"
  have "bit_length n \<le> 8 * ?m" by linarith
  then have "n < 2 ^ (8 * ?m)" by (simp add: bit_length_le_iff)
  also have "(2::nat) ^ (8 * ?m) = 256 ^ ?m" by (simp add: power_mult)
  finally show "length (digs 256 n) \<le> ?m" by (intro length_digs_le) simp_all
qed

lemma to_bytes_le_digs: "to_bytes_le (length (digs 256 n)) n = map word_of_nat (digs 256 n)"
proof (induction n rule: less_induct)
  case (less n)
  show ?case
  proof (cases "n = 0")
    case False
    then have "n div 256 < n" by simp
    with less False show ?thesis by (simp add: digs_pos)
  qed simp
qed

lemma minimal_bytes_be_digs: "minimal_bytes_be n = rev (map word_of_nat (digs 256 n))"
  by (simp add: minimal_bytes_be_def minimal_bytes_count to_bytes_be_def to_bytes_le_digs)

lemma minimal_bytes_be_0 [simp]: "minimal_bytes_be 0 = []"
  by (simp add: minimal_bytes_be_digs)

text \<open>Stripping the leading zero bytes gives the minimal representation.\<close>

lemma minimal_from_bytes_be:
  "minimal_bytes_be (from_bytes_be bs) = dropWhile (\<lambda>b. b = 0) bs"
proof (induction bs)
  case (Cons b bs)
  show ?case
  proof (cases "b = 0")
    case True
    with Cons show ?thesis by (simp add: from_bytes_be_Cons)
  next
    case False
    then have "proper_digits 256 (map unat (rev bs @ [b]))"
      by (auto simp: proper_digits_def unat_eq_0 split: if_splits)
    then have "digs 256 (undigs 256 (map unat (rev bs @ [b]))) = map unat (rev bs @ [b])"
      by (intro digs_undigs) simp_all
    with False show ?thesis
      by (simp add: minimal_bytes_be_digs from_bytes_be_def from_bytes_le_def rev_map comp_def)
  qed
qed simp

section \<open>Integer division and lists\<close>

lemma int_div_less: "(0::int) < d \<Longrightarrow> x < k * d \<Longrightarrow> x div d < k"
proof -
  assume d: "0 < d" and x: "x < k * d"
  have "x div d * d \<le> x"
    using div_mult_mod_eq [of x d] pos_mod_sign [OF d, of x] by linarith
  with x have "x div d * d < k * d" by simp
  with d show ?thesis by simp
qed

text \<open>Replace the element at an index, drop a suffix, and the part of a list before a mark.\<close>

lemma takeWhile_eq_replicate: "takeWhile (\<lambda>x. x = a) xs = replicate (length (takeWhile (\<lambda>x. x = a) xs)) a"
  by (rule replicate_eqI [symmetric, THEN sym]) (auto dest: set_takeWhileD)

lemma replicate_dropWhile:
  "replicate (length (takeWhile (\<lambda>x. x = a) xs)) a @ dropWhile (\<lambda>x. x = a) xs = xs"
  by (metis takeWhile_dropWhile_id takeWhile_eq_replicate)

lemma distinct_concat_disjoint:
  "distinct (concat xss) \<Longrightarrow> i < j \<Longrightarrow> j < length xss \<Longrightarrow> set (xss ! i) \<inter> set (xss ! j) = {}"
proof (induction xss arbitrary: i j)
  case (Cons xs xss)
  show ?case
  proof (cases i)
    case 0
    with Cons.prems obtain j' where j: "j = Suc j'" "j' < length xss" by (cases j) auto
    then have "set (xss ! j') \<subseteq> \<Union> (set ` set xss)" by (auto intro!: bexI [of _ "xss ! j'"])
    with 0 j Cons.prems show ?thesis by auto
  next
    case (Suc i')
    with Cons show ?thesis by (cases j) auto
  qed
qed simp

end
