(* ===== verification/Py_Float.thy ===== *)
theory Py_Float
  imports Complex_Main Wam_Prelude
begin

text \<open>
  Python's \<open>float\<close>: IEEE 754 binary64 with round to nearest, ties to even. A finite double is the
  rational number it stands for; every operation is the exact rational operation followed by one
  rounding \<open>fl\<close>. Zero is one value here: the scripts never read the sign of a zero. The scripts
  use \<open>+ - * /\<close>, comparisons, \<open>float(n)\<close> of an integer, \<open>int / int\<close>, \<open>round(x, 8)\<close>,
  \<open>round(x)\<close> and \<open>str(x)\<close>; each has a definition below.
\<close>

section \<open>The value of a double and its rounding\<close>

datatype pyfloat = Fin rat | PosInf | NegInf | NaN

text \<open>The exponent of the leading digit of a positive rational, in base \<open>b\<close>.\<close>

definition flog :: "nat \<Rightarrow> rat \<Rightarrow> int" where
  "flog b x =
     (let (n, d) = quotient_of x;
          k = int (length (digs b (nat n))) - int (length (digs b (nat d)))
      in if of_nat b powi k \<le> x then k else k - 1)"

definition round_half_even :: "rat \<Rightarrow> int" where
  "round_half_even x =
     (let f = \<lfloor>x\<rfloor>; r = x - of_int f
      in if r < 1/2 then f else if 1/2 < r then f + 1 else if even f then f else f + 1)"

text \<open>The spacing of the doubles around \<open>x\<close>: 53 significant bits, never below the subnormals.\<close>

definition ulp :: "rat \<Rightarrow> rat" where
  "ulp x = 2 powi (max (flog 2 \<bar>x\<bar> - 52) (-1074))"

definition rnd :: "rat \<Rightarrow> rat" where
  "rnd x = (if x = 0 then 0 else of_int (round_half_even (x / ulp x)) * ulp x)"

definition fl :: "rat \<Rightarrow> pyfloat" where
  "fl x =
     (if rnd x \<noteq> 0 \<and> 1024 \<le> flog 2 \<bar>rnd x\<bar> then (if 0 < x then PosInf else NegInf)
      else Fin (rnd x))"

section \<open>Operations\<close>

fun fadd :: "pyfloat \<Rightarrow> pyfloat \<Rightarrow> pyfloat" where
  "fadd (Fin a) (Fin b) = fl (a + b)"
| "fadd NaN _ = NaN"
| "fadd _ NaN = NaN"
| "fadd PosInf NegInf = NaN"
| "fadd NegInf PosInf = NaN"
| "fadd PosInf _ = PosInf"
| "fadd _ PosInf = PosInf"
| "fadd NegInf _ = NegInf"
| "fadd _ NegInf = NegInf"

fun fneg :: "pyfloat \<Rightarrow> pyfloat" where
  "fneg (Fin a) = Fin (- a)"
| "fneg PosInf = NegInf"
| "fneg NegInf = PosInf"
| "fneg NaN = NaN"

definition fsub :: "pyfloat \<Rightarrow> pyfloat \<Rightarrow> pyfloat" where
  "fsub a b = fadd a (fneg b)"

fun fmul :: "pyfloat \<Rightarrow> pyfloat \<Rightarrow> pyfloat" where
  "fmul (Fin a) (Fin b) = fl (a * b)"
| "fmul NaN _ = NaN"
| "fmul _ NaN = NaN"
| "fmul (Fin a) PosInf = (if a = 0 then NaN else if 0 < a then PosInf else NegInf)"
| "fmul (Fin a) NegInf = (if a = 0 then NaN else if 0 < a then NegInf else PosInf)"
| "fmul PosInf (Fin b) = (if b = 0 then NaN else if 0 < b then PosInf else NegInf)"
| "fmul NegInf (Fin b) = (if b = 0 then NaN else if 0 < b then NegInf else PosInf)"
| "fmul PosInf PosInf = PosInf"
| "fmul NegInf NegInf = PosInf"
| "fmul PosInf NegInf = NegInf"
| "fmul NegInf PosInf = NegInf"

text \<open>
  Division of a float by a nonzero finite constant, which is the only float division with a
  float denominator that cannot raise \<open>ZeroDivisionError\<close>.
\<close>

fun fdiv_const :: "pyfloat \<Rightarrow> rat \<Rightarrow> pyfloat" where
  "fdiv_const (Fin a) c = fl (a / c)"
| "fdiv_const PosInf c = (if 0 < c then PosInf else NegInf)"
| "fdiv_const NegInf c = (if 0 < c then NegInf else PosInf)"
| "fdiv_const NaN c = NaN"

text \<open>Comparisons: every comparison with a NaN is false.\<close>

fun fless :: "pyfloat \<Rightarrow> pyfloat \<Rightarrow> bool" where
  "fless (Fin a) (Fin b) = (a < b)"
| "fless NaN _ = False"
| "fless _ NaN = False"
| "fless _ PosInf = True"
| "fless PosInf _ = False"
| "fless _ NegInf = False"
| "fless NegInf _ = True"

fun feq :: "pyfloat \<Rightarrow> pyfloat \<Rightarrow> bool" where
  "feq (Fin a) (Fin b) = (a = b)"
| "feq PosInf PosInf = True"
| "feq NegInf NegInf = True"
| "feq _ _ = False"

definition fle :: "pyfloat \<Rightarrow> pyfloat \<Rightarrow> bool" where
  "fle a b \<longleftrightarrow> fless a b \<or> feq a b"

text \<open>
  \<open>round(x, 8)\<close> is the double nearest to the decimal with eight places nearest to \<open>x\<close>, both
  correctly rounded; \<open>int / int\<close> is the correctly rounded quotient; \<open>round(x)\<close> is an integer.
\<close>

fun fround8 :: "pyfloat \<Rightarrow> pyfloat" where
  "fround8 (Fin a) = fl (of_int (round_half_even (a * 10 ^ 8)) / 10 ^ 8)"
| "fround8 x = x"

definition int_truediv :: "int \<Rightarrow> int \<Rightarrow> pyfloat" where
  "int_truediv a b = fl (of_int a / of_int b)"

section \<open>The shortest decimal that reads back: str(x)\<close>

text \<open>
  \<open>str\<close> of a double prints the shortest decimal that rounds to it and, among those, the nearest.
  With \<open>k\<close> significant digits the candidates are the two \<open>k\<close>-digit decimals around \<open>x\<close>;
  seventeen digits always suffice.
\<close>

definition candidates :: "rat \<Rightarrow> nat \<Rightarrow> (int \<times> int) list" where
  "candidates x k =
     (let e = flog 10 x - int k + 1; m = \<lfloor>x / 10 powi e\<rfloor>
      in filter (\<lambda>(c, q). rnd (of_int c * 10 powi q) = x)
           (if x - of_int m * 10 powi e \<le> of_int (m + 1) * 10 powi e - x
            then [(m, e), (m + 1, e)] else [(m + 1, e), (m, e)]))"

definition shortest_pos :: "rat \<Rightarrow> int \<times> int" where
  "shortest_pos x = hd (concat (map (candidates x) [1..<18]) @ [(0, 0)])"

text \<open>The exact value of the decimal literal that \<open>str\<close> prints for a finite double.\<close>

definition str_value :: "rat \<Rightarrow> rat" where
  "str_value x =
     (if x = 0 then 0
      else let (m, e) = shortest_pos \<bar>x\<bar>
           in (if x < 0 then -1 else 1) * of_int m * 10 powi e)"

section \<open>Facts about the rounding\<close>

lemma digs_bounds:
  assumes "2 \<le> b" "0 < n"
  shows "b ^ (length (digs b n) - 1) \<le> n" and "n < b ^ length (digs b n)"
proof -
  show "n < b ^ length (digs b n)"
    using undigs_less [of "digs b n" b] digs_less [OF assms(1), of _ n] assms(1) by simp
  show "b ^ (length (digs b n) - 1) \<le> n"
  proof (rule ccontr)
    assume "\<not> b ^ (length (digs b n) - 1) \<le> n"
    then have "length (digs b n) \<le> length (digs b n) - 1"
      using length_digs_le [OF assms(1)] by simp
    moreover have "length (digs b n) \<noteq> 0" using assms by simp
    ultimately show False by linarith
  qed
qed

lemma of_nat_powi_nat [simp]: "(of_nat b :: rat) powi int k = of_nat (b ^ k)"
  by simp

lemma flog_bounds:
  assumes b: "2 \<le> b" and x: "0 < x"
  shows "of_nat b powi flog b x \<le> x" and "x < of_nat b powi (flog b x + 1)"
proof -
  obtain n d where nd: "quotient_of x = (n, d)" by (cases "quotient_of x")
  then have d: "0 < d" and xq: "x = of_int n / of_int d"
    by (rule quotient_of_denom_pos) (rule quotient_of_div [OF nd])
  with x have n: "0 < n" by (simp add: zero_less_divide_iff)
  let ?N = "length (digs b (nat n))" and ?D = "length (digs b (nat d))"
  let ?B = "of_nat b :: rat"
  let ?k = "int ?N - int ?D"
  have B: "0 < ?B" "1 \<le> ?B" using b by simp_all
  have N0: "0 < ?N" and D0: "0 < ?D" using b n d by simp_all
  have nlo: "?B ^ (?N - 1) \<le> of_int n" and nhi: "of_int n < ?B ^ ?N"
  proof -
    have "of_nat (b ^ (?N - 1)) \<le> (of_nat (nat n) :: rat)"
      using digs_bounds(1) [OF b, of "nat n"] n by (simp only: of_nat_le_iff)
    then show "?B ^ (?N - 1) \<le> of_int n" using n by simp
    have "of_nat (nat n) < (of_nat (b ^ ?N) :: rat)"
      using digs_bounds(2) [OF b, of "nat n"] n by (simp only: of_nat_less_iff)
    then show "of_int n < ?B ^ ?N" using n by simp
  qed
  have dlo: "?B ^ (?D - 1) \<le> of_int d" and dhi: "of_int d < ?B ^ ?D"
  proof -
    have "of_nat (b ^ (?D - 1)) \<le> (of_nat (nat d) :: rat)"
      using digs_bounds(1) [OF b, of "nat d"] d by (simp only: of_nat_le_iff)
    then show "?B ^ (?D - 1) \<le> of_int d" using d by simp
    have "of_nat (nat d) < (of_nat (b ^ ?D) :: rat)"
      using digs_bounds(2) [OF b, of "nat d"] d by (simp only: of_nat_less_iff)
    then show "of_int d < ?B ^ ?D" using d by simp
  qed
  have Bnz: "?B \<noteq> 0" using b by simp
  have e1: "?k - 1 = int (?N - 1) - int ?D" using N0 by (simp only: of_nat_diff Suc_leI One_nat_def)
  have e2: "?k + 1 = int ?N - int (?D - 1)" using D0 by (simp only: of_nat_diff Suc_leI One_nat_def)
  have pk: "?B powi (?k - 1) = ?B ^ (?N - 1) / ?B ^ ?D"
    unfolding e1 using Bnz by (simp only: power_int_diff power_int_of_nat simp_thms)
  have pk1: "?B powi (?k + 1) = ?B ^ ?N / ?B ^ (?D - 1)"
    unfolding e2 using Bnz by (simp only: power_int_diff power_int_of_nat simp_thms)
  have lo: "?B powi (?k - 1) \<le> x"
    unfolding pk xq using nlo dhi d n B
    by (intro frac_le) auto
  have hi: "x < ?B powi (?k + 1)"
    unfolding pk1 xq using nhi dlo d n B
    by (intro frac_less) auto
  have fk: "flog b x = (if ?B powi ?k \<le> x then ?k else ?k - 1)"
    by (simp add: flog_def nd)
  show "?B powi flog b x \<le> x" using fk lo by auto
  show "x < ?B powi (flog b x + 1)" using fk hi by auto
qed

lemma flog_unique:
  assumes b: "2 \<le> b" and "of_nat b powi k \<le> x" "x < of_nat b powi (k + 1)"
  shows "flog b x = k"
proof -
  let ?B = "of_nat b :: rat"
  have B: "1 < ?B" using b by simp
  have x: "0 < x" using assms(2) B by (meson less_le_trans less_trans zero_less_one zero_less_power_int)
  note f = flog_bounds [OF b x]
  have "?B powi k < ?B powi (flog b x + 1)" using assms(2) f(2) by linarith
  then have "k < flog b x + 1" using B by (meson less_imp_le not_le power_int_increasing)
  moreover have "?B powi flog b x < ?B powi (k + 1)" using assms(3) f(1) by linarith
  then have "flog b x < k + 1" using B by (meson less_imp_le not_le power_int_increasing)
  ultimately show ?thesis by simp
qed

lemma round_half_even_int [simp]: "round_half_even (of_int n) = n"
  by (simp add: round_half_even_def)

lemma round_half_even_error: "\<bar>of_int (round_half_even x) - x\<bar> \<le> 1/2"
proof -
  have lo: "of_int \<lfloor>x\<rfloor> \<le> x" and hi: "x < of_int \<lfloor>x\<rfloor> + 1" by linarith+
  consider "x - of_int \<lfloor>x\<rfloor> < 1/2" | "1/2 < x - of_int \<lfloor>x\<rfloor>" | "x - of_int \<lfloor>x\<rfloor> = 1/2" by linarith
  then show ?thesis
    by cases (use lo hi in \<open>auto simp: round_half_even_def Let_def abs_le_iff\<close>)
qed

lemma round_half_even_mono: "x \<le> y \<Longrightarrow> round_half_even x \<le> round_half_even y"
proof -
  assume le: "x \<le> y"
  then have fl: "\<lfloor>x\<rfloor> \<le> \<lfloor>y\<rfloor>" by (rule floor_mono)
  show ?thesis
  proof (cases "\<lfloor>x\<rfloor> = \<lfloor>y\<rfloor>")
    case True
    with le show ?thesis by (auto simp: round_half_even_def Let_def)
  next
    case False
    with fl have "\<lfloor>x\<rfloor> + 1 \<le> \<lfloor>y\<rfloor>" by simp
    then show ?thesis by (auto simp: round_half_even_def Let_def)
  qed
qed

lemma round_half_even_near: "\<bar>x - of_int n\<bar> < 1/2 \<Longrightarrow> round_half_even x = n"
proof -
  assume near: "\<bar>x - of_int n\<bar> < 1/2"
  then have "\<bar>of_int (round_half_even x) - of_int n\<bar> < (1::rat)"
    using round_half_even_error [of x] by linarith
  then have "\<bar>of_int (round_half_even x - n)\<bar> < (1::rat)" by simp
  then have "\<bar>round_half_even x - n\<bar> < 1" by (simp only: of_int_less_1_iff flip: of_int_abs)
  then show ?thesis by simp
qed

lemma ulp_pos [simp]: "0 < ulp x"
  by (simp add: ulp_def)

lemma rnd_0 [simp]: "rnd 0 = 0"
  by (simp add: rnd_def)

lemma rnd_error: "\<bar>rnd x - x\<bar> \<le> ulp x / 2"
proof (cases "x = 0")
  case False
  have "\<bar>of_int (round_half_even (x / ulp x)) - x / ulp x\<bar> * ulp x \<le> 1/2 * ulp x"
    using round_half_even_error by (rule mult_right_mono) (simp add: less_imp_le)
  also have "\<bar>of_int (round_half_even (x / ulp x)) - x / ulp x\<bar> * ulp x
      = \<bar>of_int (round_half_even (x / ulp x)) * ulp x - x\<bar>"
  proof -
    have "ulp x = \<bar>ulp x\<bar>" by (simp add: less_imp_le)
    then have "\<bar>of_int (round_half_even (x / ulp x)) - x / ulp x\<bar> * ulp x
        = \<bar>(of_int (round_half_even (x / ulp x)) - x / ulp x) * ulp x\<bar>"
      by (metis abs_mult)
    then show ?thesis using ulp_pos [of x] by (simp add: left_diff_distrib)
  qed
  finally show ?thesis using False by (simp add: rnd_def)
qed (simp add: less_imp_le)

text \<open>The rounding error below a power of two.\<close>

lemma flog_less:
  assumes "0 < x" "x < 2 ^ k" shows "flog 2 x < int k"
proof -
  have "(2::rat) powi (flog 2 x) \<le> x" using flog_bounds [of 2 x] assms(1) by simp
  with assms(2) have "(2::rat) powi (flog 2 x) < 2 powi int k" by simp
  moreover have "(2::rat) powi int k \<le> 2 powi flog 2 x" if "int k \<le> flog 2 x"
    using that by (intro power_int_increasing) simp_all
  ultimately show ?thesis by linarith
qed

lemma rnd_near:
  assumes "\<bar>x\<bar> < 2 ^ k" shows "\<bar>rnd x - x\<bar> \<le> 2 powi (int k - 54)"
proof (cases "x = 0")
  case False
  then have "flog 2 \<bar>x\<bar> < int k" using flog_less [of "\<bar>x\<bar>" k] assms by simp
  then have "max (flog 2 \<bar>x\<bar> - 52) (- 1074) \<le> int k - 53" by simp
  then have "ulp x \<le> (2::rat) powi (int k - 53)" unfolding ulp_def by (intro power_int_increasing) simp_all
  also have "(2::rat) powi (int k - 53) = 2 * 2 powi (int k - 54)" by (simp flip: power_int_add_1')
  finally show ?thesis using rnd_error [of x] by linarith
qed simp

lemma fl_finite:
  assumes "\<bar>x\<bar> < 2 ^ k" "k \<le> 1000" shows "fl x = Fin (rnd x)"
proof -
  have "flog 2 \<bar>rnd x\<bar> < 1024" if "rnd x \<noteq> 0"
  proof -
    have "(2::rat) powi (int k - 54) \<le> 2 powi int k" by (intro power_int_increasing) simp_all
    then have "\<bar>rnd x\<bar> < 2 ^ Suc k" using rnd_near [OF assms(1)] assms(1) by simp
    with flog_less [of "\<bar>rnd x\<bar>" "Suc k"] that assms(2) show ?thesis by simp
  qed
  then show ?thesis by (auto simp: fl_def)
qed

text \<open>The doubles: integers of at most 53 bits scaled by a power of two.\<close>

lemma rnd_exact:
  assumes "\<bar>m\<bar> \<le> 2 ^ 53" and "-1074 \<le> k" and x: "x = of_int m * 2 powi k"
  shows "rnd x = x"
proof (cases "x = 0")
  case False
  then have m0: "m \<noteq> 0" using x by auto
  let ?q = "max (flog 2 \<bar>x\<bar> - 52) (-1074)"
  have ax: "0 < \<bar>x\<bar>" using False by simp
  have absx: "\<bar>x\<bar> = of_int \<bar>m\<bar> * 2 powi k" by (simp add: x abs_mult)
  show ?thesis
  proof (cases "\<bar>m\<bar> = 2 ^ 53")
    case True
    have two: "(2::rat) powi (k + 53) = 2 ^ 53 * 2 powi k"
      by (simp only: power_int_add_numeral mult.commute) (simp add: power_int_add mult.commute)
    have ax53: "\<bar>x\<bar> = 2 powi (k + 53)"
      unfolding absx True two by simp
    have "(2::rat) powi (k + 53) < 2 powi (k + 53 + 1)"
      by (rule power_int_strict_increasing) simp_all
    then have f: "flog 2 \<bar>x\<bar> = k + 53"
      unfolding ax53 by (intro flog_unique) simp_all
    have q: "?q \<le> k + 1" using assms(2) f by simp
    have sx: "x = of_int (sgn m) * \<bar>x\<bar>"
    proof -
      have "(of_int m :: rat) = of_int (sgn m) * of_int \<bar>m\<bar>"
        by (simp only: of_int_mult [symmetric] sgn_mult_abs)
      then show ?thesis unfolding absx by (subst x) simp
    qed
    have "x / ulp x = of_int (sgn m) * (2 powi (k + 53) / 2 powi ?q)"
      by (subst sx) (simp add: ulp_def ax53)
    also have "(2::rat) powi (k + 53) / 2 powi ?q = 2 powi (k + 53 - ?q)"
      by (simp add: power_int_diff)
    also have "(2::rat) powi (k + 53 - ?q) = 2 ^ nat (k + 53 - ?q)"
      using q by (simp only: power_int_def) simp
    finally have e: "x / ulp x = of_int (sgn m * 2 ^ nat (k + 53 - ?q))" by simp
    then have "round_half_even (x / ulp x) = sgn m * 2 ^ nat (k + 53 - ?q)"
      by (simp only: round_half_even_int)
    then have "rnd x = x / ulp x * ulp x" using False by (simp only: rnd_def e if_False)
    then show ?thesis using ulp_pos [of x] by simp
  next
    case m53: False
    have "flog 2 \<bar>x\<bar> \<le> k + 52"
    proof (rule ccontr)
      assume "\<not> flog 2 \<bar>x\<bar> \<le> k + 52"
      then have "(2::rat) powi (k + 53) \<le> 2 powi flog 2 \<bar>x\<bar>"
        by (intro power_int_increasing) simp_all
      also have "\<dots> \<le> \<bar>x\<bar>" using flog_bounds(1) [of 2 "\<bar>x\<bar>"] ax by simp
      finally have "2 ^ 53 * (2::rat) powi k \<le> of_int \<bar>m\<bar> * 2 powi k"
        unfolding absx by (simp add: power_int_add mult.commute)
      then have "(2::rat) ^ 53 \<le> of_int \<bar>m\<bar>" by simp
      then have "(2::int) ^ 53 \<le> \<bar>m\<bar>" by (metis of_int_le_iff of_int_numeral of_int_power)
      with assms(1) m53 show False by simp
    qed
    then have q: "?q \<le> k" using assms(2) by simp
    have "x / ulp x = of_int m * 2 powi (k - ?q)"
      by (simp add: x ulp_def power_int_diff)
    also have "\<dots> = of_int (m * 2 ^ nat (k - ?q))"
      using q by (simp add: power_int_def)
    finally have e: "x / ulp x = of_int (m * 2 ^ nat (k - ?q))" .
    then have "round_half_even (x / ulp x) = m * 2 ^ nat (k - ?q)"
      by (simp only: round_half_even_int)
    then have "rnd x = x / ulp x * ulp x" using False by (simp only: rnd_def e if_False)
    then show ?thesis using ulp_pos [of x] by simp
  qed
qed simp

lemma rnd_int [simp]: "\<bar>m\<bar> \<le> 2 ^ 53 \<Longrightarrow> rnd (of_int m) = of_int m"
  by (rule rnd_exact [of m 0]) simp_all

lemma fl_exact:
  assumes "\<bar>m\<bar> \<le> 2 ^ 53" and "-1074 \<le> k" "k \<le> 900" and "x = of_int m * 2 powi k"
  shows "fl x = Fin x"
proof -
  have r: "rnd x = x" using assms rnd_exact by blast
  have "(of_int \<bar>m\<bar> :: rat) \<le> of_int (2 ^ 53)" using assms(1) by (simp only: of_int_le_iff)
  then have m: "(of_int \<bar>m\<bar> :: rat) \<le> 2 ^ 53" by (simp only: of_int_power of_int_numeral)
  have "\<bar>x\<bar> = of_int \<bar>m\<bar> * 2 powi k" using assms(4) by (simp add: abs_mult)
  also have "\<dots> \<le> 2 ^ 53 * 2 powi k" using m by (rule mult_right_mono) simp
  also have "\<dots> = 2 powi (53 + k)" by (simp add: power_int_add)
  finally have le: "\<bar>x\<bar> \<le> 2 powi (53 + k)" .
  have "flog 2 \<bar>x\<bar> < 1024" if "x \<noteq> 0"
  proof (rule ccontr)
    assume "\<not> flog 2 \<bar>x\<bar> < 1024"
    then have "(2::rat) powi (53 + k) < 2 powi flog 2 \<bar>x\<bar>"
      using assms(3) by (intro power_int_strict_increasing) simp_all
    also have "\<dots> \<le> \<bar>x\<bar>" using flog_bounds(1) [of 2 "\<bar>x\<bar>"] that by simp
    finally show False using le by simp
  qed
  then show ?thesis by (auto simp: fl_def r)
qed

text \<open>
  The rounding of a concrete number: name its 53-bit significand and check that it is the nearest.
\<close>

lemma fl_eqI:
  assumes m: "2 ^ 52 \<le> m" "m < 2 ^ 53" and k: "-1074 \<le> k" "k \<le> 900"
    and x: "2 ^ 52 * 2 powi k \<le> x" and near: "\<bar>x - of_int m * 2 powi k\<bar> < 2 powi k / 2"
  shows "fl x = Fin (of_int m * 2 powi k)"
proof -
  let ?u = "(2::rat) powi k"
  have u: "0 < ?u" by simp
  have "0 < 2 ^ 52 * ?u" by simp
  then have x0: "0 < x" using x by (rule less_le_trans)
  have mr: "(of_int m :: rat) + 1 \<le> 2 ^ 53"
  proof -
    have "(of_int (m + 1) :: rat) \<le> of_int (2 ^ 53)" using m by (simp only: of_int_le_iff)
    then show ?thesis by simp
  qed
  have "x < (of_int m + 1) * ?u" using near u unfolding distrib_right by linarith
  also have "\<dots> \<le> 2 ^ 53 * ?u" using mr by (rule mult_right_mono) simp
  finally have hi: "x < 2 powi (k + 53)" by (simp add: power_int_add)
  have f: "flog 2 x = k + 52"
    by (rule flog_unique) (use x hi in \<open>simp_all add: power_int_add\<close>)
  then have ul: "ulp x = ?u" using x0 k by (simp add: ulp_def)
  have "\<bar>x / ?u - of_int m\<bar> < 1/2"
  proof -
    have "x / ?u - of_int m = (x - of_int m * ?u) / ?u" using u by (simp add: diff_divide_distrib)
    then show ?thesis using near u by (simp add: field_simps)
  qed
  then have "round_half_even (x / ?u) = m"
    by (rule round_half_even_near)
  then have "rnd x = of_int m * ?u" using x0 ul by (simp add: rnd_def)
  moreover have "fl (of_int m * ?u) = Fin (of_int m * ?u)"
    using m k by (intro fl_exact [of m k]) simp_all
  moreover have "rnd (of_int m * ?u) = of_int m * ?u"
    using m k by (intro rnd_exact [of m k]) simp_all
  moreover have "0 < of_int m * ?u" using m u by simp
  ultimately show ?thesis using x0 by (auto simp: fl_def split: if_splits)
qed

end
