(* ===== verification/Emission.thy ===== *)
theory Emission
  imports Py_Float
begin

text \<open>
  The monetary schedule: \<open>scripts/verify_supply.py\<close> (\<open>block_subsidy\<close>, \<open>emission_table\<close> and the
  audit that \<open>main\<close> runs over the constants of the consensus header) and the accrual arithmetic
  of \<open>scripts/check_treasury_ledger.py\<close> (\<open>treasury_at\<close>, \<open>accrued_through\<close>). The two scripts
  compute the same money in different ways; the lemmas show that both agree with paying every
  block one by one.
\<close>

section \<open>A payment that is constant within an epoch\<close>

text \<open>
  The interface both scripts rest on: what is paid at a height depends only on its epoch, the
  \<open>len\<close> heights \<open>e * len + 1 .. (e + 1) * len\<close>, between \<open>lo\<close> and \<open>hi\<close>.
\<close>

locale epoch_schedule =
  fixes pay :: "int \<Rightarrow> int" and len lo hi :: int
  assumes pay_epoch:
    "lo \<le> a \<Longrightarrow> a \<le> b \<Longrightarrow> b \<le> hi \<Longrightarrow> (a - 1) div len = (b - 1) div len \<Longrightarrow> pay b = pay a"
begin

lemma segment_sum:
  assumes len: "0 < len" and lo: "lo \<le> a" and ab: "a \<le> b" and hi: "b \<le> hi"
    and same: "(a - 1) div len = (b - 1) div len"
  shows "(\<Sum>h = a..b. pay h) = pay a * (b - a + 1)"
proof -
  have "pay h = pay a" if "h \<in> {a..b}" for h
  proof -
    from that have h: "a \<le> h" "h \<le> b" by auto
    have "(a - 1) div len \<le> (h - 1) div len" using h by (intro zdiv_mono1 [OF _ len]) simp
    moreover have "(h - 1) div len \<le> (a - 1) div len"
      unfolding same using h by (intro zdiv_mono1 [OF _ len]) simp
    ultimately have "(a - 1) div len = (h - 1) div len" by (rule order.antisym)
    then show ?thesis by (rule pay_epoch [OF lo h(1) order_trans [OF h(2) hi]])
  qed
  then have "(\<Sum>h = a..b. pay h) = (\<Sum>h = a..b. pay a)" by (rule sum.cong [OF refl])
  then show ?thesis using ab by (simp add: mult.commute)
qed

text \<open>The last height of the epoch of \<open>a\<close>.\<close>

lemma epoch_end_ge: "0 < len \<Longrightarrow> a \<le> ((a - 1) div len + 1) * len"
  using div_mult_mod_eq [of "a - 1" len] pos_mod_bound [of len "a - 1"]
  unfolding distrib_right by linarith

lemma epoch_end_same:
  assumes "0 < len" "a \<le> b" "b \<le> ((a - 1) div len + 1) * len"
  shows "(a - 1) div len = (b - 1) div len"
proof (rule antisym)
  show "(a - 1) div len \<le> (b - 1) div len" using assms by (intro zdiv_mono1) auto
  have "b - 1 < ((a - 1) div len + 1) * len" using assms by simp
  then have "(b - 1) div len < (a - 1) div len + 1" by (rule int_div_less [OF assms(1)])
  then show "(b - 1) div len \<le> (a - 1) div len" by simp
qed

lemma step_sum:
  assumes "0 < len" "lo \<le> a" "a \<le> b" "b \<le> hi" "b \<le> ((a - 1) div len + 1) * len" "b \<le> c"
  shows "(\<Sum>h = a..c. pay h) = pay a * (b - a + 1) + (\<Sum>h = b + 1..c. pay h)"
proof -
  have "{a..c} = {a..b} \<union> {b + 1..c}" using assms by auto
  then have "(\<Sum>h = a..c. pay h) = (\<Sum>h = a..b. pay h) + (\<Sum>h = b + 1..c. pay h)"
    by (simp add: sum.union_disjoint)
  then show ?thesis
    using segment_sum [OF assms(1-4) epoch_end_same [OF assms(1,3,5)]] by simp
qed

text \<open>Whole epochs, from the first height on.\<close>

lemma epochs_sum:
  assumes len: "0 < len" and lo: "lo \<le> 1" and hi: "int n * len \<le> hi"
  shows "(\<Sum>h = 1..int n * len. pay h) = (\<Sum>e < n. pay (int e * len + 1) * len)"
  using hi
proof (induction n)
  case (Suc n)
  have split: "{1..int (Suc n) * len} = {1..int n * len} \<union> {int n * len + 1..int (Suc n) * len}"
  proof -
    have "0 \<le> int n * len" using len by simp
    then have "1 \<le> int n * len + 1" and "int n * len \<le> int (Suc n) * len"
      using len by (auto simp: distrib_right)
    then show ?thesis by (intro set_eqI) (simp only: Un_iff atLeastAtMost_iff, linarith)
  qed
  have "(\<Sum>h = int n * len + 1..int (Suc n) * len. pay h) = pay (int n * len + 1) * len"
  proof -
    have a: "(int n * len + 1 - 1) div len = int n" using len by simp
    have "(int (Suc n) * len - 1) div len = int n"
      using len by (intro int_div_pos_eq [where r = "len - 1"]) (auto simp: algebra_simps)
    with a have "(int n * len + 1 - 1) div len = (int (Suc n) * len - 1) div len" by simp
    then have "(\<Sum>h = int n * len + 1..int (Suc n) * len. pay h)
        = pay (int n * len + 1) * (int (Suc n) * len - (int n * len + 1) + 1)"
      using len lo Suc.prems by (intro segment_sum) (auto simp: distrib_right intro: add_increasing)
    then show ?thesis by (simp add: algebra_simps)
  qed
  moreover have "int n * len \<le> hi" using Suc.prems len by (simp add: distrib_right)
  moreover have "(\<Sum>h = 1..int (Suc n) * len. pay h)
      = (\<Sum>h = 1..int n * len. pay h) + (\<Sum>h = int n * len + 1..int (Suc n) * len. pay h)"
    unfolding split by (intro sum.union_disjoint) auto
  ultimately show ?case using Suc.IH by simp
qed simp

end

section \<open>verify_supply.py: the emission model\<close>

definition block_subsidy :: "int \<Rightarrow> int \<Rightarrow> int \<Rightarrow> int \<Rightarrow> int \<Rightarrow> py_error + int" where
  "block_subsidy height interval initial premine max_halvings =
     (if height < 0 then Inr 0
      else if height = 0 then Inr premine
      else rbind (py_floordiv (height - 1) interval) (\<lambda>halvings.
        if max_halvings \<le> halvings then Inr 0
        else py_shr initial halvings))"

text \<open>
  The generator \<open>emission_table\<close>: rows (epoch, first height, last height, subsidy, epoch total)
  until the subsidy has been shifted away.
\<close>

fun emission_rows :: "int \<Rightarrow> int \<Rightarrow> nat list \<Rightarrow> (nat \<times> int \<times> int \<times> int \<times> int) list" where
  "emission_rows interval initial [] = []"
| "emission_rows interval initial (e # es) =
     (let subsidy = drop_bit e initial
      in if subsidy = 0 then []
         else (e, int e * interval + 1, (int e + 1) * interval, subsidy, subsidy * interval)
              # emission_rows interval initial es)"

definition emission_table :: "int \<Rightarrow> int \<Rightarrow> int \<Rightarrow> (nat \<times> int \<times> int \<times> int \<times> int) list" where
  "emission_table interval initial max_halvings =
     emission_rows interval initial [0..<nat max_halvings]"

text \<open>The lifetime treasury income that \<open>main\<close> replays, stopping at the sunset height.\<close>

fun dev_total_rows :: "int \<Rightarrow> int \<Rightarrow> int \<Rightarrow> int \<Rightarrow> nat list \<Rightarrow> int \<Rightarrow> int" where
  "dev_total_rows interval initial devfee sunset [] dev_total = dev_total"
| "dev_total_rows interval initial devfee sunset (e # es) dev_total =
     (let subsidy = drop_bit e initial;
          first = int e * interval + 1;
          last = min ((int e + 1) * interval) sunset
      in if subsidy = 0 then dev_total
         else if sunset < first then dev_total
         else dev_total_rows interval initial devfee sunset es
                (dev_total + (last - first + 1) * ((subsidy * devfee) div 100)))"

text \<open>The dictionary of constants that the header is parsed into, and the audit over it.\<close>

record params =
  WAM_COIN :: int
  WAM_MAX_MONEY :: int
  WAM_GENESIS_PREMINE :: int
  WAM_MINING_ALLOCATION :: int
  WAM_INITIAL_BLOCK_SUBSIDY :: int
  WAM_SUBSIDY_HALVING_INTERVAL :: int
  WAM_MAX_HALVINGS :: int
  WAM_DEVFEE_PERCENT :: int
  WAM_DEVFEE_LAST_HEIGHT :: int
  WAM_POW_TARGET_SPACING :: int
  WAM_PREMINE_TRANCHES :: int
  WAM_PREMINE_TRANCHE_AMOUNT :: int
  WAM_PREMINE_UNLOCK_TIMES :: "int list"
  WAM_GENESIS_TIME :: int

definition nonzero :: "int \<Rightarrow> py_error + unit" where
  "nonzero d = (if d = 0 then Inl ZeroDivisionError else Inr ())"

fun fround_int :: "pyfloat \<Rightarrow> py_error + int" where
  "fround_int (Fin a) = Inr (round_half_even a)"
| "fround_int NaN = Inl ValueError"
| "fround_int x = Inl OverflowError"

fun strictly_increasing :: "int list \<Rightarrow> bool" where
  "strictly_increasing (a # b # xs) = (a < b \<and> strictly_increasing (b # xs))"
| "strictly_increasing xs = True"

text \<open>
  Every \<open>check(name, got, want)\<close> of \<open>main\<close>, in its order: the name and whether it holds, or the
  exception its arithmetic (or a division it prints) raises.
\<close>

definition emission_checks :: "params \<Rightarrow> (string \<times> (py_error + bool)) list" where
  "emission_checks P =
     (let coin = WAM_COIN P; max_money = WAM_MAX_MONEY P; premine = WAM_GENESIS_PREMINE P;
          mining = WAM_MINING_ALLOCATION P; initial = WAM_INITIAL_BLOCK_SUBSIDY P;
          interval = WAM_SUBSIDY_HALVING_INTERVAL P; halvings = WAM_MAX_HALVINGS P;
          epochs = emission_table interval initial halvings;
          total = premine + sum_list (map (\<lambda>(_, _, _, _, t). t) epochs);
          last_height = (if epochs = [] then 0 else (\<lambda>(_, _, l, _, _). l) (last epochs));
          loss = max_money - total
      in [(''mining allocation matches the geometric series'',
             rbind (nonzero coin) (\<lambda>_. Inr (interval * initial * 2 = mining))),
          (''premine + mining == hard cap'', Inr (premine + mining = max_money)),
          (''hard cap is exactly 22,000,000 WAM'', Inr (max_money = 22000000 * coin)),
          (''premine is exactly 2,000,000 WAM'', Inr (premine = 2000000 * coin)),
          (''terminal supply never exceeds the hard cap'', Inr (total \<le> max_money)),
          (''subsidy is exhausted after MAX_HALVINGS'',
             rbind (py_shr initial halvings) (\<lambda>s. Inr (s = 0))),
          (''no subsidy is paid past the final epoch'',
             rbind (block_subsidy (last_height + 1) interval initial premine halvings)
               (\<lambda>s. Inr (s = 0))),
          (''truncation loss is under 1 WAM'', Inr (loss < coin))])"

definition treasury_checks :: "params \<Rightarrow> (string \<times> (py_error + bool)) list" where
  "treasury_checks P =
     (let max_money = WAM_MAX_MONEY P; premine = WAM_GENESIS_PREMINE P;
          mining = WAM_MINING_ALLOCATION P; initial = WAM_INITIAL_BLOCK_SUBSIDY P;
          interval = WAM_SUBSIDY_HALVING_INTERVAL P; halvings = WAM_MAX_HALVINGS P;
          devfee = WAM_DEVFEE_PERCENT P; sunset = WAM_DEVFEE_LAST_HEIGHT P;
          dev0 = (initial * devfee) div 100;
          dev_total = dev_total_rows interval initial devfee sunset [0..<nat halvings] 0;
          post = sunset + 1
      in [(''miner + treasury == subsidy (emission unchanged)'',
             Inr ((initial - dev0) + dev0 = initial)),
          (''treasury share is 5% of epoch-0 subsidy'', Inr (dev0 = 250000000)),
          (''the fee sunsets rather than running forever'', Inr (sunset < halvings * interval)),
          (''lifetime treasury income stays inside the mining allocation'',
             rbind (nonzero max_money) (\<lambda>_. Inr (dev_total < mining))),
          (''founder total is under 15% of the cap'',
             Inr (fless (int_truediv (100 * (dev_total + premine)) max_money) (Fin 15))),
          (''the treasury share is zero after the sunset'',
             rbind (py_floordiv (post - 1) interval) (\<lambda>post_epoch.
               if sunset < post then Inr True
               else rbind (py_shr initial post_epoch) (\<lambda>s. Inr ((s * devfee) div 100 = 0))))])"

definition vesting_checks :: "params \<Rightarrow> (string \<times> (py_error + bool)) list" where
  "vesting_checks P =
     (let tranches = WAM_PREMINE_TRANCHES P; amount = WAM_PREMINE_TRANCHE_AMOUNT P;
          unlocks = WAM_PREMINE_UNLOCK_TIMES P; gtime = WAM_GENESIS_TIME P
      in [(''tranche count matches the unlock table'', Inr (int (length unlocks) = tranches)),
          (''tranches sum to exactly the premine'',
             Inr (tranches * amount = WAM_GENESIS_PREMINE P)),
          (''no tranche is unlocked at genesis'', Inr (\<not> list_ex (\<lambda>t. t = 0) unlocks)),
          (''every lock is read as a timestamp, not a height'',
             Inr (list_all (\<lambda>t. 500000000 < t) unlocks)),
          (''every lock is after the launch'', Inr (list_all (\<lambda>t. gtime < t) unlocks)),
          (''unlock times strictly increase'', Inr (strictly_increasing unlocks)),
          (''the schedule spans 5 years'',
             if unlocks = [] then Inl IndexError
             else rbind (fround_int (fdiv_const (int_truediv (last unlocks - gtime) 86400) (1461/4)))
                    (\<lambda>r. Inr (r = 5))),
          (''liquid at launch is 0% of the reserve'',
             Inr (sum_list (map (\<lambda>t. amount) (filter (\<lambda>t. t \<le> gtime) unlocks)) = 0))])"

definition spot_checks :: "params \<Rightarrow> (string \<times> (py_error + bool)) list" where
  "spot_checks P =
     (let coin = WAM_COIN P; premine = WAM_GENESIS_PREMINE P;
          initial = WAM_INITIAL_BLOCK_SUBSIDY P; interval = WAM_SUBSIDY_HALVING_INTERVAL P;
          halvings = WAM_MAX_HALVINGS P
      in (''block spacing is 120 s'',
            rbind (nonzero (WAM_POW_TARGET_SPACING P)) (\<lambda>_. Inr (WAM_POW_TARGET_SPACING P = 120)))
         # map (\<lambda>(h, want). (''height'',
               rbind (block_subsidy h interval initial premine halvings) (\<lambda>got. Inr (got = want))))
             [(0, premine), (1, 50 * coin), (interval, 50 * coin), (interval + 1, 25 * coin),
              (2 * interval, 25 * coin), (2 * interval + 1, 1250000000),
              (halvings * interval + 1, 0)])"

definition all_checks :: "params \<Rightarrow> (string \<times> (py_error + bool)) list" where
  "all_checks P = emission_checks P @ treasury_checks P @ vesting_checks P @ spot_checks P"

definition audit :: "params \<Rightarrow> py_error + int" where
  "audit P =
     rbind (rmap (\<lambda>(name, outcome). rbind outcome (\<lambda>ok. Inr (name, ok))) (all_checks P))
       (\<lambda>results. Inr (if filter (\<lambda>(_, ok). \<not> ok) results = [] then 0 else 1))"

section \<open>The schedule, block by block\<close>

text \<open>The value \<open>block_subsidy\<close> returns for a positive interval.\<close>

definition subsidy_at :: "int \<Rightarrow> int \<Rightarrow> int \<Rightarrow> int \<Rightarrow> int \<Rightarrow> int" where
  "subsidy_at interval initial premine max_halvings height =
     (if height < 0 then 0
      else if height = 0 then premine
      else if max_halvings \<le> (height - 1) div interval then 0
      else drop_bit (nat ((height - 1) div interval)) initial)"

lemma block_subsidy_ok:
  "0 < interval \<Longrightarrow>
   block_subsidy h interval initial premine M = Inr (subsidy_at interval initial premine M h)"
  by (auto simp: block_subsidy_def subsidy_at_def py_floordiv_def py_shr_def
      pos_imp_zdiv_neg_iff)

interpretation subsidy: epoch_schedule "subsidy_at interval initial premine M" interval 1 hi
  for interval initial premine M hi
  by unfold_locales (auto simp: subsidy_at_def)

lemma subsidy_at_first:
  assumes "0 < interval"
  shows "subsidy_at interval initial premine M (int e * interval + 1)
     = (if M \<le> int e then 0 else drop_bit e initial)"
proof -
  let ?h = "int e * interval + 1"
  have "0 \<le> int e * interval" using assms by simp
  then have "0 < ?h" by linarith
  then have "\<not> ?h < 0" "?h \<noteq> 0" by linarith+
  moreover have "(?h - 1) div interval = int e" using assms by simp
  ultimately show ?thesis unfolding subsidy_at_def by (simp only: if_False nat_int)
qed

lemma subsidy_at_nonneg: "0 \<le> initial \<Longrightarrow> 0 \<le> premine \<Longrightarrow> 0 \<le> subsidy_at interval initial premine M h"
  by (simp add: subsidy_at_def)

lemma drop_bit_zero_mono:
  assumes "d \<le> e" "drop_bit d (x::int) = 0"
  shows "drop_bit e x = 0"
proof -
  have "drop_bit ((e - d) + d) x = drop_bit (e - d) (drop_bit d x)" by (simp only: drop_bit_drop_bit)
  with assms show ?thesis by simp
qed

lemma emission_rows_total:
  assumes "sorted es"
  shows "sum_list (map (\<lambda>(_, _, _, _, t). t) (emission_rows interval initial es))
    = (\<Sum>e \<leftarrow> es. drop_bit e initial * interval)"
  using assms
proof (induction es)
  case (Cons e es)
  show ?case
  proof (cases "drop_bit e initial = 0")
    case True
    with Cons.prems have "\<forall>d \<in> set es. drop_bit d initial = 0"
      by (auto intro: drop_bit_zero_mono [OF _ True])
    with True have "(\<Sum>e \<leftarrow> es. drop_bit e initial * interval) = (\<Sum>e \<leftarrow> es. 0)"
      by (intro arg_cong [where f = sum_list] map_cong) auto
    with True show ?thesis by simp
  next
    case False
    with Cons show ?thesis by (simp add: Let_def)
  qed
qed simp

lemma emission_table_total:
  assumes "0 < interval"
  shows "sum_list (map (\<lambda>(_, _, _, _, t). t) (emission_table interval initial M))
    = (\<Sum>h = 1..int (nat M) * interval. subsidy_at interval initial premine M h)"
proof -
  have "(\<Sum>h = 1..int (nat M) * interval. subsidy_at interval initial premine M h)
      = (\<Sum>e < nat M. subsidy_at interval initial premine M (int e * interval + 1) * interval)"
    by (rule subsidy.epochs_sum [OF assms _ order_refl]) simp
  also have "\<dots> = (\<Sum>e < nat M. drop_bit e initial * interval)"
    using assms by (intro sum.cong) (auto simp: subsidy_at_first)
  finally show ?thesis
    by (simp add: emission_table_def emission_rows_total sum_list_distinct_conv_sum_set atLeast0LessThan)
qed

lemma subsidy_at_beyond:
  "0 < interval \<Longrightarrow> int (nat M) * interval < h \<Longrightarrow> subsidy_at interval initial premine M h = 0"
proof -
  assume i: "0 < interval" and h: "int (nat M) * interval < h"
  then have "int (nat M) * interval div interval \<le> (h - 1) div interval"
    by (intro zdiv_mono1) auto
  with i have "int (nat M) \<le> (h - 1) div interval" by (metis nonzero_mult_div_cancel_right order_less_irrefl)
  then have "M \<le> (h - 1) div interval" by linarith
  moreover have "0 < h" using i h by (smt (verit) mult_nonneg_nonneg of_nat_0_le_iff)
  ultimately show ?thesis by (simp add: subsidy_at_def)
qed

text \<open>The supply after any height never passes the terminal supply of the emission table.\<close>

lemma supply_le_terminal:
  assumes i: "0 < interval" and initial: "0 \<le> initial" and premine: "0 \<le> premine"
  shows "(\<Sum>h = 1..H. subsidy_at interval initial premine M h)
    \<le> sum_list (map (\<lambda>(_, _, _, _, t). t) (emission_table interval initial M))"
proof -
  let ?s = "subsidy_at interval initial premine M" and ?E = "int (nat M) * interval"
  have nn: "0 \<le> ?s h" for h using initial premine by (rule subsidy_at_nonneg)
  have "(\<Sum>h = 1..H. ?s h) \<le> (\<Sum>h = 1..max H ?E. ?s h)"
    using nn by (intro sum_mono2) auto
  also have "\<dots> = (\<Sum>h = 1..?E. ?s h)"
    using subsidy_at_beyond [OF i] by (intro sum.mono_neutral_right) auto
  finally show ?thesis using emission_table_total [OF i, of initial M premine] by simp
qed

section \<open>What a passed audit gives\<close>

lemma rmap_audit:
  "rmap (\<lambda>(n, r). rbind r (\<lambda>ok. Inr (n, ok))) cs = Inr rs \<Longrightarrow>
   filter (\<lambda>(_, ok). \<not> ok) rs = [] \<Longrightarrow> (n, r) \<in> set cs \<Longrightarrow> r = Inr True"
proof (induction cs arbitrary: rs)
  case (Cons c cs)
  then show ?case by (cases c) (auto split: if_splits)
qed simp

lemma audit_passed: "audit P = Inr 0 \<Longrightarrow> (n, r) \<in> set (all_checks P) \<Longrightarrow> r = Inr True"
  by (auto simp: audit_def split: if_splits intro: rmap_audit)

lemma audit_check: "audit P = Inr 0 \<Longrightarrow> (n, Inr b) \<in> set (all_checks P) \<Longrightarrow> b"
  by (drule (1) audit_passed) simp

lemma audit_spot:
  assumes "audit P = Inr 0" and "(n, rbind q (\<lambda>got. Inr (got = w))) \<in> set (spot_checks P)"
  shows "q = Inr w"
proof -
  have "rbind q (\<lambda>got. Inr (got = w)) = Inr True"
    by (rule audit_passed [OF assms(1), of n]) (simp add: all_checks_def assms(2))
  then show ?thesis by auto
qed

lemma audit_facts:
  assumes "audit P = Inr 0"
  shows "WAM_MAX_MONEY P = 22000000 * WAM_COIN P"
    and "WAM_GENESIS_PREMINE P = 2000000 * WAM_COIN P"
    and "WAM_GENESIS_PREMINE P + sum_list (map (\<lambda>(_, _, _, _, t). t)
           (emission_table (WAM_SUBSIDY_HALVING_INTERVAL P) (WAM_INITIAL_BLOCK_SUBSIDY P)
             (WAM_MAX_HALVINGS P))) \<le> WAM_MAX_MONEY P"
    and "(WAM_INITIAL_BLOCK_SUBSIDY P * WAM_DEVFEE_PERCENT P) div 100 = 250000000"
    and "block_subsidy (WAM_SUBSIDY_HALVING_INTERVAL P) (WAM_SUBSIDY_HALVING_INTERVAL P)
           (WAM_INITIAL_BLOCK_SUBSIDY P) (WAM_GENESIS_PREMINE P) (WAM_MAX_HALVINGS P)
         = Inr (50 * WAM_COIN P)"
    and "block_subsidy 1 (WAM_SUBSIDY_HALVING_INTERVAL P)
           (WAM_INITIAL_BLOCK_SUBSIDY P) (WAM_GENESIS_PREMINE P) (WAM_MAX_HALVINGS P)
         = Inr (50 * WAM_COIN P)"
    and "block_subsidy (2 * WAM_SUBSIDY_HALVING_INTERVAL P + 1) (WAM_SUBSIDY_HALVING_INTERVAL P)
           (WAM_INITIAL_BLOCK_SUBSIDY P) (WAM_GENESIS_PREMINE P) (WAM_MAX_HALVINGS P)
         = Inr 1250000000"
    and "WAM_COIN P \<noteq> 0"
proof -
  note defs = all_checks_def emission_checks_def treasury_checks_def spot_checks_def Let_def
  show "WAM_MAX_MONEY P = 22000000 * WAM_COIN P"
    by (rule audit_check [OF assms, of "''hard cap is exactly 22,000,000 WAM''"]) (simp add: defs)
  show "WAM_GENESIS_PREMINE P = 2000000 * WAM_COIN P"
    by (rule audit_check [OF assms, of "''premine is exactly 2,000,000 WAM''"]) (simp add: defs)
  show "WAM_GENESIS_PREMINE P + sum_list (map (\<lambda>(_, _, _, _, t). t)
           (emission_table (WAM_SUBSIDY_HALVING_INTERVAL P) (WAM_INITIAL_BLOCK_SUBSIDY P)
             (WAM_MAX_HALVINGS P))) \<le> WAM_MAX_MONEY P"
    by (rule audit_check [OF assms, of "''terminal supply never exceeds the hard cap''"]) (simp add: defs)
  show "(WAM_INITIAL_BLOCK_SUBSIDY P * WAM_DEVFEE_PERCENT P) div 100 = 250000000"
    by (rule audit_check [OF assms, of "''treasury share is 5% of epoch-0 subsidy''"]) (simp add: defs)
  show "block_subsidy (WAM_SUBSIDY_HALVING_INTERVAL P) (WAM_SUBSIDY_HALVING_INTERVAL P)
           (WAM_INITIAL_BLOCK_SUBSIDY P) (WAM_GENESIS_PREMINE P) (WAM_MAX_HALVINGS P)
         = Inr (50 * WAM_COIN P)"
    and "block_subsidy 1 (WAM_SUBSIDY_HALVING_INTERVAL P)
           (WAM_INITIAL_BLOCK_SUBSIDY P) (WAM_GENESIS_PREMINE P) (WAM_MAX_HALVINGS P)
         = Inr (50 * WAM_COIN P)"
    and "block_subsidy (2 * WAM_SUBSIDY_HALVING_INTERVAL P + 1) (WAM_SUBSIDY_HALVING_INTERVAL P)
           (WAM_INITIAL_BLOCK_SUBSIDY P) (WAM_GENESIS_PREMINE P) (WAM_MAX_HALVINGS P)
         = Inr 1250000000"
    by (rule audit_spot [OF assms, of "''height''"]; simp add: spot_checks_def Let_def)+
  show "WAM_COIN P \<noteq> 0"
    using audit_passed [OF assms, of "''mining allocation matches the geometric series''"]
    by (fastforce simp: defs nonzero_def)
qed

text \<open>The spot checks pin the sign of the interval and the initial subsidy.\<close>

lemma audit_interval_pos:
  assumes "audit P = Inr 0"
  shows "0 < WAM_SUBSIDY_HALVING_INTERVAL P"
proof (rule ccontr)
  let ?i = "WAM_SUBSIDY_HALVING_INTERVAL P"
  note f = audit_facts [OF assms]
  assume "\<not> 0 < ?i"
  moreover have "?i \<noteq> 0" using f(6) by (auto simp: block_subsidy_def py_floordiv_def)
  ultimately have "?i < 0" by simp
  then have "block_subsidy (2 * ?i + 1) ?i (WAM_INITIAL_BLOCK_SUBSIDY P) (WAM_GENESIS_PREMINE P)
      (WAM_MAX_HALVINGS P) = Inr 0" by (auto simp: block_subsidy_def)
  with f(7) show False by simp
qed

lemma audit_initial:
  assumes "audit P = Inr 0"
  shows "WAM_INITIAL_BLOCK_SUBSIDY P = 50 * WAM_COIN P"
proof -
  note f = audit_facts [OF assms]
  note i = audit_interval_pos [OF assms]
  from f(6,8) show ?thesis
    by (auto simp: block_subsidy_def py_floordiv_def py_shr_def split: if_splits)
qed

lemma audit_coin_pos:
  assumes "audit P = Inr 0"
  shows "0 < WAM_COIN P"
proof (rule ccontr)
  note f = audit_facts [OF assms]
  assume "\<not> 0 < WAM_COIN P"
  then have "drop_bit n (50 * WAM_COIN P) \<le> 0" for n
    using zdiv_mono1 [of "50 * WAM_COIN P" 0 "2 ^ n"] by (simp add: drop_bit_eq_div)
  note neg = this
  have "drop_bit 2 (50 * WAM_COIN P) = 1250000000"
    using f(7) audit_interval_pos [OF assms]
    by (auto simp: audit_initial [OF assms] block_subsidy_def py_floordiv_def py_shr_def
        split: if_splits)
  with neg [of 2] show False by simp
qed

lemma audit_supply:
  assumes "audit P = Inr 0"
  shows "WAM_GENESIS_PREMINE P + (\<Sum>h = 1..H. subsidy_at (WAM_SUBSIDY_HALVING_INTERVAL P)
      (WAM_INITIAL_BLOCK_SUBSIDY P) (WAM_GENESIS_PREMINE P) (WAM_MAX_HALVINGS P) h)
    \<le> 22000000 * WAM_COIN P"
proof -
  note f = audit_facts [OF assms] and c = audit_coin_pos [OF assms]
  have "0 \<le> WAM_INITIAL_BLOCK_SUBSIDY P" "0 \<le> WAM_GENESIS_PREMINE P"
    using c by (simp_all add: audit_initial [OF assms] f(2))
  from supply_le_terminal [OF audit_interval_pos [OF assms] this, of "WAM_MAX_HALVINGS P" H] f(3)
  show ?thesis unfolding f(1) by linarith
qed

text \<open>The whole chain replayed block by block, genesis included.\<close>

definition replay :: "params \<Rightarrow> nat \<Rightarrow> py_error + int" where
  "replay P H = rbind (rmap (\<lambda>h. block_subsidy (int h) (WAM_SUBSIDY_HALVING_INTERVAL P)
       (WAM_INITIAL_BLOCK_SUBSIDY P) (WAM_GENESIS_PREMINE P) (WAM_MAX_HALVINGS P)) [0..<Suc H])
     (\<lambda>paid. Inr (sum_list paid))"

lemma replay_eq:
  assumes "0 < WAM_SUBSIDY_HALVING_INTERVAL P"
  shows "replay P H = Inr (WAM_GENESIS_PREMINE P
    + (\<Sum>h = 1..int H. subsidy_at (WAM_SUBSIDY_HALVING_INTERVAL P)
      (WAM_INITIAL_BLOCK_SUBSIDY P) (WAM_GENESIS_PREMINE P) (WAM_MAX_HALVINGS P) h))"
proof -
  let ?s = "subsidy_at (WAM_SUBSIDY_HALVING_INTERVAL P)
      (WAM_INITIAL_BLOCK_SUBSIDY P) (WAM_GENESIS_PREMINE P) (WAM_MAX_HALVINGS P)"
  have "replay P H = Inr (\<Sum>h \<leftarrow> [0..<Suc H]. ?s (int h))"
    unfolding replay_def by (subst rmap_map_Inr) (auto simp: block_subsidy_ok [OF assms])
  moreover have "(\<Sum>h \<leftarrow> [0..<Suc H]. ?s (int h)) = (\<Sum>h = 0..H. ?s (int h))"
    by (simp only: sum_list_distinct_conv_sum_set distinct_upt set_upt atLeastLessThanSuc_atLeastAtMost)
  moreover have "\<dots> = (\<Sum>h = 0..int H. ?s h)"
    by (rule sum.reindex_bij_witness [where j = int and i = nat]) auto
  moreover have "{0..int H} = insert 0 {1..int H}" by auto
  moreover have "?s 0 = WAM_GENESIS_PREMINE P" by (simp add: subsidy_at_def)
  ultimately show ?thesis by simp
qed

text \<open>The constants of \<open>src/wam/wam-params.h\<close>.\<close>

definition mainnet_params :: params where
  "mainnet_params = \<lparr>
     WAM_COIN = 100000000,
     WAM_MAX_MONEY = 22000000 * 100000000,
     WAM_GENESIS_PREMINE = 2000000 * 100000000,
     WAM_MINING_ALLOCATION = 20000000 * 100000000,
     WAM_INITIAL_BLOCK_SUBSIDY = 50 * 100000000,
     WAM_SUBSIDY_HALVING_INTERVAL = 200000,
     WAM_MAX_HALVINGS = 33,
     WAM_DEVFEE_PERCENT = 5,
     WAM_DEVFEE_LAST_HEIGHT = 400000,
     WAM_POW_TARGET_SPACING = 120,
     WAM_PREMINE_TRANCHES = 5,
     WAM_PREMINE_TRANCHE_AMOUNT = 400000 * 100000000,
     WAM_PREMINE_UNLOCK_TIMES = [1820966400, 1852588800, 1884124800, 1915660800, 1947196800],
     WAM_GENESIS_TIME = 1789430400\<rparr>"

lemma audit_okI: "list_all (\<lambda>c. snd c = Inr True) (all_checks P) \<Longrightarrow> audit P = Inr 0"
proof -
  assume ok: "list_all (\<lambda>c. snd c = Inr True) (all_checks P)"
  have "rmap (\<lambda>(n, r). rbind r (\<lambda>ok. Inr (n, ok))) cs = Inr (map (\<lambda>c. (fst c, True)) cs)"
    if "list_all (\<lambda>c. snd c = Inr True) cs" for cs
    using that by (intro rmap_map_Inr) (auto simp: list_all_iff)
  from this [OF ok] show ?thesis by (simp add: audit_def)
qed

lemma mainnet_emission: "list_all (\<lambda>c. snd c = Inr True) (emission_checks mainnet_params)"
  by code_simp

lemma mainnet_spot: "list_all (\<lambda>c. snd c = Inr True) (spot_checks mainnet_params)"
  by code_simp

lemma mainnet_dev_total: "dev_total_rows 200000 5000000000 5 400000 [0..<33] 0 = 75000000000000"
  by code_simp

lemma mainnet_treasury: "list_all (\<lambda>c. snd c = Inr True) (treasury_checks mainnet_params)"
proof -
  have "fl (25 / 2) = Fin (25 / 2)" by (rule fl_exact [of 25 "-1"]) simp_all
  then show ?thesis
    by (simp add: treasury_checks_def Let_def mainnet_params_def mainnet_dev_total nonzero_def
        py_floordiv_def int_truediv_def)
qed

lemma mainnet_vesting: "list_all (\<lambda>c. snd c = Inr True) (vesting_checks mainnet_params)"
proof -
  have "fl 1826 = Fin 1826" by (rule fl_exact [of 1826 0]) simp_all
  moreover have "fl (7304 / 1461) = Fin (of_int 5628728897726575 * 2 powi (-50))"
    by (rule fl_eqI) simp_all
  moreover have "round_half_even (of_int 5628728897726575 * 2 powi (-50)) = 5"
    by (rule round_half_even_near) simp
  ultimately show ?thesis
    by (simp add: vesting_checks_def Let_def mainnet_params_def int_truediv_def)
qed

lemma mainnet_audit: "audit mainnet_params = Inr 0"
  using mainnet_emission mainnet_treasury mainnet_vesting mainnet_spot
  by (intro audit_okI) (simp add: all_checks_def)

section \<open>check_treasury_ledger.py: what the treasury has been paid\<close>

text \<open>The dictionary \<open>consensus_constants\<close> returns.\<close>

record accrual_consts =
  k_subsidy :: int
  k_interval :: int
  k_percent :: int
  k_start :: int
  k_last :: int
  k_max_halvings :: int

definition ATOM :: int where "ATOM = 100000000"

definition treasury_at :: "int \<Rightarrow> accrual_consts \<Rightarrow> py_error + int" where
  "treasury_at height k =
     (if height < k_start k \<or> k_last k < height then Inr 0
      else rbind (py_floordiv (height - 1) (k_interval k)) (\<lambda>halvings.
        if k_max_halvings k \<le> halvings then Inr 0
        else rbind (py_shr (k_subsidy k * ATOM) halvings) (\<lambda>subsidy.
          Inr ((subsidy * k_percent k) div 100))))"

text \<open>The \<open>while\<close> loop, one epoch at a time; \<open>None\<close> is a loop that never ends.\<close>

partial_function (option) accrued_loop ::
  "accrual_consts \<Rightarrow> int \<Rightarrow> int \<Rightarrow> int \<Rightarrow> (py_error + int) option" where
  "accrued_loop k height h tot =
     (if h \<le> min height (k_last k) then
        (case py_floordiv (h - 1) (k_interval k) of
           Inl e \<Rightarrow> Some (Inl e)
         | Inr q \<Rightarrow>
             (case treasury_at h k of
                Inl e \<Rightarrow> Some (Inl e)
              | Inr paid \<Rightarrow>
                  accrued_loop k height
                    (min (min height (k_last k)) ((q + 1) * k_interval k) + 1)
                    (tot + paid *
                       (min (min height (k_last k)) ((q + 1) * k_interval k) - h + 1))))
      else Some (Inr tot))"

definition accrued_through :: "int \<Rightarrow> accrual_consts \<Rightarrow> (py_error + int) option" where
  "accrued_through height k = accrued_loop k height (max (k_start k) 1) 0"

definition treasury_value :: "accrual_consts \<Rightarrow> int \<Rightarrow> int" where
  "treasury_value k h =
     (if h < k_start k \<or> k_last k < h \<or> k_max_halvings k \<le> (h - 1) div k_interval k then 0
      else (drop_bit (nat ((h - 1) div k_interval k)) (k_subsidy k * ATOM) * k_percent k) div 100)"

lemma treasury_at_ok:
  "0 < k_interval k \<Longrightarrow> 1 \<le> h \<Longrightarrow> treasury_at h k = Inr (treasury_value k h)"
  by (auto simp: treasury_at_def treasury_value_def py_floordiv_def py_shr_def
      pos_imp_zdiv_neg_iff)

interpretation treasury: epoch_schedule "treasury_value k" "k_interval k" "k_start k" "k_last k"
  for k
  by unfold_locales (auto simp: treasury_value_def)

lemma treasury_after_last: "k_last k < a \<Longrightarrow> (\<Sum>h = a..b. treasury_value k h) = 0"
  by (intro sum.neutral) (auto simp: treasury_value_def)

lemma accrued_loop_sum:
  assumes "0 < k_interval k" "1 \<le> h" "k_start k \<le> h"
  shows "accrued_loop k height h tot = Some (Inr (tot + (\<Sum>i = h..height. treasury_value k i)))"
  using assms(2,3)
proof (induction "nat (height + 1 - h)" arbitrary: h tot rule: less_induct)
  case less
  show ?case
  proof (cases "h \<le> min height (k_last k)")
    case False
    then have "(\<Sum>i = h..height. treasury_value k i) = 0"
      by (cases "h \<le> height") (auto intro: treasury_after_last)
    then show ?thesis by (subst accrued_loop.simps) (simp only: False if_False add_0_right)
  next
    case True
    let ?q = "(h - 1) div k_interval k"
    let ?fin = "min (min height (k_last k)) ((?q + 1) * k_interval k)"
    have ge: "h \<le> ?fin" using True treasury.epoch_end_ge [OF assms(1), of h] by simp
    have step: "(\<Sum>i = h..height. treasury_value k i)
        = treasury_value k h * (?fin - h + 1) + (\<Sum>i = ?fin + 1..height. treasury_value k i)"
      using less.prems ge by (intro treasury.step_sum [OF assms(1)]) auto
    have "accrued_loop k height h tot
        = accrued_loop k height (?fin + 1) (tot + treasury_value k h * (?fin - h + 1))"
      using True assms(1) less.prems
      by (subst accrued_loop.simps) (simp add: py_floordiv_def treasury_at_ok)
    also have "\<dots> = Some (Inr (tot + treasury_value k h * (?fin - h + 1)
        + (\<Sum>i = ?fin + 1..height. treasury_value k i)))"
      using less.prems ge True by (intro less.hyps) auto
    finally show ?thesis by (simp add: step add.assoc)
  qed
qed

lemma accrued_through_sum:
  assumes "0 < k_interval k"
  shows "accrued_through height k = Some (Inr (\<Sum>h = 1..height. treasury_value k h))"
proof -
  have "(\<Sum>h = max (k_start k) 1..height. treasury_value k h) = (\<Sum>h = 1..height. treasury_value k h)"
    by (rule sum.mono_neutral_left) (auto simp: treasury_value_def)
  with assms show ?thesis by (simp add: accrued_through_def accrued_loop_sum)
qed

text \<open>The table of \<open>verify_supply.py\<close> and the loop of \<open>check_treasury_ledger.py\<close>.\<close>

lemma dev_total_rows_sum:
  assumes "0 < k_interval k" "k_start k \<le> 1" "e \<le> m" "int m = k_max_halvings k"
  shows "dev_total_rows (k_interval k) (k_subsidy k * ATOM) (k_percent k) (k_last k) [e..<m] tot
    = tot + (\<Sum>h = int e * k_interval k + 1..k_last k. treasury_value k h)"
  using assms(3)
proof (induction "m - e" arbitrary: e tot)
  case 0
  have "treasury_value k h = 0" if "int m * k_interval k + 1 \<le> h" for h
  proof -
    have "int m * k_interval k div k_interval k \<le> (h - 1) div k_interval k"
      using that assms(1) by (intro zdiv_mono1) auto
    with assms(1,4) show ?thesis by (simp add: treasury_value_def)
  qed
  with 0 show ?case by (auto intro!: sum.neutral)
next
  case (Suc d)
  let ?len = "k_interval k"
  let ?a = "int e * ?len + 1" and ?b = "min ((int e + 1) * ?len) (k_last k)"
  let ?s = "drop_bit e (k_subsidy k * ATOM)"
  from Suc.hyps(2) have em: "e < m" "[e..<m] = e # [Suc e..<m]" by (auto simp: upt_conv_Cons)
  have a1: "1 \<le> ?a" using assms(1) by simp
  have q: "(?a - 1) div ?len = int e" using assms(1) by simp
  consider "?s = 0" | "?s \<noteq> 0" "k_last k < ?a" | "?s \<noteq> 0" "?a \<le> k_last k" by linarith
  then show ?case
  proof cases
    case 1
    have "treasury_value k h = 0" if h: "?a \<le> h" for h
    proof -
      have "(?a - 1) div ?len \<le> (h - 1) div ?len"
        by (rule zdiv_mono1 [OF _ assms(1)]) (use h in linarith)
      then have "e \<le> nat ((h - 1) div ?len)" unfolding q by linarith
      from drop_bit_zero_mono [OF this 1] show ?thesis by (simp add: treasury_value_def)
    qed
    with 1 em show ?thesis by (simp add: Let_def sum.neutral)
  next
    case 2
    with em show ?thesis by (simp add: Let_def)
  next
    case 3
    have "?a \<le> (int e + 1) * ?len" using assms(1) by (simp add: distrib_right)
    with 3 have ab: "?a \<le> ?b" by simp
    have pay: "treasury_value k ?a = (?s * k_percent k) div 100"
      using 3 em a1 assms(2,4) unfolding treasury_value_def q by simp
    have "(\<Sum>h = ?a..k_last k. treasury_value k h)
        = treasury_value k ?a * (?b - ?a + 1) + (\<Sum>h = ?b + 1..k_last k. treasury_value k h)"
    proof (rule treasury.step_sum [OF assms(1)])
      show "?b \<le> ((?a - 1) div ?len + 1) * ?len" unfolding q by simp
    qed (use ab a1 assms(2) in auto)
    moreover have "(\<Sum>h = ?b + 1..k_last k. treasury_value k h)
        = (\<Sum>h = int (Suc e) * ?len + 1..k_last k. treasury_value k h)"
      by (cases "(int e + 1) * ?len \<le> k_last k") (auto simp: add.commute)
    moreover have "dev_total_rows ?len (k_subsidy k * ATOM) (k_percent k) (k_last k) [e..<m] tot
        = dev_total_rows ?len (k_subsidy k * ATOM) (k_percent k) (k_last k) [Suc e..<m]
            (tot + (?b - ?a + 1) * ((?s * k_percent k) div 100))"
      using 3 em by (simp add: Let_def)
    ultimately show ?thesis using Suc.hyps(1) [of "Suc e"] Suc.hyps(2) em(1) pay
      by (simp add: mult.commute)
  qed
qed

section \<open>Properties\<close>

text \<open>C24: if the audit of a set of constants exits 0, then paying every block one by one from the
  genesis block to any height \<open>H\<close> succeeds and never issues more than 22,000,000 coins.\<close>

theorem audited_supply_is_capped:
  "audit P = Inr 0 \<Longrightarrow> \<exists>supply. replay P H = Inr supply \<and> supply \<le> 22000000 * WAM_COIN P"
  using replay_eq [OF audit_interval_pos] audit_supply by simp

theorem audited_supply_is_capped_witness:
  "\<exists>supply. replay mainnet_params 500000 = Inr supply \<and> supply \<le> 22000000 * 100000000"
  using audited_supply_is_capped [OF mainnet_audit, of 500000] by (simp add: mainnet_params_def)

lemma mainnet_terminal:
  "2000000 * 100000000 + sum_list (map (\<lambda>(_, _, _, _, t). t) (emission_table 200000 5000000000 33))
    = 2199999997800000"
  by code_simp

text \<open>The audit run on the constants of \<open>src/wam/wam-params.h\<close> evaluates every one of its
  checks without an exception and exits 0, and from the last epoch on the supply paid block by
  block is exactly 21999999.97800000 WAM, for ever.\<close>

theorem mainnet_audit_and_terminal_supply:
  "audit mainnet_params = Inr 0 \<and> replay mainnet_params (6600000 + d) = Inr 2199999997800000"
proof -
  let ?s = "subsidy_at 200000 5000000000 200000000000000 33"
  have "(\<Sum>h = 1..int (6600000 + d). ?s h) = (\<Sum>h = 1..int (nat 33) * 200000. ?s h)"
    using subsidy_at_beyond [of 200000 33] by (intro sum.mono_neutral_right) auto
  also have "\<dots> = sum_list (map (\<lambda>(_, _, _, _, t). t) (emission_table 200000 5000000000 33))"
    by (rule emission_table_total [symmetric]) simp
  finally show ?thesis
    using mainnet_audit mainnet_terminal replay_eq [of mainnet_params "6600000 + d"]
    by (simp add: mainnet_params_def)
qed

text \<open>The epoch totals of the emission table add up to what the subsidy function pays block by
  block over all the epochs, truncation of every halving included.\<close>

theorem emission_table_is_the_block_sum:
  "0 < interval \<Longrightarrow> 0 \<le> M \<Longrightarrow>
   rmap (\<lambda>h. block_subsidy (int h) interval initial premine M) [1..<Suc (nat (M * interval))] = Inr paid \<Longrightarrow>
   sum_list paid = sum_list (map (\<lambda>(_, _, _, _, t). t) (emission_table interval initial M))"
proof -
  assume i: "0 < interval" and M: "0 \<le> M"
    and paid: "rmap (\<lambda>h. block_subsidy (int h) interval initial premine M) [1..<Suc (nat (M * interval))] = Inr paid"
  let ?s = "subsidy_at interval initial premine M"
  have "paid = map (\<lambda>h. ?s (int h)) [1..<Suc (nat (M * interval))]"
    using paid by (simp add: block_subsidy_ok [OF i] rmap_map_Inr)
  then have "sum_list paid = (\<Sum>h = 1..nat (M * interval). ?s (int h))"
    by (simp only: sum_list_distinct_conv_sum_set distinct_upt set_upt atLeastLessThanSuc_atLeastAtMost)
  also have "\<dots> = (\<Sum>h = 1..M * interval. ?s h)"
    using i M by (intro sum.reindex_bij_witness [where j = int and i = nat]) auto
  finally show ?thesis using emission_table_total [OF i, of initial M premine] M by simp
qed

lemma small_schedule:
  "rmap (\<lambda>h. block_subsidy (int h) 3 5 7 4) [1..<Suc (nat (4 * 3))]
    = Inr [5, 5, 5, 2, 2, 2, 1, 1, 1, 0, 0, 0]"
  by code_simp

theorem emission_table_is_the_block_sum_witness:
  "sum_list (map (\<lambda>(_, _, _, _, t). t) (emission_table 3 5 4)) = 24"
  using emission_table_is_the_block_sum [OF _ _ small_schedule] by simp

text \<open>C39: with a positive halving interval the loop of \<open>accrued_through\<close> ends, raises nothing and
  returns the sum of what \<open>treasury_at\<close> pays at every single height.\<close>

theorem accrued_through_is_the_block_sum:
  assumes "0 < k_interval k"
  shows "\<exists>paid. rmap (\<lambda>h. treasury_at (int h) k) [1..<Suc (nat height)] = Inr paid
    \<and> accrued_through height k = Some (Inr (sum_list paid))"
proof -
  let ?hs = "[1..<Suc (nat height)]"
  have "rmap (\<lambda>h. treasury_at (int h) k) ?hs = Inr (map (\<lambda>h. treasury_value k (int h)) ?hs)"
    by (rule rmap_map_Inr, rule treasury_at_ok [OF assms]) (simp only: set_upt atLeastLessThan_iff, linarith)
  moreover have "(\<Sum>h \<leftarrow> ?hs. treasury_value k (int h)) = (\<Sum>h = 1..nat height. treasury_value k (int h))"
    by (simp only: sum_list_distinct_conv_sum_set distinct_upt set_upt atLeastLessThanSuc_atLeastAtMost)
  moreover have "\<dots> = (\<Sum>h = 1..height. treasury_value k h)"
    by (rule sum.reindex_bij_witness [where j = int and i = nat]) auto
  ultimately show ?thesis using accrued_through_sum [OF assms, of height] by simp
qed

theorem accrued_through_is_the_block_sum_witness:
  "\<exists>paid. rmap (\<lambda>h. treasury_at (int h) \<lparr>k_subsidy = 50, k_interval = 200000, k_percent = 5,
       k_start = 1, k_last = 400000, k_max_halvings = 33\<rparr>) [1..<Suc (nat 4989)] = Inr paid
    \<and> accrued_through 4989 \<lparr>k_subsidy = 50, k_interval = 200000, k_percent = 5,
       k_start = 1, k_last = 400000, k_max_halvings = 33\<rparr> = Some (Inr (sum_list paid))"
  by (rule accrued_through_is_the_block_sum) simp

text \<open>The two scripts agree on the lifetime income of the treasury: the epoch replay of
  \<open>verify_supply.py\<close> equals what \<open>check_treasury_ledger.py\<close> accrues through the last paying
  height.\<close>

theorem supply_audit_and_ledger_agree:
  assumes "0 < k_interval k" "k_start k \<le> 1" "0 \<le> k_max_halvings k"
  shows "accrued_through (k_last k) k = Some (Inr (dev_total_rows (k_interval k)
    (k_subsidy k * ATOM) (k_percent k) (k_last k) [0..<nat (k_max_halvings k)] 0))"
  using assms dev_total_rows_sum [OF assms(1,2), of 0 "nat (k_max_halvings k)" 0]
  by (simp add: accrued_through_sum)

theorem supply_audit_and_ledger_agree_witness:
  "accrued_through 400000 \<lparr>k_subsidy = 50, k_interval = 200000, k_percent = 5, k_start = 1,
     k_last = 400000, k_max_halvings = 33\<rparr> = Some (Inr 75000000000000)"
  using supply_audit_and_ledger_agree [of "\<lparr>k_subsidy = 50, k_interval = 200000, k_percent = 5,
     k_start = 1, k_last = 400000, k_max_halvings = 33\<rparr>"]
  by (simp add: ATOM_def mainnet_dev_total)

end
