(* ===== verification/Py_Values.thy ===== *)
theory Py_Values
  imports Py_Float "HOL-Library.Char_ord" "HOL-Library.List_Lexorder" "HOL-Library.Product_Lexorder"
begin

text \<open>
  The values the scripts pass around: text, the decimal grammar of \<open>int\<close>, \<open>float\<close> and
  \<open>decimal.Decimal\<close>, and JSON documents with the dynamic typing of Python's \<open>dict\<close>, \<open>list\<close>,
  \<open>str\<close>, \<open>int\<close>, \<open>float\<close>, \<open>bool\<close> and \<open>None\<close>. A wrong type is the exception Python raises.
\<close>

section \<open>Text\<close>

definition is_digit :: "char \<Rightarrow> bool" where
  "is_digit c \<longleftrightarrow> 48 \<le> (of_char c :: nat) \<and> (of_char c :: nat) \<le> 57"

definition digit_val :: "char \<Rightarrow> nat" where
  "digit_val c = of_char c - 48"

definition digit_char :: "nat \<Rightarrow> char" where
  "digit_char d = char_of (48 + d)"

definition is_space :: "char \<Rightarrow> bool" where
  "is_space c \<longleftrightarrow> (of_char c :: nat) \<in> {9, 10, 11, 12, 13, 28, 29, 30, 31, 32, 133, 160}"

definition lower_char :: "char \<Rightarrow> char" where
  "lower_char c =
     (if 65 \<le> (of_char c :: nat) \<and> (of_char c :: nat) \<le> 90 then char_of (of_char c + (32 :: nat)) else c)"

definition lstrip :: "string \<Rightarrow> string" where
  "lstrip s = dropWhile is_space s"

definition rstrip :: "string \<Rightarrow> string" where
  "rstrip s = rev (dropWhile is_space (rev s))"

definition strip :: "string \<Rightarrow> string" where
  "strip s = rstrip (lstrip s)"

fun starts_with :: "'a list \<Rightarrow> 'a list \<Rightarrow> bool" where
  "starts_with [] ys = True"
| "starts_with (x # xs) [] = False"
| "starts_with (x # xs) (y # ys) = (x = y \<and> starts_with xs ys)"

lemma starts_with_append [simp]: "starts_with xs (xs @ ys)"
  by (induction xs) simp_all

lemma starts_with_iff: "starts_with xs ys \<longleftrightarrow> take (length xs) ys = xs"
  by (induction xs ys rule: starts_with.induct) auto

text \<open>\<open>needle in haystack\<close> for two strings.\<close>

fun contains :: "'a list \<Rightarrow> 'a list \<Rightarrow> bool" where
  "contains n [] = (n = [])"
| "contains n (c # s) = (starts_with n (c # s) \<or> contains n s)"

text \<open>\<open>s.split(sep, 1)\<close> at the first occurrence of a character.\<close>

definition partition_at :: "char \<Rightarrow> string \<Rightarrow> string \<times> string" where
  "partition_at c s = (takeWhile (\<lambda>x. x \<noteq> c) s, drop 1 (dropWhile (\<lambda>x. x \<noteq> c) s))"

text \<open>\<open>str(n)\<close> of an integer.\<close>

definition nat_string :: "nat \<Rightarrow> string" where
  "nat_string n = (if n = 0 then ''0'' else map digit_char (rev (digs 10 n)))"

definition int_string :: "int \<Rightarrow> string" where
  "int_string n = (if n < 0 then CHR ''-'' # nat_string (nat (- n)) else nat_string (nat n))"

definition string_nat :: "string \<Rightarrow> nat" where
  "string_nat s = undigs 10 (rev (map digit_val s))"

lemma digit_val_char [simp]: "d < 10 \<Longrightarrow> digit_val (digit_char d) = d"
  by (simp add: digit_val_def digit_char_def of_char_of)

lemma is_digit_char [simp]: "d < 10 \<Longrightarrow> is_digit (digit_char d)"
  by (simp add: is_digit_def digit_char_def of_char_of)

lemma string_nat_string [simp]: "string_nat (nat_string n) = n"
proof (cases "n = 0")
  case False
  have "map digit_val (map digit_char (digs 10 n)) = digs 10 n"
    using digs_less [of 10 _ n] by (auto intro!: map_idI)
  with False show ?thesis
    by (simp add: string_nat_def nat_string_def rev_map flip: map_map)
qed (simp add: string_nat_def nat_string_def digit_val_def)

lemma nat_string_digits: "list_all is_digit (nat_string n)"
proof (cases "n = 0")
  case False
  then show ?thesis using digs_less [of 10 _ n] by (auto simp: nat_string_def list_all_iff)
qed (simp add: nat_string_def is_digit_def)

lemma nat_string_inj: "nat_string m = nat_string n \<longleftrightarrow> m = n"
  by (metis string_nat_string)

section \<open>Numbers from text\<close>

text \<open>Digits with single underscores between them, as \<open>int\<close> and \<open>float\<close> accept them.\<close>

fun drop_underscores :: "string \<Rightarrow> string option" where
  "drop_underscores (a # b # s) =
     (if b = CHR ''_'' then
        (case s of
           c # _ \<Rightarrow> if is_digit a \<and> is_digit c then map_option ((#) a) (drop_underscores s) else None
         | [] \<Rightarrow> None)
      else if a = CHR ''_'' then None else map_option ((#) a) (drop_underscores (b # s)))"
| "drop_underscores [a] = (if a = CHR ''_'' then None else Some [a])"
| "drop_underscores [] = Some []"

definition split_sign :: "string \<Rightarrow> int \<times> string" where
  "split_sign s = (case s of
     c # r \<Rightarrow> if c = CHR ''-'' then (-1, r) else if c = CHR ''+'' then (1, r) else (1, s)
   | [] \<Rightarrow> (1, s))"

definition int_of_string :: "string \<Rightarrow> py_error + int" where
  "int_of_string s =
     (case split_sign (strip s) of (sg, r) \<Rightarrow>
        (case drop_underscores r of
           Some ds \<Rightarrow> if ds \<noteq> [] \<and> list_all is_digit ds then Inr (sg * int (string_nat ds))
                      else Inl ValueError
         | None \<Rightarrow> Inl ValueError))"

text \<open>
  The unsigned decimal grammar: digits, an optional point, digits, an optional exponent, with at
  least one digit in the significand.
\<close>

definition unsigned_decimal :: "string \<Rightarrow> rat option" where
  "unsigned_decimal s =
     (let ip = takeWhile is_digit s;
          r1 = dropWhile is_digit s;
          (fp, r2) = (case r1 of
             c # r \<Rightarrow> if c = CHR ''.'' then (takeWhile is_digit r, dropWhile is_digit r) else ([], r1)
           | [] \<Rightarrow> ([], r1));
          m = of_nat (string_nat (ip @ fp)) :: rat;
          frac = int (length fp)
      in if ip @ fp = [] then None
         else (case r2 of
             [] \<Rightarrow> Some (m * 10 powi (- frac))
           | c # r3 \<Rightarrow>
               if lower_char c = CHR ''e'' then
                 (case split_sign r3 of (sg, ds) \<Rightarrow>
                    if ds \<noteq> [] \<and> list_all is_digit ds
                    then Some (m * 10 powi (sg * int (string_nat ds) - frac)) else None)
               else None))"

datatype decimal = DFin rat | DInf | DNaN

text \<open>\<open>decimal.Decimal(s)\<close>; \<open>None\<close> is \<open>InvalidOperation\<close>. Underscores are dropped.\<close>

definition decimal_of_string :: "string \<Rightarrow> decimal option" where
  "decimal_of_string s =
     (case split_sign (filter (\<lambda>c. c \<noteq> CHR ''_'') (strip s)) of (sg, r) \<Rightarrow>
        let l = map lower_char r
        in if l = ''inf'' \<or> l = ''infinity'' then Some DInf
           else if starts_with ''nan'' l \<and> list_all is_digit (drop 3 l) then Some DNaN
           else if starts_with ''snan'' l \<and> list_all is_digit (drop 4 l) then Some DNaN
           else map_option (\<lambda>x. DFin (of_int sg * x)) (unsigned_decimal r))"

text \<open>\<open>float(s)\<close>.\<close>

definition float_of_string :: "string \<Rightarrow> py_error + pyfloat" where
  "float_of_string s =
     (case drop_underscores (strip s) of
        None \<Rightarrow> Inl ValueError
      | Some t \<Rightarrow>
          (case split_sign t of (sg, r) \<Rightarrow>
             let l = map lower_char r
             in if l = ''inf'' \<or> l = ''infinity'' then Inr (if sg = 1 then PosInf else NegInf)
                else if l = ''nan'' then Inr NaN
                else (case unsigned_decimal r of
                        None \<Rightarrow> Inl ValueError | Some x \<Rightarrow> Inr (fl (of_int sg * x)))))"

text \<open>
  One operation of the default decimal context: the exact result rounded half-even to 28
  significant digits, exponents from -999999 to 999999; overflow raises, underflow does not.
\<close>

definition dec_round :: "rat \<Rightarrow> rat" where
  "dec_round x =
     (if x = 0 then 0
      else let q = 10 powi (max (flog 10 \<bar>x\<bar> - 27) (-1000026))
           in of_int (round_half_even (x / q)) * q)"

definition dec_op :: "rat \<Rightarrow> py_error + rat" where
  "dec_op x =
     (if dec_round x \<noteq> 0 \<and> 999999 < flog 10 \<bar>dec_round x\<bar> then Inl DecimalOverflow
      else Inr (dec_round x))"

section \<open>repr and str of a float\<close>

text \<open>The significant digits and the position of the decimal point of the shortest decimal.\<close>

definition float_digits :: "rat \<Rightarrow> string \<times> int" where
  "float_digits x =
     (let (m, e) = shortest_pos x;
          ds = nat_string (nat m);
          sig = rev (dropWhile (\<lambda>c. c = CHR ''0'') (rev ds))
      in (sig, int (length ds) + e))"

definition repr_pos :: "rat \<Rightarrow> string" where
  "repr_pos x =
     (let (sig, p) = float_digits x; k = int (length sig)
      in if -4 < p \<and> p \<le> 16 then
           (if p \<le> 0 then ''0.'' @ replicate (nat (- p)) (CHR ''0'') @ sig
            else if k \<le> p then sig @ replicate (nat (p - k)) (CHR ''0'') @ ''.0''
            else take (nat p) sig @ ''.'' @ drop (nat p) sig)
         else hd sig # (if 1 < k then CHR ''.'' # tl sig else []) @
              (if p - 1 < 0 then ''e-'' else ''e+'') @
              (let ex = nat_string (nat \<bar>p - 1\<bar>)
               in if length ex < 2 then CHR ''0'' # ex else ex))"

fun float_repr :: "pyfloat \<Rightarrow> string" where
  "float_repr PosInf = ''inf''"
| "float_repr NegInf = ''-inf''"
| "float_repr NaN = ''nan''"
| "float_repr (Fin x) =
     (if x = 0 then ''0.0'' else if x < 0 then CHR ''-'' # repr_pos (- x) else repr_pos x)"

section \<open>JSON documents\<close>

text \<open>
  What \<open>json.load\<close> returns. An object keeps its insertion order and has each key once.
\<close>

datatype json =
    JNull | JBool bool | JInt int | JFloat pyfloat | JStr string
  | JArr "json list" | JObj "(string \<times> json) list"

fun jtruthy :: "json \<Rightarrow> bool" where
  "jtruthy JNull = False"
| "jtruthy (JBool b) = b"
| "jtruthy (JInt n) = (n \<noteq> 0)"
| "jtruthy (JFloat x) = (\<not> feq x (Fin 0))"
| "jtruthy (JStr s) = (s \<noteq> [])"
| "jtruthy (JArr xs) = (xs \<noteq> [])"
| "jtruthy (JObj kvs) = (kvs \<noteq> [])"

text \<open>\<open>v[k]\<close> for a string key, \<open>v.get(k, d)\<close>, \<open>k in v\<close> and iteration over \<open>v\<close>.\<close>

fun jitem :: "json \<Rightarrow> string \<Rightarrow> py_error + json" where
  "jitem (JObj kvs) k = (case map_of kvs k of Some v \<Rightarrow> Inr v | None \<Rightarrow> Inl (KeyError k))"
| "jitem _ k = Inl TypeError"

fun jget :: "json \<Rightarrow> string \<Rightarrow> json \<Rightarrow> py_error + json" where
  "jget (JObj kvs) k d = Inr (case map_of kvs k of Some v \<Rightarrow> v | None \<Rightarrow> d)"
| "jget _ k d = Inl AttributeError"

fun jhas :: "string \<Rightarrow> json \<Rightarrow> py_error + bool" where
  "jhas k (JObj kvs) = Inr (map_of kvs k \<noteq> None)"
| "jhas k (JArr xs) = Inr (JStr k \<in> set xs)"
| "jhas k (JStr s) = Inr (contains k s)"
| "jhas k _ = Inl TypeError"

fun jiter :: "json \<Rightarrow> py_error + json list" where
  "jiter (JArr xs) = Inr xs"
| "jiter (JObj kvs) = Inr (map (JStr \<circ> fst) kvs)"
| "jiter (JStr s) = Inr (map (\<lambda>c. JStr [c]) s)"
| "jiter _ = Inl TypeError"

fun jis_dict :: "json \<Rightarrow> bool" where
  "jis_dict (JObj _) = True"
| "jis_dict _ = False"

text \<open>\<open>d[k] = v\<close> and \<open>d.pop(k, None)\<close> on the items of a dictionary.\<close>

fun dict_set :: "'k \<Rightarrow> 'v \<Rightarrow> ('k \<times> 'v) list \<Rightarrow> ('k \<times> 'v) list" where
  "dict_set k v [] = [(k, v)]"
| "dict_set k v ((k', v') # kvs) = (if k' = k then (k, v) # kvs else (k', v') # dict_set k v kvs)"

definition dict_pop :: "'k \<Rightarrow> ('k \<times> 'v) list \<Rightarrow> ('k \<times> 'v) list" where
  "dict_pop k kvs = filter (\<lambda>(k', _). k' \<noteq> k) kvs"

lemma map_of_dict_set [simp]: "map_of (dict_set k v kvs) = (map_of kvs)(k \<mapsto> v)"
  by (induction kvs) auto

lemma map_of_dict_pop [simp]: "map_of (dict_pop k kvs) = (map_of kvs)(k := None)"
  by (induction kvs) (auto simp: dict_pop_def)

lemma foldl_dict_set:
  "distinct (map fst (acc @ rows)) \<Longrightarrow> foldl (\<lambda>m (h, v). dict_set h v m) acc rows = acc @ rows"
proof (induction rows arbitrary: acc)
  case (Cons r rows)
  obtain h v where r: "r = (h, v)" by (cases r)
  have "dict_set h v acc = acc @ [(h, v)]" if "h \<notin> fst ` set acc" for acc
    using that by (induction acc) auto
  with Cons r show ?case by auto
qed simp

text \<open>\<open>int(v)\<close>, \<open>float(v)\<close>.\<close>

fun jint :: "json \<Rightarrow> py_error + int" where
  "jint (JInt n) = Inr n"
| "jint (JBool b) = Inr (if b then 1 else 0)"
| "jint (JFloat (Fin x)) = Inr (if x < 0 then \<lceil>x\<rceil> else \<lfloor>x\<rfloor>)"
| "jint (JFloat NaN) = Inl ValueError"
| "jint (JFloat _) = Inl OverflowError"
| "jint (JStr s) = int_of_string s"
| "jint _ = Inl TypeError"

definition float_of_int :: "int \<Rightarrow> py_error + pyfloat" where
  "float_of_int n = (case fl (of_int n) of Fin x \<Rightarrow> Inr (Fin x) | _ \<Rightarrow> Inl OverflowError)"

fun jfloat :: "json \<Rightarrow> py_error + pyfloat" where
  "jfloat (JFloat x) = Inr x"
| "jfloat (JInt n) = float_of_int n"
| "jfloat (JBool b) = Inr (Fin (if b then 1 else 0))"
| "jfloat (JStr s) = float_of_string s"
| "jfloat _ = Inl TypeError"

text \<open>\<open>repr\<close> of a string: single quotes unless only they occur in it.\<close>

definition hex_char :: "nat \<Rightarrow> char" where
  "hex_char d = (if d < 10 then char_of (48 + d) else char_of (87 + d))"

definition repr_char :: "char \<Rightarrow> char \<Rightarrow> string" where
  "repr_char q c =
     (let n = of_char c :: nat
      in if c = q \<or> n = 92 then [CHR 0x5C, c]
         else if n = 10 then [CHR 0x5C, CHR ''n''] else if n = 13 then [CHR 0x5C, CHR ''r'']
         else if n = 9 then [CHR 0x5C, CHR ''t'']
         else if n < 32 \<or> (127 \<le> n \<and> n \<le> 160) \<or> n = 173
         then [CHR 0x5C, CHR ''x'', hex_char (n div 16), hex_char (n mod 16)] else [c])"

definition string_repr :: "string \<Rightarrow> string" where
  "string_repr s =
     (let q = (if CHR 0x27 \<in> set s \<and> CHR 0x22 \<notin> set s then CHR 0x22 else CHR 0x27)
      in [q] @ concat (map (repr_char q) s) @ [q])"

fun comma_join :: "string list \<Rightarrow> string" where
  "comma_join [] = []"
| "comma_join [x] = x"
| "comma_join (x # y # xs) = x @ '', '' @ comma_join (y # xs)"

fun jrepr :: "json \<Rightarrow> string" where
  "jrepr JNull = ''None''"
| "jrepr (JBool b) = (if b then ''True'' else ''False'')"
| "jrepr (JInt n) = int_string n"
| "jrepr (JFloat x) = float_repr x"
| "jrepr (JStr s) = string_repr s"
| "jrepr (JArr xs) = ''['' @ comma_join (map jrepr xs) @ '']''"
| "jrepr (JObj kvs) =
     ''{'' @ comma_join (map (\<lambda>kv. string_repr (fst kv) @ '': '' @ jrepr (snd kv)) kvs) @ ''}''"

fun jstr :: "json \<Rightarrow> string" where
  "jstr (JStr s) = s"
| "jstr v = jrepr v"

section \<open>Coins as whole atoms\<close>

text \<open>
  \<open>decimal.Decimal(str(v))\<close>. The text of an integer is an integer, the text of a double is the
  shortest decimal that reads back; \<open>True\<close>, \<open>None\<close>, lists and objects are not numbers.
\<close>

fun decimal_of_json :: "json \<Rightarrow> decimal option" where
  "decimal_of_json (JInt n) = Some (DFin (of_int n))"
| "decimal_of_json (JFloat (Fin x)) = Some (DFin (str_value x))"
| "decimal_of_json (JFloat NaN) = Some DNaN"
| "decimal_of_json (JFloat _) = Some DInf"
| "decimal_of_json (JStr s) = decimal_of_string s"
| "decimal_of_json _ = None"

section \<open>Decimal operations that are exact, and how far off the others are\<close>

lemma flog10_less:
  assumes "x \<noteq> 0" "\<bar>x\<bar> < 10 powi k"
  shows "flog 10 \<bar>x\<bar> < k"
proof (rule ccontr)
  assume "\<not> flog 10 \<bar>x\<bar> < k"
  then have "(10::rat) powi k \<le> 10 powi flog 10 \<bar>x\<bar>" by (intro power_int_increasing) simp_all
  also have "\<dots> \<le> \<bar>x\<bar>" using flog_bounds(1) [of 10 "\<bar>x\<bar>"] assms(1) by simp
  finally show False using assms(2) by simp
qed

lemma dec_scale:
  fixes x :: rat
  assumes "\<bar>m\<bar> < 10 ^ 28" "x = of_int m * 10 powi e"
  shows "\<bar>x\<bar> < 10 powi (e + 28)"
proof -
  have "of_int \<bar>m\<bar> < (10 ^ 28 :: rat)"
    using assms(1) by (metis of_int_less_iff of_int_numeral of_int_power)
  then have "of_int \<bar>m\<bar> * (10::rat) powi e < 10 ^ 28 * 10 powi e" by (rule mult_strict_right_mono) simp
  then show ?thesis by (simp add: assms(2) abs_mult power_int_add mult.commute)
qed

lemma dec_round_exact:
  assumes "\<bar>m\<bar> < 10 ^ 28" "-1000026 \<le> e" and x: "x = of_int m * 10 powi e"
  shows "dec_round x = x"
proof (cases "x = 0")
  case False
  let ?q = "max (flog 10 \<bar>x\<bar> - 27) (-1000026)"
  have "flog 10 \<bar>x\<bar> < e + 28" using flog10_less [OF False dec_scale [OF assms(1) x]] .
  then have q: "?q \<le> e" using assms(2) by simp
  have "x / 10 powi ?q = of_int m * 10 powi (e - ?q)" by (simp add: x power_int_diff)
  also have "\<dots> = of_int (m * 10 ^ nat (e - ?q))" using q by (simp add: power_int_def)
  finally have d: "x / 10 powi ?q = of_int (m * 10 ^ nat (e - ?q))" .
  have "dec_round x = of_int (round_half_even (x / 10 powi ?q)) * 10 powi ?q"
    using False by (simp only: dec_round_def Let_def if_False)
  also have "\<dots> = x / 10 powi ?q * 10 powi ?q" unfolding d round_half_even_int ..
  finally show ?thesis by simp
qed (simp add: dec_round_def)

lemma dec_op_exact:
  assumes "\<bar>m\<bar> < 10 ^ 28" "-1000026 \<le> e" "e \<le> 1000" and x: "x = of_int m * 10 powi e"
  shows "dec_op x = Inr x"
proof -
  have "flog 10 \<bar>x\<bar> < e + 28" if "x \<noteq> 0"
    using flog10_less [OF that dec_scale [OF assms(1) x]] .
  then show ?thesis
    using dec_round_exact [OF assms(1,2) x] assms(3) by (auto simp: dec_op_def)
qed

lemma dec_round_error: "\<bar>dec_round x - x\<bar> \<le> 10 powi (max (flog 10 \<bar>x\<bar> - 27) (-1000026)) / 2"
proof (cases "x = 0")
  case False
  let ?q = "(10::rat) powi (max (flog 10 \<bar>x\<bar> - 27) (-1000026))"
  have q: "0 < ?q" by simp
  have "dec_round x - x = (of_int (round_half_even (x / ?q)) - x / ?q) * ?q"
    using False by (simp add: dec_round_def Let_def left_diff_distrib)
  then have "\<bar>dec_round x - x\<bar> = \<bar>of_int (round_half_even (x / ?q)) - x / ?q\<bar> * ?q"
    using q by (simp add: abs_mult)
  also have "\<dots> \<le> 1/2 * ?q"
    using round_half_even_error [of "x / ?q"] q by (intro mult_right_mono) simp_all
  finally show ?thesis by simp
qed (simp add: dec_round_def)

end
