(* ===== verification/Operator.thy ===== *)
theory Operator
  imports Py_Values
begin

text \<open>
  The world in which \<open>treasury_spend.py\<close> runs: the node it asks, the files that cross the air
  gap, the lines the operator types, and the log of everything that was asked, run or written.
  The node and its command-line client are third-party programs: they are the parameters
  \<open>node\<close> and \<open>cli\<close>, functions of a state the scripts never see.
\<close>

section \<open>The world\<close>

text \<open>
  A file is either the text of a JSON document or some other text. A line for a process is raw
  text or the text of a JSON value.
\<close>

datatype stored = Text string | Doc json

datatype cli_line = Raw string | Json json

datatype event =
    Rpc_Sent string "json list" "json option"
  | Cli_Run "string list" "cli_line list" int "json option"
  | Typed string
  | Written string json

record 'n world =
  w_node :: 'n
  w_files :: "string \<Rightarrow> stored option"
  w_typed :: "string list"
  w_log :: "event list"

type_synonym 'n node = "'n \<Rightarrow> string \<Rightarrow> json list \<Rightarrow> json option \<times> 'n"
type_synonym 'n cli = "'n \<Rightarrow> string list \<Rightarrow> cli_line list \<Rightarrow> (int \<times> json option) \<times> 'n"
type_synonym ('n, 'a) task = "('n world, py_error, 'a) prog"

abbreviation die :: py_error where
  "die \<equiv> SystemExit 1"

section \<open>Calls\<close>

text \<open>
  \<open>Rpc.__init__\<close>: the credentials are read out of \<open>wam.conf\<close>, line by line.
\<close>

fun split_lines :: "string \<Rightarrow> string list" where
  "split_lines s =
     (case dropWhile (\<lambda>c. c \<noteq> CHR 0x0A) s of
        [] \<Rightarrow> if s = [] then [] else [s]
      | c # rest \<Rightarrow> takeWhile (\<lambda>c. c \<noteq> CHR 0x0A) s # (if length rest < length s then split_lines rest else []))"

declare split_lines.simps [simp del]

definition conf_entry :: "string \<Rightarrow> (string \<times> string) option" where
  "conf_entry line =
     (if CHR ''='' \<in> set line \<and> \<not> starts_with ''#'' (lstrip line)
      then (case partition_at (CHR ''='') line of (k, v) \<Rightarrow> Some (strip k, strip v))
      else None)"

definition conf_creds :: "string \<Rightarrow> (string \<times> string) list" where
  "conf_creds text = foldl (\<lambda>creds line. case conf_entry line of
       None \<Rightarrow> creds | Some (k, v) \<Rightarrow> dict_set k v creds) [] (split_lines text)"

definition rpc_init :: "string \<Rightarrow> ('n, unit) task" where
  "rpc_init conf = (\<lambda>w. case w_files w conf of
      None \<Rightarrow> (Inl die, w)
    | Some (Doc _) \<Rightarrow> (Inl die, w)
    | Some (Text t) \<Rightarrow>
        if map_of (conf_creds t) ''rpcuser'' = None \<or> map_of (conf_creds t) ''rpcpassword'' = None
        then (Inl die, w) else (Inr (), w))"

text \<open>
  \<open>Rpc.call\<close>: no answer at all, or an answer with an error, ends the script. \<open>rpc_result\<close> is
  what it makes of the answer.
\<close>

definition rpc_result :: "json option \<Rightarrow> py_error + json" where
  "rpc_result answer = (case answer of
      None \<Rightarrow> Inl die
    | Some out \<Rightarrow> rbind (jget out ''error'' JNull) (\<lambda>err.
        if jtruthy err then (if jis_dict err then Inl die else Inl AttributeError)
        else jitem out ''result''))"

definition rpc_call :: "'n node \<Rightarrow> string \<Rightarrow> json list \<Rightarrow> ('n, json) task" where
  "rpc_call node method params = (\<lambda>w.
     case node (w_node w) method params of (answer, n) \<Rightarrow>
       (rpc_result answer,
        w\<lparr>w_node := n, w_log := w_log w @ [Rpc_Sent method params answer]\<rparr>))"

definition cli_run :: "'n cli \<Rightarrow> string list \<Rightarrow> cli_line list \<Rightarrow> ('n, int \<times> json option) task" where
  "cli_run cli argv stdin = (\<lambda>w.
     case cli (w_node w) argv stdin of ((rc, out), n) \<Rightarrow>
       (Inr (rc, out), w\<lparr>w_node := n, w_log := w_log w @ [Cli_Run argv stdin rc out]\<rparr>))"

definition ask :: "('n, string) task" where
  "ask = (\<lambda>w. case w_typed w of
      [] \<Rightarrow> (Inl EOFError, w)
    | l # ls \<Rightarrow> (Inr l, w\<lparr>w_typed := ls, w_log := w_log w @ [Typed l]\<rparr>))"

text \<open>\<open>json.load(open(name))\<close>: \<open>OSError\<close> for no such file, \<open>ValueError\<close> for no JSON.\<close>

definition load_json :: "string \<Rightarrow> ('n, json) task" where
  "load_json name = (\<lambda>w. case w_files w name of
      None \<Rightarrow> (Inl OSError, w)
    | Some (Text _) \<Rightarrow> (Inl ValueError, w)
    | Some (Doc j) \<Rightarrow> (Inr j, w))"

definition write_json :: "string \<Rightarrow> json \<Rightarrow> ('n, unit) task" where
  "write_json name j = (\<lambda>w.
     (Inr (), w\<lparr>w_files := (w_files w)(name \<mapsto> Doc j), w_log := w_log w @ [Written name j]\<rparr>))"

definition except_die :: "('n, 'a) task \<Rightarrow> py_error list \<Rightarrow> ('n, 'a) task" where
  "except_die m es = (\<lambda>w. case m w of
      (Inl e, w') \<Rightarrow> (if e \<in> set es then Inl die else Inl e, w')
    | (Inr x, w') \<Rightarrow> (Inr x, w'))"

section \<open>Rules for the log\<close>

text \<open>
  What a task may rely on is a predicate of the files and the log; each call appends one event.
\<close>

definition holds :: "((string \<Rightarrow> stored option) \<Rightarrow> event list \<Rightarrow> bool) \<Rightarrow> 'n world \<Rightarrow> bool" where
  "holds \<Phi> w = \<Phi> (w_files w) (w_log w)"

lemma triple_rpc_call:
  assumes "\<And>F l answer. \<Phi> F l \<Longrightarrow> \<Psi> F (l @ [Rpc_Sent method params answer])"
    and "\<And>F l answer x. \<Phi> F l \<Longrightarrow> rpc_result answer = Inr x \<Longrightarrow>
           \<Theta> x F (l @ [Rpc_Sent method params answer])"
  shows "triple (holds \<Phi>) (rpc_call node method params) (\<lambda>x. holds (\<Theta> x)) (holds \<Psi>)"
  using assms by (auto simp: triple_def holds_def rpc_call_def split: prod.splits)

lemma triple_cli_run:
  assumes "\<And>F l rc out. \<Phi> F l \<Longrightarrow> \<Theta> (rc, out) F (l @ [Cli_Run argv stdin rc out])"
  shows "triple (holds \<Phi>) (cli_run cli argv stdin) (\<lambda>x. holds (\<Theta> x)) (holds \<Psi>)"
  using assms by (auto simp: triple_def holds_def cli_run_def split: prod.splits)

lemma triple_ask:
  assumes "\<And>F l. \<Phi> F l \<Longrightarrow> \<Psi> F l" and "\<And>F l s. \<Phi> F l \<Longrightarrow> \<Theta> s F (l @ [Typed s])"
  shows "triple (holds \<Phi>) ask (\<lambda>x. holds (\<Theta> x)) (holds \<Psi>)"
  using assms by (auto simp: triple_def holds_def ask_def split: list.splits)

lemma triple_load_json:
  assumes "\<And>F l. \<Phi> F l \<Longrightarrow> \<Psi> F l" and "\<And>F l j. \<Phi> F l \<Longrightarrow> F name = Some (Doc j) \<Longrightarrow> \<Theta> j F l"
  shows "triple (holds \<Phi>) (load_json name) (\<lambda>x. holds (\<Theta> x)) (holds \<Psi>)"
  using assms by (auto simp: triple_def holds_def load_json_def split: option.splits stored.splits)

lemma triple_write_json:
  assumes "\<And>F l. \<Phi> F l \<Longrightarrow> \<Theta> () (F(name \<mapsto> Doc j)) (l @ [Written name j])"
  shows "triple (holds \<Phi>) (write_json name j) (\<lambda>x. holds (\<Theta> x)) (holds \<Psi>)"
  using assms by (auto simp: triple_def holds_def write_json_def)

lemma triple_rpc_init:
  assumes "\<And>F l. \<Phi> F l \<Longrightarrow> \<Psi> F l" and "\<And>F l. \<Phi> F l \<Longrightarrow> \<Theta> () F l"
  shows "triple (holds \<Phi>) (rpc_init conf) (\<lambda>x. holds (\<Theta> x)) (holds \<Psi>)"
  using assms by (auto simp: triple_def holds_def rpc_init_def split: option.splits stored.splits if_splits)

lemma triple_except_die: "triple P m Q E \<Longrightarrow> triple P (except_die m es) Q E"
  unfolding triple_def except_die_def by (auto split: prod.splits sum.splits)

lemma triple_lift_log:
  assumes "\<And>F l x. r = Inr x \<Longrightarrow> \<Phi> F l \<Longrightarrow> \<Theta> x F l" and "\<And>F l. \<Phi> F l \<Longrightarrow> \<Psi> F l"
  shows "triple (holds \<Phi>) (lift r) (\<lambda>x. holds (\<Theta> x)) (holds \<Psi>)"
  using assms by (auto simp: triple_def holds_def)

lemma triple_ret_log:
  assumes "\<And>F l. \<Phi> F l \<Longrightarrow> \<Theta> x F l"
  shows "triple (holds \<Phi>) (ret x) (\<lambda>x. holds (\<Theta> x)) (holds \<Psi>)"
  using assms by (auto simp: triple_def holds_def)

lemma triple_throw_log:
  assumes "\<And>F l. \<Phi> F l \<Longrightarrow> \<Psi> F l"
  shows "triple (holds \<Phi>) (throw e) (\<lambda>x. holds (\<Theta> x)) (holds \<Psi>)"
  using assms by (auto simp: triple_def holds_def)

lemma triple_log_conseq:
  assumes "triple (holds \<Phi>') m (\<lambda>x. holds (\<Theta>' x)) (holds \<Psi>')"
    and "\<And>F l. \<Phi> F l \<Longrightarrow> \<Phi>' F l" "\<And>x F l. \<Theta>' x F l \<Longrightarrow> \<Theta> x F l" "\<And>F l. \<Psi>' F l \<Longrightarrow> \<Psi> F l"
  shows "triple (holds \<Phi>) m (\<lambda>x. holds (\<Theta> x)) (holds \<Psi>)"
  using assms unfolding triple_def holds_def by blast

lemma triple_log_for_each:
  assumes "\<And>x ys. x \<in> set xs \<Longrightarrow>
      triple (holds (\<Phi> ys)) (f x) (\<lambda>y. holds (\<Phi> (ys @ [(x, y)]))) (holds \<Psi>)"
  shows "triple (holds (\<Phi> [])) (for_each f xs) (\<lambda>ys. holds (\<Phi> (zip xs ys))) (holds \<Psi>)"
  using triple_for_each [of xs "\<lambda>ys. holds (\<Phi> ys)" f "holds \<Psi>" "[]"] assms by simp

lemmas log_triples =
  triple_bnd triple_rpc_init triple_except_die triple_if

section \<open>Guarded events\<close>

text \<open>Every event of a kind happens only after the log before it satisfies a condition.\<close>

definition guarded :: "(event \<Rightarrow> bool) \<Rightarrow> (event list \<Rightarrow> event \<Rightarrow> bool) \<Rightarrow> event list \<Rightarrow> bool" where
  "guarded kind V evs \<longleftrightarrow>
     list_all (\<lambda>i. kind (evs ! i) \<longrightarrow> V (take i evs) (evs ! i)) [0..<length evs]"

lemma guarded_Nil [simp]: "guarded kind V []"
  by (simp add: guarded_def)

lemma guarded_snoc [simp]:
  "guarded kind V (evs @ [e]) \<longleftrightarrow> guarded kind V evs \<and> (kind e \<longrightarrow> V evs e)"
  by (auto simp: guarded_def list_all_iff nth_append)

lemma guarded_split:
  "guarded kind V evs \<Longrightarrow> evs = pre @ e # post \<Longrightarrow> kind e \<Longrightarrow> V pre e"
  by (auto simp: guarded_def list_all_iff nth_append dest!: bspec [of _ _ "length pre"])

section \<open>What the node has said\<close>

definition said :: "event list \<Rightarrow> string \<Rightarrow> json list \<Rightarrow> json \<Rightarrow> bool" where
  "said evs method params x \<longleftrightarrow>
     list_ex (\<lambda>e. case e of
        Rpc_Sent m ps answer \<Rightarrow> m = method \<and> ps = params \<and> rpc_result answer = Inr x
      | _ \<Rightarrow> False) evs"

lemma said_append [simp]: "said evs m ps x \<Longrightarrow> said (evs @ evs') m ps x"
  by (simp add: said_def)

lemma said_now [simp]: "rpc_result answer = Inr x \<Longrightarrow> said (evs @ [Rpc_Sent m ps answer]) m ps x"
  by (simp add: said_def)

text \<open>A condition survives an event of another kind.\<close>

definition keeps :: "(event \<Rightarrow> bool) \<Rightarrow> ((string \<Rightarrow> stored option) \<Rightarrow> event list \<Rightarrow> bool) \<Rightarrow> bool" where
  "keeps kind \<Phi> \<longleftrightarrow> (\<forall>F l e. \<not> kind e \<longrightarrow> \<Phi> F l \<longrightarrow> \<Phi> F (l @ [e]))"

lemma keepsI: "(\<And>F l e. \<not> kind e \<Longrightarrow> \<Phi> F l \<Longrightarrow> \<Phi> F (l @ [e])) \<Longrightarrow> keeps kind \<Phi>"
  by (simp add: keeps_def)

lemma triple_rpc_said:
  assumes "keeps kind \<Phi>" and "\<And>answer. \<not> kind (Rpc_Sent method params answer)"
    and "\<And>F l. \<Phi> F l \<Longrightarrow> \<Psi> F l"
  shows "triple (holds \<Phi>) (rpc_call node method params)
    (\<lambda>x. holds (\<lambda>F l. \<Phi> F l \<and> said l method params x)) (holds \<Psi>)"
  by (rule triple_rpc_call) (use assms in \<open>auto simp: keeps_def\<close>)

section \<open>Running a task step by step\<close>

lemma triple_bnd_lift:
  "(\<And>x. r = Inr x \<Longrightarrow> triple P (f x) Q E) \<Longrightarrow> (\<And>w. P w \<Longrightarrow> E w) \<Longrightarrow> triple P (bnd (lift r) f) Q E"
  by (cases r) (auto simp: triple_def bnd_def lift_def)

lemma triple_bnd_said:
  assumes "keeps kind \<Phi>" and "\<And>answer. \<not> kind (Rpc_Sent method params answer)"
    and "\<And>F l. \<Phi> F l \<Longrightarrow> \<Psi> F l"
    and "\<And>x. triple (holds (\<lambda>F l. \<Phi> F l \<and> said l method params x)) (f x) Q (holds \<Psi>)"
  shows "triple (holds \<Phi>) (bnd (rpc_call node method params) f) Q (holds \<Psi>)"
  by (rule triple_bnd [OF triple_rpc_said [OF assms(1,2,3)] assms(4)])

lemma triple_prod:
  "(\<And>a b. p = (a, b) \<Longrightarrow> triple P (f a b) Q E) \<Longrightarrow> triple P (case p of (a, b) \<Rightarrow> f a b) Q E"
  by (cases p) simp

lemma triple_let: "(\<And>x. x = t \<Longrightarrow> triple P (f x) Q E) \<Longrightarrow> triple P (Let t f) Q E"
  by (simp add: Let_def)

lemma keeps_conj: "keeps kind \<Phi> \<Longrightarrow> keeps kind \<Phi>' \<Longrightarrow> keeps kind (\<lambda>F l. \<Phi> F l \<and> \<Phi>' F l)"
  by (simp add: keeps_def)

lemma keeps_said: "keeps kind (\<lambda>F l. said l method params x)"
  by (simp add: keeps_def)

lemma keeps_guarded: "keeps kind (\<lambda>F l. guarded kind V l)"
  by (simp add: keeps_def)

lemma keeps_const: "keeps kind (\<lambda>F l. c)" "keeps kind (\<lambda>F l. F = G)"
  by (simp_all add: keeps_def)

lemmas keep_rules = keeps_conj keeps_said keeps_guarded keeps_const

lemma triple_bnd_init:
  "(\<And>F l. \<Phi> F l \<Longrightarrow> \<Psi> F l) \<Longrightarrow> triple (holds \<Phi>) (f ()) Q (holds \<Psi>) \<Longrightarrow>
   triple (holds \<Phi>) (bnd (rpc_init conf) f) Q (holds \<Psi>)"
  by (rule triple_bnd [OF triple_rpc_init [where \<Theta> = "\<lambda>_. \<Phi>"]]) simp_all

lemma triple_bnd_throw:
  "(\<And>w. P w \<Longrightarrow> E w) \<Longrightarrow> triple P (throw e) Q E"
  by (rule triple_throw)

section \<open>Tasks that write no file\<close>

definition no_writes :: "('n, 'a) task \<Rightarrow> bool" where
  "no_writes m \<longleftrightarrow> (\<forall>w. w_files (snd (m w)) = w_files w)"

named_theorems no_writes_rules \<open>tasks that write no file\<close>

lemma no_writes_bnd [no_writes_rules]:
  "no_writes m \<Longrightarrow> (\<And>x. no_writes (f x)) \<Longrightarrow> no_writes (bnd m f)"
  by (auto simp: no_writes_def bnd_def split: prod.splits sum.splits) (metis snd_conv)+

lemma no_writes_basic [no_writes_rules]:
  "no_writes (ret x)" "no_writes (throw e)" "no_writes (lift r)" "no_writes (rpc_init conf)"
  "no_writes (rpc_call node method params)" "no_writes (cli_run cli argv stdin)"
  "no_writes ask" "no_writes (load_json name)"
  by (auto simp: no_writes_def ret_def throw_def lift_def rpc_init_def rpc_call_def cli_run_def
      ask_def load_json_def split: prod.splits option.splits stored.splits list.splits)

lemma no_writes_except [no_writes_rules]: "no_writes m \<Longrightarrow> no_writes (except_die m es)"
  by (auto simp: no_writes_def except_die_def split: prod.splits sum.splits) (metis snd_conv)+

lemma no_writes_for_each [no_writes_rules]:
  "(\<And>x. x \<in> set xs \<Longrightarrow> no_writes (f x)) \<Longrightarrow> no_writes (for_each f xs)"
  by (induction xs) (auto intro: no_writes_rules)

lemma no_writes_if [no_writes_rules]:
  "no_writes m \<Longrightarrow> no_writes n \<Longrightarrow> no_writes (if c then m else n)"
  by simp

lemma no_writes_prod [no_writes_rules]:
  "(\<And>a b. no_writes (f a b)) \<Longrightarrow> no_writes (case p of (a, b) \<Rightarrow> f a b)"
  by (cases p) simp

lemma no_writesD: "no_writes m \<Longrightarrow> m w = (r, w') \<Longrightarrow> w_files w' = w_files w"
  unfolding no_writes_def by (metis snd_conv)

text \<open>Writing several files under different names.\<close>

lemma write_all:
  "for_each (\<lambda>(i, j). write_json (f i) j) xs w = (r, w') \<Longrightarrow>
   (\<exists>u. r = Inr u) \<and> (distinct (map (f \<circ> fst) xs) \<longrightarrow>
     (\<forall>(i, j) \<in> set xs. w_files w' (f i) = Some (Doc j)))
   \<and> (\<forall>n. n \<notin> set (map (f \<circ> fst) xs) \<longrightarrow> w_files w' n = w_files w n)"
proof (induction xs arbitrary: w w' r)
  case (Cons x xs)
  obtain i j where x: "x = (i, j)" by (cases x)
  let ?v = "w\<lparr>w_files := (w_files w)(f i \<mapsto> Doc j), w_log := w_log w @ [Written (f i) j]\<rparr>"
  obtain r' v where run: "for_each (\<lambda>(i, j). write_json (f i) j) xs ?v = (r', v)"
    by (cases "for_each (\<lambda>(i, j). write_json (f i) j) xs ?v")
  note IH = Cons.IH [OF run]
  from IH obtain u where "r' = Inr u" by blast
  then have r: "r = Inr (() # u)" "w' = v"
    using Cons.prems run by (simp_all add: x bnd_def write_json_def ret_def)
  show ?case using IH by (auto simp: r x)
qed simp

lemma triple_pure:
  "(c \<Longrightarrow> triple (holds \<Phi>) m Q E) \<Longrightarrow> triple (holds (\<lambda>F l. \<Phi> F l \<and> c)) m Q E"
  by (auto simp: triple_def holds_def)

lemma triple_case_option:
  "(p = None \<Longrightarrow> triple P m Q E) \<Longrightarrow> (\<And>x. p = Some x \<Longrightarrow> triple P (f x) Q E) \<Longrightarrow>
   triple P (case p of None \<Rightarrow> m | Some x \<Rightarrow> f x) Q E"
  by (cases p) simp_all

lemma triple_throw_holds: "(\<And>F l. \<Phi> F l \<Longrightarrow> \<Psi> F l) \<Longrightarrow> triple (holds \<Phi>) (throw e) Q (holds \<Psi>)"
  by (auto simp: triple_def holds_def)


lemma triple_for_each_all2:
  assumes "\<And>x ys. x \<in> set xs \<Longrightarrow>
      triple (holds (\<lambda>F l. \<Phi> F l \<and> list_all (\<lambda>(x, y). R l x y) ys)) (f x)
        (\<lambda>y. holds (\<lambda>F l. \<Phi> F l \<and> list_all (\<lambda>(x, y). R l x y) (ys @ [(x, y)]))) (holds \<Psi>)"
  shows "triple (holds \<Phi>) (for_each f xs) (\<lambda>ys. holds (\<lambda>F l. \<Phi> F l \<and> list_all2 (R l) xs ys)) (holds \<Psi>)"
proof -
  have "triple (holds (\<lambda>F l. \<Phi> F l \<and> list_all (\<lambda>(x, y). R l x y) [])) (for_each f xs)
      (\<lambda>ys. holds (\<lambda>F l. \<Phi> F l \<and> list_all (\<lambda>(x, y). R l x y) (zip xs ys))) (holds \<Psi>)"
    by (rule triple_log_for_each [where \<Phi> = "\<lambda>ys F l. \<Phi> F l \<and> list_all (\<lambda>(x, y). R l x y) ys"])
      (rule assms)
  then show ?thesis
    by (auto simp: triple_def holds_def list_all2_iff list_all_iff dest: for_each_length)
qed

end
