(* ===== verification/Sha256.thy ===== *)
theory Sha256
  imports Wam_Prelude
begin

text \<open>
  \<open>hashlib.sha256\<close>, on 32-bit words: padding, the message schedule, 64 rounds per block. Every
  script that hashes uses it, most often twice in a row.
\<close>

section \<open>The compression function\<close>

type_synonym word32 = "32 word"

unbundle bit_operations_syntax

definition sha_K :: "word32 list" where
  "sha_K =
     [1116352408, 1899447441, 3049323471, 3921009573, 961987163, 1508970993,
      2453635748, 2870763221, 3624381080, 310598401, 607225278, 1426881987,
      1925078388, 2162078206, 2614888103, 3248222580, 3835390401, 4022224774,
      264347078, 604807628, 770255983, 1249150122, 1555081692, 1996064986,
      2554220882, 2821834349, 2952996808, 3210313671, 3336571891, 3584528711,
      113926993, 338241895, 666307205, 773529912, 1294757372, 1396182291,
      1695183700, 1986661051, 2177026350, 2456956037, 2730485921, 2820302411,
      3259730800, 3345764771, 3516065817, 3600352804, 4094571909, 275423344,
      430227734, 506948616, 659060556, 883997877, 958139571, 1322822218,
      1537002063, 1747873779, 1955562222, 2024104815, 2227730452, 2361852424,
      2428436474, 2756734187, 3204031479, 3329325298]"

definition sha_init :: "word32 list" where
  "sha_init =
     [1779033703, 3144134277, 1013904242, 2773480762,
      1359893119, 2600822924, 528734635, 1541459225]"

definition rotr32 :: "nat \<Rightarrow> word32 \<Rightarrow> word32" where
  "rotr32 n x = drop_bit n x OR push_bit (32 - n) x"

definition big_sigma :: "nat \<Rightarrow> nat \<Rightarrow> nat \<Rightarrow> word32 \<Rightarrow> word32" where
  "big_sigma a b c x = rotr32 a x XOR rotr32 b x XOR rotr32 c x"

definition small_sigma :: "nat \<Rightarrow> nat \<Rightarrow> nat \<Rightarrow> word32 \<Rightarrow> word32" where
  "small_sigma a b c x = rotr32 a x XOR rotr32 b x XOR drop_bit c x"

text \<open>
  The schedule keeps the last sixteen words, newest first, and produces the 64 words in order.
\<close>

fun sha_schedule :: "nat \<Rightarrow> word32 list \<Rightarrow> word32 list" where
  "sha_schedule 0 recent = []"
| "sha_schedule (Suc k) recent =
     (let w = small_sigma 17 19 10 (recent ! 1) + recent ! 6
              + small_sigma 7 18 3 (recent ! 14) + recent ! 15
      in w # sha_schedule k (w # take 15 recent))"

definition sha_words :: "word32 list \<Rightarrow> word32 list" where
  "sha_words block = block @ sha_schedule 48 (rev block)"

fun sha_round :: "word32 list \<Rightarrow> word32 \<times> word32 \<Rightarrow> word32 list" where
  "sha_round [a, b, c, d, e, f, g, h] (k, w) =
     (let t1 = h + big_sigma 6 11 25 e + ((e AND f) XOR (NOT e AND g)) + k + w;
          t2 = big_sigma 2 13 22 a + ((a AND b) XOR (a AND c) XOR (b AND c))
      in [t1 + t2, a, b, c, d + t1, e, f, g])"
| "sha_round s _ = s"

definition sha_block :: "word32 list \<Rightarrow> word32 list \<Rightarrow> word32 list" where
  "sha_block s block = map2 (+) s (fold (\<lambda>kw s. sha_round s kw) (zip sha_K (sha_words block)) s)"

section \<open>Padding and digest\<close>

definition word32_of_bytes :: "bytes \<Rightarrow> word32" where
  "word32_of_bytes bs = word_of_nat (from_bytes_be bs)"

fun chunks :: "nat \<Rightarrow> nat \<Rightarrow> 'a list \<Rightarrow> 'a list list" where
  "chunks 0 n xs = []"
| "chunks (Suc k) n xs = take n xs # chunks k n (drop n xs)"

definition sha_pad :: "bytes \<Rightarrow> bytes" where
  "sha_pad msg = msg @ 0x80 # replicate (nat ((55 - int (length msg)) mod 64)) 0
     @ to_bytes_be 8 (8 * length msg)"

definition sha256 :: "bytes \<Rightarrow> bytes" where
  "sha256 msg =
     (let m = sha_pad msg
      in concat (map (\<lambda>w. to_bytes_be 4 (unat w))
           (fold (\<lambda>b s. sha_block s (map word32_of_bytes (chunks 16 4 b)))
              (chunks (length m div 64) 64 m) sha_init)))"

definition sha256d :: "bytes \<Rightarrow> bytes" where
  "sha256d msg = sha256 (sha256 msg)"

section \<open>Shape\<close>

lemma length_sha_round: "length (sha_round s kw) = length s"
  by (cases "(s, kw)" rule: sha_round.cases) (simp_all add: Let_def)

lemma length_fold_same: "(\<And>x s. length (f x s) = length s) \<Longrightarrow> length (fold f xs s) = length s"
  by (induction xs arbitrary: s) simp_all

lemma length_sha_block: "length (sha_block s b) = length s"
  by (simp add: sha_block_def length_fold_same length_sha_round)

lemma length_concat_const: "(\<And>x. length (f x) = k) \<Longrightarrow> length (concat (map f xs)) = k * length xs"
  by (induction xs) simp_all

lemma length_sha256 [simp, byte_simps]: "length (sha256 msg) = 32"
proof -
  have "length sha_init = 8" by (simp add: sha_init_def)
  then show ?thesis
    by (simp add: sha256_def Let_def length_concat_const [where k = 4] length_fold_same length_sha_block)
qed

lemma length_sha256d [simp, byte_simps]: "length (sha256d msg) = 32"
  by (simp add: sha256d_def)

lemma length_sha_pad: "length (sha_pad msg) mod 64 = 0"
proof -
  have "int (length (sha_pad msg)) = int (length msg) + 9 + (55 - int (length msg)) mod 64"
    by (simp add: sha_pad_def)
  also have "\<dots> mod 64 = (int (length msg) + 9 + (55 - int (length msg))) mod 64"
    by (rule mod_add_right_eq)
  finally have "int (length (sha_pad msg) mod 64) = 0" by (simp add: zmod_int)
  then show ?thesis by simp
qed

end
