(* ===== verification/Base58.thy ===== *)
theory Base58
  imports Py_Values Sha256
begin

text \<open>
  Base58 as \<open>gen_founder_key.py\<close> writes it (\<open>b58check\<close>) and as \<open>gen_founder_key.py\<close>,
  \<open>treasury_spend.py\<close> and \<open>verify_address.py\<close> read it back, the framing of a payload with the
  first four bytes of its double hash, and the first character and length that a version byte
  forces on the text.
\<close>

section \<open>A checked text encoding of byte strings\<close>

text \<open>
  The interface of the readers: an encoding of bytes as text with its inverse on the texts over
  the alphabet, and a checksum of fixed length.
\<close>

locale checked_encoding =
  fixes enc :: "bytes \<Rightarrow> string" and dec :: "string \<Rightarrow> bytes" and ok :: "string \<Rightarrow> bool"
    and chk :: "bytes \<Rightarrow> bytes" and len :: nat
  assumes dec_enc: "dec (enc b) = b"
    and ok_enc: "ok (enc b)"
    and enc_dec: "ok s \<Longrightarrow> enc (dec s) = s"
    and length_chk: "length (chk b) = len"
begin

lemma enc_inj: "enc a = enc b \<longleftrightarrow> a = b"
  by (metis dec_enc)

text \<open>A text whose bytes end in the checksum of the rest is the encoding of the rest, framed.\<close>

lemma frame_iff:
  assumes "ok s" and "len \<le> length (dec s)"
  shows "chk (take (length (dec s) - len) (dec s)) = drop (length (dec s) - len) (dec s)
    \<longleftrightarrow> s = enc (take (length (dec s) - len) (dec s) @ chk (take (length (dec s) - len) (dec s)))"
    (is "?c = ?d \<longleftrightarrow> s = enc (?p @ ?c)")
proof
  assume "?c = ?d"
  then have "?p @ ?c = dec s" by simp
  then show "s = enc (?p @ ?c)" using enc_dec [OF assms(1)] by simp
next
  assume s: "s = enc (?p @ ?c)"
  have "dec (enc (?p @ ?c)) = ?p @ ?c" by (rule dec_enc)
  then have "dec s = ?p @ ?c" using s by simp
  then have "?p @ ?d = ?p @ ?c" by (simp only: append_take_drop_id)
  then show "?c = ?d" by (simp only: same_append_eq)
qed

lemma frame_take: "take (length (dec (enc (p @ chk p))) - len) (dec (enc (p @ chk p))) = p"
  and frame_drop: "drop (length (dec (enc (p @ chk p))) - len) (dec (enc (p @ chk p))) = chk p"
  by (simp_all add: dec_enc length_chk)

end

section \<open>The alphabet\<close>

definition B58 :: string where
  "B58 = ''123456789ABCDEFGHJKLMNPQRSTUVWXYZabcdefghijkmnopqrstuvwxyz''"

definition b58_index :: "char \<Rightarrow> nat" where
  "b58_index c = length (takeWhile (\<lambda>x. x \<noteq> c) B58)"

definition is_b58 :: "string \<Rightarrow> bool" where
  "is_b58 s = list_all (\<lambda>c. c \<in> set B58) s"

lemma length_B58 [simp]: "length B58 = 58"
  by (simp add: B58_def)

lemma distinct_B58: "distinct B58"
  by (simp add: B58_def)

lemma nth_b58_index [simp]: "c \<in> set B58 \<Longrightarrow> B58 ! b58_index c = c"
  using nth_length_takeWhile [of "\<lambda>x. x \<noteq> c" B58] length_takeWhile_le [of "\<lambda>x. x \<noteq> c" B58]
  unfolding b58_index_def
  by (metis (mono_tags, lifting) le_neq_implies_less takeWhile_eq_all_conv takeWhile_eq_take take_all_iff order_refl)

lemma b58_index_less [simp]: "c \<in> set B58 \<Longrightarrow> b58_index c < 58"
  unfolding b58_index_def
  by (metis (mono_tags, lifting) length_B58 length_takeWhile_le nat_less_le takeWhile_eq_all_conv
      takeWhile_eq_take take_all_iff order_refl)

lemma b58_index_nth [simp]: "d < 58 \<Longrightarrow> b58_index (B58 ! d) = d"
proof -
  assume d: "d < 58"
  then have c: "B58 ! d \<in> set B58" by simp
  have "B58 ! b58_index (B58 ! d) = B58 ! d" using c by simp
  then show ?thesis
    using nth_eq_iff_index_eq [OF distinct_B58, of "b58_index (B58 ! d)" d] b58_index_less [OF c] d
    by (simp only: length_B58)
qed

lemma B58_not_space: "list_all (\<lambda>c. \<not> is_space c) B58"
  by (simp add: B58_def is_space_def)

lemma b58_zero: "B58 ! 0 = CHR ''1''"
  by (simp add: B58_def)

lemma b58_index_one: "c \<in> set B58 \<Longrightarrow> b58_index c = 0 \<longleftrightarrow> c = CHR ''1''"
  by (metis b58_zero nth_b58_index b58_index_nth zero_less_numeral)

section \<open>Writing\<close>

text \<open>The \<open>while n\<close> loop of \<open>b58check\<close>, and the leading zero bytes it puts in front.\<close>

function b58_loop :: "nat \<Rightarrow> string \<Rightarrow> string" where
  "b58_loop n out = (if n = 0 then out else b58_loop (n div 58) (B58 ! (n mod 58) # out))"
  by pat_completeness auto
termination by (relation "measure fst") auto

declare b58_loop.simps [simp del]

fun b58_ones :: "bytes \<Rightarrow> string \<Rightarrow> string" where
  "b58_ones [] out = out"
| "b58_ones (b # raw) out = (if b \<noteq> 0 then out else b58_ones raw (CHR ''1'' # out))"

definition b58_encode :: "bytes \<Rightarrow> string" where
  "b58_encode raw = b58_ones raw (b58_loop (from_bytes_be raw) [])"

definition checksum4 :: "bytes \<Rightarrow> bytes" where
  "checksum4 payload = take 4 (sha256 (sha256 payload))"

definition b58check :: "bytes \<Rightarrow> string" where
  "b58check payload = b58_encode (payload @ checksum4 payload)"

lemma b58_loop_digs: "b58_loop n out = map (nth B58) (rev (digs 58 n)) @ out"
proof (induction n arbitrary: out rule: less_induct)
  case (less n)
  show ?case
  proof (cases "n = 0")
    case False
    then have "n div 58 < n" by simp
    with less False show ?thesis by (subst b58_loop.simps) (simp add: digs_pos)
  qed (simp add: b58_loop.simps)
qed

lemma b58_ones_replicate:
  "b58_ones raw out = replicate (length (takeWhile (\<lambda>b. b = 0) raw)) (CHR ''1'') @ out"
  by (induction raw arbitrary: out) (simp_all add: replicate_app_Cons_same)

lemma b58_encode_eq:
  "b58_encode raw = replicate (length (takeWhile (\<lambda>b. b = 0) raw)) (CHR ''1'')
     @ map (nth B58) (rev (digs 58 (from_bytes_be raw)))"
  by (simp add: b58_encode_def b58_ones_replicate b58_loop_digs)

lemma length_checksum4 [simp]: "length (checksum4 p) = 4"
  by (simp add: checksum4_def)

section \<open>Reading\<close>

text \<open>The accumulation \<open>n = n * 58 + index\<close> and the bytes both readers build from it.\<close>

definition b58_value :: "string \<Rightarrow> nat" where
  "b58_value s = foldl (\<lambda>n c. n * 58 + b58_index c) 0 s"

definition b58_decode :: "string \<Rightarrow> bytes" where
  "b58_decode s =
     replicate (length s - length (dropWhile (\<lambda>c. c = CHR ''1'') s)) 0
     @ minimal_bytes_be (b58_value s)"

lemma b58_value_undigs: "b58_value s = undigs 58 (rev (map b58_index s))"
proof (induction s rule: rev_induct)
  case (snoc c s)
  then show ?case by (simp add: b58_value_def)
qed (simp add: b58_value_def)

lemma length_diff_dropWhile: "length s - length (dropWhile P s) = length (takeWhile P s)"
  by (metis add_diff_cancel_right' length_append takeWhile_dropWhile_id)

lemma b58_value_digits: "b58_value (map (nth B58) (rev (digs 58 n))) = n"
proof -
  have "map (b58_index \<circ> nth B58) (digs 58 n) = digs 58 n"
    using digs_less [of 58 _ n] by (auto intro!: map_idI)
  then show ?thesis by (simp add: b58_value_undigs rev_map)
qed

lemma b58_value_ones: "b58_value (replicate k (CHR ''1'') @ s) = b58_value s"
proof -
  have "b58_index (CHR ''1'') = 0" using b58_index_nth [of 0] by (simp add: b58_zero)
  then show ?thesis by (simp add: b58_value_undigs undigs_append)
qed

lemma rev_last: "xs \<noteq> [] \<Longrightarrow> rev xs = last xs # rev (butlast xs)"
  by (induction xs rule: rev_induct) simp_all

lemma hd_digits_not_one:
  "n \<noteq> 0 \<Longrightarrow> \<exists>c t. map (nth B58) (rev (digs 58 n)) = c # t \<and> c \<noteq> CHR ''1''"
proof -
  assume n: "n \<noteq> 0"
  then have ne: "digs 58 n \<noteq> []" by simp
  have l: "last (digs 58 n) \<noteq> 0" "last (digs 58 n) < 58"
    using last_digs [of 58 n] digs_less [of 58 _ n] n ne by auto
  then have "B58 ! last (digs 58 n) \<noteq> B58 ! 0"
    using nth_eq_iff_index_eq [OF distinct_B58] by simp
  moreover have "rev (digs 58 n) = last (digs 58 n) # rev (butlast (digs 58 n))"
    using ne by (rule rev_last)
  ultimately show ?thesis by (simp only: list.map) (simp add: b58_zero)
qed

lemma b58_decode_encode: "b58_decode (b58_encode raw) = raw"
proof -
  let ?z = "length (takeWhile (\<lambda>b. b = 0) raw)" and ?n = "from_bytes_be raw"
  let ?t = "map (nth B58) (rev (digs 58 ?n))"
  have "takeWhile (\<lambda>c. c = CHR ''1'') ?t = []"
    using hd_digits_not_one [of ?n] by (cases "?n = 0") auto
  then have "length (takeWhile (\<lambda>c. c = CHR ''1'') (b58_encode raw)) = ?z"
    by (simp add: b58_encode_eq takeWhile_append)
  moreover have "b58_value (b58_encode raw) = ?n"
    by (simp add: b58_encode_eq b58_value_ones b58_value_digits)
  ultimately show ?thesis
    by (simp add: b58_decode_def length_diff_dropWhile minimal_from_bytes_be replicate_dropWhile)
qed

lemma hd_minimal_bytes: "n \<noteq> 0 \<Longrightarrow> \<exists>b t. minimal_bytes_be n = b # t \<and> b \<noteq> 0"
proof -
  assume n: "n \<noteq> 0"
  then have ne: "digs 256 n \<noteq> []" by simp
  have l: "last (digs 256 n) \<noteq> 0" "last (digs 256 n) < 256"
    using last_digs [of 256 n] digs_less [of 256 _ n] n ne by auto
  then have "word_of_nat (last (digs 256 n)) \<noteq> (0 :: byte)"
    by (metis mod_less unat_byte_of_nat unat_0)
  moreover have "rev (digs 256 n) = last (digs 256 n) # rev (butlast (digs 256 n))"
    using ne by (rule rev_last)
  ultimately show ?thesis by (simp only: minimal_bytes_be_digs rev_map list.map) simp
qed

lemma from_minimal_bytes: "from_bytes_be (minimal_bytes_be n) = n"
proof -
  have "map (unat \<circ> (word_of_nat :: nat \<Rightarrow> byte)) (digs 256 n) = digs 256 n"
    using digs_less [of 256 _ n] by (auto intro!: map_idI)
  then show ?thesis
    by (simp add: minimal_bytes_be_digs from_bytes_be_def from_bytes_le_def)
qed

lemma from_bytes_be_zeros: "from_bytes_be (replicate k 0 @ bs) = from_bytes_be bs"
  by (induction k) (simp_all add: from_bytes_be_Cons)

lemma b58_encode_decode:
  assumes "is_b58 s"
  shows "b58_encode (b58_decode s) = s"
proof -
  let ?one = "\<lambda>c. c = CHR ''1''"
  let ?k = "length (takeWhile ?one s)" and ?t = "dropWhile ?one s"
  have sp: "s = replicate ?k (CHR ''1'') @ ?t" by (simp add: replicate_dropWhile)
  have v: "b58_value s = b58_value ?t" by (subst sp) (rule b58_value_ones)
  have t: "\<forall>c \<in> set ?t. c \<in> set B58"
    using assms by (auto simp: is_b58_def list_all_iff dest: set_dropWhileD)
  have "?t \<noteq> [] \<Longrightarrow> b58_index (hd ?t) \<noteq> 0"
    using hd_dropWhile [of ?one s] t b58_index_one [of "hd ?t"] hd_in_set [of ?t] by auto
  then have "proper_digits 58 (rev (map b58_index ?t))"
    using t by (auto simp: proper_digits_def last_rev hd_map)
  then have d: "digs 58 (b58_value ?t) = rev (map b58_index ?t)"
    by (simp add: b58_value_undigs digs_undigs)
  have b: "map (nth B58) (map b58_index ?t) = ?t"
    unfolding map_map using t by (intro map_idI) auto
  have z: "takeWhile (\<lambda>x. x = 0) (minimal_bytes_be (b58_value s)) = []"
    using hd_minimal_bytes [of "b58_value s"] by (cases "b58_value s = 0") auto
  then have "takeWhile (\<lambda>x. x = 0) (b58_decode s) = replicate ?k 0"
    by (simp add: b58_decode_def length_diff_dropWhile takeWhile_append)
  then have "b58_encode (b58_decode s)
      = replicate ?k (CHR ''1'') @ map (nth B58) (rev (digs 58 (b58_value s)))"
    by (simp add: b58_encode_eq b58_decode_def from_bytes_be_zeros from_minimal_bytes)
  also have "\<dots> = s" using sp d b v by simp
  finally show ?thesis .
qed

lemma is_b58_encode: "is_b58 (b58_encode raw)"
  using digs_less [of 58 _ "from_bytes_be raw"] b58_zero
  by (auto simp: is_b58_def b58_encode_eq list_all_iff) (metis length_B58 nth_mem zero_less_numeral)

interpretation b58: checked_encoding b58_encode b58_decode is_b58 checksum4 4
  by unfold_locales (simp_all add: b58_decode_encode is_b58_encode b58_encode_decode)

lemma strip_b58 [simp]: "is_b58 s \<Longrightarrow> strip s = s"
proof -
  assume s: "is_b58 s"
  have "\<not> is_space c" if "c \<in> set s" for c
    using s that B58_not_space by (auto simp: is_b58_def list_all_iff)
  then have "dropWhile is_space s = s" "dropWhile is_space (rev s) = rev s"
    by (metis dropWhile_eq_self_iff hd_in_set, metis dropWhile_eq_self_iff hd_in_set set_rev)
  then show ?thesis by (simp add: strip_def lstrip_def rstrip_def)
qed

section \<open>The first character and the length that a version byte forces\<close>

lemma b58check_shape:
  assumes v: "v < 256" "0 < v" and len: "length payload = m"
    and lo: "d * 58 ^ k \<le> v * 256 ^ (m + 4)" and hi: "(v + 1) * 256 ^ (m + 4) \<le> (d + 1) * 58 ^ k"
    and d: "0 < d" "d < 58"
  shows "length (b58check (word_of_nat v # payload)) = Suc k
    \<and> hd (b58check (word_of_nat v # payload)) = B58 ! d"
proof -
  let ?raw = "(word_of_nat v # payload) @ checksum4 (word_of_nat v # payload)"
  let ?n = "from_bytes_be ?raw"
  let ?rest = "from_bytes_be (payload @ checksum4 (word_of_nat v # payload))"
  have n: "?n = v * 256 ^ (m + 4) + ?rest"
    using v len by (simp add: from_bytes_be_Cons mult.commute)
  have rest: "?rest < 256 ^ (m + 4)"
    using from_bytes_be_less [of "payload @ checksum4 (word_of_nat v # payload)"] len by simp
  have n_lo: "d * 58 ^ k \<le> ?n" using lo n by linarith
  have "?n < (v + 1) * 256 ^ (m + 4)" using n rest by (simp add: distrib_right)
  with hi have n_hi: "?n < (d + 1) * 58 ^ k" by linarith
  have "1 * 58 ^ k \<le> d * 58 ^ k" using d by (intro mult_right_mono) simp_all
  then have "58 ^ k \<le> ?n" using n_lo by linarith
  moreover have "(d + 1) * 58 ^ k \<le> 58 * 58 ^ k" using d by (intro mult_right_mono) simp_all
  then have "?n < 58 ^ Suc k" unfolding power_Suc by (rule less_le_trans [OF n_hi])
  ultimately have length: "length (digs 58 ?n) = Suc k" by (intro length_digs_eq) simp_all
  have "last (digs 58 ?n) = ?n div 58 ^ k" using length by (intro digs_nth_top) simp_all
  also have "\<dots> = d" using n_lo n_hi by (intro div_nat_eqI) (simp_all add: mult.commute)
  finally have last: "last (digs 58 ?n) = d" .
  have "(word_of_nat v :: byte) \<noteq> 0" using v by (metis mod_less unat_byte_of_nat unat_0 neq0_conv)
  then have enc: "b58check (word_of_nat v # payload) = map (nth B58) (rev (digs 58 ?n))"
    by (simp add: b58check_def b58_encode_eq)
  have "digs 58 ?n \<noteq> []" using length by (metis list.size(3) nat.distinct(1))
  then show ?thesis using length last unfolding enc by (simp only: hd_map hd_rev length_map length_rev
      rev_is_Nil_conv conj_absorb simp_thms)
qed

end
