(* ===== verification/Founder_Key.thy ===== *)
theory Founder_Key
  imports Base58
begin

text \<open>
  \<open>scripts/gen_founder_key.py\<close>: secp256k1 by double-and-add, RIPEMD-160, addresses and WIF
  private keys, reading a WIF back, the offline gate, the check of a paper backup and the key
  generation of \<open>main\<close>. What the operating system decides (the random draws, whether a route
  exists, what is typed) is an argument; what is printed or written is the list of outputs.
\<close>

section \<open>secp256k1\<close>

definition secp_P :: int where
  "secp_P = 0xFFFFFFFFFFFFFFFFFFFFFFFFFFFFFFFFFFFFFFFFFFFFFFFFFFFFFFFEFFFFFC2F"

definition secp_N :: int where
  "secp_N = 0xFFFFFFFFFFFFFFFFFFFFFFFFFFFFFFFEBAAEDCE6AF48A03BBFD25E8CD0364141"

definition secp_GX :: int where
  "secp_GX = 0x79BE667EF9DCBBAC55A06295CE870B07029BFCDB2DCE28D959F2815B16F81798"

definition secp_GY :: int where
  "secp_GY = 0x483ADA7726A3C4655DA4FBFC0E1108A8FD17B448A68554199C47D08FFB10D4B8"

text \<open>Python's \<open>pow(a, e, m)\<close>, by squaring.\<close>

fun pow_mod :: "int \<Rightarrow> nat \<Rightarrow> int \<Rightarrow> int" where
  "pow_mod a e m =
     (if e = 0 then 1 mod m
      else let h = pow_mod (a * a mod m) (e div 2) m
           in if even e then h else a * h mod m)"

declare pow_mod.simps [simp del]

definition inv_mod :: "int \<Rightarrow> int \<Rightarrow> int" where
  "inv_mod a m = pow_mod a (nat (m - 2)) m"

type_synonym point = "(int \<times> int) option"

fun point_add :: "point \<Rightarrow> point \<Rightarrow> point" where
  "point_add None p2 = p2"
| "point_add (Some p1) None = Some p1"
| "point_add (Some (x1, y1)) (Some (x2, y2)) =
     (if x1 = x2 \<and> (y1 + y2) mod secp_P = 0 then None
      else let lam = (if x1 = x2 then (3 * x1 * x1) * inv_mod (2 * y1) secp_P mod secp_P
                      else (y2 - y1) * inv_mod (x2 - x1) secp_P mod secp_P);
               x3 = (lam * lam - x1 - x2) mod secp_P
           in Some (x3, (lam * (x1 - x3) - y1) mod secp_P))"

text \<open>The \<open>while k\<close> loop of \<open>_mul\<close>.\<close>

function mul_loop :: "nat \<Rightarrow> point \<Rightarrow> point \<Rightarrow> point" where
  "mul_loop k result addend =
     (if k = 0 then result
      else mul_loop (k div 2) (if odd k then point_add result addend else result)
             (point_add addend addend))"
  by pat_completeness auto
termination by (relation "measure fst") auto

declare mul_loop.simps [simp del]

definition point_mul :: "nat \<Rightarrow> point" where
  "point_mul k = mul_loop k None (Some (secp_GX, secp_GY))"

definition privkey_to_pubkey :: "nat \<Rightarrow> bool \<Rightarrow> py_error + bytes" where
  "privkey_to_pubkey priv compressed =
     (case point_mul priv of
        None \<Rightarrow> Inl TypeError
      | Some (x, y) \<Rightarrow>
          Inr (if compressed then word_of_int (2 + y mod 2) # to_bytes_be 32 (nat x)
               else 4 # to_bytes_be 32 (nat x) @ to_bytes_be 32 (nat y)))"

section \<open>RIPEMD-160\<close>

definition rmd_R :: "nat list list" where
  "rmd_R = [
      [0, 1, 2, 3, 4, 5, 6, 7, 8, 9, 10, 11, 12, 13, 14, 15],
      [7, 4, 13, 1, 10, 6, 15, 3, 12, 0, 9, 5, 2, 14, 11, 8],
      [3, 10, 14, 4, 9, 15, 8, 1, 2, 7, 0, 6, 13, 11, 5, 12],
      [1, 9, 11, 10, 0, 8, 12, 4, 13, 3, 7, 15, 14, 5, 6, 2],
      [4, 0, 5, 9, 7, 12, 2, 10, 14, 1, 3, 8, 11, 6, 15, 13]]"

definition rmd_RP :: "nat list list" where
  "rmd_RP = [
      [5, 14, 7, 0, 9, 2, 11, 4, 13, 6, 15, 8, 1, 10, 3, 12],
      [6, 11, 3, 7, 0, 13, 5, 10, 14, 15, 8, 12, 4, 9, 1, 2],
      [15, 5, 1, 3, 7, 14, 6, 9, 11, 8, 12, 2, 10, 0, 4, 13],
      [8, 6, 4, 1, 3, 11, 15, 0, 5, 12, 2, 13, 9, 7, 10, 14],
      [12, 15, 10, 4, 1, 5, 8, 7, 6, 2, 13, 14, 0, 3, 9, 11]]"

definition rmd_S :: "nat list list" where
  "rmd_S = [
      [11, 14, 15, 12, 5, 8, 7, 9, 11, 13, 14, 15, 6, 7, 9, 8],
      [7, 6, 8, 13, 11, 9, 7, 15, 7, 12, 15, 9, 11, 7, 13, 12],
      [11, 13, 6, 7, 14, 9, 13, 15, 14, 8, 13, 6, 5, 12, 7, 5],
      [11, 12, 14, 15, 14, 15, 9, 8, 9, 14, 5, 6, 8, 6, 5, 12],
      [9, 15, 5, 11, 6, 8, 13, 12, 5, 12, 13, 14, 11, 8, 5, 6]]"

definition rmd_SP :: "nat list list" where
  "rmd_SP = [
      [8, 9, 9, 11, 13, 15, 15, 5, 7, 7, 8, 11, 14, 14, 12, 6],
      [9, 13, 15, 7, 12, 8, 9, 11, 7, 7, 12, 7, 6, 15, 13, 11],
      [9, 7, 15, 11, 8, 6, 6, 14, 12, 13, 5, 14, 13, 13, 7, 5],
      [15, 5, 8, 11, 14, 14, 6, 14, 6, 9, 12, 9, 12, 5, 15, 8],
      [8, 5, 12, 9, 12, 5, 14, 6, 8, 13, 6, 5, 15, 13, 11, 11]]"

definition rmd_K :: "word32 list" where
  "rmd_K = [0x00000000, 0x5A827999, 0x6ED9EBA1, 0x8F1BBCDC, 0xA953FD4E]"

definition rmd_KP :: "word32 list" where
  "rmd_KP = [0x50A28BE6, 0x5C4DD124, 0x6D703EF3, 0x7A6D76E9, 0x00000000]"

definition rol :: "word32 \<Rightarrow> nat \<Rightarrow> word32" where
  "rol x n = push_bit n x OR drop_bit (32 - n) x"

definition rmd_f :: "nat \<Rightarrow> word32 \<Rightarrow> word32 \<Rightarrow> word32 \<Rightarrow> word32" where
  "rmd_f round_index x y z =
     (if round_index = 0 then x XOR y XOR z
      else if round_index = 1 then (x AND y) OR (NOT x AND z)
      else if round_index = 2 then (x OR NOT y) XOR z
      else if round_index = 3 then (x AND z) OR (y AND NOT z)
      else x XOR (y OR NOT z))"

type_synonym rmd_state = "word32 \<times> word32 \<times> word32 \<times> word32 \<times> word32"

text \<open>One step of a line: the additive constant, the word index and the rotation differ.\<close>

definition rmd_step ::
  "word32 list \<Rightarrow> nat \<Rightarrow> nat \<Rightarrow> word32 \<Rightarrow> nat \<Rightarrow> rmd_state \<Rightarrow> rmd_state" where
  "rmd_step x fi ri k s st = (case st of (a, b, c, d, e) \<Rightarrow>
     let t = rol (a + rmd_f fi b c d + x ! ri + k) s + e
     in (e, t, b, rol c 10, d))"

definition rmd_round :: "word32 list \<Rightarrow> nat \<Rightarrow> rmd_state \<times> rmd_state \<Rightarrow> rmd_state \<times> rmd_state" where
  "rmd_round x j st =
     (let rnd = j div 16; i = j mod 16
      in (rmd_step x rnd (rmd_R ! rnd ! i) (rmd_K ! rnd) (rmd_S ! rnd ! i) (fst st),
          rmd_step x (4 - rnd) (rmd_RP ! rnd ! i) (rmd_KP ! rnd) (rmd_SP ! rnd ! i) (snd st)))"

definition rmd_block :: "rmd_state \<Rightarrow> bytes \<Rightarrow> rmd_state" where
  "rmd_block h block =
     (let x = map (\<lambda>w. word_of_nat (from_bytes_le w)) (chunks 16 4 block)
      in case fold (rmd_round x) [0..<80] (h, h) of
           ((a, b, c, d, e), (ap, bp, cp, dp, ep)) \<Rightarrow>
             (case h of (h0, h1, h2, h3, h4) \<Rightarrow>
                (h1 + c + dp, h2 + d + ep, h3 + e + ap, h4 + a + bp, h0 + b + cp)))"

definition rmd_pad :: "bytes \<Rightarrow> bytes" where
  "rmd_pad data = data @ 0x80 # replicate (nat ((55 - int (length data)) mod 64)) 0
     @ to_bytes_le 8 ((length data * 8) mod 2 ^ 64)"

definition ripemd160 :: "bytes \<Rightarrow> bytes" where
  "ripemd160 data =
     (let msg = rmd_pad data
      in case fold (\<lambda>b h. rmd_block h b) (chunks (length msg div 64) 64 msg)
                (0x67452301, 0xEFCDAB89, 0x98BADCFE, 0x10325476, 0xC3D2E1F0) of
           (h0, h1, h2, h3, h4) \<Rightarrow>
             concat (map (\<lambda>v. to_bytes_le 4 (unat v)) [h0, h1, h2, h3, h4]))"

section \<open>Addresses and private keys as text\<close>

definition hash160 :: "bytes \<Rightarrow> bytes" where
  "hash160 b = ripemd160 (sha256 b)"

definition to_address :: "bytes \<Rightarrow> byte \<Rightarrow> string" where
  "to_address pubkey version = b58check (version # hash160 pubkey)"

definition to_wif :: "nat \<Rightarrow> byte \<Rightarrow> bool \<Rightarrow> string" where
  "to_wif priv version compressed =
     b58check (version # to_bytes_be 32 priv @ (if compressed then [1] else []))"

record network_prefixes =
  np_pubkey :: byte
  np_script :: byte
  np_secret :: byte
  np_addr_char :: char
  np_wif_char :: char

definition NETWORKS :: "(string \<times> network_prefixes) list" where
  "NETWORKS =
     [(''mainnet'', \<lparr>np_pubkey = 73, np_script = 135, np_secret = 190,
                     np_addr_char = CHR ''W'', np_wif_char = CHR ''V''\<rparr>),
      (''testnet'', \<lparr>np_pubkey = 65, np_script = 128, np_secret = 239,
                     np_addr_char = CHR ''T'', np_wif_char = CHR ''c''\<rparr>)]"

definition wif_to_privkey :: "string \<Rightarrow> py_error + nat \<times> byte \<times> bool" where
  "wif_to_privkey wif0 =
     (let wif = strip wif0
      in if \<not> is_b58 wif then Inl ValueError
         else let raw = b58_decode wif
           in if length raw \<noteq> 37 \<and> length raw \<noteq> 38 then Inl ValueError
              else let payload = take (length raw - 4) raw; checksum = drop (length raw - 4) raw
                in if take 4 (sha256 (sha256 payload)) \<noteq> checksum then Inl ValueError
                   else let compressed = (length payload = 34 \<and> last payload = 1);
                            key_bytes = take 32 (drop 1 payload)
                     in Inr (from_bytes_be key_bytes, hd payload, compressed))"

section \<open>The ceremony\<close>

text \<open>
  For each of the three resolvers, the local address that connecting a UDP socket to it selects;
  \<open>None\<close> is an \<open>OSError\<close>.
\<close>

definition machine_is_online :: "(string \<Rightarrow> string option) \<Rightarrow> bool" where
  "machine_is_online probe =
     list_ex (\<lambda>host. case probe host of
                None \<Rightarrow> False
              | Some address \<Rightarrow> address \<noteq> [] \<and> \<not> starts_with ''127.'' address)
       [''1.1.1.1'', ''8.8.8.8'', ''9.9.9.9'']"

definition offline_gate :: "(string \<Rightarrow> string option) \<Rightarrow> string \<Rightarrow> bool \<Rightarrow> bool" where
  "offline_gate probe network override =
     (if \<not> machine_is_online probe then True
      else if network \<noteq> ''mainnet'' then True
      else override)"

text \<open>What is typed is \<open>None\<close> when the prompt is cancelled; the result is the exit code.\<close>

definition verify_backup :: "string \<Rightarrow> string option \<Rightarrow> py_error + int" where
  "verify_backup expected_address typed =
     (case typed of
        None \<Rightarrow> Inr 2
      | Some text \<Rightarrow>
          let wif = strip text
          in if wif = [] then Inr 2
             else (case wif_to_privkey wif of
               Inl e \<Rightarrow> Inr 1
             | Inr (priv, version, compressed) \<Rightarrow>
                 if \<not> (1 \<le> int priv \<and> int priv < secp_N) then Inr 1
                 else (case find (\<lambda>(net, cfg). np_secret cfg = version) NETWORKS of
                    None \<Rightarrow> Inr 1
                  | Some (net, cfg) \<Rightarrow>
                      rbind (privkey_to_pubkey priv compressed) (\<lambda>pub.
                        Inr (if to_address pub (np_pubkey cfg) = expected_address then 0 else 1)))))"

record keygen_args =
  ka_network :: "string option"
  ka_override :: bool
  ka_out :: "string option"
  ka_address_out :: "string option"
  ka_verify :: "string option"

datatype keygen_output =
    Banner string string
  | Address_File string string
  | Key_File string string string

text \<open>\<open>secrets.randbits(256)\<close> is drawn until the scalar is in range.\<close>

fun draw_key :: "nat list \<Rightarrow> nat option" where
  "draw_key [] = None"
| "draw_key (priv # draws) =
     (if 1 \<le> int priv \<and> int priv < secp_N then Some priv else draw_key draws)"

definition keygen_create ::
  "keygen_args \<Rightarrow> string \<Rightarrow> (string \<Rightarrow> string option) \<Rightarrow> nat list
     \<Rightarrow> ((py_error + int) \<times> keygen_output list) option" where
  "keygen_create args network probe draws =
     (case map_of NETWORKS network of
        None \<Rightarrow> Some (Inl (SystemExit 2), [])
      | Some cfg \<Rightarrow>
          if \<not> offline_gate probe network (ka_override args) then Some (Inr 1, [])
          else (case draw_key draws of
             None \<Rightarrow> None
           | Some priv \<Rightarrow>
               (case privkey_to_pubkey priv True of
                  Inl e \<Rightarrow> Some (Inl e, [])
                | Inr pub \<Rightarrow>
                    let address = to_address pub (np_pubkey cfg);
                        wif = to_wif priv (np_secret cfg) True
                    in if hd address \<noteq> np_addr_char cfg then Some (Inl AssertionError, [])
                       else if hd wif \<noteq> np_wif_char cfg then Some (Inl AssertionError, [])
                       else if length (hash160 pub) \<noteq> 20 then Some (Inl AssertionError, [])
                       else Some (Inr 0,
                         Banner address wif
                         # (case ka_address_out args of
                              Some f \<Rightarrow> if f \<noteq> [] then [Address_File f address] else [] | None \<Rightarrow> [])
                         @ (case ka_out args of
                              Some f \<Rightarrow> if f \<noteq> [] then [Key_File f address wif] else []
                            | None \<Rightarrow> [])))))"

text \<open>
  \<open>main\<close> without its self-test: the exit code or exception, with what was printed or written.
  \<open>None\<close> is a rejection loop that is still drawing.
\<close>

definition keygen_main ::
  "keygen_args \<Rightarrow> (string \<Rightarrow> string option) \<Rightarrow> nat list \<Rightarrow> string option
     \<Rightarrow> ((py_error + int) \<times> keygen_output list) option" where
  "keygen_main args probe draws typed =
     (case ka_verify args of
        Some address \<Rightarrow>
          if address \<noteq> [] then Some (verify_backup address typed, [])
          else (case ka_network args of
             None \<Rightarrow> Some (Inl (SystemExit 2), [])
           | Some network \<Rightarrow> keygen_create args network probe draws)
      | None \<Rightarrow>
          (case ka_network args of
             None \<Rightarrow> Some (Inl (SystemExit 2), [])
           | Some network \<Rightarrow> keygen_create args network probe draws))"

section \<open>Modular arithmetic\<close>

lemma pow_mod: "pow_mod a e m = a ^ e mod m"
proof (induction a e m rule: pow_mod.induct)
  case (1 a e m)
  show ?case
  proof (cases "e = 0")
    case False
    with 1 have IH: "pow_mod (a * a mod m) (e div 2) m = (a * a) ^ (e div 2) mod m"
      by (simp add: power_mod)
    have sq: "(a * a) ^ (e div 2) = a ^ (2 * (e div 2))"
      by (simp add: power_mult power2_eq_square)
    have e: "e = 2 * (e div 2) + e mod 2" by presburger
    show ?thesis
    proof (cases "even e")
      case True
      then have "2 * (e div 2) = e" by simp
      with True False IH sq show ?thesis by (subst pow_mod.simps) (simp add: Let_def)
    next
      case odd: False
      then have "Suc (2 * (e div 2)) = e" by presburger
      then have "a * a ^ (2 * (e div 2)) = a ^ e" by (metis power_Suc)
      with odd False IH sq show ?thesis by (subst pow_mod.simps) (simp add: Let_def mod_mult_right_eq)
    qed
  qed (simp add: pow_mod.simps)
qed

text \<open>A point has coordinates in the field.\<close>

fun in_field :: "point \<Rightarrow> bool" where
  "in_field None = True"
| "in_field (Some (x, y)) = (0 \<le> x \<and> x < secp_P \<and> 0 \<le> y \<and> y < secp_P)"

lemma secp_P_pos: "0 < secp_P"
  by (simp add: secp_P_def)

lemma in_field_add: "in_field p1 \<Longrightarrow> in_field p2 \<Longrightarrow> in_field (point_add p1 p2)"
  by (cases "(p1, p2)" rule: point_add.cases) (auto simp: Let_def secp_P_pos)

lemma in_field_loop: "in_field r \<Longrightarrow> in_field a \<Longrightarrow> in_field (mul_loop k r a)"
proof (induction k r a rule: mul_loop.induct)
  case (1 k r a)
  then show ?case by (subst mul_loop.simps) (simp add: in_field_add)
qed

lemma in_field_mul: "in_field (point_mul k)"
  by (simp add: point_mul_def in_field_loop secp_P_def secp_GX_def secp_GY_def)

lemma field_32_bytes: "x < secp_P \<Longrightarrow> nat x < 256 ^ 32"
  by (simp add: secp_P_def nat_less_iff)

section \<open>Lengths, first characters and round trips\<close>

lemma length_ripemd160 [simp, byte_simps]: "length (ripemd160 b) = 20"
  by (simp add: ripemd160_def Let_def split: prod.split)

lemma length_hash160 [simp, byte_simps]: "length (hash160 b) = 20"
  by (simp add: hash160_def)

lemma address_shape:
  "length (to_address pub 73) = 34 \<and> hd (to_address pub 73) = CHR ''W''"
  "length (to_address pub 65) = 34 \<and> hd (to_address pub 65) = CHR ''T''"
  using b58check_shape [of 73 "hash160 pub" 20 29 33] b58check_shape [of 65 "hash160 pub" 20 26 33]
  by (simp_all add: to_address_def B58_def)

lemma wif_shape:
  "length (to_wif k 190 True) = 52 \<and> hd (to_wif k 190 True) = CHR ''V''"
  "length (to_wif k 239 True) = 52 \<and> hd (to_wif k 239 True) = CHR ''c''"
  using b58check_shape [of 190 "to_bytes_be 32 k @ [1]" 33 28 51]
    b58check_shape [of 239 "to_bytes_be 32 k @ [1]" 33 35 51]
  by (simp_all add: to_wif_def B58_def)

lemma is_b58_check [simp]: "is_b58 (b58check p)"
  by (simp add: b58check_def is_b58_encode)

lemma decode_b58check: "b58_decode (b58check p) = p @ checksum4 p"
  by (simp add: b58check_def b58_decode_encode)

lemma wif_to_privkey_check:
  assumes "length p = 33 \<or> length p = 34"
  shows "wif_to_privkey (b58check p)
    = Inr (from_bytes_be (take 32 (drop 1 p)), hd p, length p = 34 \<and> last p = 1)"
  using assms
  by (auto simp: wif_to_privkey_def Let_def decode_b58check checksum4_def [symmetric])

lemma wif_to_privkey_wif:
  assumes "k < 2 ^ 256"
  shows "wif_to_privkey (to_wif k v c) = Inr (k, v, c)"
proof -
  have k: "k < 256 ^ 32" using assms by simp
  have "from_bytes_be (to_bytes_be 32 k) = k" by (rule from_to_bytes_be_id [OF k])
  then show ?thesis by (cases c) (simp_all add: to_wif_def wif_to_privkey_check)
qed

section \<open>The paper backup and the key generation\<close>

lemma networks_cases:
  "map_of NETWORKS net = Some cfg \<Longrightarrow>
   (net = ''mainnet'' \<and> np_pubkey cfg = 73 \<and> np_secret cfg = 190 \<and> np_addr_char cfg = CHR ''W''
      \<and> np_wif_char cfg = CHR ''V'')
   \<or> (net = ''testnet'' \<and> np_pubkey cfg = 65 \<and> np_secret cfg = 239 \<and> np_addr_char cfg = CHR ''T''
      \<and> np_wif_char cfg = CHR ''c'')"
  by (auto simp: NETWORKS_def split: if_splits)

lemma find_network:
  "map_of NETWORKS net = Some cfg \<Longrightarrow>
   find (\<lambda>(n, c). np_secret c = np_secret cfg) NETWORKS = Some (net, cfg)"
  by (auto simp: NETWORKS_def split: if_splits)

lemma secp_N_bound: "int k < secp_N \<Longrightarrow> k < 2 ^ 256"
proof -
  assume "int k < secp_N"
  then have "int k < 2 ^ 256" by (simp add: secp_N_def)
  then have "int k < int (2 ^ 256)" by simp
  then show ?thesis by (simp only: of_nat_less_iff)
qed

lemma draw_key_range: "draw_key draws = Some k \<Longrightarrow> 1 \<le> int k \<and> int k < secp_N"
  by (induction draws) (auto split: if_splits)

lemma to_wif_not_Nil [simp]: "to_wif k v c \<noteq> []"
proof
  assume "to_wif k v c = []"
  then have "b58_decode (to_wif k v c) = []" by (simp add: b58_decode_def b58_value_def)
  then show False by (simp add: to_wif_def decode_b58check)
qed

lemma strip_to_wif [simp]: "strip (to_wif k v c) = to_wif k v c"
  by (simp add: to_wif_def)

lemma verify_backup_wif:
  assumes "map_of NETWORKS net = Some cfg" "1 \<le> int k" "int k < secp_N"
  shows "verify_backup a (Some (to_wif k (np_secret cfg) c))
    = rbind (privkey_to_pubkey k c) (\<lambda>pub. Inr (if to_address pub (np_pubkey cfg) = a then 0 else 1))"
  using assms
  by (simp add: verify_backup_def Let_def wif_to_privkey_wif [OF secp_N_bound [OF assms(3)]] find_network)

lemma keygen_create_cases:
  assumes "keygen_create args net probe draws = Some (r, outs)" and "outs \<noteq> [] \<or> r = Inr 0"
  obtains cfg k pub where "map_of NETWORKS net = Some cfg" "offline_gate probe net (ka_override args)"
    "draw_key draws = Some k" "privkey_to_pubkey k True = Inr pub"
    "outs = Banner (to_address pub (np_pubkey cfg)) (to_wif k (np_secret cfg) True)
       # (case ka_address_out args of Some f \<Rightarrow>
            if f \<noteq> [] then [Address_File f (to_address pub (np_pubkey cfg))] else [] | None \<Rightarrow> [])
       @ (case ka_out args of Some f \<Rightarrow>
            if f \<noteq> [] then [Key_File f (to_address pub (np_pubkey cfg)) (to_wif k (np_secret cfg) True)]
            else [] | None \<Rightarrow> [])"
  using assms by (auto simp: keygen_create_def Let_def split: option.splits sum.splits if_splits)

lemma keygen_never_asserts: "keygen_create args net probe draws \<noteq> Some (Inl AssertionError, outs)"
proof -
  have "privkey_to_pubkey k True \<noteq> Inl AssertionError" for k
    by (auto simp: privkey_to_pubkey_def split: option.splits prod.splits)
  then show ?thesis
    using networks_cases [of net]
    by (auto simp: keygen_create_def Let_def address_shape wif_shape split: option.splits sum.splits if_splits)
qed

fun output_pair :: "keygen_output \<Rightarrow> (string \<times> string) option" where
  "output_pair (Banner a w) = Some (a, w)"
| "output_pair (Key_File f a w) = Some (a, w)"
| "output_pair (Address_File f a) = None"

section \<open>Properties\<close>

text \<open>A private key written as a WIF is read back as the same scalar, version byte and
  compression flag, for every 256-bit scalar and version.\<close>

theorem wif_roundtrip: "k < 2 ^ 256 \<Longrightarrow> wif_to_privkey (to_wif k v c) = Inr (k, v, c)"
  by (rule wif_to_privkey_wif)

theorem wif_roundtrip_witness: "wif_to_privkey (to_wif 12345 190 True) = Inr (12345, 190, True)"
  by (rule wif_roundtrip) simp

text \<open>What the self-test samples holds of every key: a mainnet address has 34 characters and
  starts with W, a testnet one with T, and a compressed private key has 52 characters and starts
  with V or c.\<close>

theorem version_bytes_force_the_prefix:
  "length (to_address pub 73) = 34 \<and> hd (to_address pub 73) = CHR ''W''
   \<and> length (to_address pub 65) = 34 \<and> hd (to_address pub 65) = CHR ''T''
   \<and> length (to_wif k 190 True) = 52 \<and> hd (to_wif k 190 True) = CHR ''V''
   \<and> length (to_wif k 239 True) = 52 \<and> hd (to_wif k 239 True) = CHR ''c''"
  using address_shape wif_shape by simp

text \<open>C36: every pair of address and private key that the generation prints or writes passes the
  backup check of the same script; a mainnet pair only comes out of a machine without a route
  or with the override given.\<close>

theorem generated_key_verifies:
  assumes "keygen_main args probe draws typed = Some (r, outs)"
    and "out \<in> set outs" and "output_pair out = Some (a, w)"
  shows "verify_backup a (Some w) = Inr 0 \<and>
    (ka_network args \<noteq> Some ''mainnet'' \<or> \<not> machine_is_online probe \<or> ka_override args)"
proof -
  from assms(1,2) obtain net where net: "ka_network args = Some net"
    and run: "keygen_create args net probe draws = Some (r, outs)"
    by (auto simp: keygen_main_def split: option.splits if_splits)
  from assms(2) have "outs \<noteq> []" by auto
  with run obtain cfg k pub where cfg: "map_of NETWORKS net = Some cfg"
    and gate: "offline_gate probe net (ka_override args)"
    and k: "draw_key draws = Some k" and pub: "privkey_to_pubkey k True = Inr pub"
    and outs: "outs = Banner (to_address pub (np_pubkey cfg)) (to_wif k (np_secret cfg) True)
       # (case ka_address_out args of Some f \<Rightarrow>
            if f \<noteq> [] then [Address_File f (to_address pub (np_pubkey cfg))] else [] | None \<Rightarrow> [])
       @ (case ka_out args of Some f \<Rightarrow>
            if f \<noteq> [] then [Key_File f (to_address pub (np_pubkey cfg)) (to_wif k (np_secret cfg) True)]
            else [] | None \<Rightarrow> [])"
    by (auto elim: keygen_create_cases)
  have "a = to_address pub (np_pubkey cfg)" "w = to_wif k (np_secret cfg) True"
    using assms(2,3) by (auto simp: outs split: option.splits if_splits)
  then show ?thesis
    using verify_backup_wif [OF cfg, of k a True] draw_key_range [OF k] pub gate net
    by (auto simp: offline_gate_def split: if_splits)
qed

lemma pubkey_one: "privkey_to_pubkey 1 True = Inr (2 # to_bytes_be 32 (nat secp_GX))"
  by (simp add: privkey_to_pubkey_def point_mul_def mul_loop.simps secp_GY_def)

theorem generated_key_verifies_witness:
  "\<exists>a w. verify_backup a (Some w) = Inr 0 \<and> length a = 34 \<and> w = to_wif 1 190 True"
proof -
  let ?args = "\<lparr>ka_network = Some ''mainnet'', ka_override = False, ka_out = None,
    ka_address_out = None, ka_verify = None\<rparr>"
  let ?a = "to_address (2 # to_bytes_be 32 (nat secp_GX)) 73"
  have run: "keygen_main ?args (\<lambda>_. None) [1] None = Some (Inr 0, [Banner ?a (to_wif 1 190 True)])"
    by (simp add: keygen_main_def keygen_create_def NETWORKS_def offline_gate_def Let_def
        machine_is_online_def secp_N_def pubkey_one address_shape wif_shape del: One_nat_def)
  show ?thesis using generated_key_verifies [OF run, of "Banner ?a (to_wif 1 190 True)"] address_shape(1)
    by auto
qed

text \<open>The assertions of \<open>main\<close> on the first characters and the hash length never fail.\<close>

theorem keygen_assertions_hold: "keygen_main args probe draws typed \<noteq> Some (Inl AssertionError, outs)"
proof -
  have "verify_backup a t \<noteq> Inl AssertionError" for a t
    by (auto simp: verify_backup_def Let_def privkey_to_pubkey_def split: option.splits sum.splits prod.splits)
  then show ?thesis
    using keygen_never_asserts by (auto simp: keygen_main_def split: option.splits if_splits)
qed

text \<open>Every public key has 33 bytes after 2 or 3, or 65 bytes after 4: both coordinates are
  reduced modulo the field prime and fit in their 32 bytes.\<close>

theorem pubkey_shape:
  "case privkey_to_pubkey k c of
     Inl e \<Rightarrow> e = TypeError \<and> point_mul k = None
   | Inr pub \<Rightarrow> (\<exists>x y. point_mul k = Some (x, y) \<and> 0 \<le> x \<and> x < secp_P \<and> 0 \<le> y \<and> y < secp_P
       \<and> int (from_bytes_be (take 32 (drop 1 pub))) = x
       \<and> length pub = (if c then 33 else 65)
       \<and> hd pub = (if \<not> c then 4 else if even y then 2 else 3))"
proof (cases "point_mul k")
  case (Some p)
  obtain x y where p: "p = (x, y)" by (cases p)
  have f: "0 \<le> x" "x < secp_P" "0 \<le> y" "y < secp_P"
    using in_field_mul [of k] Some p by simp_all
  have "from_bytes_be (to_bytes_be 32 (nat x)) = nat x"
    by (rule from_to_bytes_be_id [OF field_32_bytes [OF f(2)]])
  moreover have "even y \<Longrightarrow> word_of_int (2 + y mod 2) = (2 :: byte)"
    and "odd y \<Longrightarrow> word_of_int (2 + y mod 2) = (3 :: byte)"
    by (simp_all add: even_iff_mod_2_eq_zero odd_iff_mod_2_eq_one)
  ultimately show ?thesis
    using Some p f by (auto simp: privkey_to_pubkey_def)
qed (simp add: privkey_to_pubkey_def)

text \<open>\<open>wif_to_privkey\<close> accepts a 38-byte encoding whose last byte is not the compression
  marker, and reports it as an uncompressed key.\<close>

theorem wif_reader_accepts_wrong_marker:
  assumes "k < 2 ^ 256" and "m \<noteq> 1"
  shows "wif_to_privkey (b58check (v # to_bytes_be 32 k @ [m])) = Inr (k, v, False)"
proof -
  have "k < 256 ^ 32" using assms(1) by simp
  then have "from_bytes_be (to_bytes_be 32 k) = k" by (rule from_to_bytes_be_id)
  then show ?thesis using assms(2) by (simp add: wif_to_privkey_check)
qed

theorem wif_reader_accepts_wrong_marker_witness:
  "wif_to_privkey (b58check (190 # to_bytes_be 32 5 @ [2])) = Inr (5, 190, False)"
  by (rule wif_reader_accepts_wrong_marker) simp_all

end
