(* ===== verification/Treasury_Check.thy ===== *)
theory Treasury_Check
  imports Operator Founder_Key
begin

text \<open>
  The judgements of \<open>scripts/treasury_spend.py\<close> that look at values only: coins as atoms, the
  inputs and outputs of a decoded transaction, the comparison of a transaction with the plan, the
  private key's own arithmetic, and whether several plans are one payment.
\<close>

section \<open>Reading a transaction, in whole numbers\<close>

definition TREASURY :: string where
  "TREASURY = ''WdMMqW1DcgWZ6HtyJuEMdce6QkKg4raGmE''"

definition COINBASE_MATURITY :: int where
  "COINBASE_MATURITY = 100"

definition atoms :: "json \<Rightarrow> py_error + int" where
  "atoms v =
     (case decimal_of_json v of
        Some (DFin x) \<Rightarrow> rbind (dec_op (x * 10 ^ 8)) (\<lambda>d.
          if of_int \<lfloor>d\<rfloor> \<noteq> d \<or> d < 0 then Inl die else Inr \<lfloor>d\<rfloor>)
      | _ \<Rightarrow> Inl die)"

text \<open>A key is present in a dictionary, for a value that is a dictionary.\<close>

definition has_key :: "string \<Rightarrow> json \<Rightarrow> bool" where
  "has_key k v = (case v of JObj kvs \<Rightarrow> map_of kvs k \<noteq> None | _ \<Rightarrow> False)"

definition outpoint :: "json \<Rightarrow> py_error + string \<times> int" where
  "outpoint v =
     (if \<not> has_key ''txid'' v \<or> \<not> has_key ''vout'' v then Inl die
      else if has_key ''coinbase'' v then Inl die
      else rbind (jitem v ''txid'') (\<lambda>txid. rbind (jitem v ''vout'') (\<lambda>vout.
             rbind (jint vout) (\<lambda>n. Inr (jstr txid, n)))))"

definition outpoints :: "json \<Rightarrow> py_error + (string \<times> int) list" where
  "outpoints vins =
     rbind (jiter vins) (\<lambda>vs. rbind (rmap outpoint vs) (\<lambda>points.
       if distinct points then Inr points else Inl die))"

definition output_of :: "json \<Rightarrow> py_error + string \<times> int" where
  "output_of o' =
     rbind (jget o' ''scriptPubKey'' JNull) (\<lambda>spk.
       if \<not> jis_dict spk then Inl die
       else rbind (jget spk ''address'' JNull) (\<lambda>addr.
         case addr of
           JStr a \<Rightarrow>
             if a = [] then Inl die
             else rbind (jget o' ''value'' JNull) (\<lambda>v. rbind (atoms v) (\<lambda>n. Inr (a, n)))
         | _ \<Rightarrow> Inl die))"

definition outputs_of :: "json \<Rightarrow> py_error + (string \<times> int) list" where
  "outputs_of tx =
     rbind (jget tx ''vout'' (JArr [])) (\<lambda>vout. rbind (jiter vout) (rmap output_of))"

text \<open>
  \<open>_verify_against_plan\<close>. Two lists of pairs are equal up to order when their sorted forms are;
  sorting the two wanted outputs compares a destination that is not text with the treasury's
  address, which raises.
\<close>

definition verify_against_plan :: "json \<Rightarrow> json \<Rightarrow> py_error + unit" where
  "verify_against_plan plan tx =
     rbind (jget plan ''inputSet'' (JArr [])) (\<lambda>inset.
     rbind (outpoints inset) (\<lambda>want_in.
     if want_in = [] then Inl die
     else
     rbind (jget tx ''vin'' (JArr [])) (\<lambda>vin.
     rbind (outpoints vin) (\<lambda>got_in.
     if got_in \<noteq> want_in then Inl die
     else
     rbind (jitem plan ''amount'') (\<lambda>amount_j. rbind (atoms amount_j) (\<lambda>amount.
     rbind (jitem plan ''change'') (\<lambda>change_j. rbind (atoms change_j) (\<lambda>change.
     rbind (jitem plan ''fee'') (\<lambda>fee_j. rbind (atoms fee_j) (\<lambda>fee.
     rbind (jitem plan ''inputTotal'') (\<lambda>total_j. rbind (atoms total_j) (\<lambda>total_in.
     rbind (jitem plan ''to'') (\<lambda>to.
     rbind (outputs_of tx) (\<lambda>got_out.
       case to of
         JStr dest \<Rightarrow>
           let want_out = (dest, amount) # (if change \<noteq> 0 then [(TREASURY, change)] else [])
           in if sort got_out \<noteq> sort want_out then Inl die
              else if total_in - sum_list (map snd got_out) \<noteq> fee then Inl die
              else Inr ()
       | _ \<Rightarrow> if change \<noteq> 0 then Inl TypeError else Inl die))))))))))))))"

section \<open>The private key's own arithmetic\<close>

definition WAM_WIF_VERSION :: byte where
  "WAM_WIF_VERSION = 190"

definition wif_problem :: "string \<Rightarrow> string option" where
  "wif_problem s =
     (if \<not> is_b58 s then Some ''it contains a character that is not base58''
      else let raw = b58_decode s
        in if length raw < 5 then Some ''it is too short to be a key''
           else let body = take (length raw - 4) raw; check = drop (length raw - 4) raw
             in if take 4 (sha256 (sha256 body)) \<noteq> check
                then Some ''its own checksum does not match''
                else if hd body \<noteq> WAM_WIF_VERSION
                then Some ''it is a private key for another network''
                else let payload = tl body
                  in if length payload = 33 \<and> last payload \<noteq> 1
                     then Some ''its compressed-key marker is wrong''
                     else if length payload \<noteq> 33 \<and> length payload \<noteq> 32
                     then Some ''its payload has the wrong length''
                     else let key = (if length payload = 33 then butlast payload else payload);
                              scalar = int (from_bytes_be key)
                       in if \<not> (1 \<le> scalar \<and> scalar < secp_N)
                          then Some ''the number in it is not a valid secp256k1 private key''
                          else None)"

section \<open>Several plans, one payment\<close>

text \<open>\<open>os.path.splitext\<close> and the name of a part.\<close>

definition splitext :: "string \<Rightarrow> string \<times> string" where
  "splitext path =
     (let base_rev = takeWhile (\<lambda>c. c \<noteq> CHR ''/'') (rev path);
          ext_rev = takeWhile (\<lambda>c. c \<noteq> CHR ''.'') base_rev;
          stem = rev (drop (length ext_rev + 1) base_rev)
      in if length ext_rev < length base_rev \<and> list_ex (\<lambda>c. c \<noteq> CHR ''.'') stem
         then (take (length path - length ext_rev - 1) path, CHR ''.'' # rev ext_rev)
         else (path, []))"

definition part_name :: "string \<Rightarrow> nat \<Rightarrow> nat \<Rightarrow> string" where
  "part_name path i n =
     (case splitext path of (base, ext) \<Rightarrow>
        base @ ''-'' @ nat_string i @ ''of'' @ nat_string n @ (if ext = [] then ''.json'' else ext))"

text \<open>Equality and hashing of the values that can be keys of a set or a dictionary.\<close>

fun num_value :: "json \<Rightarrow> rat option" where
  "num_value (JInt n) = Some (of_int n)"
| "num_value (JBool b) = Some (if b then 1 else 0)"
| "num_value (JFloat (Fin x)) = Some x"
| "num_value _ = None"

definition jeq :: "json \<Rightarrow> json \<Rightarrow> bool" where
  "jeq a b = (case (num_value a, num_value b) of (Some x, Some y) \<Rightarrow> x = y | _ \<Rightarrow> a = b)"

fun hashable :: "json \<Rightarrow> bool" where
  "hashable (JArr _) = False"
| "hashable (JObj _) = False"
| "hashable _ = True"

fun is_number :: "json \<Rightarrow> bool" where
  "is_number (JInt _) = True"
| "is_number (JBool _) = True"
| "is_number (JFloat _) = True"
| "is_number _ = False"

fun is_string :: "json \<Rightarrow> bool" where
  "is_string (JStr _) = True"
| "is_string _ = False"

text \<open>The set of values as a list without repetitions.\<close>

fun dedup :: "json list \<Rightarrow> json list" where
  "dedup [] = []"
| "dedup (x # xs) = x # filter (\<lambda>y. \<not> jeq x y) (dedup xs)"

definition key_eq :: "json \<times> json \<Rightarrow> json \<times> json \<Rightarrow> bool" where
  "key_eq a b \<longleftrightarrow> jeq (fst a) (fst b) \<and> jeq (snd a) (snd b)"

text \<open>One plan's inputs against the keys seen so far; \<open>Inr None\<close> is a collision.\<close>

fun see_inputs :: "json list \<Rightarrow> (json \<times> json) list \<Rightarrow> py_error + (json \<times> json) list option" where
  "see_inputs [] seen = Inr (Some seen)"
| "see_inputs (inp # inps) seen =
     rbind (jget inp ''txid'' JNull) (\<lambda>txid. rbind (jget inp ''vout'' JNull) (\<lambda>vout.
       if \<not> hashable txid \<or> \<not> hashable vout then Inl TypeError
       else if list_ex (key_eq (txid, vout)) seen then Inr None
       else see_inputs inps ((txid, vout) # seen)))"

fun batch_inputs :: "json list \<Rightarrow> (json \<times> json) list \<Rightarrow> py_error + string option" where
  "batch_inputs [] seen = Inr None"
| "batch_inputs (plan # plans) seen =
     rbind (jget plan ''inputSet'' JNull) (\<lambda>inset.
       case inset of
         JArr inps \<Rightarrow>
           if inps = [] then Inr (Some ''a part does not name the outputs it spends'')
           else rbind (see_inputs inps seen) (\<lambda>r. case r of
                  None \<Rightarrow> Inr (Some ''two parts both spend one output'')
                | Some seen' \<Rightarrow> batch_inputs plans seen')
       | _ \<Rightarrow> Inr (Some ''a part does not name the outputs it spends''))"

definition batch_problem :: "json list \<Rightarrow> py_error + string option" where
  "batch_problem plans =
     (if length plans < 2 then Inr None
      else rbind (rmap (\<lambda>p. rbind (jget p ''to'' JNull) (\<lambda>to.
                    if hashable to then Inr to else Inl TypeError)) plans) (\<lambda>tos.
        let dests = dedup tos
        in if length dests \<noteq> 1 then
             (if list_all is_string dests \<or> list_all is_number dests
              then Inr (Some ''these parts pay different addresses'') else Inl TypeError)
           else if hd dests = JNull then Inr (Some ''a part does not name a destination at all'')
           else batch_inputs plans []))"

section \<open>What an approved transaction does\<close>

lemma sort_eq_iff: "sort xs = sort ys \<longleftrightarrow> mset xs = mset ys"
  by (metis mset_sort properties_for_sort sorted_sort)

lemma jget_Inr: "jget v k d = Inr x \<longleftrightarrow>
    (\<exists>kvs. v = JObj kvs \<and> x = (case map_of kvs k of Some y \<Rightarrow> y | None \<Rightarrow> d))"
  by (cases v) auto

lemma jitem_Inr: "jitem v k = Inr x \<longleftrightarrow> (\<exists>kvs. v = JObj kvs \<and> map_of kvs k = Some x)"
  by (cases v) (auto split: option.splits)

text \<open>
  The contract, said without the order of the checks and without the reading functions: the inputs
  of the plan and of the transaction are lists of dictionaries that name the same outpoints in the
  same order, each once and at least one; every output is a dictionary that pays an address an
  exact number of atoms, and together they are the destination and the change; value is conserved.
\<close>

definition names_input :: "json \<Rightarrow> string \<times> int \<Rightarrow> bool" where
  "names_input v p \<longleftrightarrow>
     (\<exists>kvs txid vout. v = JObj kvs \<and> map_of kvs ''txid'' = Some txid \<and> map_of kvs ''vout'' = Some vout
        \<and> map_of kvs ''coinbase'' = None \<and> fst p = jstr txid \<and> jint vout = Inr (snd p))"

definition pays :: "json \<Rightarrow> string \<times> int \<Rightarrow> bool" where
  "pays v p \<longleftrightarrow>
     (\<exists>kvs spk coins. v = JObj kvs \<and> map_of kvs ''scriptPubKey'' = Some (JObj spk)
        \<and> map_of spk ''address'' = Some (JStr (fst p)) \<and> fst p \<noteq> []
        \<and> map_of kvs ''value'' = Some coins \<and> atoms coins = Inr (snd p))"

definition does_what_the_plan_says :: "json \<Rightarrow> json \<Rightarrow> bool" where
  "does_what_the_plan_says plan tx \<longleftrightarrow>
     (\<exists>p t want vin ins vout outs dest amount change fee total_in.
        plan = JObj p \<and> tx = JObj t
        \<and> map_of p ''inputSet'' = Some (JArr want) \<and> list_all2 names_input want ins
        \<and> map_of t ''vin'' = Some (JArr vin) \<and> list_all2 names_input vin ins
        \<and> ins \<noteq> [] \<and> distinct ins
        \<and> rbind (jitem plan ''amount'') atoms = Inr amount
        \<and> rbind (jitem plan ''change'') atoms = Inr change
        \<and> rbind (jitem plan ''fee'') atoms = Inr fee
        \<and> rbind (jitem plan ''inputTotal'') atoms = Inr total_in
        \<and> map_of p ''to'' = Some (JStr dest)
        \<and> map_of t ''vout'' = Some (JArr vout) \<and> list_all2 pays vout outs
        \<and> mset outs = {#(dest, amount)#} + (if change = 0 then {#} else {#(TREASURY, change)#})
        \<and> total_in = amount + change + fee)"

lemma outpoint_Inr: "outpoint v = Inr p \<longleftrightarrow> names_input v p"
  by (cases v; cases p)
    (auto simp: outpoint_def names_input_def has_key_def jitem_Inr split: if_splits option.splits)

lemma atoms_JNull [simp]: "atoms JNull = Inl die"
  by (simp add: atoms_def)

lemma output_of_Inr: "output_of v = Inr p \<longleftrightarrow> pays v p"
proof (cases v)
  case (JObj kvs)
  show ?thesis
  proof (cases "map_of kvs ''scriptPubKey''")
    case (Some spk)
    show ?thesis
    proof (cases spk)
      case (JObj s)
      show ?thesis
      proof (cases "map_of s ''address''")
        case (Some addr)
        show ?thesis
        proof (cases addr)
          case (JStr a)
          then show ?thesis
            using \<open>v = _\<close> \<open>spk = _\<close> \<open>map_of kvs _ = _\<close> Some
            by (cases "map_of kvs ''value''"; cases p) (auto simp: output_of_def pays_def)
        qed (use \<open>v = _\<close> \<open>spk = _\<close> \<open>map_of kvs _ = _\<close> Some in \<open>auto simp: output_of_def pays_def\<close>)
      qed (use \<open>v = _\<close> \<open>spk = _\<close> \<open>map_of kvs _ = _\<close> in \<open>auto simp: output_of_def pays_def\<close>)
    qed (use \<open>v = _\<close> \<open>map_of kvs _ = _\<close> in \<open>auto simp: output_of_def pays_def\<close>)
  qed (use JObj in \<open>auto simp: output_of_def pays_def\<close>)
qed (auto simp: output_of_def pays_def)

lemma jiter_Inr_nonempty:
  assumes "jiter v = Inr vs" "vs \<noteq> []" "\<And>x. x \<in> set vs \<Longrightarrow> \<exists>kvs. x = JObj kvs"
  shows "v = JArr vs"
proof (cases v)
  case (JStr s)
  with assms(1,2) have "JStr [hd s] \<in> set vs" by (cases s) auto
  with assms(3) show ?thesis by blast
next
  case (JObj kvs)
  with assms(1,2) have "JStr (fst (hd kvs)) \<in> set vs" by (cases kvs) auto
  with assms(3) show ?thesis by blast
qed (use assms in auto)

lemma outpoints_Inr:
  assumes "ins \<noteq> []"
  shows "outpoints v = Inr ins \<longleftrightarrow> (\<exists>vs. v = JArr vs \<and> list_all2 names_input vs ins \<and> distinct ins)"
proof
  assume "outpoints v = Inr ins"
  then obtain vs where vs: "jiter v = Inr vs" "list_all2 names_input vs ins" "distinct ins"
    by (auto simp: outpoints_def rmap_Inr_iff outpoint_Inr split: if_splits)
  have "v = JArr vs"
  proof (rule jiter_Inr_nonempty [OF vs(1)])
    show "vs \<noteq> []" using vs(2) assms by auto
    show "\<exists>kvs. x = JObj kvs" if "x \<in> set vs" for x
      using vs(2) that by (auto simp: list_all2_conv_all_nth in_set_conv_nth names_input_def)
  qed
  with vs show "\<exists>vs. v = JArr vs \<and> list_all2 names_input vs ins \<and> distinct ins" by blast
qed (auto simp: outpoints_def rmap_Inr_iff outpoint_Inr)

lemma outputs_of_Inr:
  assumes "outs \<noteq> []"
  shows "outputs_of tx = Inr outs \<longleftrightarrow>
    (\<exists>t vs. tx = JObj t \<and> map_of t ''vout'' = Some (JArr vs) \<and> list_all2 pays vs outs)"
proof
  assume "outputs_of tx = Inr outs"
  then obtain t vs v where vs: "tx = JObj t" "v = (case map_of t ''vout'' of Some y \<Rightarrow> y | None \<Rightarrow> JArr [])"
    "jiter v = Inr vs" "list_all2 pays vs outs"
    by (auto simp: outputs_of_def rmap_Inr_iff output_of_Inr jget_Inr)
  have "v = JArr vs"
  proof (rule jiter_Inr_nonempty [OF vs(3)])
    show "vs \<noteq> []" using vs(4) assms by auto
    show "\<exists>kvs. x = JObj kvs" if "x \<in> set vs" for x
      using vs(4) that by (auto simp: list_all2_conv_all_nth in_set_conv_nth pays_def)
  qed
  moreover have "vs \<noteq> []" using vs(4) assms by auto
  ultimately have "map_of t ''vout'' = Some (JArr vs)" using vs(2) by (auto split: option.splits)
  with vs show "\<exists>t vs. tx = JObj t \<and> map_of t ''vout'' = Some (JArr vs) \<and> list_all2 pays vs outs" by blast
qed (auto simp: outputs_of_def rmap_Inr_iff output_of_Inr)

lemma verify_against_plan_parts:
  "verify_against_plan plan tx = Inr () \<longleftrightarrow>
     (\<exists>p t ins outs dest amount change fee total_in.
        plan = JObj p \<and> tx = JObj t
        \<and> outpoints (case map_of p ''inputSet'' of Some v \<Rightarrow> v | None \<Rightarrow> JArr []) = Inr ins
        \<and> outpoints (case map_of t ''vin'' of Some v \<Rightarrow> v | None \<Rightarrow> JArr []) = Inr ins \<and> ins \<noteq> []
        \<and> rbind (jitem plan ''amount'') atoms = Inr amount
        \<and> rbind (jitem plan ''change'') atoms = Inr change
        \<and> rbind (jitem plan ''fee'') atoms = Inr fee
        \<and> rbind (jitem plan ''inputTotal'') atoms = Inr total_in
        \<and> map_of p ''to'' = Some (JStr dest) \<and> outputs_of tx = Inr outs
        \<and> sort outs = sort ((dest, amount) # (if change \<noteq> 0 then [(TREASURY, change)] else []))
        \<and> total_in - sum_list (map snd outs) = fee)"
    (is "?l = ?r")
proof
  assume ok: ?l
  then obtain inset vin want_in aj cj fj tj to amount change fee total_in outs
    where 1: "jget plan ''inputSet'' (JArr []) = Inr inset" "outpoints inset = Inr want_in"
      "want_in \<noteq> []" "jget tx ''vin'' (JArr []) = Inr vin" "outpoints vin = Inr want_in"
    and 2: "jitem plan ''amount'' = Inr aj" "atoms aj = Inr amount"
      "jitem plan ''change'' = Inr cj" "atoms cj = Inr change"
      "jitem plan ''fee'' = Inr fj" "atoms fj = Inr fee"
      "jitem plan ''inputTotal'' = Inr tj" "atoms tj = Inr total_in"
    and 3: "jitem plan ''to'' = Inr to" "outputs_of tx = Inr outs"
    and body: "(case to of
         JStr dest \<Rightarrow>
           let want_out = (dest, amount) # (if change \<noteq> 0 then [(TREASURY, change)] else [])
           in if sort outs \<noteq> sort want_out then Inl die
              else if total_in - sum_list (map snd outs) \<noteq> fee then Inl die
              else Inr ()
       | _ \<Rightarrow> if change \<noteq> 0 then Inl TypeError else Inl die) = Inr ()"
    unfolding verify_against_plan_def rbind_eq_Inr by (auto simp del: sort_key_simps split: if_split_asm)
  from body obtain dest where d: "to = JStr dest"
    "sort outs = sort ((dest, amount) # (if change \<noteq> 0 then [(TREASURY, change)] else []))"
    "total_in - sum_list (map snd outs) = fee"
    by (cases to) (auto simp: Let_def simp del: sort_key_simps split: if_split_asm)
  obtain p where p: "plan = JObj p"
    "inset = (case map_of p ''inputSet'' of Some v \<Rightarrow> v | None \<Rightarrow> JArr [])"
    using 1(1) by (auto simp: jget_Inr)
  obtain t where t: "tx = JObj t" "vin = (case map_of t ''vin'' of Some v \<Rightarrow> v | None \<Rightarrow> JArr [])"
    using 1(4) by (auto simp: jget_Inr)
  have r: "rbind (jitem plan ''amount'') atoms = Inr amount" "rbind (jitem plan ''change'') atoms = Inr change"
    "rbind (jitem plan ''fee'') atoms = Inr fee" "rbind (jitem plan ''inputTotal'') atoms = Inr total_in"
    by (simp_all only: 2 rbind_simps)
  have m: "map_of p ''to'' = Some (JStr dest)"
    using 3(1) unfolding p(1) d(1) jitem_Inr by simp
  show ?r
    using p(1) t(1) 1(2) [unfolded p(2)] 1(5) [unfolded t(2)] 1(3) r m 3(2) d(2,3) by blast
next
  assume ?r
  then obtain p t ins outs dest amount change fee total_in
    where e: "plan = JObj p" "tx = JObj t"
      "outpoints (case map_of p ''inputSet'' of Some v \<Rightarrow> v | None \<Rightarrow> JArr []) = Inr ins"
      "outpoints (case map_of t ''vin'' of Some v \<Rightarrow> v | None \<Rightarrow> JArr []) = Inr ins" "ins \<noteq> []"
      "rbind (jitem plan ''amount'') atoms = Inr amount"
      "rbind (jitem plan ''change'') atoms = Inr change"
      "rbind (jitem plan ''fee'') atoms = Inr fee"
      "rbind (jitem plan ''inputTotal'') atoms = Inr total_in"
      "map_of p ''to'' = Some (JStr dest)" "outputs_of tx = Inr outs"
      "sort outs = sort ((dest, amount) # (if change \<noteq> 0 then [(TREASURY, change)] else []))"
      "total_in - sum_list (map snd outs) = fee"
    by blast
  then obtain aj cj fj tj where "jitem plan ''amount'' = Inr aj" "atoms aj = Inr amount"
      "jitem plan ''change'' = Inr cj" "atoms cj = Inr change"
      "jitem plan ''fee'' = Inr fj" "atoms fj = Inr fee"
      "jitem plan ''inputTotal'' = Inr tj" "atoms tj = Inr total_in"
    unfolding rbind_eq_Inr by blast
  with e show ?l by (simp add: verify_against_plan_def Let_def del: sort_key_simps)
qed

lemma plan_outputs_sum:
  fixes total_in fee amount change :: int
  assumes "mset outs = {#(dest, amount)#} + (if change = 0 then {#} else {#(TREASURY, change)#})"
  shows "total_in - sum_list (map snd outs) = fee \<longleftrightarrow> total_in = amount + change + fee"
proof -
  have "sum_list (map snd outs) = sum_mset (image_mset snd (mset outs))"
    by (simp flip: sum_mset_sum_list)
  also have "\<dots> = amount + change" unfolding assms by simp
  finally show ?thesis by auto
qed

lemma plan_outputs_sorted:
  "sort outs = sort ((dest, amount) # (if change \<noteq> 0 then [(TREASURY, change)] else []))
    \<longleftrightarrow> mset outs = {#(dest, amount)#} + (if change = 0 then {#} else {#(TREASURY, change)#})" for amount change :: int
  unfolding sort_eq_iff by auto

lemma plan_inputs_read:
  "outpoints (case m of Some v \<Rightarrow> v | None \<Rightarrow> JArr []) = Inr ins \<and> ins \<noteq> [] \<longleftrightarrow>
      (\<exists>vs. m = Some (JArr vs) \<and> list_all2 names_input vs ins) \<and> distinct ins \<and> ins \<noteq> []"
  by (cases m) (auto simp: outpoints_Inr, auto simp: outpoints_def)

lemma plan_outputs_read:
  assumes "mset outs = {#(dest, amount)#} + (if change = 0 then {#} else {#(TREASURY, change)#})"
  shows "outputs_of (JObj t) = Inr outs \<longleftrightarrow> (\<exists>vs. map_of t ''vout'' = Some (JArr vs) \<and> list_all2 pays vs outs)"
proof -
  from assms have "outs \<noteq> []" by auto
  then show ?thesis by (simp add: outputs_of_Inr)
qed

lemma verified_does_the_plan:
  assumes "verify_against_plan plan tx = Inr ()"
  shows "does_what_the_plan_says plan tx"
proof -
  from assms obtain p t ins outs dest amount change fee total_in where
    js: "plan = JObj p" "tx = JObj t" and
    ins: "outpoints (case map_of p ''inputSet'' of Some v \<Rightarrow> v | None \<Rightarrow> JArr []) = Inr ins"
      "outpoints (case map_of t ''vin'' of Some v \<Rightarrow> v | None \<Rightarrow> JArr []) = Inr ins" "ins \<noteq> []" and
    coins: "rbind (jitem plan ''amount'') atoms = Inr amount" "rbind (jitem plan ''change'') atoms = Inr change"
      "rbind (jitem plan ''fee'') atoms = Inr fee" "rbind (jitem plan ''inputTotal'') atoms = Inr total_in" and
    to: "map_of p ''to'' = Some (JStr dest)" "outputs_of tx = Inr outs" and
    ms: "mset outs = {#(dest, amount)#} + (if change = 0 then {#} else {#(TREASURY, change)#})" and
    fee: "total_in - sum_list (map snd outs) = fee"
    unfolding verify_against_plan_parts plan_outputs_sorted by blast
  from plan_outputs_read [OF ms] to js obtain vout where "map_of t ''vout'' = Some (JArr vout)" "list_all2 pays vout outs" by blast
  moreover from plan_inputs_read ins obtain want vin where "map_of p ''inputSet'' = Some (JArr want)" "list_all2 names_input want ins"
    "map_of t ''vin'' = Some (JArr vin)" "list_all2 names_input vin ins" "distinct ins" by metis
  ultimately show ?thesis
    unfolding does_what_the_plan_says_def using js ins coins to ms fee plan_outputs_sum [OF ms] by blast
qed

lemma the_plan_is_verified:
  assumes "does_what_the_plan_says plan tx"
  shows "verify_against_plan plan tx = Inr ()"
proof -
  from assms obtain p t want vin ins vout outs dest amount change fee total_in where
    js: "plan = JObj p" "tx = JObj t" and
    ins: "map_of p ''inputSet'' = Some (JArr want)" "list_all2 names_input want ins"
      "map_of t ''vin'' = Some (JArr vin)" "list_all2 names_input vin ins" "ins \<noteq> []" "distinct ins" and
    coins: "rbind (jitem plan ''amount'') atoms = Inr amount" "rbind (jitem plan ''change'') atoms = Inr change"
      "rbind (jitem plan ''fee'') atoms = Inr fee" "rbind (jitem plan ''inputTotal'') atoms = Inr total_in" and
    to: "map_of p ''to'' = Some (JStr dest)" "map_of t ''vout'' = Some (JArr vout)" "list_all2 pays vout outs" and
    ms': "mset outs = {#(dest, amount)#} + (if change = 0 then {#} else {#(TREASURY, change)#})" and
    fee: "total_in = amount + change + fee"
    unfolding does_what_the_plan_says_def by blast
  have "outputs_of tx = Inr outs" using plan_outputs_read [OF ms', of t] to js by blast
  moreover have "outpoints (case map_of p ''inputSet'' of Some v \<Rightarrow> v | None \<Rightarrow> JArr []) = Inr ins"
    "outpoints (case map_of t ''vin'' of Some v \<Rightarrow> v | None \<Rightarrow> JArr []) = Inr ins"
    using ins by (simp_all add: outpoints_Inr)
  ultimately show ?thesis
    unfolding verify_against_plan_parts plan_outputs_sorted using js ins(5) coins to(1) ms' plan_outputs_sum [OF ms', of total_in fee] fee by blast
qed

text \<open>C2: \<open>_verify_against_plan\<close> accepts a transaction exactly when it spends the approved inputs
  in the approved order, pays the destination the amount and the treasury the change and nobody
  else, to the atom, and loses exactly the fee.\<close>

theorem verify_against_plan_iff: "verify_against_plan plan tx = Inr () \<longleftrightarrow> does_what_the_plan_says plan tx"
  using verified_does_the_plan the_plan_is_verified by blast

section \<open>Which texts are usable keys\<close>

lemma wif_problem_frame:
  assumes "is_b58 s" "5 \<le> length (b58_decode s)"
  shows "take 4 (sha256 (sha256 (take (length (b58_decode s) - 4) (b58_decode s))))
      = drop (length (b58_decode s) - 4) (b58_decode s)
    \<longleftrightarrow> (\<exists>p. p \<noteq> [] \<and> s = b58check p)"
proof -
  have "length (b58_decode (b58check p)) - 4 = length p" for p
    by (simp add: decode_b58check)
  then show ?thesis
    using b58.frame_iff [OF assms(1)] assms(2)
    by (auto simp: checksum4_def [symmetric] b58check_def decode_b58check
        b58_decode_encode intro!: exI [of _ "take (length (b58_decode s) - 4) (b58_decode s)"])
qed

lemma wif_problem_check:
  "p \<noteq> [] \<Longrightarrow> wif_problem (b58check p) = None \<longleftrightarrow>
     hd p = 190 \<and> (length p = 34 \<and> last p = 1 \<or> length p = 33) \<and>
     (let key = (if length p = 34 then butlast (tl p) else tl p)
      in 1 \<le> int (from_bytes_be key) \<and> int (from_bytes_be key) < secp_N)"
  by (cases p)
    (auto simp: wif_problem_def decode_b58check checksum4_def [symmetric] Let_def WAM_WIF_VERSION_def
      split: if_splits)

lemma wif_problem_encoded: "wif_problem s = None \<Longrightarrow> \<exists>p. p \<noteq> [] \<and> s = b58check p"
  using wif_problem_frame [of s]
  by (auto simp: wif_problem_def Let_def checksum4_def split: if_splits)

lemma wif_payload_33: "length p = 33 \<Longrightarrow> hd p = v \<Longrightarrow> p = v # to_bytes_be 32 (from_bytes_be (tl p))"
  using to_from_bytes_be [of "tl p"] by (cases p) auto

lemma wif_payload_34:
  assumes "length p = 34" "hd p = v" "last p = m"
  shows "p = v # to_bytes_be 32 (from_bytes_be (butlast (tl p))) @ [m]"
proof (cases p)
  case (Cons a q)
  with assms have q: "length q = 33" "a = v" by auto
  then have "q \<noteq> []" by auto
  then have "q = butlast q @ [last q]" by simp
  moreover have "last q = m" using assms(3) Cons \<open>q \<noteq> []\<close> by simp
  moreover have "to_bytes_be 32 (from_bytes_be (butlast q)) = butlast q"
    using to_from_bytes_be [of "butlast q"] q by simp
  ultimately show ?thesis using Cons q by simp
qed (use assms in simp)

text \<open>C10: a typed text passes \<open>_wif_problem\<close> exactly when it is the mainnet WIF, compressed or
  not, of a scalar in the range of secp256k1.\<close>

theorem wif_problem_None_iff:
  "wif_problem s = None \<longleftrightarrow> (\<exists>k c. 1 \<le> int k \<and> int k < secp_N \<and> s = to_wif k 190 c)"
proof
  assume none: "wif_problem s = None"
  then obtain p where p: "p \<noteq> []" "s = b58check p" using wif_problem_encoded by blast
  with none have hd: "hd p = 190" and shape: "length p = 34 \<and> last p = 1 \<or> length p = 33"
    and range: "let key = (if length p = 34 then butlast (tl p) else tl p)
      in 1 \<le> int (from_bytes_be key) \<and> int (from_bytes_be key) < secp_N"
    using wif_problem_check by auto
  from shape show "\<exists>k c. 1 \<le> int k \<and> int k < secp_N \<and> s = to_wif k 190 c"
  proof
    assume l: "length p = 34 \<and> last p = 1"
    then have "p = 190 # to_bytes_be 32 (from_bytes_be (butlast (tl p))) @ [1]"
      using hd by (intro wif_payload_34) auto
    then have "s = to_wif (from_bytes_be (butlast (tl p))) 190 True"
      unfolding p(2) to_wif_def if_True by (rule arg_cong)
    with range l show ?thesis by (auto simp: Let_def)
  next
    assume l: "length p = 33"
    then have "p = 190 # to_bytes_be 32 (from_bytes_be (tl p))" using hd by (rule wif_payload_33)
    then have "s = to_wif (from_bytes_be (tl p)) 190 False"
      unfolding p(2) to_wif_def if_False append_Nil2 by (rule arg_cong)
    with range l show ?thesis by (auto simp: Let_def)
  qed
next
  assume "\<exists>k c. 1 \<le> int k \<and> int k < secp_N \<and> s = to_wif k 190 c"
  then obtain k c where k: "1 \<le> int k" "int k < secp_N" and s: "s = to_wif k 190 c" by blast
  have "k < 256 ^ 32" using secp_N_bound [OF k(2)] by simp
  then have "from_bytes_be (to_bytes_be 32 k) = k" by (rule from_to_bytes_be_id)
  then show "wif_problem s = None"
    using k unfolding s to_wif_def by (subst wif_problem_check) (auto simp: Let_def butlast_append)
qed

section \<open>Parts of one payment\<close>

lemma part_name_eq: "part_name path i n = part_name path j n \<longleftrightarrow> i = j"
proof
  assume eq: "part_name path i n = part_name path j n"
  let ?tail = "''of'' @ nat_string n @ (if snd (splitext path) = [] then ''.json'' else snd (splitext path))"
  have "nat_string i @ ?tail = nat_string j @ ?tail"
    using eq by (simp add: part_name_def split: prod.splits)
  then have "takeWhile is_digit (nat_string i @ ?tail) = takeWhile is_digit (nat_string j @ ?tail)"
    by simp
  moreover have "takeWhile is_digit (nat_string k @ ?tail) = nat_string k" for k
    using nat_string_digits [of k] by (simp add: list_all_iff takeWhile_append is_digit_def)
  ultimately show "i = j" by (simp only: nat_string_inj)
qed simp

text \<open>The keys of the inputs of one plan.\<close>

definition input_key :: "json \<Rightarrow> json \<times> json" where
  "input_key inp =
     (case inp of
        JObj kvs \<Rightarrow> (case map_of kvs ''txid'' of Some t \<Rightarrow> t | None \<Rightarrow> JNull,
                     case map_of kvs ''vout'' of Some v \<Rightarrow> v | None \<Rightarrow> JNull)
      | _ \<Rightarrow> (JNull, JNull))"

definition input_keys :: "json \<Rightarrow> (json \<times> json) list" where
  "input_keys plan =
     (case plan of
        JObj p \<Rightarrow> (case map_of p ''inputSet'' of Some (JArr inps) \<Rightarrow> map input_key inps | _ \<Rightarrow> [])
      | _ \<Rightarrow> [])"

lemma see_inputs_Cons:
  assumes "see_inputs (inp # inps) seen = Inr (Some seen')"
  shows "input_key inp \<notin> set seen \<and> see_inputs inps (input_key inp # seen) = Inr (Some seen')"
proof -
  have key_refl: "key_eq k k" for k by (simp add: key_eq_def jeq_def split: option.splits)
  from assms obtain kvs where "inp = JObj kvs" by (cases inp) auto
  with assms have "\<not> list_ex (key_eq (input_key inp)) seen"
    and rest: "see_inputs inps (input_key inp # seen) = Inr (Some seen')"
    by (simp_all add: input_key_def split: if_split_asm)
  then show ?thesis using key_refl [of "input_key inp"] by (auto simp: list_ex_iff simp del: split_paired_All)
qed

lemma see_inputs_ok:
  "see_inputs inps seen = Inr (Some seen') \<Longrightarrow>
     seen' = rev (map input_key inps) @ seen \<and> (distinct seen \<longrightarrow> distinct seen')"
proof (induction inps arbitrary: seen)
  case (Cons inp inps)
  have new: "input_key inp \<notin> set seen" and rest: "see_inputs inps (input_key inp # seen) = Inr (Some seen')"
    using see_inputs_Cons [OF Cons.prems] by auto
  from Cons.IH [OF rest] have "seen' = rev (map input_key (inp # inps)) @ seen"
    and "distinct (input_key inp # seen) \<longrightarrow> distinct seen'" by (simp, blast)
  with new show ?case by (metis distinct.simps(2))
qed simp

lemma batch_inputs_Cons:
  assumes "batch_inputs (plan # plans) seen = Inr None"
  obtains p inps seen' where "plan = JObj p" "map_of p ''inputSet'' = Some (JArr inps)" "inps \<noteq> []"
    "see_inputs inps seen = Inr (Some seen')" "batch_inputs plans seen' = Inr None"
proof -
  from assms obtain p where p: "plan = JObj p" by (cases plan) auto
  from assms obtain inps where i: "map_of p ''inputSet'' = Some (JArr inps)" "inps \<noteq> []"
    by (auto simp: p split: option.splits json.splits if_splits)
  from assms obtain seen' where "see_inputs inps seen = Inr (Some seen')"
    "batch_inputs plans seen' = Inr None"
    by (auto simp: p i split: option.splits)
  with p i show thesis by (rule that)
qed

lemma batch_inputs_ok:
  "batch_inputs plans seen = Inr None \<Longrightarrow> distinct seen \<Longrightarrow>
   distinct (concat (map input_keys plans)) \<and> set seen \<inter> set (concat (map input_keys plans)) = {}
   \<and> list_all (\<lambda>p. input_keys p \<noteq> []) plans"
proof (induction plans arbitrary: seen)
  case (Cons plan plans)
  from Cons.prems(1) obtain p inps seen' where p: "plan = JObj p" "map_of p ''inputSet'' = Some (JArr inps)"
    and inps: "inps \<noteq> []" and see: "see_inputs inps seen = Inr (Some seen')"
    and rest: "batch_inputs plans seen' = Inr None"
    by (rule batch_inputs_Cons)
  have "seen' = rev (map input_key inps) @ seen" and d: "distinct seen'"
    using see_inputs_ok [OF see] Cons.prems(2) by blast+
  then have keys: "seen' = rev (input_keys plan) @ seen" "distinct seen'"
    using p by (simp_all add: input_keys_def)
  have ne: "input_keys plan \<noteq> []" using p inps by (simp add: input_keys_def)
  from Cons.IH [OF rest keys(2)] keys ne show ?case by auto
qed simp

lemma dedup_single:
  assumes "length (dedup xs) = 1" "x \<in> set xs"
  shows "jeq (hd xs) x"
proof (cases xs)
  case (Cons y ys)
  have refl: "jeq k k" for k by (simp add: jeq_def split: option.splits)
  have trans: "jeq a b \<Longrightarrow> jeq b c \<Longrightarrow> jeq a c" for a b c
    by (auto simp: jeq_def split: option.splits)
  have mem: "z \<in> set zs \<Longrightarrow> \<exists>w \<in> set (dedup zs). jeq w z" for z zs
    using refl trans by (induction zs) (auto, blast)
  from assms(1) Cons have "filter (\<lambda>w. \<not> jeq y w) (dedup ys) = []" by simp
  then have all: "\<forall>w \<in> set (dedup ys). jeq y w" by (simp add: filter_empty_conv)
  show ?thesis
  proof (cases "x = y")
    case False
    with assms(2) Cons have "x \<in> set ys" by simp
    from mem [OF this] obtain w where "w \<in> set (dedup ys)" "jeq w x" by blast
    with all trans [of y w x] show ?thesis by (simp add: Cons)
  qed (simp add: Cons refl)
qed (use assms in simp)

section \<open>Atoms\<close>

lemma dec_op_int: "0 \<le> n \<Longrightarrow> n < 10 ^ 20 \<Longrightarrow> dec_op (of_int n * 10 ^ 8) = Inr (of_int (n * 10 ^ 8))"
  using dec_op_exact [of "n * 10 ^ 8" 0 "of_int n * 10 ^ 8"] by simp

lemma atoms_int [simp]: "0 \<le> n \<Longrightarrow> n < 10 ^ 20 \<Longrightarrow> atoms (JInt n) = Inr (n * 10 ^ 8)"
proof -
  assume n: "0 \<le> n" "n < 10 ^ 20"
  have "(of_int n * 10 ^ 8 :: rat) = of_int (n * 10 ^ 8)" by simp
  then have "dec_op (of_int n * 10 ^ 8) = Inr (of_int (n * 10 ^ 8))" using dec_op_int [OF n] by simp
  then show ?thesis using n
    by (simp only: atoms_def decimal_of_json.simps option.case decimal.case rbind_simps floor_of_int) simp
qed

text \<open>An accepted coin value is a number of atoms that is never negative and differs from the
  exact product only by the rounding of one decimal operation to 28 digits.\<close>

theorem atoms_rounding:
  assumes "atoms v = Inr n"
  shows "\<exists>x. decimal_of_json v = Some (DFin x) \<and> 0 \<le> n
    \<and> \<bar>of_int n - x * 10 ^ 8\<bar> \<le> 10 powi (max (flog 10 \<bar>x * 10 ^ 8\<bar> - 27) (-1000026)) / 2"
proof -
  from assms obtain x where x: "decimal_of_json v = Some (DFin x)"
    and n: "n = \<lfloor>dec_round (x * 10 ^ 8)\<rfloor>" "of_int n = dec_round (x * 10 ^ 8)"
      "0 \<le> dec_round (x * 10 ^ 8)"
    by (auto simp: atoms_def dec_op_def split: option.splits decimal.splits if_splits)
  show ?thesis using x n dec_round_error [of "x * 10 ^ 8"] by (intro exI [of _ x]) auto
qed

theorem atoms_rounding_witness:
  "\<exists>x. decimal_of_json (JInt 5) = Some (DFin x) \<and> 0 \<le> (500000000 :: int)
    \<and> \<bar>of_int 500000000 - x * 10 ^ 8\<bar> \<le> 10 powi (max (flog 10 \<bar>x * 10 ^ 8\<bar> - 27) (-1000026)) / 2"
  by (rule atoms_rounding) simp

lemma decimal_almost_one:
  "decimal_of_string ''0.99999999999999999999999999999999999''
    = Some (DFin (99999999999999999999999999999999999 / 10 ^ 35))"
  by (simp add: decimal_of_string_def strip_def lstrip_def rstrip_def is_space_def split_sign_def
      lower_char_def unsigned_decimal_def is_digit_def string_nat_def digit_val_def Let_def)

text \<open>The conversion does round silently: a text just below one coin is read as one coin.\<close>

theorem atoms_rounds_silently: "atoms (JStr ''0.99999999999999999999999999999999999'') = Inr 100000000"
proof -
  let ?x = "99999999999999999999999999999999999 / 10 ^ 27 :: rat"
  have f: "flog 10 ?x = 7" by (rule flog_unique) simp_all
  have "round_half_even (?x / 10 powi (-20)) = 10 ^ 28"
    by (rule round_half_even_near) simp
  then have "dec_round ?x = 100000000" using f by (simp add: dec_round_def)
  moreover have "flog 10 100000000 = 8" by (rule flog_unique) simp_all
  ultimately have "dec_op ?x = Inr 100000000" by (simp add: dec_op_def)
  then show ?thesis by (simp add: atoms_def decimal_almost_one)
qed

section \<open>A batch that may be signed\<close>



end
