(* ===== verification/Treasury_Plan.thy ===== *)
theory Treasury_Plan
  imports Treasury_Check
begin

text \<open>
  \<open>cmd_plan\<close> and \<open>_plan_part\<close> of \<open>scripts/treasury_spend.py\<close>: the scan, the outputs that are not
  mature or that the mempool has spent, the selection of inputs, and the unsigned plans.
\<close>

section \<open>The planner\<close>

definition FEERATE_PER_KVB :: pyfloat where
  "FEERATE_PER_KVB = fl (2 / 10000)"

record plan_args =
  pa_to :: string
  pa_amount :: pyfloat
  pa_reason :: string
  pa_conf :: string
  pa_out :: string
  pa_parts :: int

text \<open>An integer in arithmetic; the node's heights are integers, anything else raises.\<close>

fun jnum_int :: "json \<Rightarrow> py_error + int" where
  "jnum_int (JInt n) = Inr n"
| "jnum_int (JBool b) = Inr (if b then 1 else 0)"
| "jnum_int _ = Inl TypeError"

definition is_mature :: "json \<Rightarrow> json \<Rightarrow> py_error + bool" where
  "is_mature tip u =
     rbind (jnum_int tip) (\<lambda>t. rbind (jitem u ''height'') (\<lambda>hj. rbind (jnum_int hj) (\<lambda>h.
       Inr (COINBASE_MATURITY < t - h + 1))))"

text \<open>The outpoints one mempool transaction spends, from its decoded form.\<close>

definition spent_key :: "json \<Rightarrow> py_error + (json \<times> json) list" where
  "spent_key vin =
     rbind (jhas ''coinbase'' vin) (\<lambda>cb.
       if cb then Inr []
       else rbind (jhas ''txid'' vin) (\<lambda>has_txid. rbind (jhas ''vout'' vin) (\<lambda>has_vout.
         if \<not> has_txid \<or> \<not> has_vout then Inl die
         else rbind (jitem vin ''txid'') (\<lambda>txid. rbind (jitem vin ''vout'') (\<lambda>vout.
           if hashable txid \<and> hashable vout then Inr [(txid, vout)] else Inl TypeError)))))"

definition spent_keys :: "json \<Rightarrow> py_error + (json \<times> json) list" where
  "spent_keys entry =
     (case entry of
        JObj kvs \<Rightarrow> (case map_of kvs ''vin'' of
            Some (JArr vins) \<Rightarrow> rbind (rmap spent_key vins) (\<lambda>ks. Inr (concat ks))
          | _ \<Rightarrow> Inl die)
      | _ \<Rightarrow> Inl die)"

definition not_spent :: "(json \<times> json) list \<Rightarrow> json \<Rightarrow> py_error + bool" where
  "not_spent spent u =
     rbind (jitem u ''txid'') (\<lambda>txid. rbind (jitem u ''vout'') (\<lambda>vout.
       if hashable txid \<and> hashable vout then Inr (\<not> list_ex (key_eq (txid, vout)) spent)
       else Inl TypeError))"

text \<open>Oldest first: a stable sort by height.\<close>

definition sort_by_height :: "json list \<Rightarrow> py_error + json list" where
  "sort_by_height us =
     rbind (rmap (\<lambda>u. rbind (jitem u ''height'') (\<lambda>hj. rbind (jnum_int hj) (\<lambda>h. Inr (h, u)))) us)
       (\<lambda>hus. Inr (map snd (sort_key fst hus)))"

text \<open>Inputs off the front of the pool until they exceed the target by one input's worth.\<close>

fun take_inputs :: "pyfloat \<Rightarrow> json list \<Rightarrow> pyfloat \<Rightarrow> py_error + json list \<times> pyfloat" where
  "take_inputs target [] got = Inr ([], got)"
| "take_inputs target (u # pool) got =
     rbind (jitem u ''amount'') (\<lambda>a. rbind (jfloat a) (\<lambda>x.
       let got' = fadd got x
       in if fle (fadd target (Fin 3)) got' then Inr ([u], got')
          else rbind (take_inputs target pool got') (\<lambda>(chosen, g). Inr (u # chosen, g))))"

definition input_of :: "json \<Rightarrow> py_error + json" where
  "input_of u =
     rbind (jitem u ''txid'') (\<lambda>txid. rbind (jitem u ''vout'') (\<lambda>vout.
       Inr (JObj [(''txid'', txid), (''vout'', vout)])))"

definition prevtx_of :: "json \<Rightarrow> py_error + json" where
  "prevtx_of u =
     rbind (jitem u ''txid'') (\<lambda>txid. rbind (jitem u ''vout'') (\<lambda>vout.
     rbind (jitem u ''scriptPubKey'') (\<lambda>spk. rbind (jitem u ''amount'') (\<lambda>a. rbind (jfloat a) (\<lambda>x.
       Inr (JObj [(''txid'', txid), (''vout'', vout), (''scriptPubKey'', spk), (''amount'', JFloat x)]))))))"

definition plan_part ::
  "'n node \<Rightarrow> json list \<Rightarrow> pyfloat \<Rightarrow> string \<Rightarrow> string \<Rightarrow> json \<Rightarrow> nat \<Rightarrow> nat
     \<Rightarrow> ('n, json \<times> json list) task" where
  "plan_part node pool target to reason tip part parts =
     bnd (lift (take_inputs target pool (Fin 0))) (\<lambda>(chosen, got).
     if fless got target then throw die
     else
       let size = int (length chosen) * 148 + 2 * 34 + 10;
           fee0 = fround8 (fdiv_const (fmul FEERATE_PER_KVB (fl (of_int size))) 1000);
           change0 = fround8 (fsub (fsub got target) fee0)
       in if fless change0 (Fin 0) then throw die
          else bnd (lift (rmap input_of chosen)) (\<lambda>inputs.
            let big = fle (fl (546 / 10 ^ 8)) change0;
                outputs = JObj [(to, JFloat target)]
                  # (if big then [JObj [(TREASURY, JFloat change0)]] else []);
                fee = (if big then fee0 else fround8 (fadd fee0 change0));
                change = (if big then change0 else Fin 0)
            in bnd (rpc_call node ''createrawtransaction'' [JArr inputs, JArr outputs]) (\<lambda>raw.
               bnd (lift (rmap prevtx_of chosen)) (\<lambda>prevtxs.
               ret (JObj [(''network'', JStr ''mainnet''), (''from'', JStr TREASURY), (''to'', JStr to),
                          (''amount'', JFloat target), (''change'', JFloat change), (''fee'', JFloat fee),
                          (''inputs'', JInt (int (length chosen))), (''inputSet'', JArr inputs),
                          (''inputTotal'', JFloat (fround8 got)), (''sizeBytes'', JInt size),
                          (''plannedAtHeight'', tip), (''unsignedHex'', raw),
                          (''prevtxs'', JArr prevtxs), (''reason'', JStr reason),
                          (''part'', JInt (int part)), (''parts'', JInt (int parts))],
                    drop (length chosen) pool)))))"

text \<open>The parts are cut one after the other from one pool.\<close>

fun plan_parts ::
  "'n node \<Rightarrow> plan_args \<Rightarrow> json \<Rightarrow> nat \<Rightarrow> json list \<Rightarrow> nat list \<Rightarrow> ('n, json list) task" where
  "plan_parts node args tip parts pool [] = ret []"
| "plan_parts node args tip parts pool (i # is) =
     bnd (plan_part node pool (pa_amount args) (pa_to args)
            (if parts = 1 then pa_reason args
             else pa_reason args @ '' ('' @ nat_string i @ '' of '' @ nat_string parts @ '')'')
            tip i parts) (\<lambda>(plan, pool').
     bnd (plan_parts node args tip parts pool' is) (\<lambda>plans. ret (plan # plans)))"

text \<open>No two parts may spend one outpoint.\<close>

fun disjoint_parts :: "json list \<Rightarrow> (json \<times> json) list \<Rightarrow> py_error + unit" where
  "disjoint_parts [] seen = Inr ()"
| "disjoint_parts (plan # plans) seen =
     rbind (jitem plan ''inputSet'') (\<lambda>inset. rbind (jiter inset) (\<lambda>inps.
     rbind (see_inputs inps seen) (\<lambda>r. case r of
         None \<Rightarrow> Inl die
       | Some seen' \<Rightarrow> disjoint_parts plans seen')))"

definition plan_file :: "plan_args \<Rightarrow> nat \<Rightarrow> nat \<Rightarrow> string" where
  "plan_file args parts i = (if parts = 1 then pa_out args else part_name (pa_out args) i parts)"

text \<open>The tip and the pool of outputs that the parts are cut from.\<close>

definition scan_params :: "json list" where
  "scan_params = [JStr ''start'', JArr [JStr (''addr('' @ TREASURY @ '')'')]]"

definition read_mempool_tx :: "'n node \<Rightarrow> json \<Rightarrow> ('n, (json \<times> json) list) task" where
  "read_mempool_tx node txid =
     bnd (except_die (rpc_call node ''getrawtransaction'' [txid, JBool True])
            [KeyError ''result'', AttributeError, TypeError])
       (\<lambda>entry. lift (spent_keys entry))"

definition plan_pool :: "'n node \<Rightarrow> plan_args \<Rightarrow> ('n, json \<times> json list) task" where
  "plan_pool node args =
     bnd (rpc_init (pa_conf args)) (\<lambda>_.
     bnd (rpc_call node ''getblockcount'' []) (\<lambda>tip.
     bnd (rpc_call node ''scantxoutset'' scan_params) (\<lambda>scan.
     bnd (lift (jget scan ''success'' JNull)) (\<lambda>success.
     if \<not> jtruthy success then throw die
     else
     bnd (lift (rbind (jget scan ''unspents'' (JArr [])) jiter)) (\<lambda>utxos.
     bnd (lift (rfilter (is_mature tip) utxos)) (\<lambda>mature.
     bnd (rpc_call node ''getrawmempool'' []) (\<lambda>mempool.
     bnd (lift (if jtruthy mempool then jiter mempool else Inr [])) (\<lambda>txids.
     bnd (for_each (read_mempool_tx node) txids) (\<lambda>spents.
     bnd (lift (if concat spents = [] then Inr mature else rfilter (not_spent (concat spents)) mature))
       (\<lambda>free.
     bnd (lift (rbind (jnum_int tip) (\<lambda>_. rbind (jitem scan ''total_amount'') jfloat))) (\<lambda>_.
     bnd (lift (sort_by_height free)) (\<lambda>pool.
     ret (tip, pool)))))))))))))"

definition cmd_plan :: "'n node \<Rightarrow> plan_args \<Rightarrow> ('n, unit) task" where
  "cmd_plan node args =
     bnd (plan_pool node args) (\<lambda>(tip, pool).
     let parts = nat (max 1 (pa_parts args))
     in bnd (plan_parts node args tip parts pool [1..<Suc parts]) (\<lambda>built.
        bnd (lift (disjoint_parts built [])) (\<lambda>_.
        bnd (for_each (\<lambda>(i, plan). write_json (plan_file args parts i) plan)
               (zip [1..<Suc parts] built)) (\<lambda>_.
        ret ()))))"

section \<open>Only mature outputs that nothing has spent\<close>

definition creates :: "event \<Rightarrow> bool" where
  "creates e = (case e of Rpc_Sent m _ _ \<Rightarrow> m = ''createrawtransaction'' | _ \<Rightarrow> False)"

text \<open>
  An output of the scan may be spent: the node reported the scan and the tip, at that tip it is
  deeper than the coinbase maturity, and no transaction that the node listed in its mempool
  spends it.
\<close>

definition spendable :: "event list \<Rightarrow> json \<Rightarrow> bool" where
  "spendable evs u \<longleftrightarrow>
     (\<exists>tip scan utxos mempool txids.
        said evs ''getblockcount'' [] tip
        \<and> said evs ''scantxoutset'' scan_params scan
        \<and> rbind (jget scan ''unspents'' (JArr [])) jiter = Inr utxos \<and> u \<in> set utxos
        \<and> is_mature tip u = Inr True
        \<and> said evs ''getrawmempool'' [] mempool
        \<and> (if jtruthy mempool then jiter mempool else Inr []) = Inr txids
        \<and> (\<forall>txid \<in> set txids. \<exists>entry keys.
              said evs ''getrawtransaction'' [txid, JBool True] entry
              \<and> spent_keys entry = Inr keys \<and> (keys = [] \<or> not_spent keys u = Inr True)))"

definition spends_spendable :: "event list \<Rightarrow> event \<Rightarrow> bool" where
  "spends_spendable evs e =
     (case e of
        Rpc_Sent _ [JArr inputs, _] _ \<Rightarrow>
          list_all (\<lambda>inp. \<exists>u. input_of u = Inr inp \<and> spendable evs u) inputs
      | _ \<Rightarrow> False)"

lemma spendable_append: "spendable evs u \<Longrightarrow> spendable (evs @ evs') u"
proof -
  assume "spendable evs u"
  then obtain tip scan utxos mempool txids
    where "said evs ''getblockcount'' [] tip" "said evs ''scantxoutset'' scan_params scan"
      "rbind (jget scan ''unspents'' (JArr [])) jiter = Inr utxos" "u \<in> set utxos"
      "is_mature tip u = Inr True" "said evs ''getrawmempool'' [] mempool"
      "(if jtruthy mempool then jiter mempool else Inr []) = Inr txids"
      and read: "\<forall>txid \<in> set txids. \<exists>entry keys.
              said evs ''getrawtransaction'' [txid, JBool True] entry
              \<and> spent_keys entry = Inr keys \<and> (keys = [] \<or> not_spent keys u = Inr True)"
    unfolding spendable_def by blast
  moreover have "\<forall>txid \<in> set txids. \<exists>entry keys.
              said (evs @ evs') ''getrawtransaction'' [txid, JBool True] entry
              \<and> spent_keys entry = Inr keys \<and> (keys = [] \<or> not_spent keys u = Inr True)"
    using read said_append by blast
  ultimately show ?thesis unfolding spendable_def using said_append by blast
qed

lemma not_spent_concat:
  assumes "not_spent (concat spents) u = Inr True" "keys \<in> set spents"
  shows "not_spent keys u = Inr True"
  using assms by (auto simp: not_spent_def list_ex_iff split: if_split_asm)

lemma take_inputs_prefix:
  "take_inputs target pool got = Inr (chosen, g) \<Longrightarrow> chosen = take (length chosen) pool"
proof (induction pool arbitrary: got chosen g)
  case (Cons u pool)
  then show ?case by (auto simp: Let_def split: if_splits prod.splits)
qed simp

lemma sort_by_height_mset: "sort_by_height us = Inr vs \<Longrightarrow> mset vs = mset us"
proof -
  assume "sort_by_height us = Inr vs"
  then obtain hus where h: "rmap (\<lambda>u. rbind (jitem u ''height'') (\<lambda>hj. rbind (jnum_int hj) (\<lambda>h. Inr (h, u)))) us
      = Inr hus" and vs: "vs = map snd (sort_key fst hus)"
    by (auto simp: sort_by_height_def)
  from h have "list_all2 (\<lambda>u hu. u = snd hu) us hus"
    unfolding rmap_Inr_iff by (rule list_all2_mono) auto
  then have "map snd hus = us" by (auto simp: list_all2_conv_all_nth intro: nth_equalityI)
  then show ?thesis unfolding vs by (metis mset_map mset_sort)
qed

lemma triple_plan_part:
  assumes pool: "\<And>F l u. \<Phi> F l \<Longrightarrow> u \<in> set pool \<Longrightarrow> spendable l u"
    and st: "\<And>F l e. \<Phi> F l \<Longrightarrow> \<Phi> F (l @ [e])"
  shows "triple (holds (\<lambda>F l. \<Phi> F l \<and> guarded creates spends_spendable l))
    (plan_part node pool target to reason tip part parts)
    (\<lambda>p. holds (\<lambda>F l. (\<Phi> F l \<and> guarded creates spends_spendable l) \<and> set (snd p) \<subseteq> set pool))
    (holds (\<lambda>F l. guarded creates spends_spendable l))"
proof -
  let ?I = "\<lambda>F l. \<Phi> F l \<and> guarded creates spends_spendable l"
  have call: "triple (holds ?I) (rpc_call node ''createrawtransaction'' [JArr inputs, outs])
      (\<lambda>_. holds ?I) (holds (\<lambda>F l. guarded creates spends_spendable l))"
    if inputs: "rmap input_of chosen = Inr inputs" and sub: "set chosen \<subseteq> set pool" for chosen inputs outs
  proof -
    have ok: "spends_spendable l (Rpc_Sent ''createrawtransaction'' [JArr inputs, outs] a)"
      if \<Phi>: "\<Phi> F l" for F l a
    proof -
      have "\<exists>u. input_of u = Inr inp \<and> spendable l u" if "inp \<in> set inputs" for inp
      proof -
        from that obtain i where i: "i < length inputs" "inp = inputs ! i" by (auto simp: in_set_conv_nth)
        moreover have "i < length chosen" "input_of (chosen ! i) = Inr (inputs ! i)"
          using inputs i unfolding rmap_Inr_iff by (simp_all add: list_all2_conv_all_nth)
        moreover have "chosen ! i \<in> set pool" using sub \<open>i < length chosen\<close> by auto
        ultimately show ?thesis using pool [OF \<Phi>] by blast
      qed
      then show ?thesis by (simp add: spends_spendable_def list_all_iff)
    qed
    show ?thesis by (rule triple_rpc_call) (auto simp: ok st)
  qed
  show ?thesis
    unfolding plan_part_def
  proof (intro triple_bnd_lift triple_prod triple_if triple_let)
    fix x chosen got size fee0 change0 inputs big outputs fee change
    assume x: "take_inputs target pool (Fin 0) = Inr x" "x = (chosen, got)"
      and inputs: "rmap input_of chosen = Inr inputs"
    have "chosen = take (length chosen) pool" using x by (auto intro: take_inputs_prefix)
    then have "set chosen \<subseteq> set pool" by (metis set_take_subset)
    from call [OF inputs this]
    show "triple (holds ?I)
        (bnd (rpc_call node ''createrawtransaction'' [JArr inputs, JArr outputs]) (\<lambda>raw.
               bnd (lift (rmap prevtx_of chosen)) (\<lambda>prevtxs.
               ret (JObj [(''network'', JStr ''mainnet''), (''from'', JStr TREASURY), (''to'', JStr to),
                          (''amount'', JFloat target), (''change'', JFloat change), (''fee'', JFloat fee),
                          (''inputs'', JInt (int (length chosen))), (''inputSet'', JArr inputs),
                          (''inputTotal'', JFloat (fround8 got)), (''sizeBytes'', JInt size),
                          (''plannedAtHeight'', tip), (''unsignedHex'', raw),
                          (''prevtxs'', JArr prevtxs), (''reason'', JStr reason),
                          (''part'', JInt (int part)), (''parts'', JInt (int parts))],
                    drop (length chosen) pool))))
        (\<lambda>p. holds (\<lambda>F l. ?I F l \<and> set (snd p) \<subseteq> set pool))
        (holds (\<lambda>F l. guarded creates spends_spendable l))"
      by (rule triple_bnd)
        (auto intro!: triple_bnd_lift triple_ret_log dest: in_set_dropD simp: holds_def)
  qed (auto simp: holds_def intro: triple_throw_log)
qed

lemma triple_plan_parts:
  assumes pool: "\<And>F l u. \<Phi> F l \<Longrightarrow> u \<in> set pool \<Longrightarrow> spendable l u"
    and st: "\<And>F l e. \<Phi> F l \<Longrightarrow> \<Phi> F (l @ [e])"
  shows "triple (holds (\<lambda>F l. \<Phi> F l \<and> guarded creates spends_spendable l))
    (plan_parts node args tip parts pool is)
    (\<lambda>_. holds (\<lambda>F l. guarded creates spends_spendable l))
    (holds (\<lambda>F l. guarded creates spends_spendable l))"
  using pool
proof (induction "is" arbitrary: pool)
  case Nil
  then show ?case by (auto intro: triple_ret_log)
next
  case (Cons i "is")
  let ?I = "\<lambda>F l. \<Phi> F l \<and> guarded creates spends_spendable l"
  show ?case
    unfolding plan_parts.simps
  proof (rule triple_bnd [OF triple_plan_part [where \<Phi> = \<Phi>]], rule Cons.prems, assumption, assumption,
      rule st, assumption, rule triple_prod)
    fix p :: "json \<times> json list" and plan pool' assume p: "p = (plan, pool')"
    show "triple (holds (\<lambda>F l. ?I F l \<and> set (snd p) \<subseteq> set pool))
        (bnd (plan_parts node args tip parts pool' is) (\<lambda>plans. ret (plan # plans)))
        (\<lambda>_. holds (\<lambda>F l. guarded creates spends_spendable l))
        (holds (\<lambda>F l. guarded creates spends_spendable l))"
    proof (cases "set pool' \<subseteq> set pool")
      case True
      then have "triple (holds ?I) (plan_parts node args tip parts pool' is)
          (\<lambda>_. holds (\<lambda>F l. guarded creates spends_spendable l))
          (holds (\<lambda>F l. guarded creates spends_spendable l))"
        using Cons.prems by (intro Cons.IH) auto
      then have "triple (holds ?I) (bnd (plan_parts node args tip parts pool' is) (\<lambda>plans. ret (plan # plans)))
          (\<lambda>_. holds (\<lambda>F l. guarded creates spends_spendable l))
          (holds (\<lambda>F l. guarded creates spends_spendable l))"
        by (rule triple_bnd) (auto intro: triple_ret_log)
      then show ?thesis by (rule triple_log_conseq) auto
    next
      case False
      then show ?thesis by (auto simp: p triple_def holds_def)
    qed
  qed
qed

lemma triple_read_mempool:
  assumes "keeps creates \<Phi>" and "\<And>F l. \<Phi> F l \<Longrightarrow> \<Psi> F l"
  shows "triple (holds \<Phi>) (read_mempool_tx node txid)
    (\<lambda>keys. holds (\<lambda>F l. \<Phi> F l \<and> (\<exists>entry. said l ''getrawtransaction'' [txid, JBool True] entry
        \<and> spent_keys entry = Inr keys))) (holds \<Psi>)"
  unfolding read_mempool_tx_def
proof (rule triple_bnd [OF triple_except_die [OF triple_rpc_said [OF assms(1)]]])
  show "\<not> creates (Rpc_Sent ''getrawtransaction'' [txid, JBool True] answer)" for answer
    by (simp add: creates_def)
  show "triple (holds (\<lambda>F l. \<Phi> F l \<and> said l ''getrawtransaction'' [txid, JBool True] entry))
      (lift (spent_keys entry))
      (\<lambda>keys. holds (\<lambda>F l. \<Phi> F l \<and> (\<exists>entry. said l ''getrawtransaction'' [txid, JBool True] entry
        \<and> spent_keys entry = Inr keys))) (holds \<Psi>)" for entry
    by (rule triple_lift_log) (use assms(2) in auto)
qed (use assms(2) in auto)

text \<open>What holds of every transaction the loop over the mempool has read.\<close>

definition mempool_read :: "event list \<Rightarrow> (json \<times> (json \<times> json) list) list \<Rightarrow> bool" where
  "mempool_read l done \<longleftrightarrow> list_all (\<lambda>(txid, keys). \<exists>entry.
     said l ''getrawtransaction'' [txid, JBool True] entry \<and> spent_keys entry = Inr keys) done"

lemma mempool_read_append: "mempool_read l ys \<Longrightarrow> mempool_read (l @ l') ys"
  unfolding mempool_read_def list_all_iff using said_append by fast

lemma triple_mempool_loop:
  assumes "keeps creates \<Phi>" and "\<And>F l. \<Phi> F l \<Longrightarrow> \<Psi> F l"
  shows "triple (holds \<Phi>) (for_each (read_mempool_tx node) txids)
    (\<lambda>spents. holds (\<lambda>F l. \<Phi> F l \<and> mempool_read l (zip txids spents) \<and> length spents = length txids)) (holds \<Psi>)"
proof -
  have st: "keeps creates (\<lambda>F l. \<Phi> F l \<and> mempool_read l ys)" for ys
    by (intro keep_rules assms(1) keepsI mempool_read_append)
  have "triple (holds (\<lambda>F l. \<Phi> F l \<and> mempool_read l []))
      (for_each (read_mempool_tx node) txids)
      (\<lambda>spents. holds (\<lambda>F l. \<Phi> F l \<and> mempool_read l (zip txids spents))) (holds \<Psi>)"
  proof (rule triple_log_for_each [where \<Phi> = "\<lambda>ys F l. \<Phi> F l \<and> mempool_read l ys"])
    show "triple (holds (\<lambda>F l. \<Phi> F l \<and> mempool_read l ys)) (read_mempool_tx node x)
        (\<lambda>y. holds (\<lambda>F l. \<Phi> F l \<and> mempool_read l (ys @ [(x, y)]))) (holds \<Psi>)" for x ys
      by (rule triple_log_conseq [OF triple_read_mempool [OF st]])
        (use assms(2) in \<open>auto simp: mempool_read_def\<close>)
  qed
  then show ?thesis by (auto simp: triple_def holds_def mempool_read_def dest: for_each_length)
qed

lemma pool_spendable:
  assumes "said l ''getblockcount'' [] tip" "said l ''scantxoutset'' scan_params scan"
    and utxos: "rbind (jget scan ''unspents'' (JArr [])) jiter = Inr utxos"
    and mature: "rfilter (is_mature tip) utxos = Inr mature"
    and "said l ''getrawmempool'' [] mempool"
    and txids: "(if jtruthy mempool then jiter mempool else Inr []) = Inr txids"
    and read: "mempool_read l (zip txids spents)" "length spents = length txids"
    and free: "(if concat spents = [] then Inr mature else rfilter (not_spent (concat spents)) mature) = Inr free"
    and pool: "sort_by_height free = Inr pool"
  shows "\<forall>u \<in> set pool. spendable l u"
proof
  fix u assume "u \<in> set pool"
  then have u: "u \<in> set free" using sort_by_height_mset [OF pool] by (metis set_mset_mset)
  then have m: "u \<in> set mature" and ns: "concat spents = [] \<or> not_spent (concat spents) u = Inr True"
    using free rfilter_Inr [of "not_spent (concat spents)" mature free] by (auto split: if_splits)
  have um: "u \<in> set utxos" "is_mature tip u = Inr True"
    using m rfilter_Inr [OF mature] by auto
  have "\<exists>entry keys. said l ''getrawtransaction'' [txid, JBool True] entry
      \<and> spent_keys entry = Inr keys \<and> (keys = [] \<or> not_spent keys u = Inr True)"
    if "txid \<in> set txids" for txid
  proof -
    from that obtain i where i: "i < length txids" "txids ! i = txid" by (auto simp: in_set_conv_nth)
    then have "(txid, spents ! i) \<in> set (zip txids spents)"
      using read(2) by (auto simp: set_zip)
    then obtain entry where "said l ''getrawtransaction'' [txid, JBool True] entry"
      "spent_keys entry = Inr (spents ! i)"
      using read(1) by (auto simp: mempool_read_def list_all_iff)
    moreover have mem: "spents ! i \<in> set spents" using i read(2) by simp
    then have "spents ! i = [] \<or> not_spent (spents ! i) u = Inr True"
      using ns not_spent_concat [OF _ mem] by auto
    ultimately show ?thesis by blast
  qed
  then show "spendable l u" unfolding spendable_def using assms(1,2,5) utxos um txids by blast
qed

lemma triple_plan_pool:
  "triple (holds (\<lambda>F l. guarded creates spends_spendable l)) (plan_pool node args)
     (\<lambda>(tip, pool). holds (\<lambda>F l. (\<forall>u \<in> set pool. spendable l u) \<and> guarded creates spends_spendable l))
     (holds (\<lambda>F l. guarded creates spends_spendable l))"
  unfolding plan_pool_def
  apply (rule triple_bnd_init, assumption)
  apply (rule triple_bnd_said [where kind = creates], intro keep_rules, simp add: creates_def, assumption)
  apply (rule triple_bnd_said [where kind = creates], intro keep_rules, simp add: creates_def, blast)
  apply (rule triple_bnd_lift)
   apply (rule triple_if, rule triple_throw, simp add: holds_def)
   apply (rule triple_bnd_lift)+
     apply (rule triple_bnd_said [where kind = creates], intro keep_rules, simp add: creates_def, blast)
     apply (rule triple_bnd_lift)
      apply (rule triple_bnd [OF triple_mempool_loop], intro keep_rules, blast)
      apply (rule triple_bnd_lift)+
         apply (rule triple_ret)
         apply (auto simp: holds_def dest: pool_spendable)
  done

lemma triple_plan_creates:
  "triple (holds (\<lambda>F l. guarded creates spends_spendable l)) (cmd_plan node args)
     (\<lambda>_. holds (\<lambda>F l. guarded creates spends_spendable l))
     (holds (\<lambda>F l. guarded creates spends_spendable l))"
  unfolding cmd_plan_def
proof (rule triple_bnd [OF triple_plan_pool])
  fix r :: "json \<times> json list"
  obtain tip pool where r: "r = (tip, pool)" by (cases r)
  let ?G = "\<lambda>F l. guarded creates spends_spendable l"
  have w: "triple (holds ?G) (write_json f j) (\<lambda>_. holds ?G) (holds ?G)" for f j
    by (rule triple_write_json) (simp add: creates_def)
  have ws: "triple (holds ?G) (for_each (\<lambda>(i, plan). write_json (g i) plan) xs) (\<lambda>_. holds ?G) (holds ?G)"
    for g and xs :: "(nat \<times> json) list"
    by (rule triple_log_for_each [where \<Phi> = "\<lambda>_. ?G"]) (auto intro: w)
  have ps: "triple (holds (\<lambda>F l. (\<forall>u \<in> set pool. spendable l u) \<and> ?G F l))
      (plan_parts node args tip parts pool is) (\<lambda>_. holds ?G) (holds ?G)" for parts "is"
    by (rule triple_plan_parts [where \<Phi> = "\<lambda>F l. \<forall>u \<in> set pool. spendable l u"])
      (auto intro: spendable_append)
  show "triple (case r of (tip, pool) \<Rightarrow> holds (\<lambda>F l. (\<forall>u \<in> set pool. spendable l u) \<and> ?G F l))
      (case r of (tip, pool) \<Rightarrow>
        let parts = nat (max 1 (pa_parts args))
        in bnd (plan_parts node args tip parts pool [1..<Suc parts]) (\<lambda>built.
          bnd (lift (disjoint_parts built [])) (\<lambda>_.
          bnd (for_each (\<lambda>(i, plan). write_json (plan_file args parts i) plan)
               (zip [1..<Suc parts] built)) (\<lambda>_. ret ()))))
      (\<lambda>_. holds ?G) (holds ?G)"
    unfolding r prod.case Let_def
    by (rule triple_bnd [OF ps], rule triple_bnd_lift, rule triple_bnd [OF ws], rule triple_ret)
qed

section \<open>Properties\<close>

text \<open>C4: every transaction the planner has the node create spends only outputs of the node's own
  scan that are deeper than the coinbase maturity at the reported tip and that no transaction of
  the reported mempool spends.\<close>

theorem planner_spends_only_spendable:
  "guarded creates spends_spendable (w_log (snd (cmd_plan node args (w\<lparr>w_log := []\<rparr>))))"
proof -
  have "holds (\<lambda>F l. guarded creates spends_spendable l) (snd (cmd_plan node args (w\<lparr>w_log := []\<rparr>)))"
    by (rule triple_world [OF triple_plan_creates]) (simp add: holds_def)
  then show ?thesis by (simp add: holds_def)
qed

lemma disjoint_parts_ok:
  "disjoint_parts plans seen = Inr () \<Longrightarrow> distinct seen \<Longrightarrow>
     list_all (\<lambda>p. \<exists>kvs inps. p = JObj kvs \<and> map_of kvs ''inputSet'' = Some (JArr inps)) plans \<Longrightarrow>
   distinct (concat (map input_keys plans)) \<and> set seen \<inter> set (concat (map input_keys plans)) = {}"
proof (induction plans arbitrary: seen)
  case (Cons plan plans)
  from Cons.prems(3) obtain p inps where p: "plan = JObj p" "map_of p ''inputSet'' = Some (JArr inps)"
    by auto
  with Cons.prems(1) obtain seen' where see: "see_inputs inps seen = Inr (Some seen')"
    and rest: "disjoint_parts plans seen' = Inr ()"
    by (auto split: option.splits)
  have "seen' = rev (map input_key inps) @ seen" and d: "distinct seen'"
    using see_inputs_ok [OF see] Cons.prems(2) by blast+
  then have "seen' = rev (input_keys plan) @ seen" using p by (simp add: input_keys_def)
  with Cons.IH [OF rest d] Cons.prems(3) d show ?case by auto
qed simp

lemma no_writes_plan_pool: "no_writes (plan_pool node args)"
  unfolding plan_pool_def read_mempool_tx_def by (intro no_writes_rules)

lemma no_writes_plan_parts: "no_writes (plan_parts node args tip parts pool is)"
  by (induction "is" arbitrary: pool) (auto simp: plan_part_def Let_def intro!: no_writes_rules)

lemma plan_part_shape:
  "plan_part node pool target to reason tip part parts w = (Inr (plan, pool'), w') \<Longrightarrow>
   \<exists>kvs inps. plan = JObj kvs \<and> map_of kvs ''inputSet'' = Some (JArr inps)"
  by (auto simp: plan_part_def Let_def bnd_ok_iff split: prod.splits if_splits)

lemma plan_parts_shape:
  "plan_parts node args tip parts pool is w = (Inr plans, w') \<Longrightarrow>
   length plans = length is
   \<and> list_all (\<lambda>p. \<exists>kvs inps. p = JObj kvs \<and> map_of kvs ''inputSet'' = Some (JArr inps)) plans"
proof (induction "is" arbitrary: pool w plans)
  case (Cons i "is")
  from Cons.prems obtain p v where head: "plan_part node pool (pa_amount args) (pa_to args)
            (if parts = 1 then pa_reason args
             else pa_reason args @ '' ('' @ nat_string i @ '' of '' @ nat_string parts @ '')'')
            tip i parts w = (Inr p, v)"
    and tail: "(case p of (plan, pool') \<Rightarrow> bnd (plan_parts node args tip parts pool' is)
            (\<lambda>plans. ret (plan # plans))) v = (Inr plans, w')"
    by (auto simp: bnd_ok_iff)
  obtain plan pool' where p: "p = (plan, pool')" by (cases p)
  from tail obtain ps where ps: "plan_parts node args tip parts pool' is v = (Inr ps, w')" "plans = plan # ps"
    by (auto simp: p bnd_ok_iff)
  from Cons.IH [OF ps(1)] plan_part_shape [OF head [unfolded p]] show ?case by (simp add: ps(2))
qed simp

lemma plan_file_inj: "1 < parts \<Longrightarrow> plan_file args parts i = plan_file args parts j \<longleftrightarrow> i = j"
  by (simp add: plan_file_def part_name_eq)

lemma plan_files_distinct:
  "length built = n \<Longrightarrow> 0 < n \<Longrightarrow> distinct (map (plan_file args n \<circ> fst) (zip [1..<Suc n] built))"
proof (cases "n = 1")
  case False
  assume len: "length built = n" "0 < n"
  with False have "inj_on (plan_file args n) A" for A using plan_file_inj [of n] by (simp add: inj_on_def)
  moreover have "map fst (zip [1..<Suc n] built) = [1..<Suc n]" using len by simp
  ultimately show ?thesis by (simp only: distinct_map map_map [symmetric]) (simp add: distinct_map)
qed (cases built; simp)

text \<open>Once the parts are built: the check of their inputs, and the files.\<close>

lemma parts_are_written:
  assumes run: "bnd (lift (disjoint_parts built [])) (\<lambda>_.
        bnd (for_each (\<lambda>(i, plan). write_json (plan_file args n i) plan) (zip [1..<Suc n] built)) (\<lambda>_.
        ret ())) u = (r, w')"
    and len: "length built = n" "0 < n"
    and shape: "list_all (\<lambda>p. \<exists>kvs inps. p = JObj kvs \<and> map_of kvs ''inputSet'' = Some (JArr inps)) built"
  shows "(\<exists>e. r = Inl e) \<and> w_files w' = w_files u \<or>
    r = Inr () \<and> distinct (concat (map input_keys built)) \<and>
    list_all (\<lambda>(i, plan). w_files w' (plan_file args n i) = Some (Doc plan)) (zip [1..<Suc n] built)"
proof (cases "disjoint_parts built []")
  case (Inl e)
  then have "r = Inl e" "w' = u" using run by (simp_all add: bnd_def lift_def)
  then show ?thesis by simp
next
  case (Inr q)
  let ?z = "zip [1..<Suc n] built"
  obtain s t where ws: "for_each (\<lambda>(i, plan). write_json (plan_file args n i) plan) ?z u = (s, t)"
    by (cases "for_each (\<lambda>(i, plan). write_json (plan_file args n i) plan) ?z u")
  note all = write_all [OF ws]
  from all obtain y where "s = Inr y" by blast
  then have r: "r = Inr ()" "w' = t"
    using run ws Inr by (auto simp: bnd_def lift_def ret_def)
  then have "list_all (\<lambda>(i, plan). w_files w' (plan_file args n i) = Some (Doc plan)) ?z"
    using all plan_files_distinct [OF len] by (auto simp: list_all_iff)
  moreover have "distinct (concat (map input_keys built))"
    using disjoint_parts_ok [OF _ _ shape, of "[]"] Inr by simp
  ultimately show ?thesis using r by blast
qed


end
