(* ===== verification/Treasury_Sign.thy ===== *)
theory Treasury_Sign
  imports Treasury_Check
begin

text \<open>
  \<open>cmd_sign\<close> of \<open>scripts/treasury_spend.py\<close> with its helpers: the files are read and judged, every
  unsigned transaction is decoded and compared with its plan, the operator retypes the address
  and types the key, and only then is the key given to the signing client.
\<close>

section \<open>Signing\<close>

record sign_args =
  sa_infile :: string
  sa_out :: string
  sa_cli :: string
  sa_rpcconnect :: string
  sa_port :: int
  sa_rpcuser :: string
  sa_rpcpassword :: string
  sa_parts :: int

definition cli_base :: "sign_args \<Rightarrow> string list" where
  "cli_base args =
     [sa_cli args, ''-chain=main'', ''-rpcconnect='' @ sa_rpcconnect args,
      ''-rpcport='' @ int_string (sa_port args)]
     @ (if sa_rpcuser args \<noteq> []
        then [''-rpcuser='' @ sa_rpcuser args, ''-rpcpassword='' @ sa_rpcpassword args] else [])
     @ [''-stdin'']"

definition json_string :: "json \<Rightarrow> py_error + string" where
  "json_string v = (case v of JStr s \<Rightarrow> Inr s | _ \<Rightarrow> Inl TypeError)"

definition offline_decode :: "'n cli \<Rightarrow> sign_args \<Rightarrow> json \<Rightarrow> ('n, json) task" where
  "offline_decode cli args raw_hex =
     bnd (lift (json_string raw_hex)) (\<lambda>hex.
     bnd (cli_run cli (cli_base args @ [''decoderawtransaction'']) [Raw hex]) (\<lambda>(rc, out).
     if rc \<noteq> 0 then throw die
     else (case out of None \<Rightarrow> throw die | Some j \<Rightarrow> ret j)))"

definition sign_preflight :: "'n cli \<Rightarrow> sign_args \<Rightarrow> json \<Rightarrow> ('n, unit) task" where
  "sign_preflight cli args plan =
     bnd (lift (jitem plan ''unsignedHex'')) (\<lambda>hex.
     bnd (offline_decode cli args hex) (\<lambda>decoded.
     lift (verify_against_plan plan decoded)))"

text \<open>Three tries; an empty answer and a third bad key end the run.\<close>

fun ask_for_key :: "nat \<Rightarrow> ('n, string) task" where
  "ask_for_key 0 = throw die"
| "ask_for_key (Suc left) =
     bnd ask (\<lambda>l.
     let wif = strip l
     in if wif = [] then throw die
        else if wif_problem wif = None then ret wif
        else ask_for_key left)"

definition sign_one :: "'n cli \<Rightarrow> sign_args \<Rightarrow> json \<Rightarrow> string \<Rightarrow> string \<Rightarrow> ('n, unit) task" where
  "sign_one cli args plan wif out =
     bnd (lift (jitem plan ''unsignedHex'')) (\<lambda>hexj.
     bnd (lift (jitem plan ''prevtxs'')) (\<lambda>prevtxs.
     bnd (lift (json_string hexj)) (\<lambda>hex.
     bnd (cli_run cli (cli_base args @ [''signrawtransactionwithkey''])
            [Raw hex, Json (JArr [JStr wif]), Json prevtxs]) (\<lambda>(rc, stdout).
     if rc \<noteq> 0 then throw die
     else (case stdout of
         None \<Rightarrow> throw ValueError
       | Some res \<Rightarrow>
           bnd (lift (jget res ''complete'' JNull)) (\<lambda>complete.
           if \<not> jtruthy complete then throw die
           else bnd (lift (jitem res ''hex'')) (\<lambda>signed_hex.
             case plan of
               JObj kvs \<Rightarrow>
                 write_json out (JObj (dict_pop ''prevtxs'' (dict_set ''signedHex'' signed_hex kvs)))
             | _ \<Rightarrow> throw TypeError)))))))"

text \<open>What the summary prints has to be printable: the amounts are numbers, not text.\<close>

definition printable_coin :: "json \<Rightarrow> string \<Rightarrow> py_error + unit" where
  "printable_coin plan k =
     rbind (jitem plan k) (\<lambda>v. if is_number v then Inr () else Inl TypeError)"

definition summary :: "json list \<Rightarrow> py_error + unit" where
  "summary plans =
     (if length plans = 1 then
        rbind (printable_coin (hd plans) ''amount'') (\<lambda>_.
        rbind (jitem (hd plans) ''to'') (\<lambda>_. rbind (jitem (hd plans) ''from'') (\<lambda>_.
        rbind (printable_coin (hd plans) ''change'') (\<lambda>_.
        rbind (printable_coin (hd plans) ''fee'') (\<lambda>_. Inr ())))))
      else
        rbind (rmap (\<lambda>p. printable_coin p ''amount'') plans) (\<lambda>_.
        rbind (jitem (hd plans) ''to'') (\<lambda>_. rbind (jitem (hd plans) ''from'') (\<lambda>_.
        rbind (rmap (\<lambda>p. printable_coin p ''fee'') plans) (\<lambda>_.
        rbind (rmap (\<lambda>p. printable_coin p ''inputs'') plans) (\<lambda>_. Inr ()))))))"

definition sign_parts :: "sign_args \<Rightarrow> nat" where
  "sign_parts args = nat (max 1 (sa_parts args))"

definition sign_names :: "sign_args \<Rightarrow> string list" where
  "sign_names args =
     (if sign_parts args = 1 then [sa_infile args]
      else map (\<lambda>i. part_name (sa_infile args) i (sign_parts args)) [1..<Suc (sign_parts args)])"

definition sign_out :: "sign_args \<Rightarrow> nat \<Rightarrow> string" where
  "sign_out args i =
     (if sign_parts args = 1 then sa_out args else part_name (sa_out args) i (sign_parts args))"

definition confirm_destination :: "json \<Rightarrow> ('n, unit) task" where
  "confirm_destination plan =
     bnd ask (\<lambda>l.
     bnd (lift (jitem plan ''to'')) (\<lambda>to.
     if JStr (strip l) \<noteq> to then throw die else ret ()))"

definition cmd_sign :: "'n cli \<Rightarrow> sign_args \<Rightarrow> ('n, unit) task" where
  "cmd_sign cli args =
     bnd (for_each (\<lambda>n. except_die (load_json n) [OSError, ValueError]) (sign_names args)) (\<lambda>plans.
     bnd (lift (batch_problem plans)) (\<lambda>why.
     if why \<noteq> None then throw die
     else
     bnd (for_each (sign_preflight cli args) plans) (\<lambda>_.
     bnd (lift (summary plans)) (\<lambda>_.
     bnd (confirm_destination (hd plans)) (\<lambda>_.
     bnd (ask_for_key 3) (\<lambda>wif.
     bnd (for_each (\<lambda>(i, plan). sign_one cli args plan wif (sign_out args i))
            (zip [1..<Suc (length plans)] plans)) (\<lambda>_.
     ret ())))))))"

section \<open>The key is used last, and only on what was read\<close>

definition signs :: "event \<Rightarrow> bool" where
  "signs e = (case e of
      Cli_Run argv _ _ _ \<Rightarrow> argv \<noteq> [] \<and> last argv = ''signrawtransactionwithkey'' | _ \<Rightarrow> False)"

text \<open>The client has decoded the unsigned transaction of a plan, and it is what the plan says.\<close>

definition preflighted :: "sign_args \<Rightarrow> event list \<Rightarrow> json \<Rightarrow> bool" where
  "preflighted args evs plan \<longleftrightarrow>
     (\<exists>hex decoded. jitem plan ''unsignedHex'' = Inr (JStr hex)
        \<and> Cli_Run (cli_base args @ [''decoderawtransaction'']) [Raw hex] 0 (Some decoded) \<in> set evs
        \<and> verify_against_plan plan decoded = Inr ())"

definition may_sign :: "sign_args \<Rightarrow> (string \<Rightarrow> stored option) \<Rightarrow> event list \<Rightarrow> event \<Rightarrow> bool" where
  "may_sign args F evs e \<longleftrightarrow>
     (\<exists>plans plan hex wif to l prevtxs rc out.
        length plans = length (sign_names args)
        \<and> list_all2 (\<lambda>n p. F n = Some (Doc p)) (sign_names args) plans
        \<and> batch_problem plans = Inr None
        \<and> list_all (preflighted args evs) plans
        \<and> jitem (hd plans) ''to'' = Inr (JStr to) \<and> Typed l \<in> set evs \<and> strip l = to
        \<and> wif_problem wif = None
        \<and> plan \<in> set plans \<and> jitem plan ''unsignedHex'' = Inr (JStr hex)
        \<and> e = Cli_Run (cli_base args @ [''signrawtransactionwithkey''])
                [Raw hex, Json (JArr [JStr wif]), Json prevtxs] rc out)"

lemma jitem_JStr: "jitem v k = Inr x \<Longrightarrow> json_string x = Inr s \<Longrightarrow> jitem v k = Inr (JStr s)"
  by (cases x) (auto simp: json_string_def)

lemma preflighted_append: "preflighted args l p \<Longrightarrow> preflighted args (l @ l') p"
  by (auto simp: preflighted_def)

lemma not_signs [simp]:
  "\<not> signs (Cli_Run (cli_base args @ [''decoderawtransaction'']) s r j)" "\<not> signs (Typed l)"
  "\<not> signs (Written f j2)"
  by (simp_all add: signs_def)

lemma triple_preflight:
  assumes "keeps signs \<Phi>" and "\<And>F l. \<Phi> F l \<Longrightarrow> \<Psi> F l"
  shows "triple (holds \<Phi>) (sign_preflight cli args plan)
    (\<lambda>_. holds (\<lambda>F l. \<Phi> F l \<and> preflighted args l plan)) (holds \<Psi>)"
  unfolding sign_preflight_def offline_decode_def
proof (rule triple_bnd_lift)
  fix hexj assume hexj: "jitem plan ''unsignedHex'' = Inr hexj"
  let ?run = "\<lambda>hex d. Cli_Run (cli_base args @ [''decoderawtransaction'']) [Raw hex] 0 (Some d)"
  let ?R = "\<lambda>d F l. \<Phi> F l \<and> (\<exists>hex. json_string hexj = Inr hex \<and> ?run hex d \<in> set l)"
  have "triple (holds \<Phi>) (bnd (lift (json_string hexj)) (\<lambda>hex.
      bnd (cli_run cli (cli_base args @ [''decoderawtransaction'']) [Raw hex]) (\<lambda>(rc, out).
      if rc \<noteq> 0 then throw die else (case out of None \<Rightarrow> throw die | Some j \<Rightarrow> ret j))))
      (\<lambda>d. holds (?R d)) (holds \<Psi>)"
  proof (rule triple_bnd_lift)
    fix hex assume hex: "json_string hexj = Inr hex"
    show "triple (holds \<Phi>)
        (bnd (cli_run cli (cli_base args @ [''decoderawtransaction'']) [Raw hex]) (\<lambda>(rc, out).
          if rc \<noteq> 0 then throw die else (case out of None \<Rightarrow> throw die | Some j \<Rightarrow> ret j)))
        (\<lambda>d. holds (?R d)) (holds \<Psi>)"
    proof (rule triple_bnd [OF triple_cli_run])
      show "\<Phi> F l \<Longrightarrow> (\<lambda>(rc, out) F l. \<Phi> F l \<and> Cli_Run (cli_base args @ [''decoderawtransaction''])
          [Raw hex] rc out \<in> set l) (rc, out) F (l @ [Cli_Run (cli_base args @ [''decoderawtransaction''])
          [Raw hex] rc out])" for F l rc out
        using assms(1) by (simp add: keeps_def)
      show "triple (holds ((\<lambda>(rc, out) F l. \<Phi> F l \<and> Cli_Run (cli_base args @ [''decoderawtransaction''])
          [Raw hex] rc out \<in> set l) x))
          (case x of (rc, out) \<Rightarrow> if rc \<noteq> 0 then throw die else (case out of None \<Rightarrow> throw die | Some j \<Rightarrow> ret j))
          (\<lambda>d. holds (?R d)) (holds \<Psi>)" for x
        using assms(2) hex
        by (intro triple_prod triple_if triple_case_option triple_throw_holds triple_ret_log) auto
    qed
  qed (use assms(2) in \<open>simp add: holds_def\<close>)
  then show "triple (holds \<Phi>) (bnd (bnd (lift (json_string hexj)) (\<lambda>hex.
      bnd (cli_run cli (cli_base args @ [''decoderawtransaction'']) [Raw hex]) (\<lambda>(rc, out).
      if rc \<noteq> 0 then throw die else (case out of None \<Rightarrow> throw die | Some j \<Rightarrow> ret j))))
      (\<lambda>decoded. lift (verify_against_plan plan decoded)))
      (\<lambda>_. holds (\<lambda>F l. \<Phi> F l \<and> preflighted args l plan)) (holds \<Psi>)"
  proof (rule triple_bnd)
    show "triple (holds (?R d)) (lift (verify_against_plan plan d))
        (\<lambda>_. holds (\<lambda>F l. \<Phi> F l \<and> preflighted args l plan)) (holds \<Psi>)" for d
      using assms(2) jitem_JStr [OF hexj] by (intro triple_lift_log) (auto simp: preflighted_def)
  qed
qed (use assms(2) in \<open>simp add: holds_def\<close>)

lemma triple_ask_for_key:
  assumes "keeps signs \<Phi>" and "\<And>F l. \<Phi> F l \<Longrightarrow> \<Psi> F l"
  shows "triple (holds \<Phi>) (ask_for_key n) (\<lambda>wif. holds (\<lambda>F l. \<Phi> F l \<and> wif_problem wif = None)) (holds \<Psi>)"
proof (induction n)
  case 0
  show ?case using assms(2) by (auto intro: triple_throw_holds)
next
  case (Suc n)
  have "triple (holds \<Phi>) ask (\<lambda>_. holds \<Phi>) (holds \<Psi>)"
    using assms by (intro triple_ask) (auto simp: keeps_def)
  then show ?case unfolding ask_for_key.simps
    using assms(2) Suc.IH
    by (intro triple_bnd [where R = "\<lambda>_. holds \<Phi>"] triple_let triple_if triple_throw_holds triple_ret_log) auto
qed

lemma triple_confirm:
  assumes "keeps signs \<Phi>" and "\<And>F l. \<Phi> F l \<Longrightarrow> \<Psi> F l"
  shows "triple (holds \<Phi>) (confirm_destination plan)
    (\<lambda>_. holds (\<lambda>F l. \<Phi> F l \<and> (\<exists>t. jitem plan ''to'' = Inr (JStr (strip t)) \<and> Typed t \<in> set l))) (holds \<Psi>)"
  unfolding confirm_destination_def
proof (rule triple_bnd [OF triple_ask])
  show "\<Phi> F l \<Longrightarrow> (\<lambda>t F l. \<Phi> F l \<and> Typed t \<in> set l) t F (l @ [Typed t])" for F l t
    using assms(1) by (simp add: keeps_def)
  show "triple (holds ((\<lambda>t F l. \<Phi> F l \<and> Typed t \<in> set l) t))
      (bnd (lift (jitem plan ''to'')) (\<lambda>to. if JStr (strip t) \<noteq> to then throw die else ret ()))
      (\<lambda>_. holds (\<lambda>F l. \<Phi> F l \<and> (\<exists>t. jitem plan ''to'' = Inr (JStr (strip t)) \<and> Typed t \<in> set l))) (holds \<Psi>)" for t
    using assms(2)
    by (intro triple_bnd_lift triple_if triple_throw_holds triple_ret_log) (auto simp: holds_def)
qed (use assms(2) in auto)

text \<open>Once the checks are done their results stay in the log, and signing relies on nothing else.\<close>

definition cleared :: "sign_args \<Rightarrow> (string \<Rightarrow> stored option) \<Rightarrow> json list \<Rightarrow> string \<Rightarrow> event list \<Rightarrow> bool" where
  "cleared args F0 plans wif l \<longleftrightarrow>
     list_all2 (\<lambda>n p. F0 n = Some (Doc p)) (sign_names args) plans
     \<and> batch_problem plans = Inr None \<and> list_all (preflighted args l) plans
     \<and> (\<exists>t. jitem (hd plans) ''to'' = Inr (JStr (strip t)) \<and> Typed t \<in> set l)
     \<and> wif_problem wif = None"

lemma cleared_append: "cleared args F0 plans wif l \<Longrightarrow> cleared args F0 plans wif (l @ l')"
  by (auto simp: cleared_def list_all_iff intro: preflighted_append)

lemma cleared_may_sign:
  assumes "cleared args F0 plans wif l" "plan \<in> set plans" "jitem plan ''unsignedHex'' = Inr (JStr hex)"
  shows "may_sign args F0 l (Cli_Run (cli_base args @ [''signrawtransactionwithkey''])
           [Raw hex, Json (JArr [JStr wif]), Json prevtxs] rc out)"
  using assms list_all2_lengthD [of "\<lambda>n p. F0 n = Some (Doc p)" "sign_names args" plans]
  unfolding cleared_def may_sign_def by fastforce

lemma triple_sign_one:
  assumes "plan \<in> set plans"
  shows "triple (holds (\<lambda>F l. guarded signs (may_sign args F0) l \<and> cleared args F0 plans wif l))
    (sign_one cli args plan wif out)
    (\<lambda>_. holds (\<lambda>F l. guarded signs (may_sign args F0) l \<and> cleared args F0 plans wif l))
    (holds (\<lambda>F l. guarded signs (may_sign args F0) l))"
  unfolding sign_one_def
proof (intro triple_bnd_lift)
  fix hexj prevtxs hex
  assume h: "jitem plan ''unsignedHex'' = Inr hexj" "json_string hexj = Inr hex"
  let ?I = "\<lambda>F l. guarded signs (may_sign args F0) l \<and> cleared args F0 plans wif l"
  have run: "triple (holds ?I) (cli_run cli (cli_base args @ [''signrawtransactionwithkey''])
        [Raw hex, Json (JArr [JStr wif]), Json prevtxs]) (\<lambda>_. holds ?I)
        (holds (\<lambda>F l. guarded signs (may_sign args F0) l))"
    by (rule triple_cli_run)
      (auto intro: cleared_append cleared_may_sign [OF _ assms jitem_JStr [OF h]])
  have wr: "triple (holds ?I) (write_json out j) (\<lambda>_. holds ?I)
      (holds (\<lambda>F l. guarded signs (may_sign args F0) l))" for j
    by (rule triple_write_json) (auto intro: cleared_append)
  show "triple (holds ?I)
      (bnd (cli_run cli (cli_base args @ [''signrawtransactionwithkey''])
            [Raw hex, Json (JArr [JStr wif]), Json prevtxs]) (\<lambda>(rc, stdout).
     if rc \<noteq> 0 then throw die
     else (case stdout of
         None \<Rightarrow> throw ValueError
       | Some res \<Rightarrow>
           bnd (lift (jget res ''complete'' JNull)) (\<lambda>complete.
           if \<not> jtruthy complete then throw die
           else bnd (lift (jitem res ''hex'')) (\<lambda>signed_hex.
             case plan of
               JObj kvs \<Rightarrow>
                 write_json out (JObj (dict_pop ''prevtxs'' (dict_set ''signedHex'' signed_hex kvs)))
             | _ \<Rightarrow> throw TypeError)))))
      (\<lambda>_. holds ?I) (holds (\<lambda>F l. guarded signs (may_sign args F0) l))"
    by (rule triple_bnd [OF run], intro triple_prod triple_if triple_case_option triple_bnd_lift)
      (auto simp: holds_def intro!: triple_throw triple_conseq [OF wr] split: json.split)
qed (auto simp: holds_def)

lemma triple_load_plans:
  "triple (holds (\<lambda>F l. G l \<and> F = F0))
     (for_each (\<lambda>n. except_die (load_json n) [OSError, ValueError]) names)
     (\<lambda>plans. holds (\<lambda>F l. (G l \<and> F = F0) \<and> list_all2 (\<lambda>n p. F0 n = Some (Doc p)) names plans))
     (holds (\<lambda>F l. G l))"
  by (rule triple_for_each_all2) (intro triple_except_die triple_load_json, auto)

lemma triple_preflights:
  assumes "keeps signs (\<lambda>F l. G l)"
  shows "triple (holds (\<lambda>F l. G l)) (for_each (sign_preflight cli args) plans)
    (\<lambda>_. holds (\<lambda>F l. G l \<and> list_all (preflighted args l) plans)) (holds (\<lambda>F l. G l))"
proof -
  have each: "triple (holds (\<lambda>F l. G l)) (for_each (sign_preflight cli args) plans)
    (\<lambda>us. holds (\<lambda>F l. G l \<and> list_all2 (\<lambda>p _. preflighted args l p) plans us)) (holds (\<lambda>F l. G l))"
  proof (rule triple_for_each_all2)
    fix p and ys :: "(json \<times> unit) list"
    have "keeps signs (\<lambda>F l. G l \<and> list_all (\<lambda>(p, _). preflighted args l p) ys)"
      by (rule keeps_conj [OF assms]) (auto simp: keeps_def list_all_iff intro: preflighted_append)
    then show "triple (holds (\<lambda>F l. G l \<and> list_all (\<lambda>(p, _). preflighted args l p) ys))
        (sign_preflight cli args p)
        (\<lambda>y. holds (\<lambda>F l. G l \<and> list_all (\<lambda>(p, _). preflighted args l p) (ys @ [(p, y)])))
        (holds (\<lambda>F l. G l))"
      by (rule triple_log_conseq [OF triple_preflight]) auto
  qed
  have "list_all2 (\<lambda>p _. P p) xs us \<Longrightarrow> list_all P xs" for P xs and us :: "unit list"
    by (induction xs us rule: list_all2_induct) simp_all
  then show ?thesis by (intro triple_log_conseq [OF each]) blast+
qed

lemma triple_cmd_sign:
  "triple (holds (\<lambda>F l. guarded signs (may_sign args F0) l \<and> F = F0)) (cmd_sign cli args)
     (\<lambda>_. holds (\<lambda>F l. guarded signs (may_sign args F0) l))
     (holds (\<lambda>F l. guarded signs (may_sign args F0) l))"
proof -
  let ?G = "\<lambda>F l. guarded signs (may_sign args F0) l"
  have load: "triple (holds (\<lambda>F l. ?G F l \<and> F = F0))
     (for_each (\<lambda>n. except_die (load_json n) [OSError, ValueError]) (sign_names args))
     (\<lambda>plans. holds (\<lambda>F l. ?G F l \<and> list_all2 (\<lambda>n p. F0 n = Some (Doc p)) (sign_names args) plans))
     (holds ?G)"
    by (rule triple_log_conseq [OF triple_load_plans]) auto
  have pre: "triple (holds ?G) (for_each (sign_preflight cli args) plans)
    (\<lambda>_. holds (\<lambda>F l. ?G F l \<and> list_all (preflighted args l) plans)) (holds ?G)" for plans
    by (rule triple_preflights) (rule keeps_guarded)
  show ?thesis
    unfolding cmd_sign_def
  proof (rule triple_bnd [OF load], rule triple_pure, rule triple_bnd_lift, rule triple_if)
    fix plans why
    assume files: "list_all2 (\<lambda>n p. F0 n = Some (Doc p)) (sign_names args) plans"
      and why: "batch_problem plans = Inr why" "\<not> why \<noteq> None"
    have sign: "triple (holds (\<lambda>F l. ?G F l \<and> cleared args F0 plans wif l))
        (for_each (\<lambda>(i, plan). sign_one cli args plan wif (sign_out args i))
          (zip [1..<Suc (length plans)] plans))
        (\<lambda>_. holds (\<lambda>F l. ?G F l \<and> cleared args F0 plans wif l)) (holds ?G)" for wif
      by (rule triple_log_for_each [where \<Phi> = "\<lambda>_ F l. ?G F l \<and> cleared args F0 plans wif l"])
        (auto intro!: triple_sign_one dest: set_zip_rightD)
    let ?K1 = "\<lambda>F l. ?G F l \<and> list_all (preflighted args l) plans"
    let ?K2 = "\<lambda>F l. ?K1 F l \<and> (\<exists>t. jitem (hd plans) ''to'' = Inr (JStr (strip t)) \<and> Typed t \<in> set l)"
    have k1: "keeps signs ?K1"
      by (auto simp: keeps_def list_all_iff intro: preflighted_append)
    have k2: "keeps signs ?K2"
      by (rule keeps_conj [OF k1]) (auto simp: keeps_def)
    show "triple (holds ?G)
        (bnd (for_each (sign_preflight cli args) plans) (\<lambda>_.
         bnd (lift (summary plans)) (\<lambda>_.
         bnd (confirm_destination (hd plans)) (\<lambda>_.
         bnd (ask_for_key 3) (\<lambda>wif.
         bnd (for_each (\<lambda>(i, plan). sign_one cli args plan wif (sign_out args i))
              (zip [1..<Suc (length plans)] plans)) (\<lambda>_. ret ()))))))
        (\<lambda>_. holds ?G) (holds ?G)"
    proof (rule triple_bnd [OF pre], rule triple_bnd_lift,
        rule triple_bnd [OF triple_confirm [OF k1]], simp, rule triple_bnd [OF triple_ask_for_key [OF k2]], simp)
      fix wif
      have "?K2 F l \<and> wif_problem wif = None \<Longrightarrow> ?G F l \<and> cleared args F0 plans wif l" for F l
        using files why by (auto simp: cleared_def)
      then have "triple (holds (\<lambda>F l. ?K2 F l \<and> wif_problem wif = None))
          (for_each (\<lambda>(i, plan). sign_one cli args plan wif (sign_out args i))
            (zip [1..<Suc (length plans)] plans)) (\<lambda>_. holds ?G) (holds ?G)"
        by (rule triple_log_conseq [OF sign]) auto
      then show "triple (holds (\<lambda>F l. ?K2 F l \<and> wif_problem wif = None))
          (bnd (for_each (\<lambda>(i, plan). sign_one cli args plan wif (sign_out args i))
            (zip [1..<Suc (length plans)] plans)) (\<lambda>_. ret ())) (\<lambda>_. holds ?G) (holds ?G)"
        by (rule triple_bnd) (auto intro: triple_ret_log)
    qed (auto simp: holds_def)
  qed (auto simp: holds_def intro: triple_throw)
qed

section \<open>Properties\<close>


end
