(* ===== verification/Treasury_Broadcast.thy ===== *)
theory Treasury_Broadcast
  imports Treasury_Check
begin

text \<open>
  \<open>cmd_broadcast\<close> and \<open>_broadcast_one\<close> of \<open>scripts/treasury_spend.py\<close>: the signed transaction is
  decoded, compared with the plan, its inputs are looked up one by one, its outputs are added up
  again in floating point, and it is sent after a typed confirmation. With several parts all of
  them are checked before the first is sent.
\<close>

section \<open>Checking and sending\<close>

record broadcast_args =
  ba_infile :: string
  ba_conf :: string
  ba_yes :: bool
  ba_parts :: int

fun fabs :: "pyfloat \<Rightarrow> pyfloat" where
  "fabs (Fin x) = Fin \<bar>x\<bar>"
| "fabs NaN = NaN"
| "fabs _ = PosInf"

text \<open>\<open>gettxout\<close> for one input: \<open>None\<close> when it is gone, its value in atoms when it is there.\<close>

definition live_value :: "'n node \<Rightarrow> string \<times> int \<Rightarrow> ('n, int option) task" where
  "live_value node p =
     bnd (rpc_call node ''gettxout'' [JStr (fst p), JInt (snd p), JBool True]) (\<lambda>entry.
     if \<not> jtruthy entry then ret None
     else bnd (lift (rbind (jget entry ''value'' JNull) atoms)) (\<lambda>n. ret (Some n)))"

text \<open>The dictionary \<open>paid\<close>, one output at a time.\<close>

definition float_get :: "(string \<times> pyfloat) list \<Rightarrow> string \<Rightarrow> pyfloat" where
  "float_get paid k = (case map_of paid k of Some x \<Rightarrow> x | None \<Rightarrow> Fin 0)"

fun add_paid :: "json list \<Rightarrow> (string \<times> pyfloat) list \<Rightarrow> py_error + (string \<times> pyfloat) list" where
  "add_paid [] paid = Inr paid"
| "add_paid (out # outs) paid =
     rbind (jitem out ''scriptPubKey'') (\<lambda>spk. rbind (jget spk ''address'' JNull) (\<lambda>addr.
       if \<not> jtruthy addr then add_paid outs paid
       else (case addr of
           JStr a \<Rightarrow> rbind (jitem out ''value'') (\<lambda>v. rbind (jfloat v) (\<lambda>x.
             add_paid outs (dict_set a (fround8 (fadd (float_get paid a) x)) paid)))
         | _ \<Rightarrow> Inl TypeError)))"

definition rounded :: "json \<Rightarrow> string \<Rightarrow> py_error + pyfloat" where
  "rounded v k = rbind (jitem v k) (\<lambda>x. rbind (jfloat x) (\<lambda>f. Inr (fround8 f)))"

text \<open>The list of problems of the report; the checks above it have already judged in atoms.\<close>

definition report_problems :: "json \<Rightarrow> json \<Rightarrow> py_error + string list" where
  "report_problems doc tx =
     rbind (jitem tx ''vout'') (\<lambda>voutj. rbind (jiter voutj) (\<lambda>vout. rbind (add_paid vout []) (\<lambda>paid.
     rbind (rounded doc ''amount'') (\<lambda>want_to. rbind (rounded doc ''change'') (\<lambda>want_change.
     rbind (jitem doc ''to'') (\<lambda>toj. rbind (case toj of JStr s \<Rightarrow> Inr s | _ \<Rightarrow> Inl TypeError) (\<lambda>to.
     rbind (jitem tx ''vin'') (\<lambda>vinj. rbind (jiter vinj) (\<lambda>vin. rbind (jitem doc ''inputs'') (\<lambda>inputs.
     rbind (jitem doc ''inputTotal'') (\<lambda>tj. rbind (jfloat tj) (\<lambda>total_in.
     rbind (jitem doc ''fee'') (\<lambda>fj. rbind (jfloat fj) (\<lambda>plan_fee.
     rbind (jitem tx ''txid'') (\<lambda>_.
       let total_out = fround8 (foldl fadd (Fin 0) (map snd paid));
           fee = fround8 (fsub total_in total_out)
       in Inr
         ((case map_of paid to of
             None \<Rightarrow> [''it does not pay the destination at all'']
           | Some x \<Rightarrow> if feq x want_to then [] else [''it pays the destination another amount''])
          @ (if fless (Fin 0) want_change \<and> \<not> feq (float_get paid TREASURY) want_change
             then [''change differs from the plan''] else [])
          @ map (\<lambda>_. ''it pays an address in neither the plan nor the treasury'')
              (filter (\<lambda>(a, _). a \<noteq> to \<and> a \<noteq> TREASURY) paid)
          @ (if num_value inputs = Some (of_nat (length vin)) then []
             else [''it spends another number of inputs''])
          @ (if fless (fl (1 / 10 ^ 8)) (fabs (fsub fee plan_fee))
             then [''the fee differs from the plan''] else [])))))))))))))))))"

definition broadcast_one ::
  "'n node \<Rightarrow> string \<Rightarrow> bool \<Rightarrow> bool \<Rightarrow> ('n, json) task" where
  "broadcast_one node infile asking send =
     bnd (except_die (load_json infile) [OSError]) (\<lambda>doc.
     bnd (lift (jitem doc ''signedHex'')) (\<lambda>hexj.
     bnd (rpc_call node ''decoderawtransaction'' [hexj]) (\<lambda>tx.
     bnd (lift (verify_against_plan doc tx)) (\<lambda>_.
     bnd (lift (rbind (jget doc ''inputSet'' (JArr [])) outpoints)) (\<lambda>points.
     bnd (for_each (live_value node) points) (\<lambda>vals.
     if None \<in> set vals then throw die
     else
     bnd (lift (rbind (jitem doc ''inputTotal'') atoms)) (\<lambda>total_in.
     if sum_list (map the vals) \<noteq> total_in then throw die
     else
     bnd (lift (report_problems doc tx)) (\<lambda>problems.
     if problems \<noteq> [] then throw die
     else if \<not> send then ret JNull
     else
     bnd (if asking then bnd ask (\<lambda>l. if strip l \<noteq> ''SEND'' then throw die else ret ()) else ret ()) (\<lambda>_.
     rpc_call node ''sendrawtransaction'' [hexj])))))))))"

definition broadcast_parts :: "broadcast_args \<Rightarrow> nat" where
  "broadcast_parts args = nat (max 1 (ba_parts args))"

definition broadcast_names :: "broadcast_args \<Rightarrow> string list" where
  "broadcast_names args =
     (if broadcast_parts args = 1 then [ba_infile args]
      else map (\<lambda>i. part_name (ba_infile args) i (broadcast_parts args))
             [1..<Suc (broadcast_parts args)])"

definition cmd_broadcast :: "'n node \<Rightarrow> broadcast_args \<Rightarrow> ('n, json list) task" where
  "cmd_broadcast node args =
     bnd (rpc_init (ba_conf args)) (\<lambda>_.
     if broadcast_parts args = 1 then
       bnd (broadcast_one node (ba_infile args) (\<not> ba_yes args) True) (\<lambda>txid. ret [txid])
     else
       bnd (for_each (\<lambda>n. broadcast_one node n False False) (broadcast_names args)) (\<lambda>_.
       bnd (if ba_yes args then ret ()
            else bnd ask (\<lambda>l. if strip l \<noteq> ''SEND'' then throw die else ret ())) (\<lambda>_.
       for_each (\<lambda>n. broadcast_one node n False True) (broadcast_names args))))"

section \<open>Nothing is sent before everything is checked\<close>

definition sends :: "event \<Rightarrow> bool" where
  "sends e = (case e of Rpc_Sent m _ _ \<Rightarrow> m = ''sendrawtransaction'' | _ \<Rightarrow> False)"

text \<open>The node has confirmed an input as unspent, with its value in atoms.\<close>

definition live :: "event list \<Rightarrow> string \<times> int \<Rightarrow> int \<Rightarrow> bool" where
  "live evs p n \<longleftrightarrow> (\<exists>entry. said evs ''gettxout'' [JStr (fst p), JInt (snd p), JBool True] entry
     \<and> jtruthy entry \<and> rbind (jget entry ''value'' JNull) atoms = Inr n)"

lemma live_append: "live evs p n \<Longrightarrow> live (evs @ evs') p n"
  unfolding live_def using said_append by blast

text \<open>
  The node has decoded the signed transaction, it is what the plan says, and the node has
  confirmed every input as unspent, with values that add up to the plan's total.
\<close>

definition checked :: "event list \<Rightarrow> json \<Rightarrow> bool" where
  "checked evs doc \<longleftrightarrow>
     (\<exists>hexj tx points vals.
        jitem doc ''signedHex'' = Inr hexj
        \<and> said evs ''decoderawtransaction'' [hexj] tx \<and> verify_against_plan doc tx = Inr ()
        \<and> rbind (jget doc ''inputSet'' (JArr [])) outpoints = Inr points
        \<and> list_all2 (live evs) points vals
        \<and> rbind (jitem doc ''inputTotal'') atoms = Inr (sum_list vals))"

definition confirmed :: "broadcast_args \<Rightarrow> event list \<Rightarrow> bool" where
  "confirmed args evs \<longleftrightarrow> ba_yes args \<or> list_ex (\<lambda>e. case e of Typed l \<Rightarrow> strip l = ''SEND'' | _ \<Rightarrow> False) evs"

definition may_send :: "broadcast_args \<Rightarrow> (string \<Rightarrow> stored option) \<Rightarrow> event list \<Rightarrow> event \<Rightarrow> bool" where
  "may_send args F evs e \<longleftrightarrow>
     confirmed args evs
     \<and> (\<forall>n \<in> set (broadcast_names args). \<exists>doc. F n = Some (Doc doc) \<and> checked evs doc)
     \<and> (\<exists>n \<in> set (broadcast_names args). \<exists>doc hexj answer. F n = Some (Doc doc)
          \<and> jitem doc ''signedHex'' = Inr hexj
          \<and> e = Rpc_Sent ''sendrawtransaction'' [hexj] answer)"

lemma checked_append: "checked evs doc \<Longrightarrow> checked (evs @ evs') doc"
proof -
  assume "checked evs doc"
  then obtain hexj tx points vals
    where "jitem doc ''signedHex'' = Inr hexj" "said evs ''decoderawtransaction'' [hexj] tx"
      "verify_against_plan doc tx = Inr ()"
      "rbind (jget doc ''inputSet'' (JArr [])) outpoints = Inr points"
      "rbind (jitem doc ''inputTotal'') atoms = Inr (sum_list vals)"
      and live: "list_all2 (live evs) points vals"
    unfolding checked_def by blast
  moreover have "list_all2 (live (evs @ evs')) points vals"
    using live by (rule list_all2_mono) (rule live_append)
  ultimately show ?thesis unfolding checked_def using said_append by blast
qed

lemma confirmed_append: "confirmed args evs \<Longrightarrow> confirmed args (evs @ evs')"
  by (auto simp: confirmed_def)

lemma triple_live_value:
  assumes "keeps sends \<Phi>" and "\<And>F l. \<Phi> F l \<Longrightarrow> \<Psi> F l"
  shows "triple (holds \<Phi>) (live_value node p)
    (\<lambda>v. holds (\<lambda>F l. \<Phi> F l \<and> (v \<noteq> None \<longrightarrow>
       (\<exists>entry. said l ''gettxout'' [JStr (fst p), JInt (snd p), JBool True] entry
              \<and> jtruthy entry \<and> rbind (jget entry ''value'' JNull) atoms = Inr (the v))))) (holds \<Psi>)"
  unfolding live_value_def
proof (rule triple_bnd_said [OF assms(1)])
  fix entry
  let ?said = "\<lambda>l. said l ''gettxout'' [JStr (fst p), JInt (snd p), JBool True] entry"
  show "triple (holds (\<lambda>F l. \<Phi> F l \<and> ?said l))
      (if \<not> jtruthy entry then ret None
       else bnd (lift (rbind (jget entry ''value'' JNull) atoms)) (\<lambda>n. ret (Some n)))
      (\<lambda>v. holds (\<lambda>F l. \<Phi> F l \<and> (v \<noteq> None \<longrightarrow>
       (\<exists>entry. said l ''gettxout'' [JStr (fst p), JInt (snd p), JBool True] entry
              \<and> jtruthy entry \<and> rbind (jget entry ''value'' JNull) atoms = Inr (the v))))) (holds \<Psi>)"
    using assms(2)
    by (intro triple_if triple_bnd_lift triple_ret_log) (simp_all add: holds_def, blast)
qed (use assms(2) in \<open>simp_all add: sends_def\<close>)

text \<open>One file: when it passes, its document has been checked against the node.\<close>

lemma triple_live_values:
  assumes "keeps sends \<Phi>" and "\<And>F l. \<Phi> F l \<Longrightarrow> \<Psi> F l"
  shows "triple (holds \<Phi>) (for_each (live_value node) points)
    (\<lambda>vals. holds (\<lambda>F l. \<Phi> F l \<and> list_all2 (\<lambda>p v. v \<noteq> None \<longrightarrow> live l p (the v)) points vals)) (holds \<Psi>)"
proof (rule triple_for_each_all2)
  fix p and ys :: "((string \<times> int) \<times> int option) list"
  have "keeps sends (\<lambda>F l. \<Phi> F l \<and> list_all (\<lambda>(p, v). v \<noteq> None \<longrightarrow> live l p (the v)) ys)"
  proof (rule keeps_conj [OF assms(1)], rule keepsI)
    fix l e assume "list_all (\<lambda>(p, v). v \<noteq> None \<longrightarrow> live l p (the v)) ys"
    then show "list_all (\<lambda>(p, v). v \<noteq> None \<longrightarrow> live (l @ [e]) p (the v)) ys"
      unfolding list_all_iff live_def using said_append by fast
  qed
  then show "triple (holds (\<lambda>F l. \<Phi> F l \<and> list_all (\<lambda>(p, v). v \<noteq> None \<longrightarrow> live l p (the v)) ys))
      (live_value node p)
      (\<lambda>v. holds (\<lambda>F l. \<Phi> F l \<and> list_all (\<lambda>(p, v). v \<noteq> None \<longrightarrow> live l p (the v)) (ys @ [(p, v)])))
      (holds \<Psi>)"
    by (rule triple_log_conseq [OF triple_live_value]) (use assms(2) in \<open>auto simp: live_def\<close>)
qed

lemma list_all2_the:
  "list_all2 (\<lambda>p v. v \<noteq> None \<longrightarrow> R p (the v)) ps vs \<Longrightarrow> None \<notin> set vs \<Longrightarrow> list_all2 R ps (map the vs)"
  by (induction ps vs rule: list_all2_induct) auto

lemma triple_broadcast_one:
  assumes keep: "keeps sends \<Phi>" and fail: "\<And>F l. \<Phi> F l \<Longrightarrow> \<Psi> F l" and files: "\<And>F l. \<Phi> F l \<Longrightarrow> F = F0"
    and send: "\<And>F l hexj answer doc. send \<Longrightarrow> \<Phi> F l \<Longrightarrow> F0 infile = Some (Doc doc) \<Longrightarrow> checked l doc \<Longrightarrow>
      jitem doc ''signedHex'' = Inr hexj \<Longrightarrow> (asking \<Longrightarrow> \<exists>t. Typed t \<in> set l \<and> strip t = ''SEND'') \<Longrightarrow>
      \<Phi> F (l @ [Rpc_Sent ''sendrawtransaction'' [hexj] answer])"
  shows "triple (holds \<Phi>) (broadcast_one node infile asking send)
    (\<lambda>_. holds (\<lambda>F l. \<Phi> F l \<and> (\<exists>doc. F0 infile = Some (Doc doc) \<and> checked l doc))) (holds \<Psi>)"
proof -
  have load: "triple (holds \<Phi>) (except_die (load_json infile) [OSError])
      (\<lambda>doc. holds (\<lambda>F l. \<Phi> F l \<and> F0 infile = Some (Doc doc))) (holds \<Psi>)"
    by (intro triple_except_die triple_load_json) (use fail files in auto)
  show ?thesis
    unfolding broadcast_one_def
  proof (rule triple_bnd [OF load], rule triple_pure, rule triple_bnd_lift,
      rule triple_bnd_said [OF keep], simp add: sends_def, erule fail, rule triple_bnd_lift, rule triple_bnd_lift)
    fix doc hexj tx u points
    assume doc: "F0 infile = Some (Doc doc)" and hexj: "jitem doc ''signedHex'' = Inr hexj"
      and u: "verify_against_plan doc tx = Inr u"
      and points: "rbind (jget doc ''inputSet'' (JArr [])) outpoints = Inr points"
    let ?K = "\<lambda>F l. \<Phi> F l \<and> said l ''decoderawtransaction'' [hexj] tx"
    let ?C = "\<lambda>F l. \<Phi> F l \<and> (\<exists>doc. F0 infile = Some (Doc doc) \<and> checked l doc)"
    have tx: "verify_against_plan doc tx = Inr ()" using u by simp
    have kk: "keeps sends ?K" by (intro keep_rules keep)
    show "triple (holds ?K)
      (bnd (for_each (live_value node) points) (\<lambda>vals.
       if None \<in> set vals then throw die
       else bnd (lift (rbind (jitem doc ''inputTotal'') atoms)) (\<lambda>total_in.
       if sum_list (map the vals) \<noteq> total_in then throw die
       else bnd (lift (report_problems doc tx)) (\<lambda>problems.
       if problems \<noteq> [] then throw die
       else if \<not> send then ret JNull
       else bnd (if asking then bnd ask (\<lambda>l. if strip l \<noteq> ''SEND'' then throw die else ret ()) else ret ()) (\<lambda>_.
         rpc_call node ''sendrawtransaction'' [hexj])))))
      (\<lambda>_. holds ?C) (holds \<Psi>)"
    proof (rule triple_bnd [OF triple_live_values [OF kk]])
      fix vals
      let ?L = "\<lambda>F l. ?K F l \<and> list_all2 (\<lambda>p v. v \<noteq> None \<longrightarrow> live l p (the v)) points vals"
      have ck: "\<Phi> F l \<and> checked l doc"
        if "?L F l" "None \<notin> set vals" "rbind (jitem doc ''inputTotal'') atoms = Inr (sum_list (map the vals))"
        for F l
      proof -
        have "list_all2 (live l) points (map the vals)" by (rule list_all2_the) (use that in auto)
        then show ?thesis
          using that hexj tx points unfolding checked_def by blast
      qed
      let ?D = "\<lambda>F l. \<Phi> F l \<and> checked l doc"
      have conf: "triple (holds ?D)
          (if asking then bnd ask (\<lambda>l. if strip l \<noteq> ''SEND'' then throw die else ret ()) else ret ())
          (\<lambda>_. holds (\<lambda>F l. ?D F l \<and> (asking \<longrightarrow> (\<exists>t. Typed t \<in> set l \<and> strip t = ''SEND'')))) (holds \<Psi>)"
      proof (intro triple_if triple_ret_log)
        show "triple (holds ?D) (bnd ask (\<lambda>l. if strip l \<noteq> ''SEND'' then throw die else ret ()))
          (\<lambda>_. holds (\<lambda>F l. ?D F l \<and> (asking \<longrightarrow> (\<exists>t. Typed t \<in> set l \<and> strip t = ''SEND'')))) (holds \<Psi>)"
        proof (rule triple_bnd [OF triple_ask])
          show "?D F l \<Longrightarrow> (\<lambda>t F l. ?D F l \<and> Typed t \<in> set l) t F (l @ [Typed t])" for F l t
            using keep by (auto simp: keeps_def sends_def intro: checked_append)
          show "triple (holds ((\<lambda>t F l. ?D F l \<and> Typed t \<in> set l) t)) (if strip t \<noteq> ''SEND'' then throw die else ret ())
            (\<lambda>_. holds (\<lambda>F l. ?D F l \<and> (asking \<longrightarrow> (\<exists>t. Typed t \<in> set l \<and> strip t = ''SEND'')))) (holds \<Psi>)" for t
            by (intro triple_if triple_throw_holds triple_ret_log) (use fail in auto)
        qed (use fail in auto)
      qed auto
      have snd: "triple (holds (\<lambda>F l. ?D F l \<and> (asking \<longrightarrow> (\<exists>t. Typed t \<in> set l \<and> strip t = ''SEND''))))
          (rpc_call node ''sendrawtransaction'' [hexj]) (\<lambda>_. holds ?C) (holds \<Psi>)" if "send"
        by (rule triple_rpc_call)
          (use send [OF that] doc hexj fail in \<open>auto intro: checked_append\<close>)
      show "triple (holds ?L)
       (if None \<in> set vals then throw die
       else bnd (lift (rbind (jitem doc ''inputTotal'') atoms)) (\<lambda>total_in.
       if sum_list (map the vals) \<noteq> total_in then throw die
       else bnd (lift (report_problems doc tx)) (\<lambda>problems.
       if problems \<noteq> [] then throw die
       else if \<not> send then ret JNull
       else bnd (if asking then bnd ask (\<lambda>l. if strip l \<noteq> ''SEND'' then throw die else ret ()) else ret ()) (\<lambda>_.
         rpc_call node ''sendrawtransaction'' [hexj]))))
       (\<lambda>_. holds ?C) (holds \<Psi>)"
      proof (intro triple_if triple_bnd_lift triple_throw_holds)
        fix total_in problems assume n: "None \<notin> set vals"
          and tot: "rbind (jitem doc ''inputTotal'') atoms = Inr total_in"
          and eq: "\<not> sum_list (map the vals) \<noteq> total_in"
        have L: "?L F l \<Longrightarrow> ?D F l" for F l using ck n tot eq by blast
        show "triple (holds ?L) (ret JNull) (\<lambda>_. holds ?C) (holds \<Psi>)"
          by (rule triple_ret_log) (use L doc in blast)
        assume "\<not> \<not> send"
        then have "triple (holds ?D)
            (bnd (if asking then bnd ask (\<lambda>l. if strip l \<noteq> ''SEND'' then throw die else ret ()) else ret ()) (\<lambda>_.
              rpc_call node ''sendrawtransaction'' [hexj])) (\<lambda>_. holds ?C) (holds \<Psi>)"
          by (intro triple_bnd [OF conf] snd) simp
        then show "triple (holds ?L)
            (bnd (if asking then bnd ask (\<lambda>l. if strip l \<noteq> ''SEND'' then throw die else ret ()) else ret ()) (\<lambda>_.
              rpc_call node ''sendrawtransaction'' [hexj])) (\<lambda>_. holds ?C) (holds \<Psi>)"
          by (rule triple_log_conseq) (use L in blast)+
      qed (use fail in \<open>auto simp: holds_def\<close>)
    qed (use fail in auto)
  qed (use fail in \<open>auto simp: holds_def\<close>)
qed

section \<open>The whole command\<close>

lemma may_send_now:
  assumes "confirmed args l" "F0 n = Some (Doc doc)" "n \<in> set (broadcast_names args)"
    "jitem doc ''signedHex'' = Inr hexj"
    "\<forall>n \<in> set (broadcast_names args). \<exists>doc. F0 n = Some (Doc doc) \<and> checked l doc"
  shows "may_send args F0 l (Rpc_Sent ''sendrawtransaction'' [hexj] answer)"
  using assms unfolding may_send_def by blast

lemma triple_verify_all:
  fixes args F0
  defines "G \<equiv> \<lambda>F l. guarded sends (may_send args F0) l \<and> F = F0"
  shows "triple (holds G) (for_each (\<lambda>n. broadcast_one node n False False) names)
    (\<lambda>_. holds (\<lambda>F l. G F l \<and> (\<forall>n \<in> set names. \<exists>doc. F0 n = Some (Doc doc) \<and> checked l doc)))
    (holds (\<lambda>F l. guarded sends (may_send args F0) l))"
proof -
  let ?ck = "\<lambda>l n. \<exists>doc. F0 n = Some (Doc doc) \<and> checked l doc"
  have each: "triple (holds G) (for_each (\<lambda>n. broadcast_one node n False False) names)
    (\<lambda>us. holds (\<lambda>F l. G F l \<and> list_all2 (\<lambda>n _. ?ck l n) names us))
    (holds (\<lambda>F l. guarded sends (may_send args F0) l))"
  proof (rule triple_for_each_all2)
    fix n and ys :: "(string \<times> json) list"
    let ?\<Phi> = "\<lambda>F l. G F l \<and> list_all (\<lambda>(n, _). ?ck l n) ys"
    have "keeps sends ?\<Phi>"
    proof (rule keeps_conj)
      show "keeps sends G" unfolding G_def by (intro keep_rules)
      show "keeps sends (\<lambda>F l. list_all (\<lambda>(n, _). ?ck l n) ys)"
        unfolding keeps_def list_all_iff split_beta using checked_append by blast
    qed
    then have "triple (holds ?\<Phi>) (broadcast_one node n False False)
        (\<lambda>_. holds (\<lambda>F l. ?\<Phi> F l \<and> ?ck l n)) (holds (\<lambda>F l. guarded sends (may_send args F0) l))"
      by (rule triple_broadcast_one) (auto simp: G_def)
    then show "triple (holds ?\<Phi>) (broadcast_one node n False False)
        (\<lambda>y. holds (\<lambda>F l. G F l \<and> list_all (\<lambda>(n, _). ?ck l n) (ys @ [(n, y)])))
        (holds (\<lambda>F l. guarded sends (may_send args F0) l))"
      by (rule triple_log_conseq) auto
  qed
  have all2: "list_all2 (\<lambda>n _. P n) xs us \<Longrightarrow> \<forall>n \<in> set xs. P n"
    for P :: "string \<Rightarrow> bool" and xs and us :: "json list"
    by (induction xs us rule: list_all2_induct) simp_all
  show ?thesis
  proof (rule triple_log_conseq [OF each])
    fix us :: "json list" and F l assume "G F l \<and> list_all2 (\<lambda>n _. ?ck l n) names us"
    then show "G F l \<and> (\<forall>n \<in> set names. ?ck l n)" using all2 [of "?ck l" names us] by simp
  qed simp_all
qed

lemma triple_cmd_broadcast:
  "triple (holds (\<lambda>F l. guarded sends (may_send args F0) l \<and> F = F0)) (cmd_broadcast node args)
     (\<lambda>_. holds (\<lambda>F l. guarded sends (may_send args F0) l))
     (holds (\<lambda>F l. guarded sends (may_send args F0) l))"
proof -
  let ?G = "\<lambda>F l. guarded sends (may_send args F0) l \<and> F = F0"
  let ?E = "\<lambda>F l. guarded sends (may_send args F0) l"
  let ?names = "broadcast_names args"
  let ?all = "\<lambda>l. \<forall>n \<in> set ?names. \<exists>doc. F0 n = Some (Doc doc) \<and> checked l doc"
  let ?S = "\<lambda>F l. ?G F l \<and> ?all l \<and> confirmed args l"
  have keepG: "keeps sends ?G" by (intro keep_rules)
  have single: "triple (holds ?G) (broadcast_one node (ba_infile args) (\<not> ba_yes args) True)
      (\<lambda>_. holds ?E) (holds ?E)" if one: "broadcast_parts args = 1"
  proof (rule triple_log_conseq [OF triple_broadcast_one [OF keepG, where ?F0.0 = F0]])
    fix F l hexj answer doc
    assume g: "?G F l" "F0 (ba_infile args) = Some (Doc doc)" "checked l doc"
      "jitem doc ''signedHex'' = Inr hexj"
      "\<not> ba_yes args \<Longrightarrow> \<exists>t. Typed t \<in> set l \<and> strip t = ''SEND''"
    then have "confirmed args l" by (auto simp: confirmed_def list_ex_iff split: event.split)
    with g have "may_send args F0 l (Rpc_Sent ''sendrawtransaction'' [hexj] answer)"
      using one by (intro may_send_now) (auto simp: broadcast_names_def)
    with g show "?G F (l @ [Rpc_Sent ''sendrawtransaction'' [hexj] answer])" by simp
  qed auto
  have keepS: "keeps sends ?S"
    by (auto simp: keeps_def intro: confirmed_append) (meson checked_append)
  have send: "triple (holds ?S) (for_each (\<lambda>n. broadcast_one node n False True) ?names) (\<lambda>_. holds ?S) (holds ?E)"
  proof (rule triple_log_for_each [where \<Phi> = "\<lambda>_. ?S"])
    fix n assume n: "n \<in> set ?names"
    show "triple (holds ?S) (broadcast_one node n False True) (\<lambda>_. holds ?S) (holds ?E)"
    proof (rule triple_log_conseq [OF triple_broadcast_one [OF keepS, where ?F0.0 = F0]])
      fix F l hexj answer doc
      assume g: "?S F l" "F0 n = Some (Doc doc)" "jitem doc ''signedHex'' = Inr hexj"
      then have "may_send args F0 l (Rpc_Sent ''sendrawtransaction'' [hexj] answer)"
        using n by (intro may_send_now) auto
      with g show "?S F (l @ [Rpc_Sent ''sendrawtransaction'' [hexj] answer])"
        by (auto intro: confirmed_append) (meson checked_append)
    qed auto
  qed
  have confirm: "triple (holds (\<lambda>F l. ?G F l \<and> ?all l))
      (if ba_yes args then ret () else bnd ask (\<lambda>l. if strip l \<noteq> ''SEND'' then throw die else ret ()))
      (\<lambda>_. holds ?S) (holds ?E)"
  proof (intro triple_if)
    show "triple (holds (\<lambda>F l. ?G F l \<and> ?all l)) (bnd ask (\<lambda>l. if strip l \<noteq> ''SEND'' then throw die else ret ()))
        (\<lambda>_. holds ?S) (holds ?E)"
    proof (rule triple_bnd [OF triple_ask])
      show "?G F l \<and> ?all l \<Longrightarrow> (\<lambda>t F l. (?G F l \<and> ?all l) \<and> Typed t \<in> set l) t F (l @ [Typed t])" for F l t
        by (auto simp: sends_def) (meson checked_append)
      show "triple (holds ((\<lambda>t F l. (?G F l \<and> ?all l) \<and> Typed t \<in> set l) t))
          (if strip t \<noteq> ''SEND'' then throw die else ret ()) (\<lambda>_. holds ?S) (holds ?E)" for t
        by (intro triple_if triple_throw_holds triple_ret_log)
          (auto simp: confirmed_def list_ex_iff split: event.split)
    qed auto
  qed (auto intro!: triple_ret_log simp: confirmed_def)
  show ?thesis
    unfolding cmd_broadcast_def
  proof (rule triple_bnd_init, simp, intro triple_if)
    assume "broadcast_parts args = 1"
    then show "triple (holds ?G) (bnd (broadcast_one node (ba_infile args) (\<not> ba_yes args) True) (\<lambda>txid. ret [txid]))
        (\<lambda>_. holds ?E) (holds ?E)"
      by (intro triple_bnd [OF single] triple_ret_log) auto
  next
    show "triple (holds ?G)
        (bnd (for_each (\<lambda>n. broadcast_one node n False False) ?names) (\<lambda>_.
         bnd (if ba_yes args then ret ()
              else bnd ask (\<lambda>l. if strip l \<noteq> ''SEND'' then throw die else ret ())) (\<lambda>_.
         for_each (\<lambda>n. broadcast_one node n False True) ?names))) (\<lambda>_. holds ?E) (holds ?E)"
      by (rule triple_bnd [OF triple_verify_all], rule triple_bnd [OF confirm],
          rule triple_log_conseq [OF send]) auto
  qed
qed

section \<open>Properties\<close>

text \<open>C1: a transaction is only ever sent after the operator's confirmation (or \<open>--yes\<close>) and after
  every file of the batch has been decoded by the node, found to be exactly its plan, and found to
  have every input unspent with the planned total; what is sent is the signed transaction of one
  of these files.\<close>

theorem nothing_sent_unchecked:
  "guarded sends (may_send args (w_files w)) (w_log (snd (cmd_broadcast node args (w\<lparr>w_log := []\<rparr>))))"
proof -
  have "holds (\<lambda>F l. guarded sends (may_send args (w_files w)) l)
      (snd (cmd_broadcast node args (w\<lparr>w_log := []\<rparr>)))"
    by (rule triple_world [OF triple_cmd_broadcast]) (simp add: holds_def)
  then show ?thesis by (simp add: holds_def)
qed

end
