(* ===== verification/Wire.thy ===== *)
theory Wire
  imports Wam_Prelude
begin

text \<open>
  Fixed-width and variable-width integers on the wire: \<open>struct.pack\<close> of the formats the scripts
  use, the Bitcoin CompactSize, and the compact form of a 256-bit target. A format is
  self-delimiting when a reader gets the value back and leaves what follows; that is the interface
  \<open>wire_format\<close>, from which injectivity and the reading of sequences follow.
\<close>

unbundle bit_operations_syntax

section \<open>What a format promises\<close>

locale wire_format =
  fixes put :: "'a \<Rightarrow> py_error + bytes" and get :: "bytes \<Rightarrow> ('a \<times> bytes) option"
  assumes get_put: "put x = Inr bs \<Longrightarrow> get (bs @ rest) = Some (x, rest)"

text \<open>Several values one after the other.\<close>

definition put_all :: "('a \<Rightarrow> py_error + bytes) \<Rightarrow> 'a list \<Rightarrow> py_error + bytes" where
  "put_all put xs = rbind (rmap put xs) (\<lambda>bss. Inr (concat bss))"

fun get_all :: "(bytes \<Rightarrow> ('a \<times> bytes) option) \<Rightarrow> nat \<Rightarrow> bytes \<Rightarrow> ('a list \<times> bytes) option" where
  "get_all get 0 bs = Some ([], bs)"
| "get_all get (Suc k) bs =
     (case get bs of
        None \<Rightarrow> None
      | Some (x, r) \<Rightarrow> map_option (\<lambda>(xs, r'). (x # xs, r')) (get_all get k r))"

context wire_format
begin

lemma get_put_end: "put x = Inr bs \<Longrightarrow> get bs = Some (x, [])"
  using get_put [of x bs "[]"] by simp

text \<open>No encoding is the beginning of another.\<close>

lemma put_prefix_free: "put x = Inr bs \<Longrightarrow> put y = Inr (bs @ more) \<Longrightarrow> x = y \<and> more = []"
  using get_put [of x bs more] get_put_end [of y "bs @ more"] by simp

lemma put_inj: "put x = Inr bs \<Longrightarrow> put y = Inr bs \<Longrightarrow> x = y"
  using put_prefix_free [of x bs y "[]"] by simp

lemma get_put_all: "put_all put xs = Inr bs \<Longrightarrow> get_all get (length xs) (bs @ rest) = Some (xs, rest)"
proof (induction xs arbitrary: bs)
  case (Cons x xs)
  then obtain b bss where "put x = Inr b" "rmap put xs = Inr bss" "bs = b @ concat bss"
    by (auto simp: put_all_def)
  with Cons.IH [of "concat bss"] show ?case by (simp add: put_all_def get_put)
qed (simp add: put_all_def)

lemma put_all_inj:
  "put_all put xs = Inr bs \<Longrightarrow> put_all put ys = Inr bs \<Longrightarrow> length xs = length ys \<Longrightarrow> xs = ys"
  using get_put_all [of xs bs "[]"] get_put_all [of ys bs "[]"] by simp

end

section \<open>struct.pack\<close>

text \<open>The little-endian formats B, H, I, Q are \<open>pack_u\<close> of 1, 2, 4, 8; i and q are \<open>pack_s\<close>.\<close>

definition pack_u :: "nat \<Rightarrow> int \<Rightarrow> py_error + bytes" where
  "pack_u k n = (if 0 \<le> n \<and> n < 256 ^ k then Inr (to_bytes_le k (nat n)) else Inl StructError)"

definition pack_s :: "nat \<Rightarrow> int \<Rightarrow> py_error + bytes" where
  "pack_s k n =
     (if - (2 ^ (8 * k - 1)) \<le> n \<and> n < 2 ^ (8 * k - 1)
      then Inr (to_bytes_le k (nat (n mod 256 ^ k))) else Inl StructError)"

definition get_u :: "nat \<Rightarrow> bytes \<Rightarrow> (int \<times> bytes) option" where
  "get_u k bs = (if length bs < k then None else Some (int (from_bytes_le (take k bs)), drop k bs))"

definition get_s :: "nat \<Rightarrow> bytes \<Rightarrow> (int \<times> bytes) option" where
  "get_s k bs = map_option (\<lambda>(n, r). (if n < 2 ^ (8 * k - 1) then n else n - 256 ^ k, r)) (get_u k bs)"

lemma pack_u_Inr: "pack_u k n = Inr bs \<longleftrightarrow> 0 \<le> n \<and> n < 256 ^ k \<and> bs = to_bytes_le k (nat n)"
  by (auto simp: pack_u_def)

lemma length_pack_u: "pack_u k n = Inr bs \<Longrightarrow> length bs = k"
  by (auto simp: pack_u_Inr)

lemma length_pack_s: "pack_s k n = Inr bs \<Longrightarrow> length bs = k"
  by (auto simp: pack_s_def split: if_splits)

lemma nat_less_256: "0 \<le> n \<Longrightarrow> n < 256 ^ k \<Longrightarrow> nat n < 256 ^ k"
  by (simp add: nat_less_iff)

lemma get_u_to_bytes: "0 \<le> n \<Longrightarrow> n < 256 ^ k \<Longrightarrow> get_u k (to_bytes_le k (nat n) @ rest) = Some (n, rest)"
  by (simp add: get_u_def from_to_bytes_le_id [OF nat_less_256])

interpretation pu: wire_format "pack_u k" "get_u k" for k
  by unfold_locales (auto simp: pack_u_Inr get_u_to_bytes)

lemma half_256: "0 < k \<Longrightarrow> (256::int) ^ k = 2 * 2 ^ (8 * k - 1)"
proof -
  assume k: "0 < k"
  have "(256::int) ^ k = 2 ^ (8 * k)" by (simp add: power_mult)
  also have "8 * k = Suc (8 * k - 1)" using k by simp
  finally show ?thesis by (metis power_Suc)
qed

lemma get_s_pack_s: "pack_s (Suc k) n = Inr bs \<Longrightarrow> get_s (Suc k) (bs @ rest) = Some (n, rest)"
proof -
  let ?h = "2 ^ (8 * Suc k - 1) :: int"
  assume "pack_s (Suc k) n = Inr bs"
  then have n: "- ?h \<le> n" "n < ?h" and bs: "bs = to_bytes_le (Suc k) (nat (n mod 256 ^ Suc k))"
    by (auto simp: pack_s_def split: if_splits)
  have m: "(256::int) ^ Suc k = 2 * ?h" by (rule half_256) simp
  have "get_u (Suc k) (bs @ rest) = Some (n mod 256 ^ Suc k, rest)"
    unfolding bs by (rule get_u_to_bytes) simp_all
  moreover have "n mod 256 ^ Suc k = (if 0 \<le> n then n else n + 2 * ?h)"
  proof (cases "0 \<le> n")
    case False
    then have "(n + 2 * ?h) mod (2 * ?h) = n + 2 * ?h" using n by (intro mod_pos_pos_trivial) linarith+
    then show ?thesis using False by (simp only: m mod_add_self2 if_False)
  next
    case True
    have "n mod (2 * ?h) = n" using True n by (intro mod_pos_pos_trivial) linarith+
    with True show ?thesis by (simp only: m if_True)
  qed
  ultimately show ?thesis using n m by (auto simp: get_s_def simp del: power_Suc)
qed

interpretation ps: wire_format "pack_s (Suc k)" "get_s (Suc k)" for k
  by unfold_locales (rule get_s_pack_s)

section \<open>CompactSize\<close>

definition varint :: "int \<Rightarrow> py_error + bytes" where
  "varint n =
     (if n < 0xFD then pack_u 1 n
      else if n \<le> 0xFFFF then rbind (pack_u 2 n) (\<lambda>b. Inr (0xFD # b))
      else if n \<le> 0xFFFFFFFF then rbind (pack_u 4 n) (\<lambda>b. Inr (0xFE # b))
      else rbind (pack_u 8 n) (\<lambda>b. Inr (0xFF # b)))"

definition get_varint :: "bytes \<Rightarrow> (int \<times> bytes) option" where
  "get_varint bs = (case bs of
      [] \<Rightarrow> None
    | b # r \<Rightarrow> if unat b < 0xFD then Some (int (unat b), r)
               else get_u (if b = 0xFD then 2 else if b = 0xFE then 4 else 8) r)"

lemma varint_tags [simp]:
  "unat (0xFD :: byte) = 253" "unat (0xFE :: byte) = 254" "unat (0xFF :: byte) = 255"
  by simp_all

lemma get_varint_put: "varint n = Inr bs \<Longrightarrow> get_varint (bs @ rest) = Some (n, rest)"
proof -
  assume v: "varint n = Inr bs"
  consider "n < 0xFD" | "0xFD \<le> n" "n \<le> 0xFFFF" | "0xFFFF < n" "n \<le> 0xFFFFFFFF" | "0xFFFFFFFF < n"
    by linarith
  then show ?thesis
  proof cases
    case 1
    with v have n: "0 \<le> n" "bs = to_bytes_le 1 (nat n)" by (auto simp: varint_def pack_u_Inr)
    define b :: byte where "b = word_of_nat (nat n)"
    have u: "unat b = nat n" using 1 n(1) by (simp add: b_def nat_less_iff del: of_nat_nat word_of_int_nat)
    moreover have "bs = [b]" by (simp add: n(2) b_def One_nat_def)
    ultimately show ?thesis using 1 n(1) by (auto simp: get_varint_def)
  next
    case 2
    with v obtain b where "pack_u 2 n = Inr b" "bs = 0xFD # b" by (auto simp: varint_def)
    then show ?thesis by (simp add: get_varint_def pu.get_put)
  next
    case 3
    with v obtain b where "pack_u 4 n = Inr b" "bs = 0xFE # b" by (auto simp: varint_def)
    then show ?thesis by (simp add: get_varint_def pu.get_put)
  next
    case 4
    with v obtain b where "pack_u 8 n = Inr b" "bs = 0xFF # b" by (auto simp: varint_def)
    then show ?thesis by (simp add: get_varint_def pu.get_put)
  qed
qed

interpretation vi: wire_format varint get_varint
  by unfold_locales (rule get_varint_put)

text \<open>A byte string behind its length.\<close>

definition var_bytes :: "bytes \<Rightarrow> py_error + bytes" where
  "var_bytes bs = rbind (varint (int (length bs))) (\<lambda>n. Inr (n @ bs))"

definition get_var_bytes :: "bytes \<Rightarrow> (bytes \<times> bytes) option" where
  "get_var_bytes bs = (case get_varint bs of
      None \<Rightarrow> None
    | Some (n, r) \<Rightarrow> if int (length r) < n then None else Some (take (nat n) r, drop (nat n) r))"

interpretation vb: wire_format var_bytes get_var_bytes
proof
  fix x bs rest assume "var_bytes x = Inr bs"
  then obtain l where l: "varint (int (length x)) = Inr l" "bs = l @ x" by (auto simp: var_bytes_def)
  then show "get_var_bytes (bs @ rest) = Some (x, rest)"
    using vi.get_put [OF l(1), of "x @ rest"] by (simp add: get_var_bytes_def)
qed

section \<open>Compact targets\<close>

definition compact_to_target :: "int \<Rightarrow> int" where
  "compact_to_target nbits =
     (let size = drop_bit 24 nbits; word = nbits AND 0x7FFFFF
      in if size \<le> 3 then drop_bit (nat (8 * (3 - size))) word
         else push_bit (nat (8 * (size - 3))) word)"

end
