(* ===== verification/Genesis_Block.thy ===== *)
theory Genesis_Block
  imports Wire Base58
begin

text \<open>
  The block that \<open>genesis/genesis_generator.py\<close> builds: script pushes and numbers, the five
  time-locked founder outputs, the coinbase transaction, the header. The readers at the end are the
  transaction and script formats of the node, written independently of the builders; the builders
  are proved to produce bytes that read back as what was put in.
\<close>

section \<open>Constants\<close>

definition COIN :: int where
  "COIN = 100000000"

definition GENESIS_PREMINE :: int where
  "GENESIS_PREMINE = 2000000 * COIN"

definition GENESIS_PHRASE :: string where
  "GENESIS_PHRASE = ''WAM Network Launching Next Generation Decentralized Economy 2026''"

definition PREMINE_TRANCHE_AMOUNT :: int where
  "PREMINE_TRANCHE_AMOUNT = 400000 * COIN"

definition PREMINE_UNLOCK_TIMES :: "int list" where
  "PREMINE_UNLOCK_TIMES = [1820966400, 1852588800, 1884124800, 1915660800, 1947196800]"

definition OP_CHECKLOCKTIMEVERIFY :: byte where
  "OP_CHECKLOCKTIMEVERIFY = 0xB1"

definition OP_DROP :: byte where
  "OP_DROP = 0x75"

definition OP_TRUE_SCRIPT :: bytes where
  "OP_TRUE_SCRIPT = [0x51]"

section \<open>The founder's address\<close>

text \<open>
  \<open>raw[:-4]\<close> and \<open>raw[-4:]\<close> of at least five bytes. The value of the text is computed before the
  length is known, so a character outside the alphabet is reported first.
\<close>

definition base58_decode_check :: "string \<Rightarrow> py_error + bytes" where
  "base58_decode_check s =
     (if \<not> is_b58 s then Inl ValueError
      else let n = b58_value s;
               raw = replicate (length s - length (dropWhile (\<lambda>c. c = CHR ''1'') s)) 0
                 @ (if n \<noteq> 0 then minimal_bytes_be n else [])
        in if length raw < 5 then Inl ValueError
           else let payload = take (length raw - 4) raw; check = drop (length raw - 4) raw
             in if take 4 (sha256d payload) \<noteq> check then Inl ValueError else Inr payload)"

section \<open>Scripts\<close>

definition push_data :: "bytes \<Rightarrow> py_error + bytes" where
  "push_data d =
     (let n = int (length d)
      in if n < 0x4C then rbind (pack_u 1 n) (\<lambda>l. Inr (l @ d))
         else if n \<le> 0xFF then rbind (pack_u 1 n) (\<lambda>l. Inr (0x4C # l @ d))
         else if n \<le> 0xFFFF then rbind (pack_u 2 n) (\<lambda>l. Inr (0x4D # l @ d))
         else rbind (pack_u 4 n) (\<lambda>l. Inr (0x4E # l @ d)))"

text \<open>
  The loop of \<open>script_num\<close> takes the bytes of the absolute value from the bottom, \<open>digs 256\<close>; the
  sign then goes into the top bit of the last byte, or into a byte of its own.
\<close>

definition script_num :: "int \<Rightarrow> bytes" where
  "script_num n =
     (if n = 0 then [0]
      else let out = map word_of_nat (digs 256 (nat \<bar>n\<bar>))
        in if last out AND 0x80 \<noteq> 0 then out @ [if n < 0 then 0x80 else 0]
           else if n < 0 then butlast out @ [last out OR 0x80]
           else out)"

definition utf8 :: "string \<Rightarrow> bytes" where
  "utf8 s = concat (map (\<lambda>c. let n = of_char c :: nat
     in if n < 128 then [word_of_nat n] else [word_of_nat (192 + n div 64), word_of_nat (128 + n mod 64)]) s)"

definition build_coinbase_scriptsig :: "string \<Rightarrow> py_error + bytes" where
  "build_coinbase_scriptsig phrase =
     rbind (push_data (script_num 486604799)) (\<lambda>a. rbind (push_data (script_num 4)) (\<lambda>b.
     rbind (push_data (utf8 phrase)) (\<lambda>c. Inr (a @ b @ c))))"

definition p2pkh_script :: "bytes \<Rightarrow> py_error + bytes" where
  "p2pkh_script h =
     (if length h \<noteq> 20 then Inl AssertionError
      else Inr ([0x76, 0xA9, 0x14] @ h @ [0x88, 0xAC]))"

definition timelocked_script :: "bytes \<Rightarrow> int \<Rightarrow> py_error + bytes" where
  "timelocked_script h locktime =
     (if locktime = 0 then p2pkh_script h
      else rbind (push_data (script_num locktime)) (\<lambda>l. rbind (p2pkh_script h) (\<lambda>p.
        Inr (l @ [OP_CHECKLOCKTIMEVERIFY, OP_DROP] @ p))))"

section \<open>The coinbase transaction and the header\<close>

type_synonym tx_out = "int \<times> bytes"

definition build_genesis_outputs :: "bytes \<Rightarrow> bool \<Rightarrow> bool \<Rightarrow> py_error + tx_out list" where
  "build_genesis_outputs h single op_true =
     (if op_true then Inr [(GENESIS_PREMINE, OP_TRUE_SCRIPT)]
      else if single then rbind (p2pkh_script h) (\<lambda>s. Inr [(GENESIS_PREMINE, s)])
      else rbind (rmap (\<lambda>t. rbind (timelocked_script h t) (\<lambda>s. Inr (PREMINE_TRANCHE_AMOUNT, s)))
             PREMINE_UNLOCK_TIMES) (\<lambda>outputs.
        if sum_list (map fst outputs) \<noteq> GENESIS_PREMINE then Inl AssertionError else Inr outputs))"

definition tx_output :: "tx_out \<Rightarrow> py_error + bytes" where
  "tx_output out = (case out of (value, script) \<Rightarrow>
     rbind (pack_s 8 value) (\<lambda>v. rbind (varint (int (length script))) (\<lambda>l. Inr (v @ l @ script))))"

definition build_coinbase_tx :: "tx_out list \<Rightarrow> string \<Rightarrow> py_error + bytes" where
  "build_coinbase_tx outputs phrase =
     rbind (build_coinbase_scriptsig phrase) (\<lambda>sig.
     rbind (pack_s 4 1) (\<lambda>version.
     rbind (varint 1) (\<lambda>vin.
     rbind (pack_u 4 0xFFFFFFFF) (\<lambda>prevn.
     rbind (varint (int (length sig))) (\<lambda>siglen.
     rbind (pack_u 4 0xFFFFFFFF) (\<lambda>sequence.
     rbind (varint (int (length outputs))) (\<lambda>vout.
     rbind (put_all tx_output outputs) (\<lambda>outs.
     rbind (pack_u 4 0) (\<lambda>locktime.
       Inr (version @ vin @ replicate 32 0 @ prevn @ siglen @ sig @ sequence
            @ vout @ outs @ locktime))))))))))"

definition serialize_header :: "int \<Rightarrow> bytes \<Rightarrow> bytes \<Rightarrow> int \<Rightarrow> int \<Rightarrow> int \<Rightarrow> py_error + bytes" where
  "serialize_header version prev merkle n_time n_bits nonce =
     rbind (pack_s 4 version) (\<lambda>v. rbind (pack_u 4 n_time) (\<lambda>t. rbind (pack_u 4 n_bits) (\<lambda>b.
     rbind (pack_u 4 nonce) (\<lambda>n. Inr (v @ prev @ merkle @ t @ b @ n)))))"

section \<open>The node's side: reading scripts and transactions\<close>

definition get_push :: "bytes \<Rightarrow> (bytes \<times> bytes) option" where
  "get_push bs =
     (let run = (\<lambda>(n, r). if int (length r) < n then None else Some (take (nat n) r, drop (nat n) r))
      in case bs of
           [] \<Rightarrow> None
         | op # r \<Rightarrow>
             if unat op < 0x4C then run (int (unat op), r)
             else if op = 0x4C then Option.bind (get_u 1 r) run
             else if op = 0x4D then Option.bind (get_u 2 r) run
             else if op = 0x4E then Option.bind (get_u 4 r) run
             else None)"

text \<open>The value of a script number: little endian, the top bit of the last byte is the sign.\<close>

definition num_of_script :: "bytes \<Rightarrow> int" where
  "num_of_script bs =
     (if bs = [] then 0
      else let v = int (from_bytes_le bs); top = 128 * 256 ^ (length bs - 1)
        in if last bs AND 0x80 = 0 then v else - (v - top))"

text \<open>No byte could be left out: the last one is not just a sign.\<close>

definition minimal_num :: "bytes \<Rightarrow> bool" where
  "minimal_num bs \<longleftrightarrow>
     (case rev bs of
        [] \<Rightarrow> True
      | [b] \<Rightarrow> b AND 0x7F \<noteq> 0
      | b # c # _ \<Rightarrow> b AND 0x7F \<noteq> 0 \<or> c AND 0x80 \<noteq> 0)"

text \<open>The lock time and the key hash of a script that pays to a key hash after a lock.\<close>

definition read_timelock :: "bytes \<Rightarrow> (int \<times> bytes) option" where
  "read_timelock s =
     (case get_push s of
        None \<Rightarrow> None
      | Some (lock, r) \<Rightarrow>
          if minimal_num lock \<and> length r = 27 \<and> take 5 r = [0xB1, 0x75, 0x76, 0xA9, 0x14]
             \<and> drop 25 r = [0x88, 0xAC]
          then Some (num_of_script lock, take 20 (drop 5 r)) else None)"

definition get_output :: "bytes \<Rightarrow> (tx_out \<times> bytes) option" where
  "get_output bs = Option.bind (get_s 8 bs) (\<lambda>(v, r).
     Option.bind (get_var_bytes r) (\<lambda>(s, r'). Some ((v, s), r')))"

text \<open>A coinbase transaction: its signature script and its outputs; nothing may follow.\<close>

definition read_coinbase :: "bytes \<Rightarrow> (bytes \<times> tx_out list) option" where
  "read_coinbase tx =
     Option.bind (get_s 4 tx) (\<lambda>(version, r1).
     Option.bind (get_varint r1) (\<lambda>(vin, r2).
     if version \<noteq> 1 \<or> vin \<noteq> 1 \<or> take 32 r2 \<noteq> replicate 32 0 then None else
     Option.bind (get_u 4 (drop 32 r2)) (\<lambda>(prevn, r3).
     Option.bind (get_var_bytes r3) (\<lambda>(sig, r4).
     Option.bind (get_u 4 r4) (\<lambda>(sequence, r5).
     if prevn \<noteq> 0xFFFFFFFF \<or> sequence \<noteq> 0xFFFFFFFF then None else
     Option.bind (get_varint r5) (\<lambda>(vout, r6).
     Option.bind (get_all get_output (nat vout) r6) (\<lambda>(outs, r7).
     Option.bind (get_u 4 r7) (\<lambda>(locktime, r8).
     if locktime \<noteq> 0 \<or> r8 \<noteq> [] then None else Some (sig, outs)))))))))"

section \<open>Everything written is read back\<close>

interpretation pd: wire_format push_data get_push
proof
  fix d bs rest assume p: "push_data d = Inr bs"
  let ?n = "int (length d)"
  consider "?n < 0x4C" | "0x4C \<le> ?n" "?n \<le> 0xFF" | "0xFF < ?n" "?n \<le> 0xFFFF" | "0xFFFF < ?n"
    by linarith
  then show "get_push (bs @ rest) = Some (d, rest)"
  proof cases
    case 1
    define b :: byte where "b = word_of_nat (length d)"
    have "unat b = length d" using 1 by (simp add: b_def)
    moreover have "bs = b # d" using p 1 by (auto simp: push_data_def pack_u_Inr b_def One_nat_def)
    ultimately show ?thesis using 1 by (simp add: get_push_def)
  next
    case 2
    with p obtain l where "pack_u 1 ?n = Inr l" "bs = 0x4C # l @ d" by (auto simp: push_data_def)
    then show ?thesis using pu.get_put [of 1 ?n l "d @ rest"] by (simp add: get_push_def)
  next
    case 3
    with p obtain l where "pack_u 2 ?n = Inr l" "bs = 0x4D # l @ d" by (auto simp: push_data_def)
    then show ?thesis using pu.get_put [of 2 ?n l "d @ rest"] by (simp add: get_push_def)
  next
    case 4
    with p obtain l where "pack_u 4 ?n = Inr l" "bs = 0x4E # l @ d" by (auto simp: push_data_def)
    then show ?thesis using pu.get_put [of 4 ?n l "d @ rest"] by (simp add: get_push_def)
  qed
qed

interpretation po: wire_format tx_output get_output
proof
  fix x :: tx_out and bs rest assume p: "tx_output x = Inr bs"
  obtain v s where x: "x = (v, s)" by (cases x)
  from p obtain a l where a: "pack_s 8 v = Inr a" and l: "varint (int (length s)) = Inr l" "bs = a @ l @ s"
    by (auto simp: tx_output_def x)
  have "var_bytes s = Inr (l @ s)" using l by (simp add: var_bytes_def)
  from vb.get_put [OF this] have "get_var_bytes (l @ s @ rest) = Some (s, rest)" by simp
  moreover have "get_s 8 (a @ l @ s @ rest) = Some (v, l @ s @ rest)"
    using ps.get_put [of 7 v a] a by simp
  ultimately show "get_output (bs @ rest) = Some (x, rest)" by (simp add: get_output_def l x)
qed

text \<open>Script numbers, with the sign in the top bit of the last byte.\<close>

lemma byte_sign: "(b :: byte) AND 0x80 = 0 \<longleftrightarrow> unat b < 128"
proof -
  have "b AND 2 ^ 7 = 0 \<longleftrightarrow> \<not> bit b 7" by (rule and_exp_eq_0_iff_not_bit)
  also have "bit b 7 \<longleftrightarrow> bit (unat b) 7" by (simp add: bit_unsigned_iff)
  also have "\<not> bit (unat b) 7 \<longleftrightarrow> unat b < 128"
  proof (cases "unat b < 128")
    case False
    then have "unat b div 128 = 1" using unat_byte_less [of b] by (intro div_nat_eqI) simp_all
    with False show ?thesis by (simp add: bit_iff_odd)
  qed (simp add: bit_iff_odd)
  finally show ?thesis by simp
qed

lemma byte_set_sign: "(b :: byte) AND 0x80 = 0 \<Longrightarrow> unat (b OR 0x80) = unat b + 128"
proof -
  assume b: "b AND 0x80 = 0"
  then have "b OR 0x80 = b + 0x80" by (simp add: disjunctive_add_eq_or)
  moreover have "unat b < 128" using b by (simp add: byte_sign)
  ultimately show ?thesis by (simp add: unat_word_ariths)
qed

lemma from_bytes_le_append: "from_bytes_le (xs @ ys) = from_bytes_le xs + 256 ^ length xs * from_bytes_le ys"
  by (simp add: from_bytes_le_def undigs_append)

lemma from_bytes_le_single [simp]: "from_bytes_le [b] = unat b"
  by (simp add: from_bytes_le_def)

lemma from_bytes_le_digs: "from_bytes_le (map word_of_nat (digs 256 n)) = n"
proof -
  have "map (unat \<circ> (word_of_nat :: nat \<Rightarrow> byte)) (digs 256 n) = digs 256 n"
    using digs_less [of 256 _ n] by (auto intro!: map_idI)
  then show ?thesis by (simp add: from_bytes_le_def)
qed

lemma script_num_eq:
  assumes "n \<noteq> 0" "map word_of_nat (digs 256 (nat \<bar>n\<bar>)) = init @ [b]"
  shows "script_num n = (if b AND 0x80 \<noteq> 0 then init @ [b, if n < 0 then 0x80 else 0]
      else if n < 0 then init @ [b OR 0x80] else init @ [b])"
  unfolding script_num_def Let_def assms(2) using assms(1) by simp

lemma script_num_value: "num_of_script (script_num n) = n"
proof (cases "n = 0")
  case False
  define out :: bytes where "out = map word_of_nat (digs 256 (nat \<bar>n\<bar>))"
  have ne: "out \<noteq> []" and v: "from_bytes_le out = nat \<bar>n\<bar>"
    using False by (simp_all add: out_def from_bytes_le_digs)
  then obtain init b where out: "out = init @ [b]" by (metis rev_exhaust)
  note sn = script_num_eq [OF False out [unfolded out_def]]
  consider "b AND 0x80 \<noteq> 0" | "b AND 0x80 = 0" "n < 0" | "b AND 0x80 = 0" "0 < n"
    using False by linarith
  then show ?thesis
  proof cases
    case 1
    then have "script_num n = out @ [if n < 0 then 0x80 else 0]"
      using False by (simp add: sn out)
    then show ?thesis using v by (auto simp: num_of_script_def from_bytes_le_append Let_def)
  next
    case 2
    then have s: "script_num n = init @ [b OR 0x80]"
      using False by (simp add: sn)
    have "int (from_bytes_le init + 256 ^ length init * unat b) = - n"
      using v 2 by (simp add: out from_bytes_le_append)
    moreover have "(b OR 0x80) AND 0x80 \<noteq> 0" by (simp add: byte_sign byte_set_sign [OF 2(1)])
    ultimately show ?thesis
      by (simp add: s num_of_script_def from_bytes_le_append byte_set_sign [OF 2(1)] algebra_simps)
  next
    case 3
    then have s: "script_num n = out"
      using False by (simp add: sn out)
    then show ?thesis using v 3 by (simp add: num_of_script_def out)
  qed
qed (simp add: script_num_def num_of_script_def)

lemma script_num_minimal:
  assumes "n \<noteq> 0" shows "minimal_num (script_num n)"
proof -
  define out :: bytes where "out = map word_of_nat (digs 256 (nat \<bar>n\<bar>))"
  have ne: "out \<noteq> []" using assms by (simp add: out_def)
  have l: "last (digs 256 (nat \<bar>n\<bar>)) \<noteq> 0" "last (digs 256 (nat \<bar>n\<bar>)) < 256"
    using assms by (auto simp: last_digs intro: digs_less [of 256 _ "nat \<bar>n\<bar>"])
  obtain init b where out: "out = init @ [b]" using ne by (metis rev_exhaust)
  have "last out = word_of_nat (last (digs 256 (nat \<bar>n\<bar>)))"
    using assms by (simp add: out_def last_map)
  then have "unat b \<noteq> 0" using l by (simp add: out)
  then have b: "b AND 0x7F \<noteq> 0" if "b AND 0x80 = 0"
  proof -
    have "b = (b AND 0x7F) OR (b AND 0x80)"
      by (rule bit_eqI) (auto simp: bit_or_iff bit_and_iff bit_numeral_rec less_Suc_eq numeral_eq_Suc)
    with that \<open>unat b \<noteq> 0\<close> show ?thesis by force
  qed
  have or: "(b OR 0x80) AND 0x7F = b AND 0x7F"
    by (rule bit_eqI) (auto simp: bit_or_iff bit_and_iff bit_numeral_rec less_Suc_eq numeral_eq_Suc)
  note e = script_num_eq [OF assms out [unfolded out_def]]
  show ?thesis unfolding e using b or
    by (auto simp: minimal_num_def split: list.splits)
qed

lemma read_timelocked:
  assumes "timelocked_script h t = Inr s" "t \<noteq> 0"
  shows "read_timelock s = Some (t, h)"
proof -
  from assms obtain l where l: "push_data (script_num t) = Inr l" and h: "length h = 20"
    and s: "s = l @ [OP_CHECKLOCKTIMEVERIFY, OP_DROP] @ [0x76, 0xA9, 0x14] @ h @ [0x88, 0xAC]"
    by (auto simp: timelocked_script_def p2pkh_script_def split: if_splits)
  show ?thesis
    using pd.get_put [OF l] h assms(2)
    by (simp add: s read_timelock_def script_num_value script_num_minimal
        OP_CHECKLOCKTIMEVERIFY_def OP_DROP_def)
qed

lemma get_s_4: "pack_s 4 n = Inr b \<Longrightarrow> get_s 4 (b @ r) = Some (n, r)"
  using ps.get_put [of 3 n b r] by simp

text \<open>A coinbase transaction that is built reads back, by the transaction format, as its
  signature script and exactly the outputs that went in, with nothing left over.\<close>

theorem coinbase_roundtrip:
  assumes "build_coinbase_tx outs phrase = Inr tx"
  shows "\<exists>sig. build_coinbase_scriptsig phrase = Inr sig \<and> read_coinbase tx = Some (sig, outs)"
proof -
  from assms obtain sig version vin prevn siglen sequence vout os locktime where
    sig: "build_coinbase_scriptsig phrase = Inr sig" and
    v: "pack_s 4 1 = Inr version" "varint 1 = Inr vin" "pack_u 4 0xFFFFFFFF = Inr prevn"
      "varint (int (length sig)) = Inr siglen" "pack_u 4 0xFFFFFFFF = Inr sequence"
      "varint (int (length outs)) = Inr vout" "put_all tx_output outs = Inr os" "pack_u 4 0 = Inr locktime" and
    tx: "tx = version @ vin @ replicate 32 0 @ prevn @ siglen @ sig @ sequence @ vout @ os @ locktime"
    by (auto simp: build_coinbase_tx_def)
  have "var_bytes sig = Inr (siglen @ sig)" by (simp add: var_bytes_def v)
  from vb.get_put [OF this] have gs: "get_var_bytes (siglen @ sig @ r) = Some (sig, r)" for r by simp
  have drop: "drop 32 (replicate 32 (0 :: byte) @ r) = r" "take 32 (replicate 32 (0 :: byte) @ r) = replicate 32 0" for r
    by (simp_all)
  have "read_coinbase tx = Some (sig, outs)"
    unfolding tx read_coinbase_def
    by (simp add: get_s_4 [OF v(1)] vi.get_put [OF v(2)] drop pu.get_put [OF v(3)] gs pu.get_put [OF v(5)]
        vi.get_put [OF v(6)] po.get_put_all [OF v(7)] pu.get_put_end [OF v(8)])
  with sig show ?thesis by blast
qed

lemma digs_256_step: "0 < n \<Longrightarrow> digs 256 n = n mod 256 # digs 256 (n div 256)"
  by (rule digs_pos) simp_all

lemma push_short: "length d < 76 \<Longrightarrow> push_data d = Inr (word_of_nat (length d) # d)"
  by (simp add: push_data_def pack_u_def One_nat_def)

lemma unlock_nums: "t \<in> set PREMINE_UNLOCK_TIMES \<Longrightarrow> length (script_num t) = 4 \<and> t \<noteq> 0"
proof -
  have four: "length (script_num 1820966400) = 4" "length (script_num 1852588800) = 4"
    "length (script_num 1884124800) = 4" "length (script_num 1915660800) = 4"
    "length (script_num 1947196800) = 4"
    by (simp_all add: script_num_def digs_256_step)
  assume "t \<in> set PREMINE_UNLOCK_TIMES"
  then show ?thesis by (auto simp: PREMINE_UNLOCK_TIMES_def four)
qed

lemma unlock_scripts:
  assumes "t \<in> set PREMINE_UNLOCK_TIMES" "length h = 20"
  shows "\<exists>s. timelocked_script h t = Inr s \<and> length s = 32 \<and> t \<noteq> 0"
  using unlock_nums [OF assms(1)] assms(2)
  by (simp add: timelocked_script_def p2pkh_script_def push_short)

lemma build_genesis_outputs_default:
  assumes "length h = 20"
  shows "\<exists>outs. build_genesis_outputs h False False = Inr outs
    \<and> list_all2 (\<lambda>t out. fst out = PREMINE_TRANCHE_AMOUNT \<and> timelocked_script h t = Inr (snd out)
        \<and> length (snd out) = 32) PREMINE_UNLOCK_TIMES outs
    \<and> sum_list (map fst outs) = GENESIS_PREMINE"
proof -
  define s where "s t = (case timelocked_script h t of Inr s \<Rightarrow> s | Inl _ \<Rightarrow> [])" for t
  have s: "timelocked_script h t = Inr (s t)" "length (s t) = 32" if "t \<in> set PREMINE_UNLOCK_TIMES" for t
    using unlock_scripts [OF that assms] by (auto simp: s_def)
  let ?outs = "map (\<lambda>t. (PREMINE_TRANCHE_AMOUNT, s t)) PREMINE_UNLOCK_TIMES"
  have "rmap (\<lambda>t. rbind (timelocked_script h t) (\<lambda>s. Inr (PREMINE_TRANCHE_AMOUNT, s))) PREMINE_UNLOCK_TIMES
      = Inr ?outs"
    by (rule rmap_map_Inr) (simp add: s)
  moreover have sum: "sum_list (map fst ?outs) = GENESIS_PREMINE"
    by (simp add: PREMINE_UNLOCK_TIMES_def PREMINE_TRANCHE_AMOUNT_def GENESIS_PREMINE_def)
  ultimately have "build_genesis_outputs h False False = Inr ?outs"
    by (simp add: build_genesis_outputs_def)
  moreover have "list_all2 (\<lambda>t out. fst out = PREMINE_TRANCHE_AMOUNT \<and> timelocked_script h t = Inr (snd out)
      \<and> length (snd out) = 32) PREMINE_UNLOCK_TIMES ?outs"
    using s by (auto simp: list_all2_map2 list_all2_same)
  ultimately show ?thesis using sum by blast
qed

lemma scriptsig_default: "\<exists>sig. build_coinbase_scriptsig GENESIS_PHRASE = Inr sig \<and> length sig = 72"
proof -
  have "length (utf8 GENESIS_PHRASE) = 64" by (simp add: utf8_def GENESIS_PHRASE_def)
  moreover have "length (script_num 486604799) = 4" "length (script_num 4) = 1"
    by (simp_all add: script_num_def digs_256_step)
  ultimately show ?thesis by (simp add: build_coinbase_scriptsig_def push_short)
qed

lemma tx_output_ok: "- (2 ^ 63) \<le> v \<Longrightarrow> v < 2 ^ 63 \<Longrightarrow> length s < 253 \<Longrightarrow> \<exists>b. tx_output (v, s) = Inr b"
  by (simp add: tx_output_def pack_s_def varint_def pack_u_def)

lemma put_all_ok: "(\<And>x. x \<in> set xs \<Longrightarrow> \<exists>b. f x = Inr b) \<Longrightarrow> \<exists>b. put_all f xs = Inr b"
proof -
  assume ok: "\<And>x. x \<in> set xs \<Longrightarrow> \<exists>b. f x = Inr b"
  have "\<exists>bs. rmap f xs = Inr bs"
    using ok by (induction xs) (simp, force)
  then show ?thesis by (auto simp: put_all_def)
qed

lemma build_coinbase_ok:
  assumes "build_coinbase_scriptsig phrase = Inr sig" "length sig < 253" "length outs < 253"
    "\<forall>x \<in> set outs. 0 \<le> fst x \<and> fst x < 2 ^ 63 \<and> length (snd x) < 253"
  shows "\<exists>tx. build_coinbase_tx outs phrase = Inr tx"
proof -
  have "\<exists>b. put_all tx_output outs = Inr b"
    using assms(4) tx_output_ok by (intro put_all_ok) (auto intro: tx_output_ok)
  with assms show ?thesis
    by (auto simp: build_coinbase_tx_def pack_s_def varint_def pack_u_def)
qed

lemma default_coinbase_reads_back:
  assumes "length h = 20"
  shows "\<exists>outs tx sig. build_genesis_outputs h False False = Inr outs
    \<and> build_coinbase_tx outs GENESIS_PHRASE = Inr tx \<and> read_coinbase tx = Some (sig, outs)
    \<and> map (\<lambda>(v, s). (v, read_timelock s)) outs
        = map (\<lambda>t. (400000 * COIN, Some (t, h))) PREMINE_UNLOCK_TIMES
    \<and> sum_list (map fst outs) = GENESIS_PREMINE"
proof -
  from build_genesis_outputs_default [OF assms] obtain outs where
    outs: "build_genesis_outputs h False False = Inr outs" "sum_list (map fst outs) = GENESIS_PREMINE" and
    all: "list_all2 (\<lambda>t out. fst out = PREMINE_TRANCHE_AMOUNT \<and> timelocked_script h t = Inr (snd out)
        \<and> length (snd out) = 32) PREMINE_UNLOCK_TIMES outs"
    by blast
  have lock: "read_timelock s = Some (t, h)" if "t \<in> set PREMINE_UNLOCK_TIMES" "timelocked_script h t = Inr s" for t s
    using read_timelocked [OF that(2)] unlock_scripts [OF that(1) assms] by blast
  have "length outs < 253" using all by (auto simp: PREMINE_UNLOCK_TIMES_def dest!: list_all2_lengthD)
  moreover have "\<forall>x \<in> set outs. 0 \<le> fst x \<and> fst x < 2 ^ 63 \<and> length (snd x) < 253"
  proof
    fix x assume "x \<in> set outs"
    then obtain i where "i < length outs" "x = outs ! i" by (metis in_set_conv_nth)
    with all have "fst x = PREMINE_TRANCHE_AMOUNT" "length (snd x) = 32" by (simp_all add: list_all2_conv_all_nth)
    then show "0 \<le> fst x \<and> fst x < 2 ^ 63 \<and> length (snd x) < 253"
      by (simp add: PREMINE_TRANCHE_AMOUNT_def COIN_def)
  qed
  moreover obtain sig where "build_coinbase_scriptsig GENESIS_PHRASE = Inr sig" "length sig < 253"
    using scriptsig_default by fastforce
  ultimately obtain tx where tx: "build_coinbase_tx outs GENESIS_PHRASE = Inr tx"
    using build_coinbase_ok by blast
  have "map (\<lambda>(v, s). (v, read_timelock s)) outs
      = map (\<lambda>t. (400000 * COIN, Some (t, h))) PREMINE_UNLOCK_TIMES"
    using all lock
    by (auto simp: list_eq_iff_nth_eq list_all2_conv_all_nth PREMINE_TRANCHE_AMOUNT_def split: prod.splits)
  with outs tx coinbase_roundtrip [OF tx] show ?thesis by blast
qed

text \<open>C29: for every founder key hash the default genesis coinbase is built, and the transaction
  format reads it back as five outputs of 400,000 coins, each locked to that key hash until its own
  unlock time, that together are the whole premine.\<close>

theorem genesis_coinbase_locks_the_premine:
  assumes "length h = 20"
  shows "\<exists>outs tx sig. build_genesis_outputs h False False = Inr outs
    \<and> build_coinbase_tx outs GENESIS_PHRASE = Inr tx \<and> read_coinbase tx = Some (sig, outs)
    \<and> map (\<lambda>(v, s). (v, read_timelock s)) outs
        = map (\<lambda>t. (400000 * COIN, Some (t, h))) PREMINE_UNLOCK_TIMES
    \<and> sum_list (map fst outs) = GENESIS_PREMINE"
  using assms by (rule default_coinbase_reads_back)

theorem genesis_coinbase_locks_the_premine_witness:
  "\<exists>outs tx sig. build_genesis_outputs (replicate 20 7) False False = Inr outs
    \<and> build_coinbase_tx outs GENESIS_PHRASE = Inr tx \<and> read_coinbase tx = Some (sig, outs)
    \<and> map (\<lambda>(v, s). (v, read_timelock s)) outs
        = map (\<lambda>t. (400000 * COIN, Some (t, replicate 20 7))) PREMINE_UNLOCK_TIMES
    \<and> sum_list (map fst outs) = GENESIS_PREMINE"
  by (rule genesis_coinbase_locks_the_premine) simp

theorem coinbase_roundtrip_witness:
  "\<exists>tx sig. build_coinbase_tx [(GENESIS_PREMINE, OP_TRUE_SCRIPT)] GENESIS_PHRASE = Inr tx
    \<and> read_coinbase tx = Some (sig, [(GENESIS_PREMINE, OP_TRUE_SCRIPT)])"
proof -
  obtain sig where "build_coinbase_scriptsig GENESIS_PHRASE = Inr sig" "length sig < 253"
    using scriptsig_default by fastforce
  then obtain tx where "build_coinbase_tx [(GENESIS_PREMINE, OP_TRUE_SCRIPT)] GENESIS_PHRASE = Inr tx"
    using build_coinbase_ok [of GENESIS_PHRASE sig "[(GENESIS_PREMINE, OP_TRUE_SCRIPT)]"]
    by (auto simp: OP_TRUE_SCRIPT_def GENESIS_PREMINE_def COIN_def)
  with coinbase_roundtrip show ?thesis by blast
qed

end
