(* ===== verification/Genesis_Mining.thy ===== *)
theory Genesis_Mining
  imports Wire
begin

text \<open>
  The search of \<open>mine\<close> in \<open>genesis/genesis_generator.py\<close>: threads that stride through the nonce
  space with a stop event, a lock and a shared result. One step is one action of one worker on the
  shared state; a run is any interleaving of such steps. The hash of the RandomX virtual machine is
  the parameter \<open>H\<close>.
\<close>

section \<open>The workers\<close>

text \<open>
  Where a worker is: at the test of its loop; about to hash; holding a hash that meets the target
  and about to take the lock; about to set the stop event; about to leave its loop; gone.
\<close>

datatype phase = At_Test | At_Hash | At_Lock bytes | At_Stop | At_Exit | Gone

record worker =
  wk_phase :: phase
  wk_nonce :: nat
  wk_local :: nat

record mining =
  workers :: "worker list"
  found :: "(nat \<times> bytes) option"
  stop_set :: bool
  counters :: "nat list"

record job =
  job_hash :: "bytes \<Rightarrow> bytes"
  job_prefix :: bytes
  job_target :: int
  job_threads :: nat

definition mine_start :: "job \<Rightarrow> mining" where
  "mine_start j =
     \<lparr>workers = map (\<lambda>i. \<lparr>wk_phase = At_Test, wk_nonce = i, wk_local = 0\<rparr>) [0..<job_threads j],
      found = None, stop_set = False, counters = replicate (job_threads j) 0\<rparr>"

text \<open>The header that is hashed for a nonce, and the comparison with the target.\<close>

definition nonce_hash :: "job \<Rightarrow> nat \<Rightarrow> bytes" where
  "nonce_hash j n = job_hash j (job_prefix j @ to_bytes_le 4 n)"

definition meets :: "job \<Rightarrow> nat \<Rightarrow> bool" where
  "meets j n \<longleftrightarrow> int (from_bytes_le (nonce_hash j n)) \<le> job_target j"

text \<open>
  The next action of worker \<open>i\<close>; the second result is the nonce it hashed, if it did. Every 64th
  hash also writes the worker's counter.
\<close>

definition worker_step :: "job \<Rightarrow> nat \<Rightarrow> mining \<Rightarrow> (mining \<times> nat option) option" where
  "worker_step j i s =
     (let w = workers s ! i;
          put = (\<lambda>w'. s\<lparr>workers := (workers s)[i := w']\<rparr>)
      in case wk_phase w of
           At_Test \<Rightarrow>
             Some (put (w\<lparr>wk_phase := if \<not> stop_set s \<and> wk_nonce w \<le> 0xFFFFFFFF then At_Hash else At_Exit\<rparr>), None)
         | At_Hash \<Rightarrow>
             let h = nonce_hash j (wk_nonce w); l = Suc (wk_local w);
                 cs = (if l mod 64 = 0 then (counters s)[i := l] else counters s);
                 w' = (if int (from_bytes_le h) \<le> job_target j
                   then w\<lparr>wk_phase := At_Lock h, wk_local := l\<rparr>
                   else w\<lparr>wk_phase := At_Test, wk_local := l, wk_nonce := wk_nonce w + job_threads j\<rparr>)
             in Some (s\<lparr>workers := (workers s)[i := w'], counters := cs\<rparr>, Some (wk_nonce w))
         | At_Lock h \<Rightarrow>
             Some ((put (w\<lparr>wk_phase := At_Stop\<rparr>))
                \<lparr>found := (case found s of None \<Rightarrow> Some (wk_nonce w, h) | Some f \<Rightarrow> Some f)\<rparr>, None)
         | At_Stop \<Rightarrow> Some ((put (w\<lparr>wk_phase := At_Exit\<rparr>))\<lparr>stop_set := True\<rparr>, None)
         | At_Exit \<Rightarrow> Some ((put (w\<lparr>wk_phase := Gone\<rparr>))\<lparr>counters := (counters s)[i := wk_local w]\<rparr>, None)
         | Gone \<Rightarrow> None)"

text \<open>Runs: the events are the worker that acted and the nonce it hashed, if it did.\<close>

inductive mine_run :: "job \<Rightarrow> (nat \<times> nat option) list \<Rightarrow> mining \<Rightarrow> bool" for j where
  start: "mine_run j [] (mine_start j)"
| act: "mine_run j evs s \<Longrightarrow> i < job_threads j \<Longrightarrow> worker_step j i s = Some (s', e) \<Longrightarrow>
        mine_run j (evs @ [(i, e)]) s'"

definition all_gone :: "mining \<Rightarrow> bool" where
  "all_gone s \<longleftrightarrow> list_all (\<lambda>w. wk_phase w = Gone) (workers s)"

text \<open>What \<open>mine\<close> does after joining the threads.\<close>

definition mine_result :: "mining \<Rightarrow> py_error + (nat \<times> bytes \<times> nat)" where
  "mine_result s = (case found s of
      None \<Rightarrow> Inl RuntimeError
    | Some (n, h) \<Rightarrow> Inr (n, h, sum_list (counters s)))"

definition hashed :: "(nat \<times> nat option) list \<Rightarrow> nat list" where
  "hashed evs = concat (map (\<lambda>(i, e). case e of None \<Rightarrow> [] | Some n \<Rightarrow> [n]) evs)"

section \<open>The invariant of one worker\<close>

text \<open>
  The nonces of worker \<open>i\<close> are \<open>i, i + threads, i + 2 threads, \<dots>\<close>: what it has hashed is determined
  by how many it has hashed.
\<close>

definition stride :: "job \<Rightarrow> nat \<Rightarrow> nat \<Rightarrow> nat" where
  "stride j i k = i + job_threads j * k"

definition worker_ok :: "job \<Rightarrow> mining \<Rightarrow> nat \<Rightarrow> worker \<Rightarrow> bool" where
  "worker_ok j s i w \<longleftrightarrow>
     (\<forall>k. Suc k < wk_local w \<longrightarrow> \<not> meets j (stride j i k))
     \<and> (\<forall>k < wk_local w. stride j i k \<le> 0xFFFFFFFF)
     \<and> (case wk_phase w of
          At_Test \<Rightarrow> wk_nonce w = stride j i (wk_local w)
            \<and> (\<forall>k < wk_local w. \<not> meets j (stride j i k))
        | At_Hash \<Rightarrow> wk_nonce w = stride j i (wk_local w) \<and> wk_nonce w \<le> 0xFFFFFFFF
            \<and> (\<forall>k < wk_local w. \<not> meets j (stride j i k))
        | At_Lock h \<Rightarrow> 0 < wk_local w \<and> wk_nonce w = stride j i (wk_local w - 1)
            \<and> meets j (wk_nonce w) \<and> h = nonce_hash j (wk_nonce w)
        | At_Stop \<Rightarrow> found s \<noteq> None
        | At_Exit \<Rightarrow> found s \<noteq> None
            \<or> (0xFFFFFFFF < wk_nonce w \<and> wk_nonce w = stride j i (wk_local w)
               \<and> (\<forall>k < wk_local w. \<not> meets j (stride j i k)))
        | Gone \<Rightarrow> counters s ! i = wk_local w \<and> (found s \<noteq> None
            \<or> (0xFFFFFFFF < wk_nonce w \<and> wk_nonce w = stride j i (wk_local w)
               \<and> (\<forall>k < wk_local w. \<not> meets j (stride j i k)))))"

definition hashed_by :: "nat \<Rightarrow> (nat \<times> nat option) list \<Rightarrow> nat list" where
  "hashed_by i evs = hashed (filter (\<lambda>e. fst e = i) evs)"

definition mining_ok :: "job \<Rightarrow> (nat \<times> nat option) list \<Rightarrow> mining \<Rightarrow> bool" where
  "mining_ok j evs s \<longleftrightarrow>
     length (workers s) = job_threads j \<and> length (counters s) = job_threads j
     \<and> (\<forall>i < job_threads j. worker_ok j s i (workers s ! i)
          \<and> hashed_by i evs = map (stride j i) [0..<wk_local (workers s ! i)])
     \<and> (stop_set s \<longrightarrow> found s \<noteq> None)
     \<and> (\<forall>n h. found s = Some (n, h) \<longrightarrow> n \<le> 0xFFFFFFFF \<and> meets j n \<and> h = nonce_hash j n)"

lemma hashed_by_snoc:
  "hashed_by i (evs @ [(i', e)]) =
     hashed_by i evs @ (if i' = i then (case e of None \<Rightarrow> [] | Some n \<Rightarrow> [n]) else [])"
  by (simp add: hashed_by_def hashed_def)

text \<open>Another worker's step leaves a worker as it was; only \<open>found\<close> can become set.\<close>

lemma worker_ok_other:
  assumes "worker_ok j s i w" "counters s' ! i = counters s ! i" "found s \<noteq> None \<Longrightarrow> found s' \<noteq> None"
  shows "worker_ok j s' i w"
  using assms unfolding worker_ok_def by (auto split: phase.splits)

lemma worker_step_frame:
  assumes "worker_step j i s = Some (s', e)"
  shows "length (workers s') = length (workers s) \<and> length (counters s') = length (counters s)
    \<and> (\<forall>k. k \<noteq> i \<longrightarrow> workers s' ! k = workers s ! k \<and> counters s' ! k = counters s ! k)
    \<and> (found s \<noteq> None \<longrightarrow> found s' = found s)"
  using assms by (auto simp: worker_step_def Let_def split: phase.splits option.splits if_splits)

lemma all_less_Suc: "(\<forall>k < Suc n. P k) \<longleftrightarrow> (\<forall>k < n. P k) \<and> P n"
  by (auto simp: less_Suc_eq)

lemma worker_step_self:
  assumes w: "worker_ok j s i (workers s ! i)" and step: "worker_step j i s = Some (s', e)"
    and i: "i < length (workers s)" "i < length (counters s)" and st: "stop_set s \<longrightarrow> found s \<noteq> None"
    and fd: "\<forall>n h. found s = Some (n, h) \<longrightarrow> n \<le> 0xFFFFFFFF \<and> meets j n \<and> h = nonce_hash j n"
  shows "worker_ok j s' i (workers s' ! i)
    \<and> map (stride j i) [0..<wk_local (workers s' ! i)]
        = map (stride j i) [0..<wk_local (workers s ! i)] @ (case e of None \<Rightarrow> [] | Some n \<Rightarrow> [n])
    \<and> (stop_set s' \<longrightarrow> found s' \<noteq> None)
    \<and> (\<forall>n h. found s' = Some (n, h) \<longrightarrow> n \<le> 0xFFFFFFFF \<and> meets j n \<and> h = nonce_hash j n)"
proof (cases "wk_phase (workers s ! i)")
  case At_Test
  with assms show ?thesis by (auto simp: worker_step_def Let_def worker_ok_def)
next
  case At_Hash
  let ?w = "workers s ! i"
  have nonce: "wk_nonce ?w = stride j i (wk_local ?w)" "stride j i (wk_local ?w) \<le> 0xFFFFFFFF"
    and old: "\<forall>k < wk_local ?w. \<not> meets j (stride j i k)" "\<forall>k < wk_local ?w. stride j i k \<le> 0xFFFFFFFF"
    using w At_Hash by (auto simp: worker_ok_def)
  have next_nonce: "wk_nonce ?w + job_threads j = stride j i (Suc (wk_local ?w))"
    by (simp add: nonce(1) stride_def)
  show ?thesis
  proof (cases "meets j (wk_nonce ?w)")
    case True
    then have "workers s' ! i = ?w\<lparr>wk_phase := At_Lock (nonce_hash j (wk_nonce ?w)), wk_local := Suc (wk_local ?w)\<rparr>"
      "e = Some (wk_nonce ?w)" "stop_set s' = stop_set s" "found s' = found s"
      using step At_Hash i by (auto simp: worker_step_def Let_def meets_def)
    with True nonce old st fd show ?thesis by (simp add: worker_ok_def all_less_Suc)
  next
    case False
    then have "workers s' ! i = ?w\<lparr>wk_phase := At_Test, wk_local := Suc (wk_local ?w),
        wk_nonce := stride j i (Suc (wk_local ?w))\<rparr>"
      "e = Some (wk_nonce ?w)" "stop_set s' = stop_set s" "found s' = found s"
      using step At_Hash i by (auto simp: worker_step_def Let_def meets_def next_nonce)
    with False nonce old st fd show ?thesis by (simp add: worker_ok_def all_less_Suc)
  qed
next
  case (At_Lock h)
  let ?w = "workers s ! i"
  have loc: "0 < wk_local ?w" "wk_nonce ?w = stride j i (wk_local ?w - 1)"
    and h: "meets j (wk_nonce ?w)" "h = nonce_hash j (wk_nonce ?w)"
    and old: "\<forall>k. Suc k < wk_local ?w \<longrightarrow> \<not> meets j (stride j i k)"
      "\<forall>k < wk_local ?w. stride j i k \<le> 0xFFFFFFFF"
    using w At_Lock by (auto simp: worker_ok_def)
  have n: "wk_nonce ?w \<le> 0xFFFFFFFF" using old(2) loc by simp
  have "workers s' ! i = ?w\<lparr>wk_phase := At_Stop\<rparr>" "e = None" "stop_set s' = stop_set s"
    "found s' = (case found s of None \<Rightarrow> Some (wk_nonce ?w, h) | Some f \<Rightarrow> Some f)"
    using step At_Lock i by (auto simp: worker_step_def Let_def)
  with n h old st fd show ?thesis by (cases "found s") (auto simp: worker_ok_def)
next
  case At_Stop
  with assms show ?thesis by (auto simp: worker_step_def Let_def worker_ok_def)
next
  case At_Exit
  with assms show ?thesis by (auto simp: worker_step_def Let_def worker_ok_def)
next
  case Gone
  with step show ?thesis by (simp add: worker_step_def Let_def)
qed

lemma mining_ok_run: "mine_run j evs s \<Longrightarrow> mining_ok j evs s"
proof (induction rule: mine_run.induct)
  case start
  show ?case
    by (auto simp: mining_ok_def mine_start_def worker_ok_def stride_def hashed_by_def hashed_def)
next
  case (act evs s i s' e)
  note frame = worker_step_frame [OF act(3)]
  have self: "worker_ok j s' i (workers s' ! i)
    \<and> map (stride j i) [0..<wk_local (workers s' ! i)]
        = map (stride j i) [0..<wk_local (workers s ! i)] @ (case e of None \<Rightarrow> [] | Some n \<Rightarrow> [n])
    \<and> (stop_set s' \<longrightarrow> found s' \<noteq> None)
    \<and> (\<forall>n h. found s' = Some (n, h) \<longrightarrow> n \<le> 0xFFFFFFFF \<and> meets j n \<and> h = nonce_hash j n)"
    using act by (intro worker_step_self) (auto simp: mining_ok_def)
  have "worker_ok j s' k (workers s' ! k)
      \<and> hashed_by k (evs @ [(i, e)]) = map (stride j k) [0..<wk_local (workers s' ! k)]"
    if k: "k < job_threads j" for k
  proof (cases "k = i")
    case True
    with self k act.IH show ?thesis by (simp add: hashed_by_snoc mining_ok_def)
  next
    case False
    then show ?thesis
      using k act.IH frame
      by (auto simp: hashed_by_snoc mining_ok_def intro: worker_ok_other [of j s k])
  qed
  with self frame act.IH show ?case by (simp add: mining_ok_def)
qed

section \<open>What was hashed\<close>

lemma worker_step_locals:
  assumes "mine_run j evs s" "i < job_threads j" "worker_step j i s = Some (s', e)"
  shows "wk_local (workers s' ! i) = wk_local (workers s ! i) + (case e of None \<Rightarrow> 0 | Some n \<Rightarrow> 1)"
    and "e = Some n \<Longrightarrow> n = stride j i (wk_local (workers s ! i)) \<and> n \<le> 0xFFFFFFFF"
proof -
  have "mine_run j (evs @ [(i, e)]) s'" by (rule act [OF assms])
  from mining_ok_run [OF this] have "hashed_by i (evs @ [(i, e)]) = map (stride j i) [0..<wk_local (workers s' ! i)]"
    and w': "worker_ok j s' i (workers s' ! i)"
    using assms(2) by (simp_all add: mining_ok_def)
  moreover have "hashed_by i evs = map (stride j i) [0..<wk_local (workers s ! i)]"
    using mining_ok_run [OF assms(1)] assms(2) by (simp add: mining_ok_def)
  ultimately have hs: "hashed_by i evs @ (case e of None \<Rightarrow> [] | Some n \<Rightarrow> [n])
      = map (stride j i) [0..<wk_local (workers s' ! i)]"
    "hashed_by i evs = map (stride j i) [0..<wk_local (workers s ! i)]"
    using hashed_by_snoc [of i evs i e] by simp_all
  from hs have "length (map (stride j i) [0..<wk_local (workers s ! i)] @ (case e of None \<Rightarrow> [] | Some n \<Rightarrow> [n]))
      = length (map (stride j i) [0..<wk_local (workers s' ! i)])" by metis
  then show l: "wk_local (workers s' ! i) = wk_local (workers s ! i) + (case e of None \<Rightarrow> 0 | Some n \<Rightarrow> 1)"
    by (auto split: option.splits)
  assume e: "e = Some n"
  with hs l have "n = stride j i (wk_local (workers s ! i))" by simp
  moreover have "stride j i (wk_local (workers s ! i)) \<le> 0xFFFFFFFF"
    using w' l e by (simp add: worker_ok_def)
  ultimately show "n = stride j i (wk_local (workers s ! i)) \<and> n \<le> 0xFFFFFFFF" by simp
qed

lemma worker_step_workers:
  assumes "worker_step j i s = Some (s', e)" "i < length (workers s)"
  shows "workers s' = (workers s)[i := workers s' ! i]"
  using worker_step_frame [OF assms(1)] assms(2) by (auto intro: nth_equalityI simp: nth_list_update)

lemma length_hashed: "mine_run j evs s \<Longrightarrow> length (hashed evs) = sum_list (map wk_local (workers s))"
proof (induction rule: mine_run.induct)
  case start
  have "map wk_local (workers (mine_start j)) = replicate (job_threads j) 0"
    by (simp add: mine_start_def map_replicate_trivial comp_def flip: map_replicate_const)
  then show ?case by (simp add: hashed_def sum_list_replicate)
next
  case (act evs s i s' e)
  have i: "i < length (workers s)" using mining_ok_run [OF act(1)] act(2) by (simp add: mining_ok_def)
  have "map wk_local (workers s') = (map wk_local (workers s))[i := wk_local (workers s' ! i)]"
    using worker_step_workers [OF act(3) i] by (metis map_update)
  moreover have "length (hashed (evs @ [(i, e)])) = length (hashed evs) + (case e of None \<Rightarrow> 0 | Some n \<Rightarrow> 1)"
    by (simp add: hashed_def split: option.splits)
  ultimately show ?case
    using act.IH i worker_step_locals(1) [OF act(1,2,3)]
    by (simp add: sum_list_update)
qed

lemma stride_eq_iff: "i < job_threads j \<Longrightarrow> i' < job_threads j \<Longrightarrow>
    stride j i k = stride j i' k' \<longleftrightarrow> i = i' \<and> k = k'"
proof
  assume i: "i < job_threads j" "i' < job_threads j" and e: "stride j i k = stride j i' k'"
  have "stride j i k mod job_threads j = i" "stride j i' k' mod job_threads j = i'"
    using i by (simp_all add: stride_def)
  with e have "i = i'" by simp
  with e i show "i = i' \<and> k = k'" by (simp add: stride_def)
qed simp

text \<open>Which nonces have been hashed, by whom.\<close>

lemma hashed_strides:
  "mine_run j evs s \<Longrightarrow> n \<in> set (hashed evs) \<Longrightarrow>
   \<exists>i k. i < job_threads j \<and> k < wk_local (workers s ! i) \<and> n = stride j i k \<and> n \<le> 0xFFFFFFFF"
proof (induction rule: mine_run.induct)
  case (act evs s i s' e)
  note loc = worker_step_locals [OF act(1,2,3)]
  have mono: "wk_local (workers s ! k) \<le> wk_local (workers s' ! k)" for k
    using loc(1) worker_step_frame [OF act(3)] by (cases "k = i") auto
  consider "n \<in> set (hashed evs)" | "e = Some n"
    using act.prems by (auto simp: hashed_def split: option.splits)
  then show ?case
  proof cases
    case 1
    with act.IH obtain i' k where "i' < job_threads j" "k < wk_local (workers s ! i')"
      "n = stride j i' k" "n \<le> 0xFFFFFFFF" by blast
    with mono [of i'] show ?thesis by (intro exI [of _ i'] exI [of _ k]) simp
  next
    case 2
    with loc act(2) show ?thesis by (intro exI [of _ i] exI [of _ "wk_local (workers s ! i)"]) auto
  qed
qed (simp add: hashed_def)

text \<open>No nonce is ever hashed twice, by one worker or by two, and none beyond 32 bits.\<close>

theorem no_nonce_hashed_twice:
  assumes "mine_run j evs s"
  shows "distinct (hashed evs) \<and> (\<forall>n \<in> set (hashed evs). n \<le> 0xFFFFFFFF)"
  using assms
proof (induction rule: mine_run.induct)
  case (act evs s i s' e)
  note loc = worker_step_locals [OF act(1,2,3)]
  show ?case
  proof (cases e)
    case (Some n)
    have "n \<notin> set (hashed evs)"
    proof
      assume "n \<in> set (hashed evs)"
      from hashed_strides [OF act(1) this] obtain i' k where
        k: "i' < job_threads j" "k < wk_local (workers s ! i')" "n = stride j i' k" by blast
      with loc(2) [OF Some] act(2) have "i = i'" "wk_local (workers s ! i) = k"
        using stride_eq_iff [of i j i' "wk_local (workers s ! i)" k] by auto
      with k(2) show False by simp
    qed
    with act.IH Some loc(2) [OF Some] show ?thesis by (simp add: hashed_def)
  qed (use act.IH in \<open>simp add: hashed_def\<close>)
qed (simp add: hashed_def)

section \<open>How it ends\<close>

lemma meets_somewhere:
  assumes "n \<le> 0xFFFFFFFF" "0 < job_threads j"
  shows "\<exists>i k. i < job_threads j \<and> n = stride j i k"
  using assms by (intro exI [of _ "n mod job_threads j"] exI [of _ "n div job_threads j"])
    (simp add: stride_def)

lemma search_outcome:
  assumes run: "mine_run j evs s" and gone: "all_gone s" and th: "0 < job_threads j"
  shows "case mine_result s of
      Inr (n, h, tried) \<Rightarrow> n \<le> 0xFFFFFFFF \<and> h = nonce_hash j n \<and> int (from_bytes_le h) \<le> job_target j
        \<and> tried = length (hashed evs)
    | Inl e \<Rightarrow> e = RuntimeError \<and> (\<forall>n \<le> 0xFFFFFFFF. job_target j < int (from_bytes_le (nonce_hash j n)))"
proof -
  note ok = mining_ok_run [OF run, unfolded mining_ok_def]
  have gone_i: "wk_phase (workers s ! i) = Gone" if "i < job_threads j" for i
    using gone that ok by (auto simp: all_gone_def list_all_length)
  have "counters s = map wk_local (workers s)"
    using ok gone_i by (intro nth_equalityI) (auto simp: worker_ok_def)
  then have cnt: "sum_list (counters s) = length (hashed evs)" by (simp add: length_hashed [OF run])
  show ?thesis
  proof (cases "found s")
    case None
    have "\<not> meets j n" if n: "n \<le> 0xFFFFFFFF" for n
    proof -
      from meets_somewhere [OF n th] obtain i k where i: "i < job_threads j" "n = stride j i k" by blast
      with ok gone_i None have w: "0xFFFFFFFF < stride j i (wk_local (workers s ! i))"
        "\<forall>k < wk_local (workers s ! i). \<not> meets j (stride j i k)"
        by (auto simp: worker_ok_def)
      have "k < wk_local (workers s ! i)"
      proof (rule ccontr)
        assume "\<not> k < wk_local (workers s ! i)"
        then have "stride j i (wk_local (workers s ! i)) \<le> n" by (simp add: i(2) stride_def)
        with n w(1) show False by simp
      qed
      with w(2) i(2) show ?thesis by blast
    qed
    then show ?thesis by (auto simp: mine_result_def None meets_def not_le)
  next
    case (Some f)
    obtain n h where "f = (n, h)" by (cases f)
    with ok Some show ?thesis by (simp add: mine_result_def cnt meets_def)
  qed
qed


text \<open>What a worker may still do, and so what is left of a run.\<close>

definition steps_left :: "worker \<Rightarrow> nat" where
  "steps_left w = (case wk_phase w of
      At_Test \<Rightarrow> 2 * (2 ^ 32 - wk_nonce w) + 5
    | At_Hash \<Rightarrow> 2 * (2 ^ 32 - wk_nonce w) + 4
    | At_Lock _ \<Rightarrow> 3 | At_Stop \<Rightarrow> 2 | At_Exit \<Rightarrow> 1 | Gone \<Rightarrow> 0)"

lemma steps_left_less:
  assumes "mine_run j evs s" "i < job_threads j" "worker_step j i s = Some (s', e)"
  shows "steps_left (workers s' ! i) < steps_left (workers s ! i)"
proof -
  have ok: "worker_ok j s i (workers s ! i)" and i: "i < length (workers s)"
    using mining_ok_run [OF assms(1)] assms(2) by (simp_all add: mining_ok_def)
  have th: "0 < job_threads j" using assms(2) by simp
  show ?thesis
  proof (cases "wk_phase (workers s ! i)")
    case At_Hash
    with ok have n: "wk_nonce (workers s ! i) \<le> 0xFFFFFFFF" by (simp add: worker_ok_def)
    show ?thesis
      using At_Hash assms(3) i n th by (auto simp: worker_step_def Let_def steps_left_def)
  qed (use assms(3) i in \<open>auto simp: worker_step_def Let_def steps_left_def\<close>)
qed

definition run_left :: "mining \<Rightarrow> nat" where
  "run_left s = sum_list (map steps_left (workers s))"

lemma run_left_less:
  assumes "mine_run j evs s" "i < job_threads j" "worker_step j i s = Some (s', e)"
  shows "run_left s' < run_left s"
proof -
  have i: "i < length (workers s)" using mining_ok_run [OF assms(1)] assms(2) by (simp add: mining_ok_def)
  have "map steps_left (workers s') = (map steps_left (workers s))[i := steps_left (workers s' ! i)]"
    using worker_step_workers [OF assms(3) i] by (metis map_update)
  then show ?thesis
    using steps_left_less [OF assms] i elem_le_sum_list [of i "map steps_left (workers s)"]
    by (simp add: run_left_def sum_list_update)
qed

lemma run_length: "mine_run j evs s \<Longrightarrow> length evs + run_left s \<le> run_left (mine_start j)"
proof (induction rule: mine_run.induct)
  case (act evs s i s' e)
  with run_left_less [OF act(1,2,3)] show ?case by simp
qed simp

lemma run_left_start: "run_left (mine_start j) \<le> job_threads j * (2 * 2 ^ 32 + 5)"
proof -
  have "sum_list (map (\<lambda>i. steps_left \<lparr>wk_phase = At_Test, wk_nonce = i, wk_local = 0\<rparr>) [0..<t])
      \<le> t * (2 * 2 ^ 32 + 5)" for t
    by (induction t) (simp_all add: steps_left_def)
  then show ?thesis by (simp add: run_left_def mine_start_def comp_def)
qed

lemma worker_can_act: "wk_phase (workers s ! i) \<noteq> Gone \<Longrightarrow> \<exists>s' e. worker_step j i s = Some (s', e)"
  by (cases "wk_phase (workers s ! i)") (simp_all add: worker_step_def Let_def)

lemma run_finishes: "mine_run j evs s \<Longrightarrow> \<exists>evs' s'. mine_run j (evs @ evs') s' \<and> all_gone s'"
proof (induction "run_left s" arbitrary: evs s rule: less_induct)
  case less
  show ?case
  proof (cases "all_gone s")
    case True
    with less.prems show ?thesis by (intro exI [of _ "[]"] exI [of _ s]) simp
  next
    case False
    then obtain i where "i < job_threads j" "wk_phase (workers s ! i) \<noteq> Gone"
      using mining_ok_run [OF less.prems] by (auto simp: all_gone_def list_all_length mining_ok_def)
    then obtain s' e where i: "i < job_threads j" "worker_step j i s = Some (s', e)"
      using worker_can_act by blast
    from less.hyps [OF run_left_less [OF less.prems i] act [OF less.prems i]]
    show ?thesis by auto
  qed
qed

text \<open>C31: the search always ends. No run is longer than two actions per nonce and five more for each
  worker, a worker that has not left can always act, and every run can be continued until all have
  left.\<close>

theorem mining_ends:
  assumes "mine_run j evs s"
  shows "length evs \<le> job_threads j * (2 * 2 ^ 32 + 5)
    \<and> (\<forall>i < job_threads j. wk_phase (workers s ! i) \<noteq> Gone \<longrightarrow> worker_step j i s \<noteq> None)
    \<and> (\<exists>evs' s'. mine_run j (evs @ evs') s' \<and> all_gone s')"
  using run_length [OF assms] run_left_start [of j] run_finishes [OF assms] worker_can_act [of s]
  by fastforce

section \<open>A run\<close>

text \<open>One worker whose first hash meets the target.\<close>

definition sample_job :: job where
  "sample_job = \<lparr>job_hash = (\<lambda>_. [5]), job_prefix = [], job_target = 10, job_threads = 1\<rparr>"

lemma sample_run:
  "\<exists>s. mine_run sample_job [(0, None), (0, Some 0), (0, None), (0, None), (0, None)] s
     \<and> all_gone s \<and> mine_result s = Inr (0, [5], 1)"
proof -
  let ?s = "\<lambda>ph l f st c. \<lparr>workers = [\<lparr>wk_phase = ph, wk_nonce = 0, wk_local = l\<rparr>],
      found = f, stop_set = st, counters = [c]\<rparr>"
  let ?f = "Some (0 :: nat, [5 :: byte])"
  have "mine_run sample_job [] (?s At_Test 0 None False 0)"
    using start [of sample_job] by (simp add: mine_start_def sample_job_def)
  from act [OF this, of 0] have "mine_run sample_job ([] @ [(0, None)]) (?s At_Hash 0 None False 0)"
    by (simp add: worker_step_def Let_def sample_job_def)
  from act [OF this, of 0] have "mine_run sample_job (([] @ [(0, None)]) @ [(0, Some 0)]) (?s (At_Lock [5]) 1 None False 0)"
    by (simp add: worker_step_def Let_def sample_job_def nonce_hash_def from_bytes_le_def)
  from act [OF this, of 0] have "mine_run sample_job ((([] @ [(0, None)]) @ [(0, Some 0)]) @ [(0, None)]) (?s At_Stop 1 ?f False 0)"
    by (simp add: worker_step_def Let_def sample_job_def)
  from act [OF this, of 0] have "mine_run sample_job (((([] @ [(0, None)]) @ [(0, Some 0)]) @ [(0, None)]) @ [(0, None)]) (?s At_Exit 1 ?f True 0)"
    by (simp add: worker_step_def Let_def sample_job_def)
  from act [OF this, of 0]
  have "mine_run sample_job [(0, None), (0, Some 0), (0, None), (0, None), (0, None)] (?s Gone 1 ?f True 1)"
    by (simp add: worker_step_def Let_def sample_job_def)
  then show ?thesis by (intro exI conjI) (assumption, simp_all add: all_gone_def mine_result_def)
qed

theorem no_nonce_hashed_twice_witness:
  "distinct (hashed [(0 :: nat, None), (0, Some (0 :: nat)), (0, None), (0, None), (0, None)])"
  using sample_run no_nonce_hashed_twice [of sample_job] by blast


theorem mining_ends_witness:
  "\<exists>evs s. mine_run sample_job evs s \<and> all_gone s"
  using mining_ends [OF start, of sample_job] by auto

end
