(* ===== verification/Text_Files.thy ===== *)
theory Text_Files
  imports Py_Values
begin

text \<open>
  Text search and a tree of text files: \<open>str.find\<close>, \<open>str.count\<close>, \<open>str.replace(.., 1)\<close>, and what
  the scripts that patch sources use of \<open>os\<close>, \<open>os.path\<close>, \<open>open\<close> and \<open>shutil.copy2\<close>.
\<close>

section \<open>Searching text\<close>

text \<open>The text before and after the first occurrence.\<close>

fun split_first :: "'a list \<Rightarrow> 'a list \<Rightarrow> ('a list \<times> 'a list) option" where
  "split_first n [] = (if n = [] then Some ([], []) else None)"
| "split_first n (c # s) =
     (if starts_with n (c # s) then Some ([], drop (length n) (c # s))
      else map_option (\<lambda>(a, b). (c # a, b)) (split_first n s))"

definition str_find :: "string \<Rightarrow> string \<Rightarrow> int" where
  "str_find s n = (case split_first n s of None \<Rightarrow> -1 | Some (a, _) \<Rightarrow> int (length a))"

definition replace_first :: "string \<Rightarrow> string \<Rightarrow> string \<Rightarrow> string" where
  "replace_first s old new = (case split_first old s of None \<Rightarrow> s | Some (a, b) \<Rightarrow> a @ new @ b)"

lemma starts_with_split: "starts_with n s \<Longrightarrow> s = n @ drop (length n) s"
  by (metis append_take_drop_id starts_with_iff)

lemma split_first_Some: "split_first n s = Some (a, b) \<Longrightarrow> s = a @ n @ b"
proof (induction s arbitrary: a)
  case (Cons c s)
  show ?case
  proof (cases "starts_with n (c # s)")
    case True
    with Cons.prems have "a = []" "b = drop (length n) (c # s)" by auto
    with starts_with_split [OF True] show ?thesis by simp
  next
    case False
    with Cons show ?thesis by auto
  qed
qed (auto split: if_splits)

lemma split_first_exists: "split_first n (a @ n @ b) \<noteq> None"
proof (induction a)
  case Nil
  have "starts_with n (n @ b)" by simp
  then show ?case by (cases "n @ b") (simp_all del: starts_with_append)
qed auto

lemma contains_iff: "contains n s \<longleftrightarrow> split_first n s \<noteq> None"
  by (induction s) auto

lemma contains_append: "contains n s \<longleftrightarrow> (\<exists>a b. s = a @ n @ b)"
  by (metis contains_iff not_Some_eq old.prod.exhaust split_first_Some split_first_exists)

text \<open>The first occurrence is the first: no occurrence starts before it.\<close>

lemma split_first_least: "split_first n s = Some (a, b) \<Longrightarrow> s = a' @ n @ b' \<Longrightarrow> length a \<le> length a'"
proof (induction s arbitrary: a a')
  case (Cons c s)
  show ?case
  proof (cases "starts_with n (c # s)")
    case False
    from False Cons.prems(1) obtain a0 where a0: "split_first n s = Some (a0, b)" "a = c # a0" by auto
    have "a' \<noteq> []" using False Cons.prems(2) by (metis append_Nil starts_with_append)
    then obtain a1 where "a' = c # a1" "s = a1 @ n @ b'" using Cons.prems(2) by (cases a') auto
    with Cons.IH [OF a0(1)] a0(2) show ?thesis by simp
  next
    case True
    with Cons.prems(1) show ?thesis by auto
  qed
qed (auto split: if_splits)

text \<open>\<open>str.count\<close>: occurrences that do not overlap, from the left.\<close>

function str_count :: "string \<Rightarrow> string \<Rightarrow> nat" where
  "str_count s n =
     (if n = [] then length s + 1
      else (case split_first n s of None \<Rightarrow> 0 | Some (_, b) \<Rightarrow> Suc (str_count b n)))"
  by pat_completeness auto
termination
  by (relation "measure (\<lambda>(s, n). length s)") (auto dest!: split_first_Some)

declare str_count.simps [simp del]

lemma str_count_0: "str_count s n = 0 \<longleftrightarrow> \<not> contains n s"
  by (cases "split_first n s"; cases s)
    (auto simp: str_count.simps [of _ n] contains_iff split: prod.splits if_splits)

text \<open>An anchor that is counted once splits the text in one way only, up to overlapping copies.\<close>

lemma str_count_1:
  assumes "str_count s n = 1" "n \<noteq> []"
  shows "\<exists>a b. split_first n s = Some (a, b) \<and> s = a @ n @ b \<and> \<not> contains n b
    \<and> (\<forall>a' b'. s = a' @ n @ b' \<longrightarrow> length a \<le> length a' \<and> length a' < length a + length n)"
proof -
  from assms obtain a b where ab: "split_first n s = Some (a, b)" and "str_count b n = 0"
    by (auto simp: str_count.simps [of s n] split: option.splits prod.splits)
  then have b: "\<not> contains n b" by (simp add: str_count_0)
  have s: "s = a @ n @ b" using split_first_Some [OF ab] .
  have "length a' < length a + length n" if "s = a' @ n @ b'" for a' b'
  proof (rule ccontr)
    assume ge: "\<not> length a' < length a + length n"
    have "a @ n @ b = a' @ n @ b'" using s that by simp
    then have "drop (length (a @ n)) a' @ n @ b' = b"
      using ge by (auto simp: append_eq_append_conv2)
    with b show False by (metis contains_append)
  qed
  with ab s b split_first_least [OF ab] show ?thesis by blast
qed

definition is_hex :: "char \<Rightarrow> bool" where
  "is_hex c \<longleftrightarrow> is_digit c \<or> (97 \<le> (of_char (lower_char c) :: nat) \<and> (of_char (lower_char c) :: nat) \<le> 102)"

text \<open>\<open>int(s, 16)\<close>: an optional sign and prefix, hexadecimal digits with single underscores.\<close>

definition hex_val :: "char \<Rightarrow> nat" where
  "hex_val c = (if is_digit c then digit_val c else of_char (lower_char c) - 87)"

fun drop_hex_underscores :: "string \<Rightarrow> string option" where
  "drop_hex_underscores (a # b # s) =
     (if b = CHR ''_'' then
        (case s of
           c # _ \<Rightarrow> if is_hex a \<and> is_hex c then map_option ((#) a) (drop_hex_underscores s) else None
         | [] \<Rightarrow> None)
      else if a = CHR ''_'' then None else map_option ((#) a) (drop_hex_underscores (b # s)))"
| "drop_hex_underscores [a] = (if a = CHR ''_'' then None else Some [a])"
| "drop_hex_underscores [] = Some []"

definition int_of_hex :: "string \<Rightarrow> py_error + int" where
  "int_of_hex s =
     (case split_sign (strip s) of (sg, r) \<Rightarrow>
        let r = (if starts_with ''0x'' (map lower_char r)
                 then (if starts_with ''_'' (drop 2 r) then drop 3 r else drop 2 r) else r)
        in (case drop_hex_underscores r of
              Some ds \<Rightarrow> if ds \<noteq> [] \<and> list_all is_hex ds
                then Inr (sg * int (undigs 16 (rev (map hex_val ds)))) else Inl ValueError
            | None \<Rightarrow> Inl ValueError))"

text \<open>\<open>re.findall\<close>: what a matcher captures at the places where it matches, from the left.\<close>

function find_all :: "(string \<Rightarrow> ('a \<times> string) option) \<Rightarrow> string \<Rightarrow> 'a list" where
  "find_all m s =
     (case m s of
        Some (x, rest) \<Rightarrow> if length rest < length s then x # find_all m rest else []
      | None \<Rightarrow> (case s of [] \<Rightarrow> [] | c # cs \<Rightarrow> find_all m cs))"
  by pat_completeness auto
termination by (relation "measure (\<lambda>(m, s). length s)") auto

declare find_all.simps [simp del]

section \<open>Lines of a file\<close>

definition LF :: char where
  "LF = CHR 0x0A"

text \<open>\<open>for line in f\<close> of a text file: the line ends are read as \<open>LF\<close> and stay on the lines.\<close>

fun universal_newlines :: "string \<Rightarrow> string" where
  "universal_newlines [] = []"
| "universal_newlines [c] = [if c = CHR 0x0D then LF else c]"
| "universal_newlines (c # d # s) =
     (if c = CHR 0x0D then LF # universal_newlines (if d = LF then s else d # s)
      else c # universal_newlines (d # s))"

function py_lines :: "string \<Rightarrow> string list" where
  "py_lines s =
     (if s = [] then []
      else (case dropWhile (\<lambda>c. c \<noteq> LF) s of
          [] \<Rightarrow> [s]
        | _ # r \<Rightarrow> (takeWhile (\<lambda>c. c \<noteq> LF) s @ [LF]) # py_lines r))"
  by pat_completeness auto
termination
proof (relation "measure length")
  fix s c r assume "dropWhile (\<lambda>c. c \<noteq> LF) s = c # r"
  then have "length (c # r) \<le> length s" by (metis length_dropWhile_le)
  then show "(r, s) \<in> measure length" by simp
qed simp

declare py_lines.simps [simp del]

definition ends_with :: "string \<Rightarrow> string \<Rightarrow> bool" where
  "ends_with suffix s = starts_with (rev suffix) (rev s)"

section \<open>Paths\<close>

definition path_join :: "string \<Rightarrow> string \<Rightarrow> string" where
  "path_join a b =
     (if starts_with ''/'' b then b
      else if a = [] \<or> last a = CHR ''/'' then a @ b else a @ ''/'' @ b)"

text \<open>\<open>os.path.split\<close>: the last component, and what precedes it without trailing slashes.\<close>

definition path_basename :: "string \<Rightarrow> string" where
  "path_basename p = rev (takeWhile (\<lambda>c. c \<noteq> CHR ''/'') (rev p))"

definition path_dirname :: "string \<Rightarrow> string" where
  "path_dirname p =
     (let head = rev (dropWhile (\<lambda>c. c \<noteq> CHR ''/'') (rev p))
      in if list_all (\<lambda>c. c = CHR ''/'') head then head
         else rev (dropWhile (\<lambda>c. c = CHR ''/'') (rev head)))"

fun split_char :: "char \<Rightarrow> string \<Rightarrow> string list" where
  "split_char c [] = [[]]"
| "split_char c (x # xs) =
     (if x = c then [] # split_char c xs
      else (case split_char c xs of w # ws \<Rightarrow> (x # w) # ws | [] \<Rightarrow> [[x]]))"

lemma split_char_not_Nil [simp]: "split_char c s \<noteq> []"
  by (induction s) (auto split: list.splits)

lemma split_char_none: "c \<notin> set s \<Longrightarrow> split_char c s = [s]"
  by (induction s) auto

fun join_char :: "string \<Rightarrow> string list \<Rightarrow> string" where
  "join_char sep [] = []"
| "join_char sep [x] = x"
| "join_char sep (x # y # xs) = x @ sep @ join_char sep (y # xs)"

text \<open>\<open>os.path.abspath\<close> in a working directory: the components without the dots.\<close>

definition norm_step :: "string list \<Rightarrow> string \<Rightarrow> string list" where
  "norm_step acc part =
     (if part = [] \<or> part = ''.'' then acc
      else if part = ''..'' then butlast acc else acc @ [part])"

definition abspath :: "string \<Rightarrow> string \<Rightarrow> string" where
  "abspath cwd p = CHR ''/'' # join_char ''/'' (foldl norm_step [] (split_char (CHR ''/'') (path_join cwd p)))"

section \<open>A tree of files\<close>

record file_tree =
  ft_files :: "string \<Rightarrow> string option"
  ft_dirs :: "string \<Rightarrow> bool"

type_synonym ('r, 'a) fs_task = "('r file_tree_scheme, py_error, 'a) prog"

definition path_exists :: "'r file_tree_scheme \<Rightarrow> string \<Rightarrow> bool" where
  "path_exists fs p \<longleftrightarrow> ft_files fs p \<noteq> None \<or> ft_dirs fs p"

definition read_text :: "string \<Rightarrow> ('r, string) fs_task" where
  "read_text p = (\<lambda>fs. (case ft_files fs p of None \<Rightarrow> Inl OSError | Some t \<Rightarrow> Inr t, fs))"

definition write_text :: "string \<Rightarrow> string \<Rightarrow> ('r, unit) fs_task" where
  "write_text p t = (\<lambda>fs.
     if ft_dirs fs p then (Inl OSError, fs)
     else (Inr (), fs\<lparr>ft_files := (ft_files fs)(p \<mapsto> t)\<rparr>))"

text \<open>\<open>os.makedirs(d, exist_ok=True)\<close>: the directory and those above it.\<close>

definition makedirs :: "string \<Rightarrow> ('r, unit) fs_task" where
  "makedirs d = (\<lambda>fs. (Inr (), fs\<lparr>ft_dirs := (\<lambda>p. ft_dirs fs p \<or> p = d \<or> starts_with (p @ ''/'') d)\<rparr>))"

text \<open>\<open>shutil.copy2\<close>: into a directory under the name of the source.\<close>

definition copy2 :: "string \<Rightarrow> string \<Rightarrow> ('r, unit) fs_task" where
  "copy2 src dst = (\<lambda>fs. case ft_files fs src of
      None \<Rightarrow> (Inl OSError, fs)
    | Some t \<Rightarrow> write_text (if ft_dirs fs dst then path_join dst (path_basename src) else dst) t fs)"

text \<open>\<open>try: m; except e: h\<close>.\<close>

definition on_error :: "('w, 'e, 'a) prog \<Rightarrow> 'e \<Rightarrow> ('w, 'e, 'a) prog \<Rightarrow> ('w, 'e, 'a) prog" where
  "on_error m e h = (\<lambda>w. case m w of
      (Inl e', w') \<Rightarrow> if e' = e then h w' else (Inl e', w')
    | (Inr x, w') \<Rightarrow> (Inr x, w'))"

lemma read_text_iff: "read_text p fs = (Inr t, fs') \<longleftrightarrow> ft_files fs p = Some t \<and> fs' = fs"
  by (auto simp: read_text_def split: option.splits)

section \<open>What a program preserves\<close>

definition preserves :: "('w \<Rightarrow> bool) \<Rightarrow> ('w, 'e, 'a) prog \<Rightarrow> bool" where
  "preserves I m \<longleftrightarrow> (\<forall>w. I w \<longrightarrow> I (snd (m w)))"

named_theorems preserves_rules \<open>programs that preserve a property of the world\<close>

lemma preserves_bnd [preserves_rules]:
  "preserves I m \<Longrightarrow> (\<And>x. preserves I (f x)) \<Longrightarrow> preserves I (bnd m f)"
  unfolding preserves_def bnd_def by (auto split: prod.splits sum.splits)

lemma preserves_basic [preserves_rules]: "preserves I (ret x)" "preserves I (throw e)" "preserves I (lift r)"
  by (simp_all add: preserves_def ret_def throw_def lift_def)

lemma preserves_read_text [preserves_rules]: "preserves I (read_text p)"
  by (auto simp: preserves_def read_text_def split: option.splits)

lemma preserves_if [preserves_rules]:
  "(c \<Longrightarrow> preserves I m) \<Longrightarrow> (\<not> c \<Longrightarrow> preserves I n) \<Longrightarrow> preserves I (if c then m else n)"
  by simp

lemma preserves_for_each [preserves_rules]:
  "(\<And>x. x \<in> set xs \<Longrightarrow> preserves I (f x)) \<Longrightarrow> preserves I (for_each f xs)"
  by (induction xs) (auto intro!: preserves_bnd preserves_basic)

lemma preserves_on_error [preserves_rules]:
  "preserves I m \<Longrightarrow> preserves I h \<Longrightarrow> preserves I (on_error m e h)"
  unfolding preserves_def on_error_def by (auto split: prod.splits sum.splits)

lemma preservesD: "preserves I m \<Longrightarrow> I w \<Longrightarrow> m w = (r, w') \<Longrightarrow> I w'"
  unfolding preserves_def by (metis snd_conv)

end
