(* ===== verification/Genesis_Main.thy ===== *)
theory Genesis_Main
  imports Genesis_Block Genesis_Mining Text_Files
begin

text \<open>
  \<open>main\<close> of \<open>genesis/genesis_generator.py\<close> around the block construction and the search, and the
  patching of \<open>chainparams.cpp\<close>. The RandomX library, the text of the JSON report and the thread
  schedule are parameters. An exit with a code is \<open>SystemExit\<close>; the two timing figures of the
  report are not modelled.
\<close>

section \<open>The result and its texts\<close>

definition hex_bytes :: "bytes \<Rightarrow> string" where
  "hex_bytes bs = concat (map (\<lambda>b. [hex_char (unat b div 16), hex_char (unat b mod 16)]) bs)"

definition hex_int :: "nat \<Rightarrow> nat \<Rightarrow> string" where
  "hex_int width n =
     (let ds = (if n = 0 then ''0'' else map hex_char (rev (digs 16 n)))
      in replicate (width - length ds) (CHR ''0'') @ ds)"

record genesis_result =
  gr_network :: string
  gr_address :: string
  gr_phrase :: string
  gr_time :: int
  gr_bits :: string
  gr_nonce :: nat
  gr_merkle_root :: string
  gr_genesis_hash :: string
  gr_pow_hash :: string
  gr_target :: string
  gr_hashes_tried :: nat

section \<open>Patching chainparams.cpp\<close>

text \<open>
  \<open>re.subn(pattern, .., count=1)\<close>: the leftmost place where the pattern matches. A matcher gives
  the replacement of the match and what follows it.
\<close>

fun sub_first :: "(string \<Rightarrow> (string \<times> string) option) \<Rightarrow> string \<Rightarrow> string option" where
  "sub_first m s =
     (case m s of
        Some (new, rest) \<Rightarrow> Some (new @ rest)
      | None \<Rightarrow> (case s of [] \<Rightarrow> None | c # cs \<Rightarrow> map_option ((#) c) (sub_first m cs)))"

declare sub_first.simps [simp del]

definition nonce_mark :: string where
  "nonce_mark = ''/*nNonce=*/''"

definition match_nonce :: "nat \<Rightarrow> string \<Rightarrow> (string \<times> string) option" where
  "match_nonce n s =
     (if \<not> starts_with nonce_mark s then None
      else let r = drop (length nonce_mark) s; sp = takeWhile is_space r; r' = dropWhile is_space r
        in if takeWhile is_digit r' = [] then None
           else Some (nonce_mark @ sp @ nat_string n, dropWhile is_digit r'))"

definition hash_open :: string where
  "hash_open = ''uint256S('' @ [CHR 0x22]"

definition hash_close :: string where
  "hash_close = CHR 0x22 # ''));''"

definition match_hash :: "string \<Rightarrow> string \<Rightarrow> string \<Rightarrow> (string \<times> string) option" where
  "match_hash mark hex s =
     (if \<not> starts_with mark s then None
      else let r = drop (length mark) s; sp = takeWhile is_space r; r1 = dropWhile is_space r
      in if \<not> starts_with ''=='' r1 then None
      else let r2 = drop 2 r1; sp' = takeWhile is_space r2; r3 = dropWhile is_space r2
      in if \<not> starts_with (hash_open @ ''0x'') r3 then None
      else let r4 = drop (length hash_open + 2) r3; r5 = dropWhile is_hex r4
      in if takeWhile is_hex r4 = [] \<or> \<not> starts_with hash_close r5 then None
         else Some (mark @ sp @ ''=='' @ sp' @ hash_open @ ''0x'' @ hex @ hash_close,
                    drop (length hash_close) r5))"

definition genesis_mark :: string where
  "genesis_mark = ''assert(consensus.hashGenesisBlock''"

definition merkle_mark :: string where
  "merkle_mark = ''assert(genesis.hashMerkleRoot''"

definition class_names :: "(string \<times> string) list" where
  "class_names = [(''mainnet'', ''CMainParams''), (''testnet'', ''CTestNetParams''), (''regtest'', ''CRegTestParams'')]"

definition class_break :: string where
  "class_break = CHR 0x0A # ''class ''"

text \<open>The text before the class, its body up to the next class, and the rest.\<close>

definition class_body :: "string \<Rightarrow> string \<Rightarrow> (string \<times> string \<times> string) option" where
  "class_body name src =
     (case split_first (''class '' @ name) src of
        None \<Rightarrow> None
      | Some (pre, post) \<Rightarrow>
          let found = ''class '' @ name @ post
          in (case split_first class_break (tl found) of
                None \<Rightarrow> Some (pre, found, [])
              | Some (a, b) \<Rightarrow> Some (pre, hd found # a, class_break @ b)))"

definition patch_body :: "genesis_result \<Rightarrow> string \<Rightarrow> py_error + string" where
  "patch_body res body =
     (case sub_first (match_nonce (gr_nonce res)) body of
        None \<Rightarrow> Inl (SystemExit 1)
      | Some b1 \<Rightarrow>
          (case sub_first (match_hash genesis_mark (gr_genesis_hash res)) b1 of
             None \<Rightarrow> Inl (SystemExit 1)
           | Some b2 \<Rightarrow>
               (case sub_first (match_hash merkle_mark (gr_merkle_root res)) b2 of
                  None \<Rightarrow> Inl (SystemExit 1)
                | Some b3 \<Rightarrow> if b3 = body then Inl (SystemExit 1) else Inr b3)))"

definition patch_chainparams :: "string \<Rightarrow> string \<Rightarrow> genesis_result \<Rightarrow> ('r, unit) fs_task" where
  "patch_chainparams path network res =
     (case map_of class_names network of
        None \<Rightarrow> throw (KeyError network)
      | Some name \<Rightarrow>
          bnd (read_text path) (\<lambda>src.
            case class_body name src of
              None \<Rightarrow> throw (SystemExit 1)
            | Some (pre, body, post) \<Rightarrow>
                bnd (lift (patch_body res body)) (\<lambda>body'.
                bnd (\<lambda>w. if path_exists w (path @ ''.bak'') then (Inr (), w)
                         else write_text (path @ ''.bak'') src w) (\<lambda>_.
                  write_text path (pre @ body' @ post)))))"

section \<open>main\<close>

record network_params =
  nw_time :: int
  nw_bits :: int
  nw_pubkey :: nat

definition NETWORKS :: "(string \<times> network_params) list" where
  "NETWORKS =
     [(''mainnet'', \<lparr>nw_time = 1789430400, nw_bits = 0x1E0FFFF0, nw_pubkey = 73\<rparr>),
      (''testnet'', \<lparr>nw_time = 1785542400, nw_bits = 0x1E0FFFF0, nw_pubkey = 65\<rparr>),
      (''regtest'', \<lparr>nw_time = 1296688602, nw_bits = 0x207FFFFF, nw_pubkey = 65\<rparr>)]"

definition RANDOMX_BOOTSTRAP_KEY :: bytes where
  "RANDOMX_BOOTSTRAP_KEY = utf8 ''WAM/RandomX/epoch-0/2026''"

record gen_args =
  ga_network :: string
  ga_address :: string
  ga_time :: "int option"
  ga_bits :: "int option"
  ga_threads :: int
  ga_op_true :: bool
  ga_single :: bool
  ga_patch :: "string option"
  ga_json :: "string option"

definition gen_address :: "network_params \<Rightarrow> string \<Rightarrow> py_error + bytes" where
  "gen_address net address =
     (case base58_decode_check address of
        Inl e \<Rightarrow> Inl (if e = ValueError then SystemExit 1 else e)
      | Inr payload \<Rightarrow>
          let version = hd payload; h = tl payload
          in if length h \<noteq> 20 then Inl (SystemExit 1)
             else if unat version \<noteq> nw_pubkey net then Inl (SystemExit 1)
             else Inr h)"

text \<open>The block before the search: key hash, time, bits, merkle root, header prefix, target.\<close>

record candidate =
  cd_time :: int
  cd_bits :: int
  cd_coinbase :: bytes
  cd_prefix :: bytes
  cd_target :: int

definition gen_prepare :: "gen_args \<Rightarrow> py_error + candidate" where
  "gen_prepare a =
     (case map_of NETWORKS (ga_network a) of
        None \<Rightarrow> Inl (SystemExit 2)
      | Some net \<Rightarrow>
          let n_time = (case ga_time a of Some t \<Rightarrow> t | None \<Rightarrow> nw_time net);
              n_bits = (case ga_bits a of Some b \<Rightarrow> b | None \<Rightarrow> nw_bits net)
          in rbind (gen_address net (ga_address a)) (\<lambda>h.
             rbind (build_genesis_outputs h (ga_single a \<or> ga_op_true a) (ga_op_true a)) (\<lambda>outputs.
             rbind (build_coinbase_tx outputs GENESIS_PHRASE) (\<lambda>coinbase.
             rbind (serialize_header 1 (replicate 32 0) (sha256d coinbase) n_time n_bits 0) (\<lambda>header.
               Inr \<lparr>cd_time = n_time, cd_bits = n_bits, cd_coinbase = coinbase,
                    cd_prefix = take 76 header, cd_target = compact_to_target n_bits\<rparr>)))))"

definition gen_job :: "nat \<Rightarrow> gen_args \<Rightarrow> (bytes \<Rightarrow> bytes) \<Rightarrow> candidate \<Rightarrow> job" where
  "gen_job cpus a hash_with c =
     \<lparr>job_hash = hash_with, job_prefix = cd_prefix c, job_target = cd_target c,
      job_threads = (if 0 < ga_threads a then nat (ga_threads a) else cpus)\<rparr>"

definition gen_result :: "gen_args \<Rightarrow> candidate \<Rightarrow> nat \<Rightarrow> bytes \<Rightarrow> nat \<Rightarrow> bytes \<Rightarrow> genesis_result" where
  "gen_result a c nonce pow tried header =
     \<lparr>gr_network = ga_network a, gr_address = ga_address a, gr_phrase = GENESIS_PHRASE,
      gr_time = cd_time c, gr_bits = ''0x'' @ hex_int 8 (nat (cd_bits c)), gr_nonce = nonce,
      gr_merkle_root = hex_bytes (rev (sha256d (cd_coinbase c))),
      gr_genesis_hash = hex_bytes (rev (sha256d header)), gr_pow_hash = hex_bytes (rev pow),
      gr_target = hex_int 64 (nat (cd_target c)), gr_hashes_tried = tried\<rparr>"

text \<open>
  \<open>randomx\<close> makes a hash function from a key, or fails; \<open>mined\<close> is the state in which the threads
  of a job come to rest; \<open>dump\<close> is the text of the JSON report.
\<close>

definition gen_main ::
  "(bytes \<Rightarrow> (bytes \<Rightarrow> bytes) option) \<Rightarrow> (job \<Rightarrow> mining) \<Rightarrow> (genesis_result \<Rightarrow> string) \<Rightarrow> nat \<Rightarrow> gen_args
    \<Rightarrow> ('r, genesis_result) fs_task" where
  "gen_main randomx mined dump cpus a =
     bnd (lift (gen_prepare a)) (\<lambda>c.
     case randomx RANDOMX_BOOTSTRAP_KEY of
       None \<Rightarrow> throw (SystemExit 1)
     | Some hash_with \<Rightarrow>
         bnd (lift (mine_result (mined (gen_job cpus a hash_with c)))) (\<lambda>(nonce, pow, tried).
         bnd (lift (pack_u 4 (int nonce))) (\<lambda>n.
           let header = cd_prefix c @ n; res = gen_result a c nonce pow tried header
           in if \<not> int (from_bytes_le pow) \<le> cd_target c then throw AssertionError
              else if length header \<noteq> 80 then throw AssertionError
              else bnd (case ga_json a of None \<Rightarrow> ret () | Some f \<Rightarrow> if f = [] then ret () else write_text f (dump res)) (\<lambda>_.
                   bnd (case ga_patch a of None \<Rightarrow> ret ()
                        | Some f \<Rightarrow> if f = [] then ret () else patch_chainparams f (ga_network a) res) (\<lambda>_.
                   ret res)))))"

section \<open>What the patch changes\<close>

lemma sub_first_Some:
  "sub_first m s = Some s' \<Longrightarrow> \<exists>u t new rest. s = u @ t \<and> m t = Some (new, rest) \<and> s' = u @ new @ rest
     \<and> (\<forall>k < length u. m (drop k s) = None)"
proof (induction m s arbitrary: s' rule: sub_first.induct)
  case (1 m s)
  show ?case
  proof (cases "m s")
    case (Some p)
    obtain new rest where p: "p = (new, rest)" by (cases p)
    with Some 1(2) have "s' = new @ rest" by (simp add: sub_first.simps [of m s])
    with Some p show ?thesis
      by (intro exI [of _ "[]"] exI [of _ s] exI [of _ new] exI [of _ rest]) simp
  next
    case None
    with 1(2) obtain c cs r where c: "s = c # cs" "sub_first m cs = Some r" "s' = c # r"
      by (auto simp: sub_first.simps [of m s] split: list.splits)
    from 1(1) [OF None c(1) c(2)] obtain u t new rest where
      u: "cs = u @ t" "m t = Some (new, rest)" "r = u @ new @ rest" "\<forall>k < length u. m (drop k cs) = None"
      by blast
    have "\<forall>k < length (c # u). m (drop k s) = None"
      using u(4) None by (auto simp: c(1) less_Suc_eq_0_disj)
    with u c show ?thesis
      by (intro exI [of _ "c # u"] exI [of _ t] exI [of _ new] exI [of _ rest]) (simp del: drop_append)
  qed
qed

text \<open>One occurrence of a mark, spaces and digits; the digits become \<open>n\<close>.\<close>

definition rewrites_nonce :: "nat \<Rightarrow> string \<Rightarrow> string \<Rightarrow> bool" where
  "rewrites_nonce n b b' \<longleftrightarrow>
     (\<exists>u sp ds v. b = u @ nonce_mark @ sp @ ds @ v \<and> b' = u @ nonce_mark @ sp @ nat_string n @ v
        \<and> list_all is_space sp \<and> ds \<noteq> [] \<and> list_all is_digit ds \<and> (v = [] \<or> \<not> is_digit (hd v)))"

text \<open>One assertion of a hash; the hexadecimal digits become \<open>hex\<close>.\<close>

definition rewrites_hash :: "string \<Rightarrow> string \<Rightarrow> string \<Rightarrow> string \<Rightarrow> bool" where
  "rewrites_hash mark hex b b' \<longleftrightarrow>
     (\<exists>u sp sp' old v.
        b = u @ mark @ sp @ ''=='' @ sp' @ hash_open @ ''0x'' @ old @ hash_close @ v
        \<and> b' = u @ mark @ sp @ ''=='' @ sp' @ hash_open @ ''0x'' @ hex @ hash_close @ v
        \<and> list_all is_space sp \<and> list_all is_space sp' \<and> old \<noteq> [] \<and> list_all is_hex old)"

lemma list_all_takeWhile [simp]: "list_all P (takeWhile P xs)"
  by (induction xs) auto

lemma hd_dropWhile_no: "dropWhile P xs = [] \<or> \<not> P (hd (dropWhile P xs))"
  by (induction xs) auto

lemma sub_nonce:
  assumes "sub_first (match_nonce n) b = Some b'" shows "rewrites_nonce n b b'"
proof -
  from sub_first_Some [OF assms] obtain u t new rest where
    t: "b = u @ t" "match_nonce n t = Some (new, rest)" "b' = u @ new @ rest" by blast
  let ?r = "drop (length nonce_mark) t"
  from t(2) have m: "starts_with nonce_mark t" and ds: "takeWhile is_digit (dropWhile is_space ?r) \<noteq> []"
    and new: "new = nonce_mark @ takeWhile is_space ?r @ nat_string n"
    and rest: "rest = dropWhile is_digit (dropWhile is_space ?r)"
    by (auto simp: match_nonce_def Let_def split: if_splits)
  have "t = nonce_mark @ takeWhile is_space ?r @ takeWhile is_digit (dropWhile is_space ?r) @ rest"
    unfolding rest takeWhile_dropWhile_id using m by (simp add: starts_with_split [OF m, symmetric])
  with t ds new show ?thesis
    unfolding rewrites_nonce_def
    by (intro exI [of _ u] exI [of _ "takeWhile is_space ?r"]
        exI [of _ "takeWhile is_digit (dropWhile is_space ?r)"] exI [of _ rest])
      (use hd_dropWhile_no [of is_digit "dropWhile is_space ?r"] in \<open>simp add: rest\<close>)
qed

lemma sub_hash:
  assumes "sub_first (match_hash mark hex) b = Some b'" shows "rewrites_hash mark hex b b'"
proof -
  from sub_first_Some [OF assms] obtain u t new rest where
    t: "b = u @ t" "match_hash mark hex t = Some (new, rest)" "b' = u @ new @ rest" by blast
  define r where "r = drop (length mark) t"
  define r1 where "r1 = dropWhile is_space r"
  define r3 where "r3 = dropWhile is_space (drop 2 r1)"
  define r4 where "r4 = drop (length hash_open + 2) r3"
  define r5 where "r5 = dropWhile is_hex r4"
  from t(2) have m: "starts_with mark t" "starts_with ''=='' r1" "starts_with (hash_open @ ''0x'') r3"
      "starts_with hash_close r5" and hx: "takeWhile is_hex r4 \<noteq> []"
    and new: "new = mark @ takeWhile is_space r @ ''=='' @ takeWhile is_space (drop 2 r1) @ hash_open @ ''0x'' @ hex @ hash_close"
    and rest: "rest = drop (length hash_close) r5"
    unfolding match_hash_def Let_def r_def r1_def r3_def r4_def r5_def by (simp_all split: if_splits)
  have "r5 = hash_close @ rest" using starts_with_split [OF m(4)] by (simp add: rest)
  then have "r4 = takeWhile is_hex r4 @ hash_close @ rest"
    by (metis r5_def takeWhile_dropWhile_id)
  moreover have "r3 = hash_open @ ''0x'' @ r4" using starts_with_split [OF m(3)] by (simp add: r4_def)
  moreover have "drop 2 r1 = takeWhile is_space (drop 2 r1) @ r3" by (simp add: r3_def)
  moreover have "r1 = ''=='' @ drop 2 r1" using starts_with_split [OF m(2)] by (simp add: numeral_2_eq_2)
  moreover have "r = takeWhile is_space r @ r1" by (simp add: r1_def)
  moreover have "t = mark @ r" using starts_with_split [OF m(1)] by (simp add: r_def)
  ultimately have "t = mark @ takeWhile is_space r @ ''=='' @ takeWhile is_space (drop 2 r1) @ hash_open @ ''0x''
      @ takeWhile is_hex r4 @ hash_close @ rest" by metis
  with t(1,3) hx show ?thesis
    unfolding rewrites_hash_def new
    by (intro exI [of _ u] exI [of _ "takeWhile is_space r"] exI [of _ "takeWhile is_space (drop 2 r1)"]
        exI [of _ "takeWhile is_hex r4"] exI [of _ rest]) simp
qed

lemma class_body_Some:
  assumes "class_body name src = Some (pre, body, post)" and nl: "CHR 0x0A \<notin> set name"
  shows "src = pre @ body @ post \<and> starts_with (''class '' @ name) body \<and> \<not> contains class_break (tl body)
    \<and> (post = [] \<or> starts_with class_break post)
    \<and> (\<forall>a b. src = a @ (''class '' @ name) @ b \<longrightarrow> length pre \<le> length a)"
proof -
  define m where "m = ''class '' @ name"
  have m: "CHR 0x0A \<notin> set (tl m)" "m \<noteq> []" using nl by (auto simp: m_def)
  from assms(1) obtain p where p: "split_first m src = Some (pre, p)"
    by (auto simp: class_body_def Let_def m_def split: option.splits)
  let ?f = "m @ p"
  have src: "src = pre @ ?f" using split_first_Some [OF p] .
  have first: "\<forall>a b. src = a @ m @ b \<longrightarrow> length pre \<le> length a" using split_first_least [OF p] by blast
  have body: "Some (pre, body, post) = (case split_first class_break (tl ?f) of
      None \<Rightarrow> Some (pre, ?f, []) | Some (a, b) \<Rightarrow> Some (pre, hd ?f # a, class_break @ b))"
  proof -
    have "''class '' @ name @ p = m @ p" by (simp add: m_def)
    with assms(1) show ?thesis
      unfolding class_body_def p [unfolded m_def] option.case prod.case Let_def by (simp only:)
  qed
  have "src = pre @ body @ post \<and> starts_with m body \<and> \<not> contains class_break (tl body)
    \<and> (post = [] \<or> starts_with class_break post) \<and> (\<forall>a b. src = a @ m @ b \<longrightarrow> length pre \<le> length a)"
  proof (cases "split_first class_break (tl ?f)")
    case None
    with body have "body = ?f" "post = []" by auto
    with None src first show ?thesis by (simp add: contains_iff)
  next
    case (Some ab)
    obtain a b where ab: "split_first class_break (tl ?f) = Some (a, b)" using Some by (cases ab) auto
    with body have bp: "body = hd m # a" "post = class_break @ b" using m(2) by simp_all
    have tl: "tl m @ p = a @ class_break @ b" using split_first_Some [OF ab] m(2) by simp
    have "\<not> contains class_break a"
    proof
      assume "contains class_break a"
      then obtain x y where xy: "a = x @ class_break @ y" by (auto simp: contains_append)
      with tl m(2) have "tl ?f = x @ class_break @ (y @ class_break @ b)" by simp
      from split_first_least [OF ab this] xy show False by (simp add: class_break_def)
    qed
    moreover have "\<exists>us. a = tl m @ us"
    proof -
      from tl consider us where "a = tl m @ us" | us where "tl m = a @ us" "us @ p = class_break @ b"
        by (auto simp: append_eq_append_conv2)
      then show ?thesis
      proof cases
        case 2
        with m(1) have "us = []" by (cases us) (auto simp: class_break_def)
        with 2 show ?thesis by simp
      qed blast
    qed
    then have "starts_with m body" using m(2) by (cases m) (auto simp: bp)
    moreover have "?f = body @ post" using tl m(2) by (cases m) (simp_all add: bp)
    ultimately show ?thesis using src first bp by simp
  qed
  then show ?thesis unfolding m_def .
qed

text \<open>Patching \<open>chainparams.cpp\<close> rewrites the nonce and the two hashes inside the class of the
  network and nothing else in the file; what was in the file is kept in a backup unless there
  already is one. When it refuses, no file changes.\<close>

theorem patch_chainparams_rewrites:
  assumes run: "patch_chainparams path network res w = (r, w')" and name: "map_of class_names network = Some name"
  shows "case r of
      Inr _ \<Rightarrow> \<exists>pre body post b1 b2 body'.
        ft_files w path = Some (pre @ body @ post) \<and> ft_files w' path = Some (pre @ body' @ post)
        \<and> starts_with (''class '' @ name) body \<and> \<not> contains class_break (tl body)
        \<and> rewrites_nonce (gr_nonce res) body b1 \<and> rewrites_hash genesis_mark (gr_genesis_hash res) b1 b2
        \<and> rewrites_hash merkle_mark (gr_merkle_root res) b2 body' \<and> body' \<noteq> body
        \<and> (path_exists w (path @ ''.bak'') \<or> ft_files w' (path @ ''.bak'') = Some (pre @ body @ post))
        \<and> (\<forall>q. q \<noteq> path \<longrightarrow> ft_files w q \<noteq> None \<longrightarrow> ft_files w' q = ft_files w q)
    | Inl (SystemExit n) \<Rightarrow> n = 1 \<and> w' = w
    | Inl e \<Rightarrow> e = OSError"
proof -
  have nl: "CHR 0x0A \<notin> set name" using name by (auto simp: class_names_def split: if_splits)
  have bak: "path @ ''.bak'' \<noteq> path" by simp
  let ?bak = "path @ ''.bak''"
  show ?thesis
  proof (cases "ft_files w path")
    case None
    with run name show ?thesis by (auto simp: patch_chainparams_def bnd_def read_text_def)
  next
    case (Some src)
    show ?thesis
    proof (cases "class_body name src")
      case None
      with run name Some show ?thesis by (auto simp: patch_chainparams_def bnd_def read_text_def throw_def)
    next
      case cb: (Some t)
      obtain pre body post where t: "t = (pre, body, post)" by (cases t)
      note cls = class_body_Some [OF cb [unfolded t] nl]
      show ?thesis
      proof (cases "patch_body res body")
        case (Inl e)
        then have "e = SystemExit 1" by (auto simp: patch_body_def split: option.splits if_splits)
        with Inl run name Some cb t show ?thesis
          by (auto simp: patch_chainparams_def bnd_def read_text_def lift_def)
      next
        case (Inr body')
        then obtain b1 b2 where b: "rewrites_nonce (gr_nonce res) body b1"
            "rewrites_hash genesis_mark (gr_genesis_hash res) b1 b2"
            "rewrites_hash merkle_mark (gr_merkle_root res) b2 body'" "body' \<noteq> body"
          by (auto simp: patch_body_def split: option.splits if_splits dest!: sub_nonce sub_hash)
        let ?w1 = "if path_exists w ?bak then w else w\<lparr>ft_files := (ft_files w)(?bak \<mapsto> src)\<rparr>"
        have "(r, w') = write_text path (pre @ body' @ post) ?w1"
          using run name Some cb t Inr
          by (cases "path_exists w ?bak")
            (auto simp: patch_chainparams_def bnd_def read_text_def lift_def write_text_def path_exists_def)
        then have "r = Inl OSError \<or> r = Inr () \<and> w' = ?w1\<lparr>ft_files := (ft_files ?w1)(path \<mapsto> pre @ body' @ post)\<rparr>"
          by (auto simp: write_text_def split: if_splits)
        then show ?thesis
        proof
          assume "r = Inr () \<and> w' = ?w1\<lparr>ft_files := (ft_files ?w1)(path \<mapsto> pre @ body' @ post)\<rparr>"
          then have r: "r = Inr ()" and w': "w' = ?w1\<lparr>ft_files := (ft_files ?w1)(path \<mapsto> pre @ body' @ post)\<rparr>"
            by simp_all
          have f: "ft_files w path = Some (pre @ body @ post)" "ft_files w' path = Some (pre @ body' @ post)"
            using Some cls by (simp_all add: w')
          have k: "path_exists w ?bak \<or> ft_files w' ?bak = Some (pre @ body @ post)"
            using cls by (simp add: w')
          have o: "\<forall>q. q \<noteq> path \<longrightarrow> ft_files w q \<noteq> None \<longrightarrow> ft_files w' q = ft_files w q"
            by (auto simp: w' path_exists_def)
          from f k o b cls show ?thesis unfolding r sum.case by blast
        qed simp
      qed
    qed
  qed
qed

section \<open>The whole generator\<close>

lemma base58_decode_check_Inr:
  assumes "base58_decode_check s = Inr p" shows "p \<noteq> [] \<and> s = b58check p"
proof -
  have raw: "replicate (length s - length (dropWhile (\<lambda>c. c = CHR ''1'') s)) 0
      @ (if b58_value s \<noteq> 0 then minimal_bytes_be (b58_value s) else []) = b58_decode s"
    by (simp add: b58_decode_def)
  from assms have ok: "is_b58 s" "5 \<le> length (b58_decode s)"
    and c: "take 4 (sha256d (take (length (b58_decode s) - 4) (b58_decode s)))
      = drop (length (b58_decode s) - 4) (b58_decode s)"
    and p: "p = take (length (b58_decode s) - 4) (b58_decode s)"
    unfolding base58_decode_check_def Let_def raw by (auto split: if_splits)
  from ok(2) have "length p > 0" by (simp add: p)
  moreover have "s = b58_encode (p @ checksum4 p)"
    using b58.frame_iff [OF ok(1)] ok(2) c by (simp add: p checksum4_def sha256d_def)
  ultimately show ?thesis by (simp add: b58check_def)
qed

lemma header_Inr:
  assumes "serialize_header 1 (replicate 32 0) merkle t b n = Inr hd0" "length merkle = 32"
  shows "length hd0 = 80 \<and> (\<forall>m b4. pack_u 4 m = Inr b4 \<longrightarrow>
    serialize_header 1 (replicate 32 0) merkle t b m = Inr (take 76 hd0 @ b4))"
proof -
  from assms(1) obtain v tt bb nn where p: "pack_s 4 1 = Inr v" "pack_u 4 t = Inr tt" "pack_u 4 b = Inr bb"
    "pack_u 4 n = Inr nn" and h: "hd0 = v @ replicate 32 0 @ merkle @ tt @ bb @ nn"
    by (auto simp: serialize_header_def)
  note len = length_pack_s [OF p(1)] length_pack_u [OF p(2)] length_pack_u [OF p(3)] length_pack_u [OF p(4)]
  have "take 76 hd0 = v @ replicate 32 0 @ merkle @ tt @ bb"
    using len assms(2) by (simp add: h)
  with p len assms(2) show ?thesis by (simp add: serialize_header_def h)
qed

text \<open>What the header that was mined commits to.\<close>

definition genesis_header_ok :: "(bytes \<Rightarrow> bytes) \<Rightarrow> gen_args \<Rightarrow> genesis_result \<Rightarrow> bool" where
  "genesis_header_ok hash_with a res \<longleftrightarrow>
     (\<exists>net h outs coinbase sig header time bits.
        map_of NETWORKS (ga_network a) = Some net \<and> length h = 20
        \<and> ga_address a = b58check (word_of_nat (nw_pubkey net) # h)
        \<and> time = (case ga_time a of Some t \<Rightarrow> t | None \<Rightarrow> nw_time net)
        \<and> bits = (case ga_bits a of Some b \<Rightarrow> b | None \<Rightarrow> nw_bits net)
        \<and> build_genesis_outputs h (ga_single a \<or> ga_op_true a) (ga_op_true a) = Inr outs
        \<and> read_coinbase coinbase = Some (sig, outs)
        \<and> serialize_header 1 (replicate 32 0) (sha256d coinbase) time bits (int (gr_nonce res)) = Inr header
        \<and> length header = 80 \<and> int (from_bytes_le (hash_with header)) \<le> compact_to_target bits
        \<and> gr_merkle_root res = hex_bytes (rev (sha256d coinbase))
        \<and> gr_genesis_hash res = hex_bytes (rev (sha256d header))
        \<and> gr_pow_hash res = hex_bytes (rev (hash_with header)))"

lemma word_nat_cancel: "word_of_nat (unat (b :: byte)) = b"
  by simp

lemma gen_prepare_Inr:
  assumes "gen_prepare a = Inr c"
  obtains net h outs sig header where "map_of NETWORKS (ga_network a) = Some net" "length h = 20"
    "ga_address a = b58check (word_of_nat (nw_pubkey net) # h)"
    "cd_time c = (case ga_time a of Some t \<Rightarrow> t | None \<Rightarrow> nw_time net)"
    "cd_bits c = (case ga_bits a of Some b \<Rightarrow> b | None \<Rightarrow> nw_bits net)"
    "build_genesis_outputs h (ga_single a \<or> ga_op_true a) (ga_op_true a) = Inr outs"
    "read_coinbase (cd_coinbase c) = Some (sig, outs)"
    "serialize_header 1 (replicate 32 0) (sha256d (cd_coinbase c)) (cd_time c) (cd_bits c) 0 = Inr header"
    "cd_prefix c = take 76 header" "cd_target c = compact_to_target (cd_bits c)"
proof -
  from assms obtain net h outs coinbase header where
    net: "map_of NETWORKS (ga_network a) = Some net" and
    addr: "gen_address net (ga_address a) = Inr h" and
    outs: "build_genesis_outputs h (ga_single a \<or> ga_op_true a) (ga_op_true a) = Inr outs" and
    cb: "build_coinbase_tx outs GENESIS_PHRASE = Inr coinbase" and
    hdr: "serialize_header 1 (replicate 32 0) (sha256d coinbase)
      (case ga_time a of Some t \<Rightarrow> t | None \<Rightarrow> nw_time net) (case ga_bits a of Some b \<Rightarrow> b | None \<Rightarrow> nw_bits net) 0 = Inr header" and
    c: "c = \<lparr>cd_time = (case ga_time a of Some t \<Rightarrow> t | None \<Rightarrow> nw_time net),
      cd_bits = (case ga_bits a of Some b \<Rightarrow> b | None \<Rightarrow> nw_bits net), cd_coinbase = coinbase,
      cd_prefix = take 76 header, cd_target = compact_to_target (case ga_bits a of Some b \<Rightarrow> b | None \<Rightarrow> nw_bits net)\<rparr>"
    by (auto simp: gen_prepare_def Let_def split: option.splits)
  from addr obtain p where p: "base58_decode_check (ga_address a) = Inr p" "length (tl p) = 20"
    "unat (hd p) = nw_pubkey net" "h = tl p"
    by (auto simp: gen_address_def Let_def split: sum.splits if_splits)
  from base58_decode_check_Inr [OF p(1)] have "p \<noteq> []" "ga_address a = b58check p" by blast+
  then have "ga_address a = b58check (word_of_nat (nw_pubkey net) # h)"
    using p(3,4) by (metis list.collapse word_nat_cancel)
  with that [OF net, of h outs _ header] p(2,4) outs hdr coinbase_roundtrip [OF cb] show thesis
    by (auto simp: c)
qed

text \<open>Serialization raises nothing but \<open>struct.error\<close>.\<close>

definition only_struct :: "py_error + 'a \<Rightarrow> bool" where
  "only_struct r \<longleftrightarrow> (\<forall>e. r = Inl e \<longrightarrow> e = StructError)"

named_theorems struct_rules \<open>computations that raise only struct.error\<close>

lemma only_struct_basic [struct_rules]: "only_struct (Inr x)" "only_struct (pack_u k n)" "only_struct (pack_s k n)"
  by (simp_all add: only_struct_def pack_u_def pack_s_def)

lemma only_struct_rbind [struct_rules]:
  "only_struct m \<Longrightarrow> (\<And>x. only_struct (f x)) \<Longrightarrow> only_struct (rbind m f)"
  by (auto simp: only_struct_def rbind_eq_Inl)

lemma only_struct_varint [struct_rules]: "only_struct (varint n)" "only_struct (push_data d)"
  unfolding varint_def push_data_def Let_def by (auto intro!: struct_rules)

lemma only_struct_rmap [struct_rules]: "(\<And>x. only_struct (f x)) \<Longrightarrow> only_struct (rmap f xs)"
  by (induction xs) (auto intro!: only_struct_rbind only_struct_basic)

lemma only_struct_output [struct_rules]: "only_struct (tx_output out)"
  unfolding tx_output_def by (cases out) (auto intro!: struct_rules)

lemma only_struct_coinbase [struct_rules]: "only_struct (build_coinbase_tx outs phrase)"
  "only_struct (serialize_header v p m t b n)"
  unfolding build_coinbase_tx_def build_coinbase_scriptsig_def put_all_def serialize_header_def
  by (intro struct_rules)+

lemma gen_prepare_error: "gen_prepare a = Inl e \<Longrightarrow> e \<noteq> AssertionError"
proof -
  assume e: "gen_prepare a = Inl e"
  have addr: "gen_address net s = Inl e' \<Longrightarrow> e' \<noteq> AssertionError" for net s e'
    by (auto simp: gen_address_def base58_decode_check_def Let_def split: sum.splits if_splits)
  have outs: "build_genesis_outputs h si ot = Inl e' \<Longrightarrow> length h \<noteq> 20" for h si ot e'
  proof
    assume "build_genesis_outputs h si ot = Inl e'" "length h = 20"
    then show False
      using build_genesis_outputs_default [of h]
      by (cases ot; cases si) (auto simp: build_genesis_outputs_def [of h True] build_genesis_outputs_def [of h _ True] p2pkh_script_def)
  qed
  have len: "gen_address net s = Inr h \<Longrightarrow> length h = 20" for net s h
    by (auto simp: gen_address_def Let_def split: sum.splits if_splits)
  have st: "build_coinbase_tx o' ph \<noteq> Inl AssertionError" "serialize_header v p m t b n \<noteq> Inl AssertionError"
    for o' ph v p m t b n
    using only_struct_coinbase(1) [of o' ph] only_struct_coinbase(2) [of v p m t b n] by (auto simp: only_struct_def)
  have outs': "build_genesis_outputs h si ot \<noteq> Inl e'" if "gen_address net s = Inr h" for net s h si ot e'
    using outs len [OF that] by blast
  show ?thesis
    using e addr outs' st
    by (auto simp: gen_prepare_def Let_def rbind_eq_Inl split: option.splits)
qed

lemma bnd_lift_Inr: "bnd (lift (Inr x)) f = f x"
  by (simp add: bnd_def lift_def)

lemma patch_chainparams_error: "patch_chainparams f n res w = (Inl e, w') \<Longrightarrow> e \<noteq> AssertionError"
  by (auto simp: patch_chainparams_def patch_body_def bnd_def read_text_def write_text_def lift_def throw_def
      split: option.splits if_splits prod.splits sum.splits)

text \<open>The header of a nonce that meets the target.\<close>

lemma found_header_ok:
  assumes prep: "gen_prepare a = Inr c" and n: "n \<le> 0xFFFFFFFF"
    and pow: "pow = H (cd_prefix c @ to_bytes_le 4 n)" "int (from_bytes_le pow) \<le> cd_target c"
  shows "length (cd_prefix c @ to_bytes_le 4 n) = 80"
    "genesis_header_ok H a (gen_result a c n pow tried (cd_prefix c @ to_bytes_le 4 n))"
proof -
  have pk: "pack_u 4 (int n) = Inr (to_bytes_le 4 n)" using n by (simp add: pack_u_def)
  let ?header = "cd_prefix c @ to_bytes_le 4 n"
  from gen_prepare_Inr [OF prep] obtain net h outs sig header where
    net: "map_of NETWORKS (ga_network a) = Some net" "length h = 20"
      "ga_address a = b58check (word_of_nat (nw_pubkey net) # h)"
      "cd_time c = (case ga_time a of Some t \<Rightarrow> t | None \<Rightarrow> nw_time net)"
      "cd_bits c = (case ga_bits a of Some b \<Rightarrow> b | None \<Rightarrow> nw_bits net)"
      "build_genesis_outputs h (ga_single a \<or> ga_op_true a) (ga_op_true a) = Inr outs"
      "read_coinbase (cd_coinbase c) = Some (sig, outs)" and
    hdr: "serialize_header 1 (replicate 32 0) (sha256d (cd_coinbase c)) (cd_time c) (cd_bits c) 0 = Inr header"
      "cd_prefix c = take 76 header" and tgt: "cd_target c = compact_to_target (cd_bits c)" .
  from header_Inr [OF hdr(1)] pk have len: "length header = 80"
    and mined: "serialize_header 1 (replicate 32 0) (sha256d (cd_coinbase c)) (cd_time c) (cd_bits c) (int n) = Inr ?header"
    by (simp_all add: hdr(2))
  show l80: "length ?header = 80" using len by (simp add: hdr(2))
  show "genesis_header_ok H a (gen_result a c n pow tried ?header)"
    unfolding genesis_header_ok_def
    by (rule exI [of _ net], rule exI [of _ h], rule exI [of _ outs], rule exI [of _ "cd_coinbase c"],
        rule exI [of _ sig], rule exI [of _ ?header], rule exI [of _ "cd_time c"], rule exI [of _ "cd_bits c"])
      (use net mined l80 pow tgt in \<open>simp add: gen_result_def\<close>)
qed

text \<open>The rest of \<open>main\<close> once the search has ended: the report and the patch leave the block alone.\<close>

lemma gen_main_found:
  assumes run: "gen_main randomx mined dump cpus a w = (r, w')" and prep: "gen_prepare a = Inr c"
    and H: "randomx RANDOMX_BOOTSTRAP_KEY = Some H" and res: "mine_result (mined (gen_job cpus a H c)) = Inr (n, pow, tried)"
    and n: "n \<le> 0xFFFFFFFF" and pow: "int (from_bytes_le pow) \<le> cd_target c"
    and l80: "length (cd_prefix c @ to_bytes_le 4 n) = 80"
  shows "r \<noteq> Inl AssertionError \<and>
    (\<forall>res. r = Inr res \<longrightarrow> res = gen_result a c n pow tried (cd_prefix c @ to_bytes_le 4 n))"
proof -
  let ?res = "gen_result a c n pow tried (cd_prefix c @ to_bytes_le 4 n)"
  have pk: "pack_u 4 (int n) = Inr (to_bytes_le 4 n)" using n by (simp add: pack_u_def)
  have "bnd (case ga_json a of None \<Rightarrow> ret () | Some f \<Rightarrow> if f = [] then ret () else write_text f (dump ?res)) (\<lambda>_.
       bnd (case ga_patch a of None \<Rightarrow> ret ()
            | Some f \<Rightarrow> if f = [] then ret () else patch_chainparams f (ga_network a) ?res) (\<lambda>_. ret ?res)) w = (r, w')"
    using run prep H res pk pow l80 by (simp add: gen_main_def bnd_lift_Inr Let_def)
  then show ?thesis
    by (auto elim!: bnd_cases simp: write_text_def dest: patch_chainparams_error split: option.splits if_splits)
qed

text \<open>C25: when the generator succeeds, the address is a valid one of the network, the coinbase in the
  block reads back as the outputs for that address, the header is the 80 bytes that commit to it
  with the reported nonce, and its RandomX hash meets the target; the three hashes reported are
  those of this header. The assertions of \<open>main\<close> never fail.\<close>

theorem generated_block_is_valid:
  assumes run: "gen_main randomx mined dump cpus a w = (r, w')" and cpus: "0 < cpus"
    and sched: "\<And>j. \<exists>evs. mine_run j evs (mined j) \<and> all_gone (mined j)"
  shows "r \<noteq> Inl AssertionError
    \<and> (\<forall>res. r = Inr res \<longrightarrow> (\<exists>hash_with. randomx RANDOMX_BOOTSTRAP_KEY = Some hash_with
         \<and> genesis_header_ok hash_with a res))"
proof (cases "gen_prepare a")
  case (Inl e)
  with run gen_prepare_error [OF Inl] show ?thesis by (auto simp: gen_main_def bnd_def lift_def)
next
  case (Inr c)
  show ?thesis
  proof (cases "randomx RANDOMX_BOOTSTRAP_KEY")
    case None
    with run Inr show ?thesis by (auto simp: gen_main_def bnd_def lift_def throw_def)
  next
    case (Some H)
    let ?j = "gen_job cpus a H c"
    obtain evs where "mine_run ?j evs (mined ?j)" "all_gone (mined ?j)" using sched by blast
    moreover have "0 < job_threads ?j" using cpus by (simp add: gen_job_def)
    ultimately have out: "case mine_result (mined ?j) of
        Inr (n, h, tried) \<Rightarrow> n \<le> 0xFFFFFFFF \<and> h = nonce_hash ?j n \<and> int (from_bytes_le h) \<le> job_target ?j
          \<and> tried = length (hashed evs)
      | Inl e \<Rightarrow> e = RuntimeError \<and> (\<forall>n \<le> 0xFFFFFFFF. job_target ?j < int (from_bytes_le (nonce_hash ?j n)))"
      by (rule search_outcome)
    show ?thesis
    proof (cases "mine_result (mined ?j)")
      case (Inl e)
      with run Inr Some out show ?thesis by (auto simp: gen_main_def bnd_def lift_def)
    next
      case res: (Inr m)
      obtain n pow tried where m: "m = (n, pow, tried)" by (cases m)
      have "n \<le> 0xFFFFFFFF \<and> pow = nonce_hash ?j n \<and> int (from_bytes_le pow) \<le> job_target ?j"
        using out unfolding res m sum.case prod.case by blast
      then have n: "n \<le> 0xFFFFFFFF" and pow: "pow = H (cd_prefix c @ to_bytes_le 4 n)"
        "int (from_bytes_le pow) \<le> cd_target c"
        unfolding nonce_hash_def gen_job_def job.simps by blast+
      note ok = found_header_ok [where H = H, OF Inr n pow]
      from gen_main_found [OF run Inr Some res [unfolded m] n pow(2) ok(1)] ok(2) [of tried] Some
      show ?thesis by auto
    qed
  qed
qed

section \<open>A generation\<close>

definition sample_gen :: gen_args where
  "sample_gen = \<lparr>ga_network = ''mainnet'', ga_address = b58check (73 # replicate 20 7), ga_time = None, ga_bits = None,
     ga_threads = 1, ga_op_true = False, ga_single = False, ga_patch = None, ga_json = None\<rparr>"

lemma base58_decode_check_encode: "p \<noteq> [] \<Longrightarrow> base58_decode_check (b58check p) = Inr p"
proof -
  assume p: "p \<noteq> []"
  let ?s = "b58check p"
  have d: "b58_decode ?s = p @ checksum4 p" by (simp add: b58check_def b58_decode_encode)
  have raw: "replicate (length ?s - length (dropWhile (\<lambda>c. c = CHR ''1'') ?s)) 0
      @ (if b58_value ?s \<noteq> 0 then minimal_bytes_be (b58_value ?s) else []) = p @ checksum4 p"
    by (simp add: d [symmetric] b58_decode_def)
  show ?thesis
    unfolding base58_decode_check_def Let_def raw using p
    by (auto simp: b58check_def is_b58_encode checksum4_def sha256d_def Suc_le_eq length_greater_0_conv [symmetric] simp del: length_greater_0_conv)
qed

lemma sample_prepare: "\<exists>c. gen_prepare sample_gen = Inr c"
proof -
  let ?h = "replicate 20 7 :: bytes"
  have addr: "gen_address \<lparr>nw_time = 1789430400, nw_bits = 0x1E0FFFF0, nw_pubkey = 73\<rparr> (b58check (73 # ?h)) = Inr ?h"
    by (simp add: gen_address_def base58_decode_check_encode)
  obtain outs tx where o: "build_genesis_outputs ?h False False = Inr outs" "build_coinbase_tx outs GENESIS_PHRASE = Inr tx"
    using default_coinbase_reads_back [of ?h] by auto
  have "\<exists>hd0. serialize_header 1 (replicate 32 0) (sha256d tx) 1789430400 0x1E0FFFF0 0 = Inr hd0"
    by (simp add: serialize_header_def pack_s_def pack_u_def)
  with addr o show ?thesis by (auto simp: gen_prepare_def sample_gen_def NETWORKS_def)
qed

theorem generated_block_is_valid_witness:
  "\<exists>mined res w'. gen_main (\<lambda>_. Some (\<lambda>_. [])) mined (\<lambda>_. []) 1 sample_gen \<lparr>ft_files = Map.empty, ft_dirs = (\<lambda>_. False)\<rparr>
      = (Inr res, w') \<and> genesis_header_ok (\<lambda>_. []) sample_gen res"
proof -
  obtain c where c: "gen_prepare sample_gen = Inr c" using sample_prepare by blast
  have "\<exists>s evs. mine_run j evs s \<and> all_gone s" for j using run_finishes [OF start, of j] by blast
  then obtain mined where mined: "\<exists>evs. mine_run j evs (mined j) \<and> all_gone (mined j)" for j by metis
  let ?w = "\<lparr>ft_files = Map.empty, ft_dirs = (\<lambda>_. False)\<rparr> :: file_tree"
  let ?j = "gen_job 1 sample_gen (\<lambda>_. []) c"
  obtain r w' where run: "gen_main (\<lambda>_. Some (\<lambda>_. [])) mined (\<lambda>_. []) 1 sample_gen ?w = (r, w')" by (metis prod.exhaust)
  note valid = generated_block_is_valid [OF run, of, OF _ mined, simplified]
  obtain evs where ev: "mine_run ?j evs (mined ?j)" "all_gone (mined ?j)" using mined by blast
  have "0 \<le> job_target ?j"
  proof -
    from c have "cd_target c = compact_to_target 0x1E0FFFF0"
      by (elim gen_prepare_Inr) (auto simp: sample_gen_def NETWORKS_def)
    then show ?thesis by (simp add: gen_job_def compact_to_target_def Let_def)
  qed
  moreover have th: "0 < job_threads ?j" by (simp add: gen_job_def sample_gen_def)
  ultimately obtain n tried where m: "mine_result (mined ?j) = Inr (n, [], tried)"
    using search_outcome [OF ev th] by (auto simp: nonce_hash_def gen_job_def from_bytes_le_def split: sum.splits)
  have "n \<le> 0xFFFFFFFF" using search_outcome [OF ev th, unfolded m sum.case prod.case] by blast
  then have pk: "pack_u 4 (int n) = Inr (to_bytes_le 4 n)" by (simp add: pack_u_def)
  have none: "ga_json sample_gen = None" "ga_patch sample_gen = None" by (simp_all add: sample_gen_def)
  have "\<exists>res. r = Inr res"
    using run valid
    by (simp add: gen_main_def c bnd_lift_Inr m pk none Let_def One_nat_def [symmetric] del: One_nat_def split: if_splits)
      (auto simp: bnd_def ret_def throw_def)
  with valid run show ?thesis by blast
qed

definition sample_cpp :: string where
  "sample_cpp = ''class CMainParams /*nNonce=*/ 1 '' @ genesis_mark @ ''=='' @ hash_open @ ''0x0'' @ hash_close
     @ merkle_mark @ '' == '' @ hash_open @ ''0xAb'' @ hash_close"

definition sample_result :: genesis_result where
  "sample_result = \<lparr>gr_network = ''mainnet'', gr_address = [], gr_phrase = [], gr_time = 0, gr_bits = [], gr_nonce = 7,
     gr_merkle_root = ''12'', gr_genesis_hash = ''34'', gr_pow_hash = [], gr_target = [], gr_hashes_tried = 1\<rparr>"

lemma sample_patch:
  "class_body ''CMainParams'' sample_cpp = Some ([], sample_cpp, [])"
  "case patch_body sample_result sample_cpp of Inl _ \<Rightarrow> False | Inr _ \<Rightarrow> True"
  by code_simp+

theorem patch_chainparams_rewrites_witness:
  "\<exists>w' body b1. patch_chainparams ''f'' ''mainnet'' sample_result \<lparr>ft_files = [''f'' \<mapsto> sample_cpp], ft_dirs = (\<lambda>_. False)\<rparr>
      = (Inr (), w') \<and> rewrites_nonce 7 body b1 \<and> starts_with ''class CMainParams'' body"
proof -
  let ?w = "\<lparr>ft_files = [''f'' \<mapsto> sample_cpp], ft_dirs = (\<lambda>_. False)\<rparr> :: file_tree"
  obtain b where b: "patch_body sample_result sample_cpp = Inr b" using sample_patch(2) by (cases "patch_body sample_result sample_cpp") auto
  obtain w' where run: "patch_chainparams ''f'' ''mainnet'' sample_result ?w = (Inr (), w')"
    by (simp add: patch_chainparams_def class_names_def bnd_def read_text_def write_text_def lift_def sample_patch b
        path_exists_def)
  have "map_of class_names ''mainnet'' = Some ''CMainParams''" by (simp add: class_names_def)
  from patch_chainparams_rewrites [OF run this] obtain body b1 where
    "rewrites_nonce (gr_nonce sample_result) body b1" "starts_with (''class '' @ ''CMainParams'') body" by auto
  with run show ?thesis by (intro exI [of _ w'] exI [of _ body] exI [of _ b1]) (simp add: sample_result_def)
qed

end
