(* ===== verification/Upstream_Patcher.thy ===== *)
theory Upstream_Patcher
  imports Text_Files
begin

text \<open>
  The patching engine of \<open>scripts/patch_upstream.py\<close>: a list of changes, each of copies and anchored
  edits, applied to a source tree. The list itself (the text of the edits) is a parameter.
\<close>

section \<open>Edits and changes\<close>

record edit =
  ed_file :: string
  ed_anchor :: "string option"
  ed_replacement :: "string option"
  ed_insert_after :: "string option"
  ed_insert_text :: "string option"
  ed_marker :: string
  ed_required :: bool

record change =
  ch_id :: string
  ch_edits :: "edit list"
  ch_copies :: "(string \<times> string) list"

record patcher =
  pt_tree :: string
  pt_repo :: string
  pt_dry :: bool

record patch_world = file_tree +
  pw_applied :: "string list"
  pw_skipped :: "string list"

type_synonym 'a patch_task = "(patch_world, py_error, 'a) prog"

section \<open>File helpers\<close>

definition patcher_init :: "string \<Rightarrow> string \<Rightarrow> string \<Rightarrow> bool \<Rightarrow> patcher patch_task" where
  "patcher_init cwd tree repo dry = (\<lambda>w.
     let p = \<lparr>pt_tree = abspath cwd tree, pt_repo = abspath cwd repo, pt_dry = dry\<rparr>
     in if \<not> ft_dirs w (path_join (pt_tree p) ''src'') then (Inl PatchError, w)
        else (Inr p, w\<lparr>pw_applied := [], pw_skipped := []\<rparr>))"

definition pt_path :: "patcher \<Rightarrow> string \<Rightarrow> string" where
  "pt_path p rel = path_join (pt_tree p) rel"

definition pt_read :: "patcher \<Rightarrow> string \<Rightarrow> string patch_task" where
  "pt_read p rel = (\<lambda>w.
     if \<not> path_exists w (pt_path p rel) then (Inl PatchError, w) else read_text (pt_path p rel) w)"

definition backup_of :: "string \<Rightarrow> string" where
  "backup_of path = path @ ''.wam-orig''"

definition pt_write :: "patcher \<Rightarrow> string \<Rightarrow> string \<Rightarrow> unit patch_task" where
  "pt_write p rel text =
     (if pt_dry p then ret ()
      else let path = pt_path p rel; backup = backup_of path
        in bnd (\<lambda>w. if path_exists w backup then (Inr (), w) else copy2 path backup w)
               (\<lambda>_. write_text path text))"

section \<open>Applying\<close>

definition require_unique :: "string \<Rightarrow> string \<Rightarrow> py_error + unit" where
  "require_unique src needle =
     (let count = str_count src needle
      in if count = 0 then Inl PatchError else if count > 1 then Inl PatchError else Inr ())"

text \<open>The edited text: replace the anchor, or insert after it.\<close>

definition edit_text :: "edit \<Rightarrow> string \<Rightarrow> py_error + string" where
  "edit_text e src =
     (case (ed_anchor e, ed_replacement e) of
        (Some anchor, Some new) \<Rightarrow>
          rbind (require_unique src anchor) (\<lambda>_. Inr (replace_first src anchor new))
      | _ \<Rightarrow>
          (case (ed_insert_after e, ed_insert_text e) of
             (Some after, Some text) \<Rightarrow>
               rbind (require_unique src after) (\<lambda>_. Inr (replace_first src after (after @ text)))
           | _ \<Rightarrow> Inl PatchError))"

definition skip_edit :: "change \<Rightarrow> edit \<Rightarrow> unit patch_task" where
  "skip_edit c e = (\<lambda>w. (Inr (), w\<lparr>pw_skipped := pw_skipped w @ [ch_id c @ '':'' @ ed_file e]\<rparr>))"

definition edit_body :: "patcher \<Rightarrow> change \<Rightarrow> edit \<Rightarrow> string \<Rightarrow> unit patch_task" where
  "edit_body p c e src =
     (if ed_marker e \<noteq> [] \<and> contains (ed_marker e) src then skip_edit c e
      else bnd (lift (edit_text e src)) (\<lambda>out.
        if out = src then throw PatchError
        else bnd (pt_write p (ed_file e) out) (\<lambda>_.
          if ed_marker e \<noteq> [] \<and> \<not> pt_dry p then
            bnd (pt_read p (ed_file e)) (\<lambda>now.
              if \<not> contains (ed_marker e) now then throw PatchError else ret ())
          else ret ())))"

text \<open>An optional edit's missing file ends the edit; a required one's raises.\<close>

definition apply_edit :: "patcher \<Rightarrow> change \<Rightarrow> edit \<Rightarrow> unit patch_task" where
  "apply_edit p c e = (\<lambda>w.
     case pt_read p (ed_file e) w of
       (Inl err, w') \<Rightarrow> if err = PatchError \<and> \<not> ed_required e then (Inr (), w') else (Inl err, w')
     | (Inr src, w') \<Rightarrow> edit_body p c e src w')"

definition apply_copy :: "patcher \<Rightarrow> string \<times> string \<Rightarrow> unit patch_task" where
  "apply_copy p c = (\<lambda>w.
     let src = path_join (pt_repo p) (fst c); dst = pt_path p (snd c)
     in if \<not> path_exists w src then (Inl PatchError, w)
        else if pt_dry p then (Inr (), w)
        else bnd (makedirs (path_dirname dst)) (\<lambda>_. copy2 src dst) w)"

definition apply_change :: "patcher \<Rightarrow> change \<Rightarrow> unit patch_task" where
  "apply_change p c =
     bnd (for_each (apply_copy p) (ch_copies c)) (\<lambda>_.
     bnd (for_each (apply_edit p c) (ch_edits c)) (\<lambda>_.
     (\<lambda>w. (Inr (), w\<lparr>pw_applied := pw_applied w @ [ch_id c]\<rparr>))))"

record patch_args =
  pa_tree :: string
  pa_repo :: string
  pa_check :: bool
  pa_list :: bool

definition patch_main :: "string \<Rightarrow> patch_args \<Rightarrow> change list \<Rightarrow> int patch_task" where
  "patch_main cwd a changes =
     (if \<not> pa_list a \<and> pa_tree a = [] then throw (SystemExit 2)
      else if pa_list a then ret 0
      else on_error
        (bnd (patcher_init cwd (pa_tree a) (pa_repo a) (pa_check a)) (\<lambda>p.
         bnd (for_each (apply_change p) changes) (\<lambda>_. ret 0)))
        PatchError (ret 1))"

section \<open>One edit\<close>

lemma replace_first_unique:
  assumes "require_unique src n = Inr ()" "n \<noteq> []"
  shows "\<exists>a b. src = a @ n @ b \<and> \<not> contains n b \<and> replace_first src n new = a @ new @ b
    \<and> (\<forall>a' b'. src = a' @ n @ b' \<longrightarrow> length a \<le> length a' \<and> length a' < length a + length n)"
proof -
  have "str_count src n = 1" using assms(1) by (auto simp: require_unique_def Let_def split: if_splits)
  from str_count_1 [OF this assms(2)] obtain a b where
    "split_first n src = Some (a, b)" "src = a @ n @ b" "\<not> contains n b"
    "\<forall>a' b'. src = a' @ n @ b' \<longrightarrow> length a \<le> length a' \<and> length a' < length a + length n" by blast
  then show ?thesis by (intro exI [of _ a] exI [of _ b] conjI) (simp_all add: replace_first_def)
qed

text \<open>What an edit replaces and by what.\<close>

definition edit_at :: "edit \<Rightarrow> (string \<times> string) option" where
  "edit_at e =
     (case (ed_anchor e, ed_replacement e) of
        (Some anchor, Some new) \<Rightarrow> Some (anchor, new)
      | _ \<Rightarrow> (case (ed_insert_after e, ed_insert_text e) of
                (Some after, Some text) \<Rightarrow> Some (after, after @ text) | _ \<Rightarrow> None))"

lemma edit_text_iff:
  "edit_text e src = Inr out \<longleftrightarrow> (\<exists>n new. edit_at e = Some (n, new) \<and> require_unique src n = Inr ()
     \<and> out = replace_first src n new)"
  by (auto simp: edit_text_def edit_at_def split: option.splits)

lemma backup_neq [simp]: "backup_of p \<noteq> p" "p \<noteq> backup_of p"
  by (simp_all add: backup_of_def)

lemma backup_inj [simp]: "backup_of p = backup_of q \<longleftrightarrow> p = q"
  by (simp add: backup_of_def)

lemma pt_read_iff: "pt_read p rel w = (Inr t, w') \<longleftrightarrow> ft_files w (pt_path p rel) = Some t \<and> w' = w"
  by (auto simp: pt_read_def read_text_def path_exists_def split: option.splits)

lemma write_text_Inr: "write_text q t w = (Inr (), v) \<longleftrightarrow> \<not> ft_dirs w q \<and> v = w\<lparr>ft_files := (ft_files w)(q \<mapsto> t)\<rparr>"
  by (auto simp: write_text_def)

lemma pt_write_world:
  assumes run: "pt_write p rel t w = (Inr (), v)" and src: "ft_files w (pt_path p rel) = Some src"
  shows "v = (if pt_dry p then w else
    (let kept = backup_of (pt_path p rel)
     in w\<lparr>ft_files := (if path_exists w kept then ft_files w else (ft_files w)(kept \<mapsto> src))(pt_path p rel \<mapsto> t)\<rparr>))"
proof (cases "pt_dry p \<or> path_exists w (backup_of (pt_path p rel))")
  case True
  with run show ?thesis by (auto simp: pt_write_def Let_def bnd_ok_iff write_text_Inr)
next
  case False
  then have "copy2 (pt_path p rel) (backup_of (pt_path p rel)) w =
      (Inr (), w\<lparr>ft_files := (ft_files w)(backup_of (pt_path p rel) \<mapsto> src)\<rparr>)"
    by (simp add: copy2_def src write_text_def path_exists_def)
  with False run show ?thesis by (simp add: pt_write_def Let_def bnd_ok_iff write_text_Inr)
qed

text \<open>
  A successful edit, from the outside: nothing at all but a note when the marker is there; otherwise
  one place of the file changes, and the file as it was is kept beside it unless a copy is already
  kept.
\<close>

definition edited :: "patcher \<Rightarrow> edit \<Rightarrow> string \<Rightarrow> patch_world \<Rightarrow> patch_world \<Rightarrow> bool" where
  "edited p e src w w' \<longleftrightarrow>
     (let path = pt_path p (ed_file e); kept = backup_of path
      in \<exists>n new out. edit_at e = Some (n, new) \<and> require_unique src n = Inr ()
         \<and> out = replace_first src n new \<and> out \<noteq> src
         \<and> ft_files w' = (if pt_dry p then ft_files w
              else (if path_exists w kept then ft_files w else (ft_files w)(kept \<mapsto> src))(path \<mapsto> out))
         \<and> ft_dirs w' = ft_dirs w \<and> pw_skipped w' = pw_skipped w
         \<and> (ed_marker e \<noteq> [] \<and> \<not> pt_dry p \<longrightarrow> contains (ed_marker e) out))"

lemma edit_body_Inr:
  assumes "ft_files w (pt_path p (ed_file e)) = Some src"
  shows "edit_body p c e src w = (Inr (), w') \<longleftrightarrow>
    (if ed_marker e \<noteq> [] \<and> contains (ed_marker e) src
     then w' = w\<lparr>pw_skipped := pw_skipped w @ [ch_id c @ '':'' @ ed_file e]\<rparr>
     else edit_body p c e src w = (Inr (), w') \<and> edited p e src w w' \<and> pw_applied w' = pw_applied w)"
proof (cases "ed_marker e \<noteq> [] \<and> contains (ed_marker e) src")
  case True
  then show ?thesis by (auto simp: edit_body_def skip_edit_def)
next
  case False
  have "edited p e src w w' \<and> pw_applied w' = pw_applied w" if run: "edit_body p c e src w = (Inr (), w')"
  proof -
    let ?rest = "\<lambda>out. bnd (pt_write p (ed_file e) out) (\<lambda>_.
          if ed_marker e \<noteq> [] \<and> \<not> pt_dry p then
            bnd (pt_read p (ed_file e)) (\<lambda>now.
              if \<not> contains (ed_marker e) now then throw PatchError else ret ())
          else ret ())"
    from run False have "bnd (lift (edit_text e src)) (\<lambda>out. if out = src then throw PatchError else ?rest out) w
        = (Inr (), w')" unfolding edit_body_def by (simp only: if_False)
    then obtain out where out: "edit_text e src = Inr out" and
      r: "(if out = src then throw PatchError else ?rest out) w = (Inr (), w')"
      by (auto simp: bnd_ok_iff [of "lift _"] eq_commute [of "Inr _" "edit_text e src"])
    from r have ne: "out \<noteq> src" by (cases "out = src") simp_all
    from r have w: "?rest out w = (Inr (), w')" unfolding if_not_P [OF ne] .
    from w obtain v where v: "pt_write p (ed_file e) out w = (Inr (), v)" and
      fin: "v = w'" "ed_marker e \<noteq> [] \<and> \<not> pt_dry p \<longrightarrow>
        (\<exists>now. ft_files v (pt_path p (ed_file e)) = Some now \<and> contains (ed_marker e) now)"
      by (auto simp: bnd_ok_iff pt_read_iff split: if_splits)
    note world = pt_write_world [OF v assms]
    from fin have post: "ed_marker e \<noteq> [] \<and> \<not> pt_dry p \<longrightarrow> contains (ed_marker e) out"
      by (auto simp: world Let_def)
    from out obtain n new where "edit_at e = Some (n, new)" "require_unique src n = Inr ()"
      "out = replace_first src n new" unfolding edit_text_iff by blast
    moreover have w': "w' = (if pt_dry p then w else
        w\<lparr>ft_files := (if path_exists w (backup_of (pt_path p (ed_file e))) then ft_files w
          else (ft_files w)(backup_of (pt_path p (ed_file e)) \<mapsto> src))(pt_path p (ed_file e) \<mapsto> out)\<rparr>)"
      using world fin(1) by (simp add: Let_def)
    ultimately show ?thesis
      using ne post unfolding edited_def Let_def w' by (cases "pt_dry p") simp_all
  qed
  with False show ?thesis by auto
qed


text \<open>Applying an edit that has just been applied does nothing but note that it is there.\<close>

theorem edit_is_idempotent:
  assumes run: "apply_edit p c e w = (Inr (), w')" and "\<not> pt_dry p" and "ed_marker e \<noteq> []"
    and there: "path_exists w (pt_path p (ed_file e))"
  shows "apply_edit p c e w' = (Inr (), w'\<lparr>pw_skipped := pw_skipped w' @ [ch_id c @ '':'' @ ed_file e]\<rparr>)"
proof -
  from run there obtain src where src: "ft_files w (pt_path p (ed_file e)) = Some src"
    and body: "edit_body p c e src w = (Inr (), w')"
    by (auto simp: apply_edit_def pt_read_def read_text_def split: option.splits if_splits)
  have "\<exists>now. ft_files w' (pt_path p (ed_file e)) = Some now \<and> contains (ed_marker e) now"
  proof (cases "contains (ed_marker e) src")
    case True
    with edit_body_Inr [OF src, of c w'] body assms(3) src show ?thesis by simp
  next
    case False
    with edit_body_Inr [OF src, of c w'] body have "edited p e src w w'" by simp
    with assms(2,3) show ?thesis by (auto simp: edited_def Let_def)
  qed
  then obtain now where now: "ft_files w' (pt_path p (ed_file e)) = Some now" "contains (ed_marker e) now" by blast
  then show ?thesis
    using assms(3) by (simp add: apply_edit_def pt_read_def read_text_def path_exists_def edit_body_def skip_edit_def)
qed

section \<open>Whole runs\<close>

text \<open>Every write of a run is one of these three; what they preserve, a run preserves.\<close>

lemma preserves_edit:
  assumes "\<And>t. preserves I (pt_write p (ed_file e) t)"
    and "\<And>w n. I (w\<lparr>pw_skipped := n\<rparr>) = I w"
  shows "preserves I (apply_edit p c e)"
proof -
  have "preserves I (edit_body p c e src)" for src
    unfolding edit_body_def using assms
    by (intro preserves_rules) (auto simp: preserves_def skip_edit_def pt_read_def read_text_def split: option.splits)
  then show ?thesis
    unfolding preserves_def apply_edit_def pt_read_def read_text_def by (auto split: option.splits)
qed

lemma preserves_main:
  assumes writing: "\<And>p e t ch. pt_dry p = pa_check a \<Longrightarrow> pt_tree p = abspath cwd (pa_tree a) \<Longrightarrow> ch \<in> set changes \<Longrightarrow>
      e \<in> set (ch_edits ch) \<Longrightarrow> preserves I (pt_write p (ed_file e) t)"
    and copying: "\<And>p c ch. pt_dry p = pa_check a \<Longrightarrow> pt_tree p = abspath cwd (pa_tree a) \<Longrightarrow>
      pt_repo p = abspath cwd (pa_repo a) \<Longrightarrow> ch \<in> set changes \<Longrightarrow>
      c \<in> set (ch_copies ch) \<Longrightarrow> preserves I (apply_copy p c)"
    and note_only: "\<And>w n. I (w\<lparr>pw_skipped := n\<rparr>) = I w" "\<And>w n. I (w\<lparr>pw_applied := n\<rparr>) = I w"
  shows "preserves I (patch_main cwd a changes)"
proof -
  let ?p = "\<lparr>pt_tree = abspath cwd (pa_tree a), pt_repo = abspath cwd (pa_repo a), pt_dry = pa_check a\<rparr>"
  have change: "preserves I (apply_change ?p ch)" if "ch \<in> set changes" for ch
    unfolding apply_change_def using that
    by (intro preserves_rules preserves_edit writing copying) (auto simp: preserves_def note_only)
  have body: "preserves I (bnd (for_each (apply_change ?p) changes) (\<lambda>_. ret (0 :: int)))"
    using change by (intro preserves_rules)
  have "preserves I (bnd (patcher_init cwd (pa_tree a) (pa_repo a) (pa_check a)) (\<lambda>p.
         bnd (for_each (apply_change p) changes) (\<lambda>_. ret (0 :: int))))"
    using body unfolding preserves_def
    by (subst bnd_def) (auto simp: patcher_init_def Let_def note_only)
  then show ?thesis unfolding patch_main_def by (intro preserves_if preserves_on_error preserves_basic)
qed

text \<open>With --check nothing is written, whatever the changes are and however the run ends.\<close>

theorem check_writes_nothing:
  assumes "pa_check a"
  shows "ft_files (snd (patch_main cwd a changes w)) = ft_files w
    \<and> ft_dirs (snd (patch_main cwd a changes w)) = ft_dirs w"
proof -
  let ?I = "\<lambda>w'. ft_files w' = ft_files w \<and> ft_dirs w' = ft_dirs w"
  have "preserves ?I (patch_main cwd a changes)"
    by (rule preserves_main)
      (use assms in \<open>auto simp: pt_write_def preserves_def ret_def apply_copy_def Let_def\<close>)
  then show ?thesis by (simp add: preserves_def)
qed

text \<open>The paths a run may edit and the paths it may copy to.\<close>

definition edit_paths :: "string \<Rightarrow> change list \<Rightarrow> string set" where
  "edit_paths tree changes = (\<Union>ch \<in> set changes. (\<lambda>e. path_join tree (ed_file e)) ` set (ch_edits ch))"

definition copy_paths :: "string \<Rightarrow> string \<Rightarrow> change list \<Rightarrow> string set" where
  "copy_paths tree repo changes =
     (\<Union>ch \<in> set changes. \<Union>(src, dst) \<in> set (ch_copies ch).
        {path_join tree dst, path_join (path_join tree dst) (path_basename (path_join repo src))})"

text \<open>
  No file outside these paths changes; a file that is only edited is still as it was, or is kept in
  its backup, unless something already had the name of the backup.
\<close>

definition originals_kept :: "string set \<Rightarrow> string set \<Rightarrow> patch_world \<Rightarrow> patch_world \<Rightarrow> bool" where
  "originals_kept E C w w' \<longleftrightarrow>
     (\<forall>q x. ft_files w q = Some x \<longrightarrow>
        (q \<notin> E \<union> C \<longrightarrow> ft_files w' q = Some x)
        \<and> (q \<in> E - C \<longrightarrow> ft_files w' q = Some x \<and> \<not> path_exists w' (backup_of q)
             \<or> ft_files w' (backup_of q) = Some x
             \<or> ft_files w (backup_of q) \<noteq> None \<or> ft_dirs w' (backup_of q)))"

lemma originals_kept_put:
  assumes I: "originals_kept E C w0 w" and nb: "\<forall>q \<in> E \<union> C. \<forall>r. q \<noteq> backup_of r" and q: "q \<in> E \<union> C"
    and ready: "q \<in> C \<or> path_exists w (backup_of q)"
  shows "originals_kept E C w0 (w\<lparr>ft_files := (ft_files w)(q \<mapsto> t)\<rparr>)"
  unfolding originals_kept_def
proof (intro allI impI conjI)
  fix r x assume x: "ft_files w0 r = Some x"
  show "ft_files (w\<lparr>ft_files := (ft_files w)(q \<mapsto> t)\<rparr>) r = Some x" if "r \<notin> E \<union> C"
    using that q x I by (auto simp: originals_kept_def)
  assume r: "r \<in> E - C"
  have "backup_of r \<noteq> q" using nb q by blast
  moreover have "ft_files w r = Some x \<and> \<not> path_exists w (backup_of r) \<or> ft_files w (backup_of r) = Some x
      \<or> ft_files w0 (backup_of r) \<noteq> None \<or> ft_dirs w (backup_of r)"
    using I x r by (auto simp: originals_kept_def)
  moreover have "q = r \<Longrightarrow> path_exists w (backup_of r)" using ready r by auto
  ultimately show "ft_files (w\<lparr>ft_files := (ft_files w)(q \<mapsto> t)\<rparr>) r = Some x
        \<and> \<not> path_exists (w\<lparr>ft_files := (ft_files w)(q \<mapsto> t)\<rparr>) (backup_of r)
      \<or> ft_files (w\<lparr>ft_files := (ft_files w)(q \<mapsto> t)\<rparr>) (backup_of r) = Some x
      \<or> ft_files w0 (backup_of r) \<noteq> None
      \<or> ft_dirs (w\<lparr>ft_files := (ft_files w)(q \<mapsto> t)\<rparr>) (backup_of r)"
    by (auto simp: path_exists_def)
qed

lemma originals_kept_backup:
  assumes I: "originals_kept E C w0 w" and nb: "\<forall>q \<in> E \<union> C. \<forall>r. q \<noteq> backup_of r"
    and new: "\<not> path_exists w (backup_of q)" and src: "ft_files w q = Some t"
  shows "originals_kept E C w0 (w\<lparr>ft_files := (ft_files w)(backup_of q \<mapsto> t)\<rparr>)"
  unfolding originals_kept_def
proof (intro allI impI conjI)
  have b: "backup_of q \<notin> E \<union> C" using nb by blast
  fix r x assume x: "ft_files w0 r = Some x"
  show "ft_files (w\<lparr>ft_files := (ft_files w)(backup_of q \<mapsto> t)\<rparr>) r = Some x" if "r \<notin> E \<union> C"
    using that x I new by (auto simp: originals_kept_def path_exists_def)
  assume r: "r \<in> E - C"
  have "r \<noteq> backup_of q" using b r by blast
  moreover have "ft_files w r = Some x \<and> \<not> path_exists w (backup_of r) \<or> ft_files w (backup_of r) = Some x
      \<or> ft_files w0 (backup_of r) \<noteq> None \<or> ft_dirs w (backup_of r)"
    using I x r by (auto simp: originals_kept_def)
  ultimately show "ft_files (w\<lparr>ft_files := (ft_files w)(backup_of q \<mapsto> t)\<rparr>) r = Some x
        \<and> \<not> path_exists (w\<lparr>ft_files := (ft_files w)(backup_of q \<mapsto> t)\<rparr>) (backup_of r)
      \<or> ft_files (w\<lparr>ft_files := (ft_files w)(backup_of q \<mapsto> t)\<rparr>) (backup_of r) = Some x
      \<or> ft_files w0 (backup_of r) \<noteq> None
      \<or> ft_dirs (w\<lparr>ft_files := (ft_files w)(backup_of q \<mapsto> t)\<rparr>) (backup_of r)"
    using src new by (cases "r = q") (auto simp: path_exists_def)
qed

lemma originals_kept_dirs:
  "originals_kept E C w0 w \<Longrightarrow> (\<And>p. ft_dirs w p \<Longrightarrow> d p) \<Longrightarrow> originals_kept E C w0 (w\<lparr>ft_dirs := d\<rparr>)"
  unfolding originals_kept_def path_exists_def by simp metis

lemma originals_kept_write:
  assumes "pt_path p rel \<in> E" and nb: "\<forall>q \<in> E \<union> C. \<forall>r. q \<noteq> backup_of r"
  shows "preserves (originals_kept E C w0) (pt_write p rel t)"
proof -
  let ?path = "pt_path p rel" and ?kept = "backup_of (pt_path p rel)"
  have put: "originals_kept E C w0 (snd (write_text ?path t w))"
    if "originals_kept E C w0 w" "path_exists w ?kept" for w
    using originals_kept_put [OF that(1) nb, of ?path t] that assms by (simp add: write_text_def)
  have "originals_kept E C w0 (snd (pt_write p rel t w))" if I: "originals_kept E C w0 w" for w
  proof (cases "pt_dry p \<or> path_exists w ?kept \<or> ft_files w ?path = None")
    case True
    with I put [OF I] show ?thesis by (auto simp: pt_write_def ret_def Let_def bnd_def copy2_def)
  next
    case False
    then obtain x where x: "ft_files w ?path = Some x" by blast
    let ?w = "w\<lparr>ft_files := (ft_files w)(?kept \<mapsto> x)\<rparr>"
    have "copy2 ?path ?kept w = (Inr (), ?w)"
      using False by (simp add: copy2_def x write_text_def path_exists_def)
    then have run: "pt_write p rel t w = write_text ?path t ?w"
      using False by (simp add: pt_write_def Let_def bnd_def)
    have "originals_kept E C w0 ?w" using originals_kept_backup [OF I nb _ x] False by blast
    then show ?thesis unfolding run by (rule put) (simp add: path_exists_def)
  qed
  then show ?thesis by (simp add: preserves_def)
qed

lemma originals_kept_copy:
  assumes "(src, dst) = c" and "pt_path p dst \<in> C" "path_join (pt_path p dst) (path_basename (path_join (pt_repo p) src)) \<in> C"
    and nb: "\<forall>q \<in> E \<union> C. \<forall>r. q \<noteq> backup_of r"
  shows "preserves (originals_kept E C w0) (apply_copy p c)"
proof -
  let ?src = "path_join (pt_repo p) src" and ?dst = "pt_path p dst"
  have copy: "preserves (originals_kept E C w0) (copy2 ?src ?dst)"
    using originals_kept_put [OF _ nb, of w0] assms(2,3)
    by (auto simp: preserves_def copy2_def write_text_def split: option.splits)
  have dirs: "preserves (originals_kept E C w0) (makedirs d)" for d
    by (auto simp: preserves_def makedirs_def intro: originals_kept_dirs)
  have "preserves (originals_kept E C w0) (bnd (makedirs (path_dirname ?dst)) (\<lambda>_. copy2 ?src ?dst))"
    by (intro preserves_bnd copy dirs)
  then show ?thesis unfolding assms(1) [symmetric] by (auto simp: preserves_def apply_copy_def Let_def)
qed

text \<open>C35: however a run ends, aborted runs included, no file outside the edited and copied paths
  has changed, and the text of every file that is only edited is still there, in the file or in its
  backup, unless something already had the name of the backup.\<close>

theorem originals_survive:
  assumes "\<forall>q \<in> edit_paths (abspath cwd (pa_tree a)) changes
      \<union> copy_paths (abspath cwd (pa_tree a)) (abspath cwd (pa_repo a)) changes. \<forall>r. q \<noteq> backup_of r"
  shows "originals_kept (edit_paths (abspath cwd (pa_tree a)) changes)
    (copy_paths (abspath cwd (pa_tree a)) (abspath cwd (pa_repo a)) changes) w
    (snd (patch_main cwd a changes w))"
proof -
  let ?E = "edit_paths (abspath cwd (pa_tree a)) changes"
  let ?C = "copy_paths (abspath cwd (pa_tree a)) (abspath cwd (pa_repo a)) changes"
  have "preserves (originals_kept ?E ?C w) (patch_main cwd a changes)"
  proof (rule preserves_main)
    fix p :: patcher and e t ch assume "pt_tree p = abspath cwd (pa_tree a)" "ch \<in> set changes" "e \<in> set (ch_edits ch)"
    then have "pt_path p (ed_file e) \<in> ?E" by (auto simp: edit_paths_def pt_path_def)
    then show "preserves (originals_kept ?E ?C w) (pt_write p (ed_file e) t)"
      using assms by (rule originals_kept_write)
  next
    fix p :: patcher and c ch assume p: "pt_tree p = abspath cwd (pa_tree a)" "pt_repo p = abspath cwd (pa_repo a)"
      and c: "ch \<in> set changes" "c \<in> set (ch_copies ch)"
    obtain src dst where sd: "(src, dst) = c" by (metis prod.collapse)
    have "(src, dst) \<in> set (ch_copies ch)" using c sd by simp
    then have "{pt_path p dst, path_join (pt_path p dst) (path_basename (path_join (pt_repo p) src))} \<subseteq> ?C"
      unfolding copy_paths_def pt_path_def p using c(1) by blast
    then show "preserves (originals_kept ?E ?C w) (apply_copy p c)"
      using originals_kept_copy [OF sd _ _ assms] by simp
  qed (simp_all add: originals_kept_def path_exists_def)
  moreover have "originals_kept ?E ?C w w" by (auto simp: originals_kept_def path_exists_def)
  ultimately show ?thesis by (simp add: preserves_def)
qed

section \<open>A run that is aborted\<close>

definition sample_edit :: "string \<Rightarrow> string \<Rightarrow> edit" where
  "sample_edit n new = \<lparr>ed_file = ''a'', ed_anchor = Some n, ed_replacement = Some new,
     ed_insert_after = None, ed_insert_text = None, ed_marker = new, ed_required = True\<rparr>"

definition sample_change :: change where
  "sample_change = \<lparr>ch_id = ''X'', ch_edits = [sample_edit ''x'' ''z'', sample_edit ''q'' ''r''], ch_copies = []\<rparr>"

definition sample_tree :: patch_world where
  "sample_tree = \<lparr>ft_files = [''/t/a'' \<mapsto> ''xy''], ft_dirs = (\<lambda>p. p \<in> {''/t'', ''/t/src''}),
     pw_applied = [], pw_skipped = []\<rparr>"

definition sample_args :: patch_args where
  "sample_args = \<lparr>pa_tree = ''t'', pa_repo = ''r'', pa_check = False, pa_list = False\<rparr>"

lemma sample_paths: "abspath ''/'' ''t'' = ''/t''" "abspath ''/'' ''r'' = ''/r''"
  by (simp_all add: abspath_def path_join_def norm_step_def)

lemma count_in_xy: "str_count ''xy'' ''x'' = 1" "str_count ''zy'' ''q'' = 0"
  by (simp_all add: str_count.simps)

lemmas sample_eval = sample_change_def sample_edit_def apply_edit_def edit_body_def edit_text_def
  require_unique_def replace_first_def pt_read_def pt_write_def pt_path_def path_join_def backup_of_def
  read_text_def write_text_def copy2_def path_exists_def bnd_def lift_def throw_def ret_def count_in_xy Let_def

definition sample_patcher :: patcher where
  "sample_patcher = \<lparr>pt_tree = ''/t'', pt_repo = ''/r'', pt_dry = False\<rparr>"

definition sample_after :: patch_world where
  "sample_after = sample_tree\<lparr>ft_files := [''/t/a'' \<mapsto> ''xy'', ''/t/a.wam-orig'' \<mapsto> ''xy'', ''/t/a'' \<mapsto> ''zy'']\<rparr>"

lemma sample_first: "apply_edit sample_patcher sample_change (sample_edit ''x'' ''z'') sample_tree = (Inr (), sample_after)"
  by (simp add: sample_eval sample_patcher_def sample_tree_def sample_after_def)

lemma sample_second: "apply_edit sample_patcher sample_change (sample_edit ''q'' ''r'') sample_after = (Inl PatchError, sample_after)"
  by (simp add: sample_eval sample_patcher_def sample_tree_def sample_after_def)

lemma sample_abort: "patch_main ''/'' sample_args [sample_change] sample_tree = (Inr 1, sample_after)"
proof -
  have "apply_change sample_patcher sample_change sample_tree = (Inl PatchError, sample_after)"
    using sample_first sample_second
    by (simp add: apply_change_def bnd_def ret_def) (simp add: sample_change_def bnd_def ret_def)
  moreover have "patcher_init ''/'' ''t'' ''r'' False sample_tree = (Inr sample_patcher, sample_tree)"
    by (simp add: patcher_init_def sample_paths sample_patcher_def sample_tree_def path_join_def)
  ultimately show ?thesis
    by (simp add: patch_main_def sample_args_def on_error_def bnd_def ret_def)
qed

text \<open>An abort does not leave the tree untouched: a run can return 1 with an earlier edit written.\<close>

theorem abort_leaves_earlier_edits:
  "\<exists>a changes w w'. patch_main ''/'' a changes w = (Inr 1, w') \<and> ft_files w' ''/t/a'' \<noteq> ft_files w ''/t/a''"
  by (intro exI conjI) (rule sample_abort, simp add: sample_after_def sample_tree_def)


theorem edit_is_idempotent_witness:
  "apply_edit sample_patcher sample_change (sample_edit ''x'' ''z'') sample_after =
     (Inr (), sample_after\<lparr>pw_skipped := pw_skipped sample_after @ [ch_id sample_change @ '':'' @ ''a'']\<rparr>)"
  using edit_is_idempotent [OF sample_first]
  by (simp add: sample_patcher_def sample_edit_def sample_tree_def pt_path_def path_join_def path_exists_def)

theorem check_writes_nothing_witness:
  "ft_files (snd (patch_main ''/'' (sample_args\<lparr>pa_check := True\<rparr>) [sample_change] sample_tree)) = ft_files sample_tree"
  using check_writes_nothing [of "sample_args\<lparr>pa_check := True\<rparr>"] by simp

theorem originals_survive_witness:
  "originals_kept {''/t/a''} {} sample_tree sample_after"
proof -
  have p: "edit_paths ''/t'' [sample_change] = {''/t/a''}" "copy_paths ''/t'' ''/r'' [sample_change] = {}"
    by (simp_all add: edit_paths_def copy_paths_def sample_change_def sample_edit_def path_join_def)
  have "''/t/a'' \<noteq> backup_of r" for r
  proof
    assume "''/t/a'' = backup_of r"
    then have "last ''/t/a'' = last (backup_of r)" by simp
    then show False by (simp add: backup_of_def)
  qed
  then show ?thesis
    using originals_survive [of "''/''" sample_args "[sample_change]" sample_tree]
    by (simp add: sample_args_def sample_paths p sample_abort [unfolded sample_args_def])
qed

end
