(* ===== verification/Dgw.thy ===== *)
theory Dgw
  imports Wire Operator Text_Files
begin

text \<open>
  \<open>scripts/dgw_model.py\<close>: the compact form of a target, the DarkGravityWave retarget as the node
  computes it, the validation against a chain read from a node, and the simulation of a change of
  hash rate. The node's answer to a batch of calls is a parameter.
\<close>

section \<open>The compact form\<close>

definition target_to_compact :: "int \<Rightarrow> int" where
  "target_to_compact target =
     (let size = int ((bit_length (nat \<bar>target\<bar>) + 7) div 8);
          compact = (if size \<le> 3 then push_bit (nat (8 * (3 - size))) target
                     else drop_bit (nat (8 * (size - 3))) target);
          (compact, size) = (if compact AND 0x800000 \<noteq> 0 then (drop_bit 8 compact, size + 1)
                             else (compact, size))
      in compact OR push_bit 24 size)"

section \<open>The retarget\<close>

definition PAST_BLOCKS :: nat where "PAST_BLOCKS = 24"
definition TARGET_SPACING :: int where "TARGET_SPACING = 120"
definition CLAMP :: int where "CLAMP = 3"
definition TARGET_TIMESPAN :: int where "TARGET_TIMESPAN = int PAST_BLOCKS * TARGET_SPACING"
definition POW_LIMIT_DEFAULT :: int where "POW_LIMIT_DEFAULT = 2 ^ 232 - 1"

record blk =
  bk_nbits :: int
  bk_time :: int

text \<open>The running mean over the blocks, newest first; \<open>n\<close> is the number of the block at the head.\<close>

fun dgw_average :: "int \<Rightarrow> blk list \<Rightarrow> int \<Rightarrow> int" where
  "dgw_average n [] avg = avg"
| "dgw_average n (b # bs) avg =
     (let t = compact_to_target (bk_nbits b)
      in dgw_average (n + 1) bs (if n = 1 then t else (avg * n + t) div (n + 1)))"

definition last_blocks :: "'a list \<Rightarrow> 'a list" where
  "last_blocks xs = drop (length xs - PAST_BLOCKS) xs"

definition clamp_timespan :: "int \<Rightarrow> int" where
  "clamp_timespan actual =
     (let a = (if actual < TARGET_TIMESPAN div CLAMP then TARGET_TIMESPAN div CLAMP else actual)
      in if a > TARGET_TIMESPAN * CLAMP then TARGET_TIMESPAN * CLAMP else a)"

definition dgw :: "blk list \<Rightarrow> int \<Rightarrow> int" where
  "dgw window pow_limit =
     (if length window < PAST_BLOCKS then target_to_compact pow_limit
      else let newest_first = rev (last_blocks window);
               avg = dgw_average 1 newest_first 0;
               actual = clamp_timespan (bk_time (hd newest_first) - bk_time (last newest_first));
               new = (avg * actual) div TARGET_TIMESPAN
        in target_to_compact (if new > pow_limit then pow_limit else new))"

section \<open>Validation\<close>

type_synonym chain_row = "int \<times> int \<times> int"

definition row_blk :: "chain_row \<Rightarrow> blk" where
  "row_blk r = \<lparr>bk_nbits = snd (snd r), bk_time = fst (snd r)\<rparr>"

definition predicted :: "chain_row list \<Rightarrow> int \<Rightarrow> nat \<Rightarrow> int" where
  "predicted blocks pow_limit i = dgw (map row_blk (drop (i - PAST_BLOCKS) (take i blocks))) pow_limit"

definition validate :: "chain_row list \<Rightarrow> int \<Rightarrow> int" where
  "validate blocks pow_limit =
     (let checked = [PAST_BLOCKS..<length blocks];
          bad = filter (\<lambda>i. predicted blocks pow_limit i \<noteq> snd (snd (blocks ! i))) checked
      in if checked = [] then 2 else if bad \<noteq> [] then 1 else 0)"

section \<open>Simulation\<close>

text \<open>Division of two floats.\<close>

fun fdiv :: "pyfloat \<Rightarrow> pyfloat \<Rightarrow> py_error + pyfloat" where
  "fdiv x (Fin b) = (if b = 0 then Inl ZeroDivisionError else Inr (fdiv_const x b))"
| "fdiv (Fin a) PosInf = Inr (Fin 0)"
| "fdiv (Fin a) NegInf = Inr (Fin 0)"
| "fdiv _ _ = Inr NaN"

text \<open>\<open>int(round(x))\<close> and \<open>int / int\<close>.\<close>

fun round_float :: "pyfloat \<Rightarrow> py_error + int" where
  "round_float (Fin x) = Inr (round_half_even x)"
| "round_float NaN = Inl ValueError"
| "round_float _ = Inl OverflowError"

definition true_div :: "int \<Rightarrow> int \<Rightarrow> py_error + pyfloat" where
  "true_div a b =
     (if b = 0 then Inl ZeroDivisionError
      else case int_truediv a b of Fin x \<Rightarrow> Inr (Fin x) | _ \<Rightarrow> Inl OverflowError)"

definition interval :: "int \<Rightarrow> int \<Rightarrow> pyfloat \<Rightarrow> py_error + int" where
  "interval base_target nbits m =
     rbind (true_div base_target (compact_to_target nbits)) (\<lambda>q.
     rbind (fdiv (fmul (Fin (of_int TARGET_SPACING)) q) m) (\<lambda>secs.
     rbind (round_float secs) (\<lambda>n. Inr (max 1 n))))"

text \<open>The first phase: the row of a block is its compact target and its interval.\<close>

fun phase_with :: "nat \<Rightarrow> int \<Rightarrow> pyfloat \<Rightarrow> int \<Rightarrow> blk list \<Rightarrow> int
    \<Rightarrow> py_error + (int \<times> int) list \<times> blk list \<times> int" where
  "phase_with 0 base m pow_limit window t = Inr ([], window, t)"
| "phase_with (Suc k) base m pow_limit window t =
     (let nbits = dgw window pow_limit
      in rbind (interval base nbits m) (\<lambda>dt.
         rbind (phase_with k base m pow_limit (window @ [\<lparr>bk_nbits = nbits, bk_time = t + dt\<rparr>]) (t + dt))
           (\<lambda>(rows, w, t'). Inr ((nbits, dt) # rows, w, t'))))"

text \<open>The second phase, until a block comes within five quarters of the spacing, not the first one.\<close>

fun phase_after :: "nat \<Rightarrow> nat \<Rightarrow> int \<Rightarrow> int \<Rightarrow> blk list \<Rightarrow> int \<Rightarrow> py_error + (int \<times> int) list \<times> nat option" where
  "phase_after 0 i base pow_limit window t = Inr ([], None)"
| "phase_after (Suc k) i base pow_limit window t =
     (let nbits = dgw window pow_limit
      in rbind (interval base nbits (Fin 1)) (\<lambda>dt.
           if 4 * dt \<le> 5 * TARGET_SPACING \<and> 0 < i then Inr ([(nbits, dt)], Some (i + 1))
           else rbind (phase_after k (i + 1) base pow_limit
                  (window @ [\<lparr>bk_nbits = nbits, bk_time = t + dt\<rparr>]) (t + dt))
                (\<lambda>(rows, r). Inr ((nbits, dt) # rows, r))))"

definition simulate :: "chain_row list \<Rightarrow> int \<Rightarrow> pyfloat \<Rightarrow> pyfloat \<Rightarrow> py_error + int" where
  "simulate blocks pow_limit multiple hours =
     (let window = map row_blk (last_blocks blocks)
      in if window = [] then Inl IndexError
         else let t = bk_time (last window); base = compact_to_target (bk_nbits (last window))
         in rbind (fdiv (fmul hours (Fin 3600)) (Fin (of_int TARGET_SPACING))) (\<lambda>k.
            rbind (jint (JFloat k)) (\<lambda>k.
            rbind (phase_with (nat (max 1 k)) base multiple pow_limit window t) (\<lambda>(rows, window', t').
            rbind (phase_after 600 0 base pow_limit window' t') (\<lambda>(rows', recovered).
            rbind (true_div (compact_to_target (fst (hd rows)))
                     (Min (set (map (compact_to_target \<circ> fst) (rows @ rows'))))) (\<lambda>_.
              Inr (case recovered of Some _ \<Rightarrow> 0 | None \<Rightarrow> 1)))))))"

section \<open>Reading the chain\<close>

record rpc_creds =
  rc_user :: string
  rc_password :: string
  rc_port :: int

definition conf_value :: "string \<Rightarrow> string \<Rightarrow> string option" where
  "conf_value key line = (if starts_with (key @ ''='') line then Some (drop (length key + 1) line) else None)"

definition conf_line :: "string option \<times> string option \<times> int \<Rightarrow> string \<Rightarrow> py_error + string option \<times> string option \<times> int" where
  "conf_line st line0 =
     (case st of (user, pw, port) \<Rightarrow>
        let line = strip line0
        in (case conf_value ''rpcuser'' line of
              Some v \<Rightarrow> Inr (Some v, pw, port)
            | None \<Rightarrow>
                (case conf_value ''rpcpassword'' line of
                   Some v \<Rightarrow> Inr (user, Some v, port)
                 | None \<Rightarrow>
                     (case conf_value ''rpcport'' line of
                        Some v \<Rightarrow> rbind (int_of_string v) (\<lambda>n. Inr (user, pw, n))
                      | None \<Rightarrow> Inr (user, pw, port)))))"

fun rfold :: "('s \<Rightarrow> 'a \<Rightarrow> 'e + 's) \<Rightarrow> 's \<Rightarrow> 'a list \<Rightarrow> 'e + 's" where
  "rfold f s [] = Inr s"
| "rfold f s (x # xs) = rbind (f s x) (\<lambda>s'. rfold f s' xs)"

text \<open>No file, or no user or password in it, is no credentials; a port that is no number raises.\<close>

definition rpc_conf :: "stored option \<Rightarrow> py_error + rpc_creds option" where
  "rpc_conf file = (case file of
      Some (Text t) \<Rightarrow>
        rbind (rfold conf_line (None, None, 19554) (split_lines t)) (\<lambda>st. Inr (case st of
          (Some u, Some p, port) \<Rightarrow>
            if u \<noteq> [] \<and> p \<noteq> [] then Some \<lparr>rc_user = u, rc_password = p, rc_port = port\<rparr> else None
        | _ \<Rightarrow> None))
    | _ \<Rightarrow> Inr None)"

text \<open>\<open>v[0]\<close>.\<close>

fun jfirst :: "json \<Rightarrow> py_error + json" where
  "jfirst (JArr xs) = (case xs of x # _ \<Rightarrow> Inr x | [] \<Rightarrow> Inl IndexError)"
| "jfirst (JStr s) = (case s of c # _ \<Rightarrow> Inr (JStr [c]) | [] \<Rightarrow> Inl IndexError)"
| "jfirst (JObj _) = Inl (KeyError ''0'')"
| "jfirst _ = Inl TypeError"

fun as_int :: "json \<Rightarrow> py_error + int" where
  "as_int (JInt n) = Inr n"
| "as_int _ = Inl TypeError"

fun as_str :: "json \<Rightarrow> py_error + string" where
  "as_str (JStr s) = Inr s"
| "as_str _ = Inl TypeError"

definition batch_call :: "json \<Rightarrow> string \<Rightarrow> json list \<Rightarrow> json" where
  "batch_call i method params =
     JObj [(''jsonrpc'', JStr ''1.0''), (''id'', i), (''method'', JStr method), (''params'', JArr params)]"

type_synonym 'n batch_node = "'n \<Rightarrow> json \<Rightarrow> (py_error + json) \<times> 'n"

definition rpc_batch :: "'n batch_node \<Rightarrow> json list \<Rightarrow> ('n, json) task" where
  "rpc_batch node calls = (\<lambda>w. case node (w_node w) (JArr calls) of (r, n) \<Rightarrow> (r, w\<lparr>w_node := n\<rparr>))"

text \<open>The hashes of one batch that were answered, with the ids of the answers.\<close>

definition answered :: "json \<Rightarrow> py_error + (json \<times> json) list" where
  "answered got =
     rbind (jiter got) (\<lambda>rs.
     rbind (rfilter (\<lambda>r. rbind (jget r ''result'' JNull) (\<lambda>v. Inr (jtruthy v))) rs) (\<lambda>rs.
     rmap (\<lambda>r. rbind (jitem r ''id'') (\<lambda>i. rbind (jitem r ''result'') (\<lambda>v. Inr (i, v)))) rs))"

definition header_row :: "json \<Rightarrow> py_error + chain_row" where
  "header_row b =
     rbind (jitem b ''height'') (\<lambda>h. rbind (as_int h) (\<lambda>h.
     rbind (jitem b ''time'') (\<lambda>t. rbind (as_int t) (\<lambda>t.
     rbind (jitem b ''bits'') (\<lambda>b. rbind (as_str b) (\<lambda>b. rbind (int_of_hex b) (\<lambda>b.
       Inr (h, t, b))))))))"

definition answered_results :: "json \<Rightarrow> py_error + json list" where
  "answered_results got =
     rbind (jiter got) (\<lambda>rs.
     rbind (rmap (\<lambda>r. jget r ''result'' JNull) rs) (\<lambda>vs. Inr (filter jtruthy vs)))"

definition read_step :: "'n batch_node \<Rightarrow> int \<Rightarrow> int \<Rightarrow> ('n, chain_row list) task" where
  "read_step node tip start =
     bnd (rpc_batch node (map (\<lambda>h. batch_call (JInt h) ''getblockhash'' [JInt h])
            [start..min (start + 500) (tip + 1) - 1])) (\<lambda>got.
     bnd (lift (answered got)) (\<lambda>hashes.
     bnd (rpc_batch node (map (\<lambda>(i, bh). batch_call i ''getblockheader'' [bh]) hashes)) (\<lambda>heads.
     lift (rbind (answered_results heads) (rmap header_row)))))"

definition read_chain :: "'n batch_node \<Rightarrow> string \<Rightarrow> ('n, chain_row list option) task" where
  "read_chain node conf = (\<lambda>w.
     case rpc_conf (w_files w conf) of
       Inl e \<Rightarrow> (Inl e, w)
     | Inr None \<Rightarrow> (Inr None, w)
     | Inr (Some c) \<Rightarrow>
         (case bnd (rpc_batch node [batch_call (JInt 0) ''getblockchaininfo'' []])
                 (\<lambda>r. lift (rbind (jfirst r) (\<lambda>x. jitem x ''result''))) w of
            (Inl e, w') \<Rightarrow> (Inr None, w')
          | (Inr info, w') \<Rightarrow>
              bnd (lift (rbind (jitem info ''blocks'') as_int)) (\<lambda>tip.
              bnd (for_each (read_step node tip)
                     (map (\<lambda>k. 500 * int k) [0..<nat ((tip + 500) div 500)])) (\<lambda>parts.
                ret (Some (sort (concat parts))))) w'))"

section \<open>The limit in the source, and main\<close>

definition pow_limit_match :: "string \<Rightarrow> (string \<times> string) option" where
  "pow_limit_match s =
     (if \<not> starts_with ''powLimit'' s then None
      else let r = dropWhile is_space (drop 8 s)
      in if \<not> starts_with ''='' r then None
      else let r = dropWhile is_space (drop 1 r); opening = ''uint256S('' @ [CHR 0x22]
      in if \<not> starts_with opening r then None
      else let h = drop (length opening) r; close = CHR 0x22 # '')''; rest = dropWhile is_hex h
      in if takeWhile is_hex h = [] \<or> \<not> starts_with close rest then None
         else Some (takeWhile is_hex h, drop 2 rest))"

text \<open>The second literal is testnet's; with one literal it is that one.\<close>

definition pow_limit_from_source :: "string option \<Rightarrow> int" where
  "pow_limit_from_source file = (case file of
      None \<Rightarrow> POW_LIMIT_DEFAULT
    | Some text \<Rightarrow>
        let hex = (\<lambda>ds. int (undigs 16 (rev (map hex_val ds))))
        in (case find_all pow_limit_match text of
              _ # b # _ \<Rightarrow> hex b
            | [a] \<Rightarrow> hex a
            | [] \<Rightarrow> POW_LIMIT_DEFAULT))"

record dgw_args =
  da_validate :: bool
  da_simulate :: "pyfloat option"
  da_hours :: pyfloat
  da_conf :: string
  da_cache :: string

text \<open>A cached chain: rows of three integers; anything that is not a list of lists is no cache.\<close>

definition cache_row :: "json \<Rightarrow> py_error + chain_row" where
  "cache_row v = (case v of
      JArr [JInt h, JInt t, JInt b] \<Rightarrow> Inr (h, t, b) | _ \<Rightarrow> Inl TypeError)"

definition cached_blocks :: "stored option \<Rightarrow> py_error + chain_row list option" where
  "cached_blocks file = (case file of
      Some (Doc d) \<Rightarrow>
        (case rbind (jiter d) (rmap jiter) of
           Inl e \<Rightarrow> Inr None
         | Inr _ \<Rightarrow> rbind (jiter d) (\<lambda>rows. rbind (rmap cache_row rows) (\<lambda>bs. Inr (Some bs))))
    | _ \<Rightarrow> Inr None)"

definition row_json :: "chain_row \<Rightarrow> json" where
  "row_json r = (case r of (h, t, b) \<Rightarrow> JArr [JInt h, JInt t, JInt b])"

definition asked :: "pyfloat option \<Rightarrow> pyfloat option" where
  "asked m = (case m of Some x \<Rightarrow> if feq x (Fin 0) then None else Some x | None \<Rightarrow> None)"

definition dgw_report :: "dgw_args \<Rightarrow> int \<Rightarrow> chain_row list \<Rightarrow> py_error + int" where
  "dgw_report a pow_limit blocks =
     (if blocks = [] then Inl IndexError
      else let rc = (if da_validate a then validate blocks pow_limit else 0)
        in if rc \<noteq> 0 then Inr rc
           else case asked (da_simulate a) of
                  Some m \<Rightarrow> simulate blocks pow_limit m (da_hours a)
                | None \<Rightarrow> Inr rc)"

definition dgw_main :: "'n batch_node \<Rightarrow> string option \<Rightarrow> dgw_args \<Rightarrow> ('n, int) task" where
  "dgw_main node chainparams a =
     (if \<not> da_validate a \<and> asked (da_simulate a) = None then throw (SystemExit 2)
      else let pow_limit = pow_limit_from_source chainparams
      in bnd (\<lambda>w. (cached_blocks (w_files w (da_cache a)), w)) (\<lambda>cached.
         case cached of
           Some blocks \<Rightarrow> lift (dgw_report a pow_limit blocks)
         | None \<Rightarrow>
             bnd (read_chain node (da_conf a)) (\<lambda>r. case r of
               None \<Rightarrow> ret 2
             | Some blocks \<Rightarrow>
                 bnd (write_json (da_cache a) (JArr (map row_json blocks))) (\<lambda>_.
                   lift (dgw_report a pow_limit blocks)))))"

section \<open>What the compact form loses\<close>

text \<open>
  With \<open>T = t * 256^3\<close> the mantissa is \<open>T div 256^s\<close> and its value \<open>(T div 256^s) * 256^s div 256^3\<close>,
  whatever the size \<open>s\<close>.
\<close>

lemma shift_256: "push_bit (8 * k) (x :: int) = x * 256 ^ k" "drop_bit (8 * k) (x :: int) = x div 256 ^ k"
  by (simp_all add: push_bit_eq_mult drop_bit_eq_div power_mult)

lemma nat_3: "int s \<le> 3 \<longleftrightarrow> s \<le> 3"
  by simp

lemma nat_above_3: "3 \<le> s \<Longrightarrow> nat (8 * (int s - 3)) = 8 * (s - 3)"
proof -
  assume "3 \<le> s"
  then have "int (s - 3) = int s - 3" by (simp add: of_nat_diff)
  then have "8 * (int s - 3) = int (8 * (s - 3))" by (simp only: of_nat_mult of_nat_numeral)
  then show ?thesis by (simp only: nat_int)
qed

lemma nat_below_3: "s \<le> 3 \<Longrightarrow> nat (8 * (3 - int s)) = 8 * (3 - s)"
proof -
  assume "s \<le> 3"
  then have "int (3 - s) = 3 - int s" by (simp add: of_nat_diff)
  then have "8 * (3 - int s) = int (8 * (3 - s))" by (simp only: of_nat_mult of_nat_numeral)
  then show ?thesis by (simp only: nat_int)
qed

lemma scale_256:
  fixes x :: int
  assumes "a \<le> b"
  shows "x * 256 ^ b div 256 ^ a = x * 256 ^ (b - a)" "x * 256 ^ a div 256 ^ b = x div 256 ^ (b - a)"
proof -
  have e: "(256 :: int) ^ b = 256 ^ (b - a) * 256 ^ a" using assms by (simp flip: power_add)
  show "x * 256 ^ b div 256 ^ a = x * 256 ^ (b - a)" unfolding e mult.assoc [symmetric] by simp
  show "x * 256 ^ a div 256 ^ b = x div 256 ^ (b - a)" unfolding e by simp
qed

lemma mantissa_eq:
  fixes t :: int
  shows "(if int s \<le> 3 then push_bit (nat (8 * (3 - int s))) t else drop_bit (nat (8 * (int s - 3))) t)
     = t * 256 ^ 3 div 256 ^ s"
proof (cases "s \<le> 3")
  case True
  show ?thesis
    unfolding nat_3 if_P [OF True] nat_below_3 [OF True] shift_256 by (rule scale_256(1) [OF True, symmetric])
next
  case False
  then have le: "3 \<le> s" by simp
  show ?thesis
    unfolding nat_3 if_not_P [OF False] nat_above_3 [OF le] shift_256 by (rule scale_256(2) [OF le, symmetric])
qed

lemma compact_value:
  assumes "0 \<le> c" "c < 2 ^ 23"
  shows "compact_to_target (c + int s * 2 ^ 24) = c * 256 ^ s div 256 ^ 3"
proof -
  have size: "drop_bit 24 (c + int s * 2 ^ 24) = int s"
    using assms by (simp add: drop_bit_eq_div div_plus_div_distrib_dvd_right)
  have "(c + int s * 2 ^ 24) AND (2 ^ 23 - 1) = take_bit 23 (c + int s * 2 ^ 24)"
    by (simp add: take_bit_eq_mask mask_eq_exp_minus_1)
  also have "\<dots> = c"
  proof -
    have "(c + int s * 2 ^ 24) mod 2 ^ 23 = (c + (2 * int s) * 2 ^ 23) mod 2 ^ 23" by (simp add: mult.commute)
    also have "\<dots> = c" using assms by (simp only: mod_mult_self1) simp
    finally show ?thesis by (simp only: take_bit_eq_mod)
  qed
  finally have word: "(c + int s * 2 ^ 24) AND 0x7FFFFF = c" by simp
  show ?thesis
  proof (cases "s \<le> 3")
    case True
    show ?thesis
      unfolding compact_to_target_def Let_def size word nat_3 if_P [OF True] nat_below_3 [OF True] shift_256
      by (rule scale_256(2) [OF True, symmetric])
  next
    case False
    then have le: "3 \<le> s" by simp
    show ?thesis
      unfolding compact_to_target_def Let_def size word nat_3 if_not_P [OF False] nat_above_3 [OF le] shift_256
      by (rule scale_256(1) [OF le, symmetric])
  qed
qed

lemma bit_23:
  fixes c :: int assumes "0 \<le> c" "c < 2 ^ 24" shows "c AND 0x800000 = 0 \<longleftrightarrow> c < 2 ^ 23"
proof -
  have "c AND 2 ^ 23 = 0 \<longleftrightarrow> \<not> bit c 23" by (rule and_exp_eq_0_iff_not_bit)
  also have "\<dots> \<longleftrightarrow> c < 2 ^ 23"
  proof (cases "c < 2 ^ 23")
    case False
    then have "c div 2 ^ 23 = 1" using assms by (intro int_div_pos_eq [of c "2 ^ 23" 1 "c - 2 ^ 23"]) simp_all
    with False show ?thesis by (simp add: bit_iff_odd)
  qed (use assms in \<open>simp add: bit_iff_odd\<close>)
  finally show ?thesis by simp
qed

lemma or_size: "0 \<le> c \<Longrightarrow> c < 2 ^ 24 \<Longrightarrow> c OR push_bit 24 (int s) = c + int s * 2 ^ 24"
proof -
  assume c: "0 \<le> c" "c < 2 ^ 24"
  have "c = take_bit 24 c" using c by (simp add: take_bit_int_eq_self)
  then have low: "bit c n \<Longrightarrow> n < 24" for n by (metis bit_take_bit_iff)
  have "c + push_bit 24 (int s) = c OR push_bit 24 (int s)"
    by (rule disjunctive_add) (use low in \<open>fastforce simp: bit_push_bit_iff\<close>)
  then show ?thesis by (simp add: push_bit_eq_mult)
qed

text \<open>
  The code of a positive target: its mantissa is the scaled target cut at a size for which it has
  at least fifteen bits, and the size depends on the mantissa and the length only.
\<close>

definition code_size :: "int \<Rightarrow> nat" where
  "code_size t = (let s = length (digs 256 (nat t)) in if t * 256 ^ 3 div 256 ^ s < 2 ^ 23 then s else s + 1)"

lemma byte_length_bounds: "0 < t \<Longrightarrow> 256 ^ (length (digs 256 (nat t)) - 1) \<le> t \<and> t < 256 ^ length (digs 256 (nat t))"
proof -
  assume t: "0 < t"
  let ?n = "nat t" and ?l = "length (digs 256 (nat t))"
  have "0 < ?l" using t by simp
  then have "(256 :: nat) ^ (?l - 1) \<le> ?n" using length_digs_le [of 256 ?n "?l - 1"] by fastforce
  moreover have "?n < 256 ^ ?l" using length_digs_ge [of 256 ?l ?n] by fastforce
  ultimately have "int (256 ^ (?l - 1)) \<le> t" "t < int (256 ^ ?l)" using t by linarith+
  then show ?thesis by simp
qed

lemma div_less_power: "0 \<le> (x :: int) \<Longrightarrow> x < 256 ^ (s + k) \<Longrightarrow> x div 256 ^ s < 256 ^ k"
  by (simp add: int_div_less power_add mult.commute)

lemma div_ge_power: "(m :: int) * 256 ^ s \<le> x \<Longrightarrow> m \<le> x div 256 ^ s"
  using zdiv_mono1 [of "m * 256 ^ s" x "256 ^ s"] by simp

lemma target_to_compact_code:
  assumes "0 < t"
  shows "target_to_compact t = t * 256 ^ 3 div 256 ^ code_size t + int (code_size t) * 2 ^ 24
    \<and> 2 ^ 15 \<le> t * 256 ^ 3 div 256 ^ code_size t \<and> t * 256 ^ 3 div 256 ^ code_size t < 2 ^ 23"
proof -
  define s where "s = length (digs 256 (nat t))"
  define c where "c = t * 256 ^ 3 div 256 ^ s"
  have b: "256 ^ (s - 1) \<le> t" "t < 256 ^ s" using byte_length_bounds [OF assms] by (simp_all add: s_def)
  have s: "0 < s" using assms by (simp add: s_def)
  have "t * 256 ^ 3 < 256 ^ s * 256 ^ 3" using b(2) by simp
  then have c24: "c < 2 ^ 24" unfolding c_def using assms div_less_power [of "t * 256 ^ 3" s 3]
    by (simp add: power_add)
  have "(256 :: int) ^ 2 * 256 ^ s = 256 ^ (s - 1) * 256 ^ 3"
    using s by (simp only: power_add [symmetric]) simp
  then have "256 ^ 2 * 256 ^ s \<le> t * 256 ^ 3" using b(1) by (metis mult_right_mono zero_le_numeral zero_le_power)
  then have c16: "2 ^ 16 \<le> c" unfolding c_def using div_ge_power [of "256 ^ 2" s "t * 256 ^ 3"] by simp
  have size: "int ((bit_length (nat \<bar>t\<bar>) + 7) div 8) = int s" using assms by (simp add: minimal_bytes_count s_def)
  have enc: "target_to_compact t = (let (c', s') = if c AND 0x800000 \<noteq> 0 then (drop_bit 8 c, int s + 1) else (c, int s)
      in c' OR push_bit 24 s')"
    unfolding target_to_compact_def Let_def size mantissa_eq c_def ..
  show ?thesis
  proof (cases "c < 2 ^ 23")
    case True
    then have cs: "code_size t = s" by (simp add: code_size_def Let_def c_def s_def)
    have "c AND 0x800000 = 0" using bit_23 c16 c24 True by simp
    then have "target_to_compact t = c + int s * 2 ^ 24"
      unfolding enc using or_size [of c s] c16 c24 by simp
    with True c16 show ?thesis by (simp add: cs c_def)
  next
    case False
    then have cs: "code_size t = s + 1" by (simp add: code_size_def Let_def c_def s_def)
    have "c AND 0x800000 \<noteq> 0" using bit_23 c16 c24 False by simp
    moreover have c8: "drop_bit 8 c = t * 256 ^ 3 div 256 ^ (s + 1)"
      by (simp add: drop_bit_eq_div c_def div_mult2_eq [symmetric] zdiv_zmult2_eq [symmetric] mult.commute)
    moreover have "2 ^ 15 \<le> drop_bit 8 c \<and> drop_bit 8 c < 2 ^ 23"
      using False c24 by (simp add: drop_bit_eq_div) linarith
    ultimately have "target_to_compact t = drop_bit 8 c + int (s + 1) * 2 ^ 24"
      unfolding enc using or_size [of "drop_bit 8 c" "s + 1"] by (simp add: add.commute)
    with c8 \<open>2 ^ 15 \<le> drop_bit 8 c \<and> _\<close> show ?thesis unfolding cs by simp
  qed
qed

lemma target_to_compact_0: "target_to_compact 0 = 0"
  by (simp add: target_to_compact_def)

text \<open>The value of the code, and that coding it again changes nothing.\<close>

lemma compact_exact:
  assumes "0 < t"
  defines "u \<equiv> compact_to_target (target_to_compact t)"
  shows "u * 256 ^ 3 = t * 256 ^ 3 div 256 ^ code_size t * 256 ^ code_size t"
proof -
  define s where "s = code_size t"
  define X where "X = t * 256 ^ 3 div 256 ^ s * 256 ^ s"
  note code = target_to_compact_code [OF assms(1), folded s_def]
  have u: "u = X div 256 ^ 3"
    using compact_value [of "t * 256 ^ 3 div 256 ^ s" s] code by (simp add: u_def X_def)
  have "\<exists>y. X = y * 256 ^ 3"
  proof (cases "3 \<le> s")
    case True
    then have "(256 :: int) ^ s = 256 ^ (s - 3) * 256 ^ 3" by (simp only: power_add [symmetric]) simp
    then have "X = (t * 256 ^ 3 div 256 ^ s * 256 ^ (s - 3)) * 256 ^ 3" by (simp add: X_def)
    then show ?thesis by blast
  next
    case False
    then have e: "(256 :: int) ^ 3 = 256 ^ (3 - s) * 256 ^ s" by (simp flip: power_add)
    have "t * 256 ^ 3 = t * 256 ^ (3 - s) * 256 ^ s" unfolding e by simp
    then have "X = t * 256 ^ 3" unfolding X_def by (simp only:) simp
    then show ?thesis by blast
  qed
  then show ?thesis unfolding u s_def [symmetric] X_def [symmetric] by force
qed

lemma compact_loses:
  assumes "0 \<le> t"
  defines "u \<equiv> compact_to_target (target_to_compact t)"
  shows "0 \<le> u \<and> u \<le> t \<and> (t - u) * 2 ^ 15 \<le> t"
proof (cases "t = 0")
  case True
  then show ?thesis by (simp add: u_def target_to_compact_0 compact_to_target_def)
next
  case False
  then have t: "0 < t" using assms by simp
  define q where "q = (256 :: int) ^ code_size t"
  define c where "c = t * 256 ^ 3 div q"
  have q: "0 < q" by (simp add: q_def)
  have c: "2 ^ 15 \<le> c" using target_to_compact_code [OF t] by (simp add: c_def q_def)
  have u: "u * 256 ^ 3 = c * q" using compact_exact [OF t] by (simp add: u_def c_def q_def)
  have low: "c * q \<le> t * 256 ^ 3" "t * 256 ^ 3 - c * q < q"
    using div_mult_mod_eq [of "t * 256 ^ 3" q] pos_mod_bound [OF q, of "t * 256 ^ 3"] pos_mod_sign [OF q, of "t * 256 ^ 3"]
    unfolding c_def by linarith+
  have big: "2 ^ 15 * q \<le> c * q" using c q by (intro mult_right_mono) simp_all
  have "u \<le> t" using low(1) u by simp
  moreover have "0 \<le> u * 256 ^ 3" unfolding u using c q by simp
  then have "0 \<le> u" by simp
  moreover have "(t - u) * 256 ^ 3 \<le> q" using low(2) u by (simp add: left_diff_distrib)
  then have "2 ^ 15 * ((t - u) * 256 ^ 3) \<le> 2 ^ 15 * q" by simp
  with big have "2 ^ 15 * ((t - u) * 256 ^ 3) \<le> u * 256 ^ 3" unfolding u by (rule order_trans [rotated])
  then have "(t - u) * 2 ^ 15 \<le> u" by simp
  ultimately show ?thesis by simp
qed

lemma compact_canonical:
  assumes "0 \<le> t"
  shows "target_to_compact (compact_to_target (target_to_compact t)) = target_to_compact t"
proof (cases "t = 0")
  case True
  then show ?thesis by (simp add: target_to_compact_0 compact_to_target_def)
next
  case False
  then have t: "0 < t" using assms by simp
  define l where "l = length (digs 256 (nat t))"
  define s where "s = code_size t"
  define c where "c = t * 256 ^ 3 div 256 ^ s"
  define u where "u = compact_to_target (target_to_compact t)"
  note code = target_to_compact_code [OF t, folded s_def, folded c_def]
  have u: "u * 256 ^ 3 = c * 256 ^ s" using compact_exact [OF t] by (simp add: u_def c_def s_def)
  have "u \<le> t" using compact_loses [OF assms] by (simp add: u_def)
  with byte_length_bounds [OF t] have up: "u < 256 ^ l" "256 ^ (l - 1) \<le> t" by (simp_all add: l_def)
  have l: "0 < l" using t by (simp add: l_def)
  then have l3: "(256 :: int) ^ (l - 1) * 256 ^ 3 = 256 ^ 2 * 256 ^ l" by (simp only: power_add [symmetric]) simp
  have "256 ^ (l - 1) * 256 ^ 3 \<le> t * 256 ^ 3" using up(2) by (intro mult_right_mono) simp_all
  then have "256 ^ 2 \<le> t * 256 ^ 3 div 256 ^ l" unfolding l3 by (rule div_ge_power)
  then have c16: "2 ^ 16 \<le> c" if "s = l" using that by (simp add: c_def)
  have "s = l \<or> s = l + 1" by (simp add: s_def code_size_def l_def Let_def)
  then consider "s = l" | "s = l + 1" by blast
  then have "256 ^ 2 * 256 ^ l \<le> c * 256 ^ s"
  proof cases
    case 1
    with c16 show ?thesis by (intro mult_mono) simp_all
  next
    case 2
    have "2 ^ 15 * (256 * 256 ^ l) \<le> c * (256 * 256 ^ l)" using code by (intro mult_right_mono) simp_all
    with 2 show ?thesis by simp
  qed
  then have "256 ^ (l - 1) * 256 ^ 3 \<le> u * 256 ^ 3" unfolding l3 u .
  then have lo: "256 ^ (l - 1) \<le> u" by simp
  then have u0: "0 < u" by (smt (verit) zero_less_power)
  have "nat u < 256 ^ Suc (l - 1)" "256 ^ (l - 1) \<le> nat u"
    using up(1) lo l u0 by (simp_all add: nat_less_iff le_nat_iff)
  then have lu: "length (digs 256 (nat u)) = l" using length_digs_eq [of 256 "l - 1" "nat u"] l by simp
  have su: "code_size u = s"
    using \<open>s = l \<or> s = l + 1\<close>
  proof
    assume "s = l"
    then have "u * 256 ^ 3 div 256 ^ l = c" unfolding u by simp
    with code \<open>s = l\<close> show ?thesis by (simp only: code_size_def lu Let_def if_True)
  next
    assume "s = l + 1"
    then have "u * 256 ^ 3 = (c * 256) * 256 ^ l" unfolding u by simp
    then have "u * 256 ^ 3 div 256 ^ l = c * 256" by (simp only:) simp
    moreover have "\<not> c * 256 < 2 ^ 23" using code by simp
    ultimately show ?thesis using \<open>s = l + 1\<close> by (simp only: code_size_def lu Let_def if_False)
  qed
  have d: "u * 256 ^ 3 div 256 ^ s = c" unfolding u by simp
  have "target_to_compact u = target_to_compact t"
    using target_to_compact_code [OF u0, unfolded su d] code by (simp only:)
  then show ?thesis by (simp only: u_def)
qed


text \<open>C37: the compact form of a target never stands for a larger target, loses less than one part in
  2^15 of it, and coding what it stands for gives the same code again.\<close>

theorem compact_form_is_a_rounding:
  assumes "0 \<le> t"
  shows "0 \<le> compact_to_target (target_to_compact t) \<and> compact_to_target (target_to_compact t) \<le> t
    \<and> (t - compact_to_target (target_to_compact t)) * 2 ^ 15 \<le> t
    \<and> target_to_compact (compact_to_target (target_to_compact t)) = target_to_compact t"
  using compact_loses [OF assms] compact_canonical [OF assms] by blast

theorem compact_form_is_a_rounding_witness:
  "compact_to_target (target_to_compact 16777217) \<le> 16777217
    \<and> target_to_compact (compact_to_target (target_to_compact 16777217)) = target_to_compact 16777217"
  using compact_form_is_a_rounding [of 16777217] by simp

section \<open>Bounds of the retarget\<close>

lemma compact_to_target_nonneg: "0 \<le> compact_to_target nbits"
  by (simp add: compact_to_target_def Let_def)

lemma average_step:
  fixes n :: int
  assumes "1 \<le> n" "m \<le> a" "a \<le> M" "m \<le> t" "t \<le> M"
  shows "m \<le> (a * n + t) div (n + 1) \<and> (a * n + t) div (n + 1) \<le> M"
proof -
  have "m * n \<le> a * n" "a * n \<le> M * n" using assms by (simp_all add: mult_right_mono)
  with assms have "m * n + m \<le> a * n + t" "a * n + t \<le> M * n + M" by (simp_all add: add_mono)
  then have "m * (n + 1) \<le> a * n + t" "a * n + t \<le> M * (n + 1)" by (simp_all add: distrib_left)
  then have "m * (n + 1) div (n + 1) \<le> (a * n + t) div (n + 1)" "(a * n + t) div (n + 1) \<le> M * (n + 1) div (n + 1)"
    using assms(1) by (intro zdiv_mono1; simp)+
  with assms(1) show ?thesis by simp
qed

lemma dgw_average_between:
  "1 \<le> n \<Longrightarrow> \<forall>b \<in> set bs. m \<le> compact_to_target (bk_nbits b) \<and> compact_to_target (bk_nbits b) \<le> M \<Longrightarrow>
   n \<noteq> 1 \<longrightarrow> m \<le> avg \<and> avg \<le> M \<Longrightarrow> bs \<noteq> [] \<or> n \<noteq> 1 \<Longrightarrow>
   m \<le> dgw_average n bs avg \<and> dgw_average n bs avg \<le> M"
proof (induction n bs avg rule: dgw_average.induct)
  case (2 n b bs avg)
  let ?t = "compact_to_target (bk_nbits b)"
  have t: "m \<le> ?t" "?t \<le> M" using 2(3) by simp_all
  have "m \<le> (if n = 1 then ?t else (avg * n + ?t) div (n + 1)) \<and> (if n = 1 then ?t else (avg * n + ?t) div (n + 1)) \<le> M"
    using average_step [of n m avg M ?t] t 2(2,4) by simp
  with 2(1) [OF refl] 2(2,3) show ?case by (simp add: Let_def)
qed simp

lemma zdiv_mult_cancel_3: "(m :: int) * 960 div 2880 = m div 3"
  using div_mult_mult2 [of 960 m 3] by simp

lemma clamp_bounds: "960 \<le> clamp_timespan a \<and> clamp_timespan a \<le> 8640"
  by (simp add: clamp_timespan_def TARGET_TIMESPAN_def PAST_BLOCKS_def TARGET_SPACING_def CLAMP_def)

lemma length_last_blocks: "length (last_blocks xs) = min PAST_BLOCKS (length xs)"
  by (simp add: last_blocks_def)

text \<open>C13: over a full window the retarget never passes the limit, never rises above three times the
  easiest target of the window, and, up to the compact form, never falls below a third of the
  hardest one unless the limit is there.\<close>

theorem retarget_is_bounded:
  assumes len: "PAST_BLOCKS \<le> length window" and L: "0 \<le> pow_limit"
    and win: "\<And>b. b \<in> set (last_blocks window) \<Longrightarrow> m \<le> compact_to_target (bk_nbits b) \<and> compact_to_target (bk_nbits b) \<le> M"
    and m: "0 \<le> m"
  shows "compact_to_target (dgw window pow_limit) \<le> min pow_limit (3 * M)
    \<and> min (m div 3) pow_limit * (2 ^ 15 - 1) \<le> compact_to_target (dgw window pow_limit) * 2 ^ 15"
proof -
  define newest where "newest = rev (last_blocks window)"
  define avg where "avg = dgw_average 1 newest 0"
  define actual where "actual = clamp_timespan (bk_time (hd newest) - bk_time (last newest))"
  define x where "x = (avg * actual) div TARGET_TIMESPAN"
  define y where "y = (if x > pow_limit then pow_limit else x)"
  have "length newest = 24" using len by (simp add: newest_def length_last_blocks PAST_BLOCKS_def)
  then have ne: "newest \<noteq> []" by auto
  have avg: "m \<le> avg \<and> avg \<le> M"
    unfolding avg_def using win ne by (intro dgw_average_between) (auto simp: newest_def)
  have act: "960 \<le> actual" "actual \<le> 8640" using clamp_bounds by (simp_all add: actual_def)
  have T: "TARGET_TIMESPAN = 2880" by (simp add: TARGET_TIMESPAN_def PAST_BLOCKS_def TARGET_SPACING_def)
  have "avg * actual \<le> M * 8640" using avg act m by (intro mult_mono) simp_all
  then have hi: "x \<le> 3 * M" unfolding x_def T using zdiv_mono1 [of "avg * actual" "M * 8640" 2880] by simp
  have "m * 960 \<le> avg * actual" using avg act m by (intro mult_mono) simp_all
  then have "m * 960 div 2880 \<le> x" unfolding x_def T by (rule zdiv_mono1) simp
  then have lo: "m div 3 \<le> x" using zdiv_mult_cancel_3 [of m] by simp
  have y: "0 \<le> y" "y \<le> pow_limit" "y \<le> 3 * M" "min (m div 3) pow_limit \<le> y"
    using hi lo m L by (auto simp: y_def)
  have dgw: "dgw window pow_limit = target_to_compact y"
    using len unfolding dgw_def Let_def newest_def avg_def actual_def x_def y_def by simp
  from compact_loses [OF y(1)] have c: "compact_to_target (dgw window pow_limit) \<le> y"
    "(y - compact_to_target (dgw window pow_limit)) * 2 ^ 15 \<le> y"
    by (simp_all add: dgw)
  have "min (m div 3) pow_limit * (2 ^ 15 - 1) \<le> y * (2 ^ 15 - 1)" using y(4) by (intro mult_right_mono) simp_all
  also have "\<dots> \<le> compact_to_target (dgw window pow_limit) * 2 ^ 15" using c(2) by (simp add: left_diff_distrib)
  finally show ?thesis using c(1) y by simp
qed

text \<open>The actual timespan covers 23 intervals and the target timespan 24, so a window of equal
  targets whose blocks came exactly on schedule makes the next target smaller.\<close>

theorem on_schedule_still_gets_harder:
  assumes len: "length window = PAST_BLOCKS" and t: "0 < t" and L: "0 \<le> pow_limit"
    and nb: "\<And>b. b \<in> set window \<Longrightarrow> compact_to_target (bk_nbits b) = t"
    and span: "bk_time (last window) - bk_time (hd window) = 23 * TARGET_SPACING"
  shows "compact_to_target (dgw window pow_limit) < t"
proof -
  have all: "last_blocks window = window" by (simp add: last_blocks_def len)
  have ne: "window \<noteq> []" using len by (auto simp: PAST_BLOCKS_def)
  have "t \<le> dgw_average 1 (rev window) 0 \<and> dgw_average 1 (rev window) 0 \<le> t"
    using nb ne by (intro dgw_average_between) simp_all
  then have avg: "dgw_average 1 (rev window) 0 = t" by simp
  have clamp: "clamp_timespan (23 * TARGET_SPACING) = 2760"
    by (simp add: clamp_timespan_def TARGET_TIMESPAN_def PAST_BLOCKS_def TARGET_SPACING_def CLAMP_def)
  let ?x = "(t * 2760) div 2880"
  have x: "0 \<le> ?x" "?x < t" using t by (simp_all add: int_div_less)
  have dgw: "dgw window pow_limit = target_to_compact (if ?x > pow_limit then pow_limit else ?x)"
    using len ne span
    by (simp add: dgw_def all avg hd_rev last_rev clamp Let_def)
      (simp add: TARGET_TIMESPAN_def PAST_BLOCKS_def TARGET_SPACING_def)
  have "0 \<le> (if ?x > pow_limit then pow_limit else ?x)" using x(1) L by simp
  from compact_loses [OF this] x(2) show ?thesis unfolding dgw by (auto split: if_splits)
qed

definition schedule :: "blk list" where
  "schedule = map (\<lambda>k. \<lparr>bk_nbits = 0x1E0FFFF0, bk_time = 120 * int k\<rparr>) [0..<24]"

lemma schedule_facts: "length schedule = PAST_BLOCKS" "b \<in> set schedule \<Longrightarrow> bk_nbits b = 0x1E0FFFF0"
  "bk_time (last schedule) - bk_time (hd schedule) = 23 * TARGET_SPACING"
  by (auto simp: schedule_def PAST_BLOCKS_def TARGET_SPACING_def last_map hd_map)

lemma schedule_target: "compact_to_target 0x1E0FFFF0 = 0xFFFF0 * 256 ^ 27"
  by (simp add: compact_to_target_def Let_def push_bit_eq_mult)

theorem on_schedule_still_gets_harder_witness:
  "compact_to_target (dgw schedule (2 ^ 240)) < 0xFFFF0 * 256 ^ 27"
proof (rule on_schedule_still_gets_harder)
  show "compact_to_target (bk_nbits b) = 0xFFFF0 * 256 ^ 27" if "b \<in> set schedule" for b
    using schedule_facts(2) [OF that] schedule_target by simp
qed (use schedule_facts in auto)

theorem retarget_is_bounded_witness:
  "compact_to_target (dgw schedule (2 ^ 240)) \<le> 3 * (0xFFFF0 * 256 ^ 27)"
proof -
  have "compact_to_target (dgw schedule (2 ^ 240)) \<le> min (2 ^ 240) (3 * (0xFFFF0 * 256 ^ 27))
    \<and> min (0xFFFF0 * 256 ^ 27 div 3) (2 ^ 240) * (2 ^ 15 - 1) \<le> compact_to_target (dgw schedule (2 ^ 240)) * 2 ^ 15"
  proof (rule retarget_is_bounded)
    have "last_blocks schedule = schedule" by (simp add: last_blocks_def schedule_facts)
    then show "0xFFFF0 * 256 ^ 27 \<le> compact_to_target (bk_nbits b) \<and> compact_to_target (bk_nbits b) \<le> 0xFFFF0 * 256 ^ 27"
      if "b \<in> set (last_blocks schedule)" for b
      using schedule_facts(2) [of b] that schedule_target by simp
  qed (simp_all add: schedule_facts)
  then show ?thesis by simp
qed

section \<open>What the exit code says\<close>

text \<open>With --validate the program exits 0 only when the chain it read has more than 24 blocks and
  every block after the first 24 carries exactly the compact target that the retarget gives for the
  24 blocks before it; no simulation is run otherwise.\<close>

theorem validated_exit_means_predicted:
  assumes "dgw_main node chainparams a w = (Inr 0, w')" and "da_validate a"
  shows "\<exists>blocks. length blocks > PAST_BLOCKS
    \<and> (\<forall>i. PAST_BLOCKS \<le> i \<longrightarrow> i < length blocks \<longrightarrow>
         dgw (map row_blk (take PAST_BLOCKS (drop (i - PAST_BLOCKS) blocks))) (pow_limit_from_source chainparams)
           = snd (snd (blocks ! i)))
    \<and> (cached_blocks (w_files w (da_cache a)) = Inr (Some blocks)
       \<or> (\<exists>v. read_chain node (da_conf a) w = (Inr (Some blocks), v)))"
proof -
  let ?L = "pow_limit_from_source chainparams"
  from assms obtain blocks where rep: "dgw_report a ?L blocks = Inr 0" and
    src: "cached_blocks (w_files w (da_cache a)) = Inr (Some blocks)
       \<or> (\<exists>v. read_chain node (da_conf a) w = (Inr (Some blocks), v))"
    by (auto simp: dgw_main_def Let_def bnd_ok_iff split: option.splits if_splits)
  from rep assms(2) have v: "validate blocks ?L = 0" by (auto simp: dgw_report_def Let_def split: if_splits)
  then have len: "PAST_BLOCKS < length blocks" by (auto simp: validate_def Let_def split: if_splits)
  have "predicted blocks ?L i = snd (snd (blocks ! i))" if "PAST_BLOCKS \<le> i" "i < length blocks" for i
    using v that by (auto simp: validate_def Let_def filter_empty_conv split: if_splits)
  moreover have "drop (i - PAST_BLOCKS) (take i blocks) = take PAST_BLOCKS (drop (i - PAST_BLOCKS) blocks)"
    if "PAST_BLOCKS \<le> i" for i using that by (simp add: drop_take)
  ultimately show ?thesis using len src by (auto simp: predicted_def)
qed


lemma cached_rows: "cached_blocks (Some (Doc (JArr (map row_json blocks)))) = Inr (Some blocks)"
proof -
  have "rmap jiter (map row_json blocks) = Inr (map (\<lambda>r. case r of (h, t, b) \<Rightarrow> [JInt h, JInt t, JInt b]) blocks)"
    by (induction blocks) (auto simp: row_json_def)
  moreover have "rmap cache_row (map row_json blocks) = Inr blocks"
    by (induction blocks) (auto simp: row_json_def cache_row_def)
  ultimately show ?thesis by (simp add: cached_blocks_def)
qed

definition sample_chain :: "chain_row list" where
  "sample_chain = map (\<lambda>k. (int k, 120 * int k, 0x1E0FFFF0)) [0..<24] @ [(24, 2880, dgw schedule POW_LIMIT_DEFAULT)]"

lemma sample_chain_valid: "validate sample_chain POW_LIMIT_DEFAULT = 0"
proof -
  have "map row_blk (take 24 sample_chain) = schedule"
    by (simp add: sample_chain_def schedule_def row_blk_def)
  then have "predicted sample_chain POW_LIMIT_DEFAULT 24 = dgw schedule POW_LIMIT_DEFAULT"
    by (simp add: predicted_def PAST_BLOCKS_def)
  moreover have "snd (snd (sample_chain ! 24)) = dgw schedule POW_LIMIT_DEFAULT"
    by (simp add: sample_chain_def nth_append)
  moreover have "[PAST_BLOCKS..<length sample_chain] = [24]"
    by (simp add: PAST_BLOCKS_def sample_chain_def upt_rec)
  ultimately show ?thesis by (simp add: validate_def Let_def)
qed

theorem validated_exit_means_predicted_witness:
  "\<exists>blocks. length blocks > PAST_BLOCKS \<and> cached_blocks (Some (Doc (JArr (map row_json sample_chain)))) = Inr (Some blocks)"
proof -
  let ?a = "\<lparr>da_validate = True, da_simulate = None, da_hours = Fin 1, da_conf = ''c'', da_cache = ''k''\<rparr>"
  let ?w = "\<lparr>w_node = (), w_files = [''k'' \<mapsto> Doc (JArr (map row_json sample_chain))], w_typed = [], w_log = []\<rparr>"
  have "sample_chain \<noteq> []" by (simp add: sample_chain_def)
  then have "dgw_main (\<lambda>n j. (Inl OSError, n)) None ?a ?w = (Inr 0, ?w)"
    by (simp add: dgw_main_def Let_def bnd_def cached_rows dgw_report_def sample_chain_valid asked_def lift_def
        pow_limit_from_source_def)
  from validated_exit_means_predicted [OF this] obtain blocks where b: "length blocks > PAST_BLOCKS"
    and src: "cached_blocks (w_files ?w ''k'') = Inr (Some blocks)
       \<or> (\<exists>v. read_chain (\<lambda>n j. (Inl OSError, n)) ''c'' ?w = (Inr (Some blocks), v))" by auto
  have "read_chain (\<lambda>n j. (Inl OSError, n)) ''c'' ?w = (Inr None, ?w)"
    by (simp add: read_chain_def rpc_conf_def)
  with b src show ?thesis by auto
qed

end
