(* ===== verification/Json_Text.thy ===== *)
theory Json_Text
  imports Py_Values
begin

text \<open>
  \<open>json.loads\<close>: the text of a document, for text whose characters are below 256 (an escape beyond
  them is refused). \<open>splitlines\<close> and \<open>split\<close> of a text are here too.
\<close>

section \<open>Lines and words\<close>

text \<open>\<open>s.split()\<close>.\<close>

function words :: "string \<Rightarrow> string list" where
  "words s =
     (case lstrip s of
        [] \<Rightarrow> []
      | c # r \<Rightarrow> takeWhile (\<lambda>x. \<not> is_space x) (c # r) # words (dropWhile (\<lambda>x. \<not> is_space x) (c # r)))"
  by pat_completeness auto
termination
proof (relation "measure length")
  fix s c r assume s: "lstrip s = c # r"
  have "\<not> is_space c"
    using s by (metis hd_dropWhile list.distinct(1) list.sel(1) lstrip_def)
  then have "length (dropWhile (\<lambda>x. \<not> is_space x) (c # r)) \<le> length r"
    by (simp add: length_dropWhile_le)
  moreover have "length (c # r) \<le> length s"
    unfolding s [symmetric] lstrip_def by (rule length_dropWhile_le)
  ultimately show "(dropWhile (\<lambda>x. \<not> is_space x) (c # r), s) \<in> measure length" by simp
qed simp

declare words.simps [simp del]

text \<open>\<open>s.splitlines()\<close>: a line ends at any of the line separators, \<open>CR LF\<close> counts once.\<close>

definition is_break :: "char \<Rightarrow> bool" where
  "is_break c \<longleftrightarrow> (of_char c :: nat) \<in> {10, 11, 12, 13, 28, 29, 30, 133}"

function text_lines :: "string \<Rightarrow> string list" where
  "text_lines s =
     (if s = [] then []
      else let line = takeWhile (\<lambda>c. \<not> is_break c) s; rest = dropWhile (\<lambda>c. \<not> is_break c) s
        in line # text_lines (case rest of
             [] \<Rightarrow> []
           | c # r \<Rightarrow> if c = CHR 0x0D \<and> starts_with [CHR 0x0A] r then tl r else r))"
  by pat_completeness auto
termination
proof (relation "measure length")
  fix s :: string and line rest
  assume "s \<noteq> []" and rest: "rest = dropWhile (\<lambda>c. \<not> is_break c) s"
  have "length rest \<le> length s" unfolding rest by (rule length_dropWhile_le)
  with \<open>s \<noteq> []\<close> have "length (case rest of [] \<Rightarrow> [] | c # r \<Rightarrow> if c = CHR 0x0D \<and> starts_with [CHR 0x0A] r then tl r else r)
      < length s"
    by (auto split: list.splits)
  then show "((case rest of [] \<Rightarrow> [] | c # r \<Rightarrow> if c = CHR 0x0D \<and> starts_with [CHR 0x0A] r then tl r else r), s)
      \<in> measure length" by simp
qed simp

declare text_lines.simps [simp del]

lemma no_spaces_strip: "list_all (\<lambda>c. \<not> is_space c) s \<Longrightarrow> strip s = s"
proof -
  assume s: "list_all (\<lambda>c. \<not> is_space c) s"
  have d: "list_all (\<lambda>c. \<not> is_space c) xs \<Longrightarrow> dropWhile is_space xs = xs" for xs by (cases xs) auto
  have "list_all (\<lambda>c. \<not> is_space c) (rev s)" using s by (simp add: list_all_iff)
  with d [OF s] d [of "rev s"] show ?thesis by (simp add: strip_def lstrip_def rstrip_def)
qed

lemma drop_underscores_digits: "list_all is_digit s \<Longrightarrow> drop_underscores s = Some s"
proof (induction s rule: drop_underscores.induct)
  case (1 a b s)
  moreover have "b \<noteq> CHR ''_''" "a \<noteq> CHR ''_''" using 1(3) by (auto simp: is_digit_def)
  ultimately show ?case by auto
qed (auto simp: is_digit_def)

lemma digit_no_space: "is_digit c \<Longrightarrow> \<not> is_space c"
  by (auto simp: is_digit_def is_space_def)

lemma int_string_chars: "list_all (\<lambda>c. \<not> is_space c) (int_string n)"
proof -
  have "list_all (\<lambda>c. \<not> is_space c) (nat_string k)" for k
    using nat_string_digits [of k] digit_no_space by (auto simp: list_all_iff)
  moreover have "\<not> is_space (CHR ''-'')" by (simp add: is_space_def)
  ultimately show ?thesis by (simp add: int_string_def)
qed

lemma int_of_int_string [simp]: "int_of_string (int_string n) = Inr n"
proof -
  have nz: "nat_string k \<noteq> []" for k by (simp add: nat_string_def)
  obtain d ds where ds: "nat_string (nat \<bar>n\<bar>) = d # ds" using nz by (meson list.exhaust)
  have dd: "list_all is_digit (d # ds)" using nat_string_digits [of "nat \<bar>n\<bar>"] by (simp only: ds)
  have "split_sign (int_string n) = (if n < 0 then -1 else 1, nat_string (nat \<bar>n\<bar>))"
    using ds dd by (auto simp: int_string_def split_sign_def is_digit_def)
  moreover have "int (string_nat (nat_string (nat \<bar>n\<bar>))) = \<bar>n\<bar>" by simp
  ultimately show ?thesis
    using drop_underscores_digits [OF nat_string_digits [of "nat \<bar>n\<bar>"]] nat_string_digits [of "nat \<bar>n\<bar>"] nz
    by (auto simp: int_of_string_def no_spaces_strip [OF int_string_chars])
qed

lemma takeWhile_dropWhile_at:
  assumes "list_all P l" "\<not> P c"
  shows "takeWhile P (l @ c # r) = l" "dropWhile P (l @ c # r) = c # r"
  using assms by (simp_all add: takeWhile_append2 dropWhile_append2 list_all_iff)

lemma text_lines_Cons:
  "list_all (\<lambda>c. \<not> is_break c) l \<Longrightarrow> text_lines (l @ CHR 0x0A # r) = l # text_lines r"
  using takeWhile_dropWhile_at [of "\<lambda>c. \<not> is_break c" l "CHR 0x0A" r]
  by (subst text_lines.simps) (simp add: is_break_def)

lemma dropWhile_none: "list_all (\<lambda>c. \<not> P c) l \<Longrightarrow> dropWhile P l = l"
  by (cases l) auto

lemma words_two:
  assumes "list_all (\<lambda>c. \<not> is_space c) a" "list_all (\<lambda>c. \<not> is_space c) b" "a \<noteq> []" "b \<noteq> []"
  shows "words (a @ CHR 0x20 # b) = [a, b]"
proof -
  have s: "is_space (CHR 0x20)" by (simp add: is_space_def)
  obtain x xs where a: "a = x # xs" using assms(3) by (cases a) auto
  obtain y ys where b: "b = y # ys" using assms(4) by (cases b) auto
  have x: "\<not> is_space x" using assms(1) a by simp
  then have 1: "lstrip (a @ CHR 0x20 # b) = x # (xs @ CHR 0x20 # b)" using a by (simp add: lstrip_def)
  have "words (a @ CHR 0x20 # b) = a # words (CHR 0x20 # b)"
    using takeWhile_dropWhile_at [OF assms(1), of "CHR 0x20" b] s
    by (subst words.simps, unfold 1) (use x a in simp)
  also have "lstrip (CHR 0x20 # b) = y # ys" using assms(2) s b by (simp add: lstrip_def)
  then have "words (CHR 0x20 # b) = takeWhile (\<lambda>x. \<not> is_space x) b # words (dropWhile (\<lambda>x. \<not> is_space x) b)"
    unfolding b by (subst words.simps) simp
  also have "takeWhile (\<lambda>x. \<not> is_space x) b = b"
    using assms(2) by (simp add: takeWhile_eq_all_conv list_all_iff)
  also have "dropWhile (\<lambda>x. \<not> is_space x) b = []"
    using assms(2) by (simp add: dropWhile_eq_Nil_conv list_all_iff)
  finally show ?thesis by (simp add: words.simps [of "[]"] lstrip_def)
qed

lemma int_string_Nil: "int_string n \<noteq> []"
  by (simp add: int_string_def nat_string_def)

lemma no_space_no_break: "\<not> is_space c \<Longrightarrow> \<not> is_break c"
  by (auto simp: is_space_def is_break_def)

section \<open>Documents\<close>

definition ws :: "string \<Rightarrow> string" where
  "ws s = dropWhile (\<lambda>c. (of_char c :: nat) \<in> {9, 10, 13, 32}) s"

definition hex_digit :: "char \<Rightarrow> nat option" where
  "hex_digit c =
     (if is_digit c then Some (digit_val c)
      else let l = of_char (lower_char c) :: nat in if 97 \<le> l \<and> l \<le> 102 then Some (l - 87) else None)"

text \<open>The text after an opening quote: its value and what follows the closing quote.\<close>

fun jp_string :: "string \<Rightarrow> (string \<times> string) option" where
  "jp_string [] = None"
| "jp_string (c # s) =
     (if c = CHR 0x22 then Some ([], s)
      else if c = CHR 0x5C then
        (case s of
           [] \<Rightarrow> None
         | e # r \<Rightarrow>
             if e = CHR ''u'' then
               (case r of
                  h1 # h2 # h3 # h4 # r' \<Rightarrow>
                    (case (hex_digit h1, hex_digit h2, hex_digit h3, hex_digit h4) of
                       (Some a, Some b, Some x, Some d) \<Rightarrow>
                         let n = ((a * 16 + b) * 16 + x) * 16 + d
                         in if 255 < n then None
                            else map_option (\<lambda>(t, r''). (char_of n # t, r'')) (jp_string r')
                     | _ \<Rightarrow> None)
                | _ \<Rightarrow> None)
             else
               (case map_of [(CHR 0x22, CHR 0x22), (CHR 0x5C, CHR 0x5C), (CHR ''/'', CHR ''/''),
                    (CHR ''b'', CHR 0x08), (CHR ''f'', CHR 0x0C), (CHR ''n'', CHR 0x0A),
                    (CHR ''r'', CHR 0x0D), (CHR ''t'', CHR 0x09)] e of
                  Some x \<Rightarrow> map_option (\<lambda>(t, r'). (x # t, r')) (jp_string r)
                | None \<Rightarrow> None))
      else if (of_char c :: nat) < 32 then None
      else map_option (\<lambda>(t, r). (c # t, r)) (jp_string s))"

text \<open>A number: an integer unless it has a fraction or an exponent.\<close>

definition jp_number :: "string \<Rightarrow> (json \<times> string) option" where
  "jp_number s0 =
     (let (neg, s) = (case s0 of c # r \<Rightarrow> if c = CHR ''-'' then (True, r) else (False, s0) | [] \<Rightarrow> (False, s0));
          ip = (if starts_with ''0'' s then ''0'' else takeWhile is_digit s);
          r1 = drop (length ip) s
      in if ip = [] then None
         else
         let (fp, r2) = (if starts_with ''.'' r1 \<and> takeWhile is_digit (tl r1) \<noteq> []
                         then (takeWhile is_digit (tl r1), dropWhile is_digit (tl r1)) else ([], r1));
             (ex, r3) = (case r2 of
                c # r \<Rightarrow>
                  if lower_char c = CHR ''e'' then
                    (case split_sign r of (sg, r') \<Rightarrow>
                       if takeWhile is_digit r' = [] then (None, r2)
                       else (Some (sg * int (string_nat (takeWhile is_digit r'))), dropWhile is_digit r'))
                  else (None, r2)
              | [] \<Rightarrow> (None, r2))
         in if fp = [] \<and> ex = None then Some (JInt ((if neg then - 1 else 1) * int (string_nat ip)), r3)
            else let m = of_nat (string_nat (ip @ fp)) :: rat;
                     e = (case ex of Some n \<Rightarrow> n | None \<Rightarrow> 0) - int (length fp)
              in Some (JFloat (fl ((if neg then - 1 else 1) * m * 10 powi e)), r3))"

definition jp_literal :: "string \<Rightarrow> (json \<times> string) option" where
  "jp_literal s =
     (if starts_with ''null'' s then Some (JNull, drop 4 s)
      else if starts_with ''true'' s then Some (JBool True, drop 4 s)
      else if starts_with ''false'' s then Some (JBool False, drop 5 s)
      else if starts_with ''NaN'' s then Some (JFloat NaN, drop 3 s)
      else if starts_with ''Infinity'' s then Some (JFloat PosInf, drop 8 s)
      else if starts_with ''-Infinity'' s then Some (JFloat NegInf, drop 9 s)
      else jp_number s)"

text \<open>
  The tests of the lengths hold whenever they are reached; they make the recursion visible.
\<close>

function jp_value :: "string \<Rightarrow> (json \<times> string) option"
  and jp_items :: "string \<Rightarrow> json list \<Rightarrow> (json \<times> string) option"
  and jp_members :: "string \<Rightarrow> (string \<times> json) list \<Rightarrow> (json \<times> string) option" where
  "jp_value s =
     (case s of
        [] \<Rightarrow> None
      | c # r \<Rightarrow>
          if c = CHR 0x22 then map_option (\<lambda>(t, r'). (JStr t, r')) (jp_string r)
          else if c = CHR ''['' then
            (if starts_with '']'' (ws r) then Some (JArr [], tl (ws r))
             else if length (ws r) < length s then jp_items (ws r) [] else None)
          else if c = CHR 0x7B then
            (if starts_with ''}'' (ws r) then Some (JObj [], tl (ws r))
             else if length (ws r) < length s then jp_members (ws r) [] else None)
          else jp_literal s)"
| "jp_items s acc =
     (case jp_value s of
        None \<Rightarrow> None
      | Some (v, r) \<Rightarrow>
          (case ws r of
             [] \<Rightarrow> None
           | c # r' \<Rightarrow>
               if c = CHR '']'' then Some (JArr (acc @ [v]), r')
               else if c = CHR '','' \<and> length (ws r') < length s then jp_items (ws r') (acc @ [v])
               else None))"
| "jp_members s acc =
     (if \<not> starts_with [CHR 0x22] s then None
      else case jp_string (tl s) of
        None \<Rightarrow> None
      | Some (key, r) \<Rightarrow>
          if \<not> starts_with '':'' (ws r) \<or> \<not> length (ws (tl (ws r))) < length s then None
          else (case jp_value (ws (tl (ws r))) of
             None \<Rightarrow> None
           | Some (v, r2) \<Rightarrow>
               (case ws r2 of
                  [] \<Rightarrow> None
                | c # r' \<Rightarrow>
                    if c = CHR 0x7D then Some (JObj (dict_set key v acc), r')
                    else if c = CHR '','' \<and> length (ws r') < length s then jp_members (ws r') (dict_set key v acc)
                    else None)))"
  by pat_completeness auto
termination
  by (relation "measure (case_sum (\<lambda>s. 2 * length s) (case_sum (\<lambda>(s, _). 2 * length s + 1) (\<lambda>(s, _). 2 * length s + 1)))")
    auto

declare jp_value.simps [simp del] jp_items.simps [simp del] jp_members.simps [simp del]

definition json_loads :: "string \<Rightarrow> py_error + json" where
  "json_loads s =
     (case jp_value (ws s) of
        Some (v, r) \<Rightarrow> if ws r = [] then Inr v else Inl ValueError
      | None \<Rightarrow> Inl ValueError)"

end
