(* ===== verification/Host_Shell.thy ===== *)
theory Host_Shell
  imports Operator Text_Files Json_Text
begin

text \<open>
  What the monitoring scripts share: a machine with files and directories, and commands that are
  started on it or, over \<open>ssh\<close>, on another one. The commands are programs the scripts cannot see
  into: the parameter \<open>shell\<close> gives their outcome from the argument list, the text on standard
  input and the time limit. Every command and its outcome is logged.
\<close>

section \<open>Commands\<close>

datatype outcome = Exited int string string | Timed_Out | Not_Started

record 'n host_world =
  hw_node :: 'n
  hw_calls :: "(string list \<times> string \<times> outcome) list"
  hw_files :: "(string \<times> stored) list"
  hw_dirs :: "string \<Rightarrow> bool"
  hw_denied :: "string \<Rightarrow> bool"

type_synonym 'n shell = "'n \<Rightarrow> string list \<Rightarrow> string \<Rightarrow> int \<Rightarrow> outcome \<times> 'n"
type_synonym ('n, 'r, 'a) host_task = "(('n, 'r) host_world_scheme, py_error, 'a) prog"

text \<open>\<open>subprocess.run\<close>: the exit status and both streams, an expired limit or no such program.\<close>

definition subprocess_run :: "'n shell \<Rightarrow> string list \<Rightarrow> string \<Rightarrow> int \<Rightarrow> ('n, 'r, int \<times> string \<times> string) host_task" where
  "subprocess_run sh argv stdin timeout = (\<lambda>w.
     case sh (hw_node w) argv stdin timeout of (res, n) \<Rightarrow>
       ((case res of Exited rc out err \<Rightarrow> Inr (rc, out, err)
         | Timed_Out \<Rightarrow> Inl TimeoutExpired
         | Not_Started \<Rightarrow> Inl OSError),
        w\<lparr>hw_node := n, hw_calls := hw_calls w @ [(argv, stdin, res)]\<rparr>))"

section \<open>Files\<close>

text \<open>\<open>json.load(open(p))\<close>.\<close>

definition host_load :: "string \<Rightarrow> ('n, 'r, json) host_task" where
  "host_load p = (\<lambda>w. (case map_of (hw_files w) p of
      None \<Rightarrow> Inl OSError | Some (Doc j) \<Rightarrow> Inr j | Some (Text t) \<Rightarrow> json_loads t, w))"

definition parent_dir :: "string \<Rightarrow> string" where
  "parent_dir p = (if path_dirname p = [] then ''.'' else path_dirname p)"

definition host_write :: "string \<Rightarrow> stored \<Rightarrow> ('n, 'r, unit) host_task" where
  "host_write p c = (\<lambda>w.
     if hw_denied w p \<or> hw_dirs w p \<or> \<not> hw_dirs w (parent_dir p) then (Inl OSError, w)
     else (Inr (), w\<lparr>hw_files := dict_set p c (hw_files w)\<rparr>))"

text \<open>\<open>os.replace\<close>.\<close>

definition host_replace :: "string \<Rightarrow> string \<Rightarrow> ('n, 'r, unit) host_task" where
  "host_replace src dst = (\<lambda>w.
     case map_of (hw_files w) src of
       None \<Rightarrow> (Inl OSError, w)
     | Some c \<Rightarrow>
         if hw_denied w dst \<or> hw_dirs w dst \<or> \<not> hw_dirs w (parent_dir dst) then (Inl OSError, w)
         else (Inr (), w\<lparr>hw_files := dict_set dst c (dict_pop src (hw_files w))\<rparr>))"

definition host_makedirs :: "string \<Rightarrow> ('n, 'r, unit) host_task" where
  "host_makedirs d = (\<lambda>w.
     if hw_dirs w d then (Inr (), w)
     else if hw_denied w d \<or> map_of (hw_files w) d \<noteq> None then (Inl OSError, w)
     else (Inr (), w\<lparr>hw_dirs := (\<lambda>p. hw_dirs w p \<or> p = d \<or> starts_with (p @ ''/'') d)\<rparr>))"

text \<open>\<open>sorted(os.listdir(d))\<close>, of the files.\<close>

definition host_listdir :: "string \<Rightarrow> ('n, 'r, string list) host_task" where
  "host_listdir d = (\<lambda>w.
     if hw_dirs w d
     then (Inr (sort (map path_basename
            (filter (\<lambda>p. path_join d (path_basename p) = p) (map fst (hw_files w))))), w)
     else (Inl OSError, w))"

section \<open>Handlers\<close>

text \<open>\<open>try: m; except\<close> the exceptions that satisfy \<open>P\<close>; the exception is then a value.\<close>

definition attempt :: "(py_error \<Rightarrow> bool) \<Rightarrow> ('w, py_error, 'a) prog \<Rightarrow> ('w, py_error, py_error + 'a) prog" where
  "attempt P m = (\<lambda>w. case m w of
      (Inl e, w') \<Rightarrow> (if P e then Inr (Inl e) else Inl e, w')
    | (Inr x, w') \<Rightarrow> (Inr (Inr x), w'))"

text \<open>\<open>except Exception\<close>: all but \<open>SystemExit\<close>.\<close>

fun is_exception :: "py_error \<Rightarrow> bool" where
  "is_exception (SystemExit _) = False"
| "is_exception _ = True"

section \<open>Rules\<close>

lemma triple_attempt:
  assumes "triple P m (\<lambda>x. Q (Inr x)) E'" "\<And>e w. E' w \<Longrightarrow> Q (Inl e) w" "\<And>w. E' w \<Longrightarrow> E w"
  shows "triple P (attempt X m) Q E"
  using assms unfolding triple_def attempt_def by (auto split: prod.splits sum.splits if_splits)

lemma preserves_attempt [preserves_rules]: "preserves I m \<Longrightarrow> preserves I (attempt X m)"
  unfolding preserves_def attempt_def by (auto split: prod.splits sum.splits)

lemma preserves_let [preserves_rules]: "(\<And>x. preserves I (f x)) \<Longrightarrow> preserves I (Let t f)"
  by (simp add: Let_def)

lemma preserves_prod [preserves_rules]:
  "(\<And>a b. preserves I (f a b)) \<Longrightarrow> preserves I (case p of (a, b) \<Rightarrow> f a b)"
  by (cases p) simp

lemma preserves_sum [preserves_rules]:
  "(\<And>a. preserves I (f a)) \<Longrightarrow> (\<And>b. preserves I (g b)) \<Longrightarrow>
   preserves I (case s of Inl a \<Rightarrow> f a | Inr b \<Rightarrow> g b)"
  by (cases s) simp_all

lemma preserves_option [preserves_rules]:
  "preserves I f \<Longrightarrow> (\<And>b. preserves I (g b)) \<Longrightarrow> preserves I (case s of None \<Rightarrow> f | Some b \<Rightarrow> g b)"
  by (cases s) simp_all

lemma preserves_list [preserves_rules]:
  "preserves I f \<Longrightarrow> (\<And>b bs. preserves I (g b bs)) \<Longrightarrow> preserves I (case s of [] \<Rightarrow> f | b # bs \<Rightarrow> g b bs)"
  by (cases s) simp_all

text \<open>The file operations start no command.\<close>

lemma host_files_calls:
  "hw_calls (snd (host_load p w)) = hw_calls w"
  "hw_calls (snd (host_write p c w)) = hw_calls w"
  "hw_calls (snd (host_replace p q w)) = hw_calls w"
  "hw_calls (snd (host_makedirs p w)) = hw_calls w"
  "hw_calls (snd (host_listdir p w)) = hw_calls w"
  by (auto simp: host_load_def host_write_def host_replace_def host_makedirs_def host_listdir_def
      split: option.splits)

section \<open>What can be caught\<close>

text \<open>Code that raises only what \<open>except Exception\<close> catches.\<close>

named_theorems ordinary_rules \<open>results and programs that raise ordinary exceptions only\<close>

definition ordinary :: "py_error + 'a \<Rightarrow> bool" where
  "ordinary r = (case r of Inl e \<Rightarrow> is_exception e | Inr _ \<Rightarrow> True)"

definition ordinary_prog :: "('w, py_error, 'a) prog \<Rightarrow> bool" where
  "ordinary_prog m \<longleftrightarrow> (\<forall>w. ordinary (fst (m w)))"

lemma ordinary_rbind [ordinary_rules]: "ordinary m \<Longrightarrow> (\<And>x. ordinary (f x)) \<Longrightarrow> ordinary (rbind m f)"
  by (cases m) (simp_all add: ordinary_def)

lemma ordinary_basic [ordinary_rules]: "ordinary (Inr x)" "is_exception e \<Longrightarrow> ordinary (Inl e)"
  by (simp_all add: ordinary_def)

lemma ordinary_rmap [ordinary_rules]: "(\<And>x. ordinary (f x)) \<Longrightarrow> ordinary (rmap f xs)"
  by (induction xs) (auto intro!: ordinary_rules)

lemma ordinary_int_of_string [ordinary_rules]: "ordinary (int_of_string s)"
  by (auto simp: int_of_string_def ordinary_def split: prod.splits option.splits)

lemma ordinary_json [ordinary_rules]:
  "ordinary (jget v k d)" "ordinary (jitem v k)" "ordinary (jiter v)" "ordinary (jint v)" "ordinary (json_loads t)"
  "ordinary (float_of_int n)"
proof -
  show "ordinary (jint v)"
    by (cases v rule: jint.cases) (simp_all add: ordinary_def ordinary_int_of_string [unfolded ordinary_def])
qed (cases v; simp add: ordinary_def json_loads_def float_of_int_def split: option.splits pyfloat.splits prod.splits)+

lemma ordinary_bnd [ordinary_rules]:
  "ordinary_prog m \<Longrightarrow> (\<And>x. ordinary_prog (f x)) \<Longrightarrow> ordinary_prog (bnd m f)"
proof -
  assume m: "ordinary_prog m" and f: "\<And>x. ordinary_prog (f x)"
  have "ordinary (fst (bnd m f w))" for w
  proof (cases "m w")
    case (Pair r v)
    with m have "ordinary r" by (metis fst_conv ordinary_prog_def)
    with f Pair show ?thesis by (cases r) (simp_all add: bnd_def ordinary_def ordinary_prog_def)
  qed
  then show ?thesis by (simp add: ordinary_prog_def)
qed

lemma ordinary_prog_basic [ordinary_rules]:
  "ordinary_prog (ret x)" "is_exception e \<Longrightarrow> ordinary_prog (throw e)" "ordinary r \<Longrightarrow> ordinary_prog (lift r)"
  by (simp_all add: ordinary_prog_def ordinary_def ret_def throw_def lift_def)

lemma ordinary_attempt [ordinary_rules]: "ordinary_prog m \<Longrightarrow> ordinary_prog (attempt P m)"
  by (auto simp: ordinary_prog_def ordinary_def attempt_def split: prod.splits sum.splits) (metis fst_conv sum.case(1))

lemma ordinary_cases [ordinary_rules]:
  "(c \<Longrightarrow> ordinary_prog m) \<Longrightarrow> (\<not> c \<Longrightarrow> ordinary_prog n) \<Longrightarrow> ordinary_prog (if c then m else n)"
  "(\<And>a. ordinary_prog (g a)) \<Longrightarrow> (\<And>b. ordinary_prog (h b)) \<Longrightarrow> ordinary_prog (case s of Inl a \<Rightarrow> g a | Inr b \<Rightarrow> h b)"
  "(\<And>a b. ordinary_prog (k a b)) \<Longrightarrow> ordinary_prog (case p of (a, b) \<Rightarrow> k a b)"
  by (simp_all split: sum.splits prod.splits)

lemma ordinary_for_each [ordinary_rules]: "(\<And>x. ordinary_prog (f x)) \<Longrightarrow> ordinary_prog (for_each f xs)"
  by (induction xs) (auto intro!: ordinary_rules)

lemma ordinary_host [ordinary_rules]:
  "ordinary_prog (subprocess_run sh argv stdin t)" "ordinary_prog (host_load p)" "ordinary_prog (host_write p f)"
  "ordinary_prog (host_replace p q)" "ordinary_prog (host_makedirs d)" "ordinary_prog (host_listdir d)"
  using ordinary_json(5)
  by (auto simp: ordinary_prog_def ordinary_def subprocess_run_def host_load_def host_write_def host_replace_def
      host_makedirs_def host_listdir_def split: option.splits prod.splits outcome.splits stored.splits)

lemma ordinary_at: "(\<And>v. ordinary_prog (m v)) \<Longrightarrow> ordinary_prog (\<lambda>w. m w w)"
  by (simp add: ordinary_prog_def)

lemma ordinary_caught: "ordinary_prog m \<Longrightarrow> \<exists>x w'. attempt is_exception m w = (Inr x, w')"
proof -
  assume m: "ordinary_prog m"
  obtain r w' where r: "m w = (r, w')" by fastforce
  with m have "ordinary r" by (metis fst_conv ordinary_prog_def)
  with r show ?thesis by (cases r) (auto simp: attempt_def ordinary_def)
qed

end
