(* ===== verification/Reorg.thy ===== *)
theory Reorg
  imports Host_Shell
begin

text \<open>
  \<open>scripts/check_reorg.py\<close>: the watcher that records block hashes, re-reads a bounded rotating
  part of them on every run, and reports a block that is no longer where it was. The commands it
  runs and the clock are the parameters \<open>sh\<close> and \<open>clock\<close>; what it prints is not modelled, the
  three lists it counts are.
\<close>

section \<open>Findings\<close>

datatype finding =
    Branch string int json json json
  | Rewritten string json "json option" int "int option" int json "(int \<times> json \<times> string) list"
  | Earlier_Alarm string

datatype warning = Shallow_Branch string int json json json | Not_Narrowed string py_error | No_Alarm_File py_error

datatype unmeasured = Not_Answering string py_error | Unreadable_Reply string | No_Hashes string py_error | Crashed string py_error

record 'n reorg_world = "'n host_world" +
  rg_fails :: "finding list"
  rg_warns :: "warning list"
  rg_unknown :: "unmeasured list"
  rg_announced :: "string list"

type_synonym ('n, 'a) watch = "('n reorg_world, py_error, 'a) prog"

definition bad :: "finding \<Rightarrow> ('n, unit) watch" where
  "bad m = (\<lambda>w. (Inr (), w\<lparr>rg_fails := rg_fails w @ [m]\<rparr>))"

definition warn :: "warning \<Rightarrow> ('n, unit) watch" where
  "warn m = (\<lambda>w. (Inr (), w\<lparr>rg_warns := rg_warns w @ [m]\<rparr>))"

definition unmeasured :: "unmeasured \<Rightarrow> ('n, unit) watch" where
  "unmeasured m = (\<lambda>w. (Inr (), w\<lparr>rg_unknown := rg_unknown w @ [m]\<rparr>))"

text \<open>The sentence of a finding.\<close>

definition depth_phrase :: "json \<Rightarrow> json option \<Rightarrow> int \<Rightarrow> int option \<Rightarrow> string" where
  "depth_phrase depth deepest shallowest flr =
     (case deepest of
        Some d \<Rightarrow>
          if jtruthy d \<and> d \<noteq> depth
          then ''between '' @ jstr depth @ '' and '' @ jstr d @
            '' block(s) deep -- the chain was rewritten from a height above '' @
            (case flr of Some f \<Rightarrow> int_string f | None \<Rightarrow> ''None'') @ '' and no higher than '' @ int_string shallowest
          else jstr depth @ '' block(s) deep -- the chain was rewritten from height '' @ int_string shallowest
      | None \<Rightarrow> jstr depth @ '' block(s) deep -- the chain was rewritten from height '' @ int_string shallowest)"

fun finding_text :: "finding \<Rightarrow> string" where
  "finding_text (Branch label d height status hash) =
     label @ '': a competing branch '' @ int_string d @ '' blocks deep at height '' @ jstr height @
     '' ('' @ jstr status @ '') -- '' @ jstr hash @ ''...''"
| "finding_text (Rewritten label depth deepest shallowest flr tip prev_tip changed) =
     label @ '': REORGANISATION '' @ depth_phrase depth deepest shallowest flr @ ''. '' @
     nat_string (length changed) @ '' recorded height(s) no longer hold the block they held. Tip is now '' @
     int_string tip @ (if jtruthy prev_tip then '', was '' @ jstr prev_tip @ ''.'' else ''.'')"
| "finding_text (Earlier_Alarm p) = ''an earlier run recorded a reorganisation: '' @ p"

section \<open>Commands\<close>

definition OFFSETS :: "int list" where
  "OFFSETS = [1, 2, 3, 4, 5, 6, 8, 10, 15, 20, 30, 50, 75, 100, 150, 200, 300, 500, 1000]"

definition FORGET_AFTER :: int where "FORGET_AFTER = 5000"

definition AUDIT_PER_RUN :: nat where "AUDIT_PER_RUN = 60"

definition run_argv :: "string option \<Rightarrow> string list" where
  "run_argv host =
     (case host of
        None \<Rightarrow> [''bash'', ''-ls'']
      | Some h \<Rightarrow>
          if h \<in> {'''', ''local'', ''localhost''} then [''bash'', ''-ls'']
          else [''ssh'', ''-o'', ''BatchMode=yes'', ''-o'', ''ConnectTimeout=15'', ''root@'' @ h, ''bash -s''])"

definition run_host :: "'n shell \<Rightarrow> string option \<Rightarrow> string \<Rightarrow> int \<Rightarrow> ('n, string) watch" where
  "run_host sh host cmd timeout =
     bnd (subprocess_run sh (run_argv host) cmd timeout) (\<lambda>(rc, out, err).
       if rc \<noteq> 0 then throw RuntimeError else ret out)"

definition cli_command :: "string \<Rightarrow> string option \<Rightarrow> py_error + string" where
  "cli_command network datadir =
     rbind (case map_of [(''mainnet'', ''-chain=main -conf=/root/.wam-mainnet/wam.conf -datadir=/root/.wam-mainnet''),
         (''testnet'', ''-testnet''), (''regtest'', ''-regtest'')] network of
       None \<Rightarrow> Inl (KeyError network) | Some flag \<Rightarrow> Inr flag) (\<lambda>flag.
     rbind (case datadir of
         Some d \<Rightarrow>
           if d \<noteq> [] then
             (case map_of [(''mainnet'', ''-chain=main''), (''testnet'', ''-testnet''), (''regtest'', ''-regtest'')] network of
                None \<Rightarrow> Inl (KeyError network) | Some f \<Rightarrow> Inr (f @ '' -datadir='' @ d))
           else Inr flag
       | None \<Rightarrow> Inr flag) (\<lambda>flag.
     Inr (''/opt/wam-current-bin/wam-cli '' @ flag)))"

section \<open>The state of a host\<close>

type_synonym hash_record = "(int \<times> json) list"

definition host_tag :: "string option \<Rightarrow> string" where
  "host_tag host = (case host of Some h \<Rightarrow> if h = [] then ''local'' else h | None \<Rightarrow> ''local'')"

definition state_path :: "string \<Rightarrow> string option \<Rightarrow> string \<Rightarrow> string" where
  "state_path directory host network =
     path_join directory (''reorg-'' @ network @ ''-'' @
       map (\<lambda>c. if c = CHR ''/'' \<or> c = CHR '':'' then CHR ''_'' else c) (host_tag host) @ ''.json'')"

definition recorded_heights :: "json \<Rightarrow> py_error + hash_record" where
  "recorded_heights d =
     rbind (jget d ''heights'' (JObj [])) (\<lambda>hs. case hs of
       JObj kvs \<Rightarrow> rbind (rmap (\<lambda>(k, v). rbind (int_of_string k) (\<lambda>h. Inr (h, v))) kvs)
         (\<lambda>rows. Inr (foldl (\<lambda>known (h, v). dict_set h v known) [] rows))
     | _ \<Rightarrow> Inl AttributeError)"

definition load_state :: "string \<Rightarrow> ('n, hash_record \<times> json) watch" where
  "load_state path =
     bnd (attempt (\<lambda>e. e = OSError \<or> e = ValueError)
           (bnd (host_load path) (\<lambda>d. bnd (lift (recorded_heights d)) (\<lambda>hs. ret (hs, d)))))
       (\<lambda>r. case r of Inl e \<Rightarrow> ret ([], JObj []) | Inr x \<Rightarrow> ret x)"

definition state_doc :: "hash_record \<Rightarrow> int \<Rightarrow> int \<Rightarrow> int \<Rightarrow> json" where
  "state_doc heights tip cursor now =
     JObj [(''heights'', JObj (map (\<lambda>(k, v). (int_string k, v)) heights)),
       (''tip'', JInt tip), (''cursor'', JInt cursor), (''written'', JInt now)]"

definition save_state :: "('n \<Rightarrow> int) \<Rightarrow> string \<Rightarrow> hash_record \<Rightarrow> int \<Rightarrow> int \<Rightarrow> ('n, unit) watch" where
  "save_state clock path heights tip cursor =
     bnd (host_makedirs (parent_dir path)) (\<lambda>_.
     bnd (\<lambda>w. host_write (path @ ''.tmp'') (Doc (state_doc heights tip cursor (clock (hw_node w)))) w) (\<lambda>_.
     host_replace (path @ ''.tmp'') path))"

section \<open>Evidence\<close>

text \<open>\<open>time.strftime\<close> of \<open>gmtime\<close>: the civil date of a day number, then the time of the day.\<close>

definition civil :: "int \<Rightarrow> int \<times> int \<times> int" where
  "civil days =
     (let z = days + 719468; era = z div 146097; doe = z mod 146097;
          yoe = (doe - doe div 1460 + doe div 36524 - doe div 146096) div 365;
          doy = doe - (365 * yoe + yoe div 4 - yoe div 100);
          mp = (5 * doy + 2) div 153;
          m = (if mp < 10 then mp + 3 else mp - 9)
      in (yoe + era * 400 + (if m \<le> 2 then 1 else 0), m, doy - (153 * mp + 2) div 5 + 1))"

definition two_digits :: "int \<Rightarrow> string" where
  "two_digits n = (if n < 10 then CHR ''0'' # int_string n else int_string n)"

definition utc_stamp :: "int \<Rightarrow> string" where
  "utc_stamp t =
     (case civil (t div 86400) of (y, m, d) \<Rightarrow>
        int_string y @ two_digits m @ two_digits d @ ''T'' @ two_digits (t mod 86400 div 3600) @
        two_digits (t mod 3600 div 60) @ two_digits (t mod 60) @ ''Z'')"

definition optional_json :: "('a \<Rightarrow> json) \<Rightarrow> 'a option \<Rightarrow> json" where
  "optional_json f x = (case x of None \<Rightarrow> JNull | Some y \<Rightarrow> f y)"

definition changed_json :: "int \<times> json \<times> string \<Rightarrow> json" where
  "changed_json = (\<lambda>(h, was, now). JObj [(''height'', JInt h), (''was'', was), (''now'', JStr now)])"

fun finding_detail :: "finding \<Rightarrow> json" where
  "finding_detail (Rewritten label depth deepest shallowest flr tip prev_tip changed) =
     JObj [(''message'', JStr (finding_text (Rewritten label depth deepest shallowest flr tip prev_tip changed))),
       (''depth'', depth), (''depth_worst_case'', optional_json id deepest),
       (''from_height'', JInt shallowest), (''from_height_floor'', optional_json JInt flr),
       (''tip'', JInt tip), (''previous_tip'', prev_tip), (''changed'', JArr (map changed_json changed))]"
| "finding_detail f = JObj [(''message'', JStr (finding_text f))]"

definition alarm_path :: "string \<Rightarrow> string \<Rightarrow> int \<Rightarrow> string" where
  "alarm_path state_dir network t = path_join state_dir (''ALARM-'' @ network @ ''-'' @ utc_stamp t @ ''.json'')"

definition raise_alarm :: "('n \<Rightarrow> int) \<Rightarrow> string \<Rightarrow> string \<Rightarrow> string option \<Rightarrow> json \<Rightarrow> ('n, unit) watch" where
  "raise_alarm clock state_dir network host detail =
     bnd (host_makedirs state_dir) (\<lambda>_ w.
       host_write (alarm_path state_dir network (clock (hw_node w)))
         (Doc (JObj [(''utc'', JStr (utc_stamp (clock (hw_node w)))), (''network'', JStr network),
            (''host'', JStr (host_tag host)), (''detail'', detail)])) w)"

definition outstanding_alarms :: "string \<Rightarrow> ('n, string list) watch" where
  "outstanding_alarms state_dir =
     bnd (attempt (\<lambda>e. e = OSError) (host_listdir state_dir)) (\<lambda>r. case r of
       Inl e \<Rightarrow> ret []
     | Inr names \<Rightarrow> ret (filter (starts_with ''ALARM-'') names))"

section \<open>What a run re-reads\<close>

definition near_heights :: "int \<Rightarrow> int list" where
  "near_heights tip = filter (\<lambda>h. 0 \<le> h) (map (\<lambda>d. tip - d) OFFSETS)"

definition old_heights :: "int \<Rightarrow> int list \<Rightarrow> int list" where
  "old_heights tip known =
     sort (filter (\<lambda>h. tip - FORGET_AFTER < h \<and> h \<le> tip \<and> h \<notin> set (near_heights tip)) known)"

definition slice_from :: "'a list \<Rightarrow> nat \<Rightarrow> nat \<Rightarrow> 'a list" where
  "slice_from xs start n = take n (drop start (xs @ xs))"

definition heights_to_check :: "int \<Rightarrow> int list \<Rightarrow> int \<Rightarrow> int list \<times> int" where
  "heights_to_check tip known cursor =
     (let near = near_heights tip; old = old_heights tip known
      in if old = [] then (sort near, 0)
         else let start = nat (cursor mod int (length old))
              in (sort (remdups (near @ slice_from old start AUDIT_PER_RUN)),
                  (int start + int AUDIT_PER_RUN) mod int (length old)))"

section \<open>Reading hashes\<close>

fun add_hashes :: "string list \<Rightarrow> (int \<times> string) list \<Rightarrow> py_error + (int \<times> string) list" where
  "add_hashes [] got = Inr got"
| "add_hashes (line # lines) got =
     (case words line of
        [a, b] \<Rightarrow> if length b = 64 then rbind (int_of_string a) (\<lambda>h. add_hashes lines (dict_set h b got))
                  else add_hashes lines got
      | _ \<Rightarrow> add_hashes lines got)"

definition hash_script :: "string \<Rightarrow> int list \<Rightarrow> string" where
  "hash_script c heights =
     join_char [CHR 0x0A] (map (\<lambda>h. ''echo '' @ [CHR 0x22] @ int_string h @ '' $('' @ c @ '' getblockhash '' @
       int_string h @ '' 2>/dev/null)'' @ [CHR 0x22]) heights)"

definition read_hashes :: "'n shell \<Rightarrow> string option \<Rightarrow> string \<Rightarrow> int list \<Rightarrow> int \<Rightarrow> ('n, (int \<times> string) list) watch" where
  "read_hashes sh host c heights timeout =
     bnd (run_host sh host (hash_script c heights) timeout) (\<lambda>out. lift (add_hashes (text_lines out) []))"

definition unchanged_in :: "hash_record \<Rightarrow> (int \<times> string) list \<Rightarrow> int \<Rightarrow> bool" where
  "unchanged_in known now h = (case map_of now h of None \<Rightarrow> False | Some s \<Rightarrow> map_of known h = Some (JStr s))"

text \<open>The halving loop of \<open>fork_bracket\<close>; the pool shrinks on either answer.\<close>

function narrow :: "'n shell \<Rightarrow> string option \<Rightarrow> string \<Rightarrow> hash_record \<Rightarrow> int list \<Rightarrow> int \<Rightarrow> int \<Rightarrow> ('n, int \<times> int) watch" where
  "narrow sh host c known pool lo hi =
     (if pool = [] then ret (lo, hi)
      else let m = pool ! (length pool div 2)
        in bnd (read_hashes sh host c [m] 45) (\<lambda>got.
             if unchanged_in known got m then narrow sh host c known (filter (\<lambda>h. m < h) pool) m hi
             else narrow sh host c known (filter (\<lambda>h. h < m) pool) lo m))"
  by pat_completeness auto
termination
proof (relation "measure (\<lambda>(sh, host, c, known, pool, lo, hi). length pool)", goal_cases)
  case (2 sh host c known pool lo hi m got)
  have "m \<in> set pool" unfolding 2(2) using 2(1) by (intro nth_mem) simp
  then show ?case by (auto intro: length_filter_less)
next
  case (3 sh host c known pool lo hi m got)
  have "m \<in> set pool" unfolding 3(2) using 3(1) by (intro nth_mem) simp
  then show ?case by (auto intro: length_filter_less)
qed simp

declare narrow.simps [simp del]

definition fork_bracket :: "'n shell \<Rightarrow> string option \<Rightarrow> string \<Rightarrow> hash_record \<Rightarrow> int \<Rightarrow> int \<Rightarrow> ('n, int \<times> int) watch" where
  "fork_bracket sh host c known unchanged changed =
     narrow sh host c known (sort (filter (\<lambda>h. unchanged < h \<and> h < changed) (map fst known))) unchanged changed"

section \<open>One host\<close>

fun jprefix :: "nat \<Rightarrow> json \<Rightarrow> py_error + json" where
  "jprefix n (JStr s) = Inr (JStr (take n s))"
| "jprefix n (JArr xs) = Inr (JArr (take n xs))"
| "jprefix n _ = Inl TypeError"

fun jminus :: "json \<Rightarrow> int \<Rightarrow> py_error + json" where
  "jminus (JInt n) k = Inr (JInt (n - k))"
| "jminus (JBool b) k = Inr (JInt ((if b then 1 else 0) - k))"
| "jminus (JFloat x) k = rbind (float_of_int k) (\<lambda>y. Inr (JFloat (fsub x y)))"
| "jminus _ k = Inl TypeError"

text \<open>A tip of another branch: reported from the alarm depth on.\<close>

definition report_tip :: "string \<Rightarrow> int \<Rightarrow> json \<Rightarrow> ('n, unit) watch" where
  "report_tip label depth_alarm t =
     bnd (lift (jget t ''status'' JNull)) (\<lambda>status.
       if status = JStr ''active'' then ret ()
       else bnd (lift (rbind (jget t ''branchlen'' (JInt 0)) jint)) (\<lambda>d.
         if depth_alarm \<le> d then
           bnd (lift (jitem t ''height'')) (\<lambda>height.
           bnd (lift (rbind (jitem t ''hash'') (jprefix 16))) (\<lambda>hash.
             if status = JStr ''valid-fork'' then bad (Branch label d height status hash)
             else warn (Shallow_Branch label d height status hash)))
         else ret ()))"

definition label_of :: "string option \<Rightarrow> string" where
  "label_of host = (case host of Some h \<Rightarrow> if h = [] then ''this machine'' else h | None \<Rightarrow> ''this machine'')"

definition changed_heights :: "hash_record \<Rightarrow> (int \<times> string) list \<Rightarrow> (int \<times> json \<times> string) list" where
  "changed_heights known now =
     concat (map (\<lambda>h. case (map_of known h, map_of now h) of
         (Some was, Some isnow) \<Rightarrow> if was \<noteq> JStr isnow then [(h, was, isnow)] else []
       | _ \<Rightarrow> []) (sort (map fst known)))"

definition still_good :: "hash_record \<Rightarrow> (int \<times> string) list \<Rightarrow> int \<Rightarrow> int list" where
  "still_good known now shallowest =
     filter (\<lambda>h. h < shallowest \<and> unchanged_in known now h) (sort (map fst now))"

definition bracket_of :: "'n shell \<Rightarrow> string option \<Rightarrow> string \<Rightarrow> hash_record \<Rightarrow> (int \<times> string) list \<Rightarrow> int \<Rightarrow>
    ('n, int option \<times> int) watch" where
  "bracket_of sh host c known now shallowest =
     (let good = still_good known now shallowest
      in if good = [] then ret (None, shallowest)
         else bnd (attempt is_exception (fork_bracket sh host c known (last good) shallowest)) (\<lambda>r. case r of
             Inl e \<Rightarrow> bnd (warn (Not_Narrowed (label_of host) e)) (\<lambda>_. ret (None, shallowest))
           | Inr (lo, hi) \<Rightarrow> ret (Some lo, hi)))"

definition depths :: "json \<Rightarrow> (int \<times> json \<times> string) list \<Rightarrow> int option \<Rightarrow> int \<Rightarrow> py_error + json \<times> json option" where
  "depths prev_tip changed flr shallowest =
     (if jtruthy prev_tip then
        rbind (rbind (jminus prev_tip shallowest) (\<lambda>x. jminus x (- 1))) (\<lambda>depth.
          case flr of
            None \<Rightarrow> Inr (depth, None)
          | Some f \<Rightarrow> rbind (jminus prev_tip f) (\<lambda>d. Inr (depth, Some d)))
      else Inr (JInt (int (length changed)), None))"

definition report_rewrite :: "'n shell \<Rightarrow> ('n \<Rightarrow> int) \<Rightarrow> string option \<Rightarrow> string \<Rightarrow> string \<Rightarrow> string \<Rightarrow> hash_record \<Rightarrow>
    (int \<times> string) list \<Rightarrow> json \<Rightarrow> int \<Rightarrow> (int \<times> json \<times> string) list \<Rightarrow> ('n, unit) watch" where
  "report_rewrite sh clock host network state_dir c known now prev_tip tip changed =
     bnd (bracket_of sh host c known now (Min (set (map fst changed)))) (\<lambda>(flr, shallowest).
     bnd (lift (depths prev_tip changed flr shallowest)) (\<lambda>(depth, deepest).
     let f = Rewritten (label_of host) depth deepest shallowest flr tip prev_tip changed
     in bnd (bad f) (\<lambda>_.
        bnd (attempt (\<lambda>e. e = OSError) (raise_alarm clock state_dir network host (finding_detail f))) (\<lambda>r.
          case r of Inl e \<Rightarrow> warn (No_Alarm_File e) | Inr _ \<Rightarrow> ret ()))))"

definition merged_record :: "hash_record \<Rightarrow> int \<Rightarrow> (int \<times> string) list \<Rightarrow> hash_record" where
  "merged_record known tip now =
     foldl (\<lambda>m (h, s). dict_set h (JStr s) m) (filter (\<lambda>(h, v). tip - FORGET_AFTER < h) known) now"

text \<open>What is made of the hashes read, and of the record the run starts from.\<close>

definition judge_hashes :: "'n shell \<Rightarrow> ('n \<Rightarrow> int) \<Rightarrow> string option \<Rightarrow> string \<Rightarrow> string \<Rightarrow> string \<Rightarrow> int \<Rightarrow>
    hash_record \<Rightarrow> json \<Rightarrow> int \<Rightarrow> py_error + (int \<times> string) list \<Rightarrow> ('n, unit) watch" where
  "judge_hashes sh clock host network state_dir c tip known prev_tip cursor r =
     (case r of
        Inl e \<Rightarrow> unmeasured (No_Hashes (label_of host) e)
      | Inr now \<Rightarrow>
          let changed = changed_heights known now
          in bnd (if changed \<noteq> []
                  then report_rewrite sh clock host network state_dir c known now prev_tip tip changed
                  else ret ())
               (\<lambda>_. save_state clock (state_path state_dir host network) (merged_record known tip now) tip cursor))"

definition compare_record :: "'n shell \<Rightarrow> ('n \<Rightarrow> int) \<Rightarrow> string option \<Rightarrow> string \<Rightarrow> string \<Rightarrow> string \<Rightarrow> int \<Rightarrow>
    hash_record \<Rightarrow> json \<Rightarrow> ('n, unit) watch" where
  "compare_record sh clock host network state_dir c tip known prev =
     bnd (lift (jget prev ''tip'' JNull)) (\<lambda>prev_tip.
     bnd (lift (rbind (jget prev ''cursor'' (JInt 0)) jint)) (\<lambda>cursor0.
     case heights_to_check tip (map fst known) cursor0 of (wanted, cursor) \<Rightarrow>
       if wanted = [] then save_state clock (state_path state_dir host network) [] tip 0
       else bnd (attempt is_exception (read_hashes sh host c wanted 120))
              (judge_hashes sh clock host network state_dir c tip known prev_tip cursor)))"

definition compare_hashes :: "'n shell \<Rightarrow> ('n \<Rightarrow> int) \<Rightarrow> string option \<Rightarrow> string \<Rightarrow> string \<Rightarrow> string \<Rightarrow> int \<Rightarrow> ('n, unit) watch" where
  "compare_hashes sh clock host network state_dir c tip =
     bnd (load_state (state_path state_dir host network)) (\<lambda>(known, prev).
       compare_record sh clock host network state_dir c tip known prev)"

text \<open>The reply: the height, a line of dashes, the tips.\<close>

definition parse_reply :: "string \<Rightarrow> py_error + int \<times> json" where
  "parse_reply raw =
     (case split_first ''---'' raw of
        None \<Rightarrow> Inl ValueError
      | Some (head, tips_raw) \<Rightarrow>
          rbind (int_of_string (strip head)) (\<lambda>tip. rbind (json_loads tips_raw) (\<lambda>tips. Inr (tip, tips))))"

definition judge_reply :: "'n shell \<Rightarrow> ('n \<Rightarrow> int) \<Rightarrow> string option \<Rightarrow> string \<Rightarrow> int \<Rightarrow> string \<Rightarrow> string \<Rightarrow> string \<Rightarrow> ('n, unit) watch" where
  "judge_reply sh clock host network depth_alarm state_dir c raw =
     (case parse_reply raw of
        Inl e \<Rightarrow> unmeasured (Unreadable_Reply (label_of host))
      | Inr (tip, tips) \<Rightarrow>
          bnd (lift (jiter tips)) (\<lambda>ts.
          bnd (for_each (report_tip (label_of host) depth_alarm) ts) (\<lambda>_.
          compare_hashes sh clock host network state_dir c tip)))"

definition check :: "'n shell \<Rightarrow> ('n \<Rightarrow> int) \<Rightarrow> string option \<Rightarrow> string \<Rightarrow> int \<Rightarrow> string \<Rightarrow> string option \<Rightarrow> ('n, unit) watch" where
  "check sh clock host network depth_alarm state_dir datadir =
     bnd (lift (cli_command network datadir)) (\<lambda>c.
     bnd (attempt is_exception (run_host sh host (c @ '' getblockcount && echo --- && '' @ c @ '' getchaintips'') 60)) (\<lambda>r.
     case r of
       Inl e \<Rightarrow> unmeasured (Not_Answering (label_of host) e)
     | Inr raw \<Rightarrow> judge_reply sh clock host network depth_alarm state_dir c raw))"

section \<open>The program\<close>

record reorg_args =
  ra_hosts :: "string list"
  ra_local :: bool
  ra_network :: string
  ra_depth :: int
  ra_state_dir :: string
  ra_datadir :: "string option"
  ra_announce :: bool

text \<open>\<open>announce\<close>: the text goes through a temporary file to the publishing bot, which must succeed.\<close>

definition announce :: "'n shell \<Rightarrow> string \<Rightarrow> string \<Rightarrow> string \<Rightarrow> ('n, unit) watch" where
  "announce sh tmp_name text repo =
     bnd (\<lambda>w. (Inr (), w\<lparr>rg_announced := rg_announced w @ [text]\<rparr>)) (\<lambda>_.
     bnd (subprocess_run sh [''node'', path_join (path_join repo ''bots'') ''say.js'', ''--file'', tmp_name] [] 120)
       (\<lambda>(rc, out, err). if rc \<noteq> 0 then throw CalledProcessError else ret ()))"

definition announcement :: "string \<Rightarrow> finding list \<Rightarrow> string" where
  "announcement network fails =
     ''Chain reorganisation detected on WAM '' @ network @ ''.'' @ [CHR 0x0A, CHR 0x0A] @
     join_char [CHR 0x0A] (map finding_text fails) @ [CHR 0x0A, CHR 0x0A] @
     ''Exchanges and pools: raise your confirmation requirement until this is explained.''"

definition reorg_targets :: "reorg_args \<Rightarrow> string option list" where
  "reorg_targets a = (if ra_hosts a \<noteq> [] then map Some (ra_hosts a) else if ra_local a then [None] else [])"

definition reorg_verdict :: "'n shell \<Rightarrow> string \<Rightarrow> string \<Rightarrow> reorg_args \<Rightarrow> ('n, int) watch" where
  "reorg_verdict sh tmp_name repo a = (\<lambda>w.
     if rg_fails w \<noteq> [] then
       (if ra_announce a
        then bnd (announce sh tmp_name (announcement (ra_network a) (rg_fails w)) repo) (\<lambda>_. ret 1) w
        else (Inr 1, w))
     else if rg_unknown w \<noteq> [] then (Inr 2, w) else (Inr 0, w))"

text \<open>One target of the loop of \<open>main\<close>.\<close>

definition check_target :: "'n shell \<Rightarrow> ('n \<Rightarrow> int) \<Rightarrow> reorg_args \<Rightarrow> string option \<Rightarrow> ('n, unit) watch" where
  "check_target sh clock a h =
     bnd (attempt is_exception (check sh clock h (ra_network a) (ra_depth a) (ra_state_dir a) (ra_datadir a)))
       (\<lambda>r. case r of Inl e \<Rightarrow> unmeasured (Crashed (label_of h) e) | Inr _ \<Rightarrow> ret ())"

definition reorg_main :: "'n shell \<Rightarrow> ('n \<Rightarrow> int) \<Rightarrow> string \<Rightarrow> string \<Rightarrow> reorg_args \<Rightarrow> ('n, int) watch" where
  "reorg_main sh clock tmp_name repo a =
     (if reorg_targets a = [] then throw (SystemExit 2)
      else bnd (outstanding_alarms (ra_state_dir a)) (\<lambda>old.
           bnd (for_each (\<lambda>f. bad (Earlier_Alarm (ra_state_dir a @ ''/'' @ f))) old) (\<lambda>_.
           bnd (for_each (check_target sh clock a) (reorg_targets a)) (\<lambda>_.
           reorg_verdict sh tmp_name repo a))))"

end
