(* ===== verification/Reorg_Record.thy ===== *)
theory Reorg_Record
  imports Reorg
begin

text \<open>
  The record of \<open>scripts/check_reorg.py\<close>: which heights a run re-reads and that the rotation
  reaches all of them, the halving that narrows where the record and the chain part, and the
  state file.
\<close>

section \<open>Which heights are read\<close>

lemma set_near: "h \<in> set (near_heights tip) \<longleftrightarrow> 0 \<le> h \<and> tip - h \<in> set OFFSETS"
  by (force simp: near_heights_def image_iff)

lemma set_old:
  "h \<in> set (old_heights tip known) \<longleftrightarrow>
     h \<in> set known \<and> tip - FORGET_AFTER < h \<and> h \<le> tip \<and> h \<notin> set (near_heights tip)"
  by (auto simp: old_heights_def)

lemma slice_from_mem:
  assumes "s < length xs" "d < length xs" "d < k"
  shows "xs ! ((s + d) mod length xs) \<in> set (slice_from xs s k)"
proof -
  have "xs ! ((s + d) mod length xs) = (xs @ xs) ! (s + d)"
    using assms(1,2) by (cases "s + d < length xs") (simp_all add: nth_append mod_if)
  also have "\<dots> = slice_from xs s k ! d"
    using assms by (simp add: slice_from_def del: drop_append take_append)
  also have "\<dots> \<in> set (slice_from xs s k)"
    by (rule nth_mem) (use assms in \<open>simp add: slice_from_def\<close>)
  finally show ?thesis .
qed

lemma slice_from_subset: "set (slice_from xs s k) \<subseteq> set xs"
  using set_take_subset [of k "drop s (xs @ xs)"] set_drop_subset [of s "xs @ xs"]
  by (auto simp: slice_from_def)

primrec cursor_after :: "int \<Rightarrow> int list \<Rightarrow> int \<Rightarrow> nat \<Rightarrow> int" where
  "cursor_after tip known c 0 = c"
| "cursor_after tip known c (Suc i) = snd (heights_to_check tip known (cursor_after tip known c i))"

lemma cursor_after_mod:
  assumes "old_heights tip known \<noteq> []"
  shows "cursor_after tip known c i mod int (length (old_heights tip known))
    = (c + 60 * int i) mod int (length (old_heights tip known))"
proof (induction i)
  case (Suc i)
  let ?n = "int (length (old_heights tip known))"
  have "0 < ?n" using assms by simp
  then have "cursor_after tip known c (Suc i) mod ?n = (cursor_after tip known c i mod ?n + 60) mod ?n"
    using assms by (simp add: heights_to_check_def Let_def AUDIT_PER_RUN_def)
  also have "\<dots> = ((c + 60 * int i) mod ?n + 60) mod ?n" by (simp only: Suc.IH)
  also have "\<dots> = (c + 60 * int (Suc i)) mod ?n" by (simp add: mod_simps algebra_simps)
  finally show ?case .
qed simp

text \<open>C27: while the tip and the record stay the same, the rotation re-reads every recorded height
  within \<open>\<lceil>n / 60\<rceil>\<close> runs, wherever the cursor starts.\<close>

theorem rotation_rereads_everything:
  assumes "h \<in> set (old_heights tip known)"
  shows "\<exists>i. 60 * i < length (old_heights tip known) \<and>
    h \<in> set (fst (heights_to_check tip known (cursor_after tip known c i)))"
proof -
  let ?old = "old_heights tip known"
  let ?n = "length ?old"
  from assms obtain j where j: "j < ?n" "h = ?old ! j" by (metis in_set_conv_nth)
  then have n: "0 < ?n" by linarith
  define t where "t = nat ((int j - c) mod int ?n)"
  have t: "int t = (int j - c) mod int ?n" using n by (simp add: t_def)
  have "t < ?n" using n by (simp add: t_def nat_less_iff)
  define i where "i = t div 60"
  define s where "s = nat (cursor_after tip known c i mod int ?n)"
  have s: "int s = (c + 60 * int i) mod int ?n"
    using n cursor_after_mod [of tip known c i] by (simp add: s_def)
  have "int ((s + t mod 60) mod ?n) = (int s + int (t mod 60)) mod int ?n" by (simp add: zmod_int)
  also have "\<dots> = (c + (60 * int i + int (t mod 60))) mod int ?n"
    unfolding s by (simp add: mod_simps algebra_simps)
  also have "60 * int i + int (t mod 60) = int t" by (simp add: i_def zdiv_int zmod_int)
  also have "(c + int t) mod int ?n = int j mod int ?n" unfolding t by (simp add: mod_simps)
  also have "\<dots> = int j" using j by simp
  finally have idx: "(s + t mod 60) mod ?n = j" by linarith
  have "s < ?n" using n by (simp add: s_def nat_less_iff)
  moreover have "t mod 60 < ?n" using \<open>t < ?n\<close> by (meson le_less_trans mod_less_eq_dividend)
  ultimately have "h \<in> set (slice_from ?old s AUDIT_PER_RUN)"
    using slice_from_mem [of s ?old "t mod 60" AUDIT_PER_RUN] idx j by (simp add: AUDIT_PER_RUN_def)
  then have "h \<in> set (fst (heights_to_check tip known (cursor_after tip known c i)))"
    using n by (auto simp: heights_to_check_def Let_def s_def)
  moreover have "60 * i < ?n" using \<open>t < ?n\<close> unfolding i_def by linarith
  ultimately show ?thesis by blast
qed

lemma rotation_rereads_everything_witness:
  "\<exists>i. 60 * i < length (old_heights 100 [3, 7, 99]) \<and>
    7 \<in> set (fst (heights_to_check 100 [3, 7, 99] (cursor_after 100 [3, 7, 99] 5 i)))"
  by (rule rotation_rereads_everything) (simp add: old_heights_def near_heights_def OFFSETS_def FORGET_AFTER_def)

lemma length_slice_from: "length (slice_from xs s k) \<le> k"
  by (simp add: slice_from_def)

text \<open>The work of a run does not grow with the record.\<close>

lemma heights_read_are_bounded: "length (fst (heights_to_check tip known c)) \<le> 79"
proof -
  have near: "length (near_heights tip) \<le> 19"
    using length_filter_le [of "\<lambda>h. 0 \<le> h" "map (\<lambda>d. tip - d) OFFSETS"] by (simp add: near_heights_def OFFSETS_def)
  have "length (remdups (near_heights tip @ slice_from xs s AUDIT_PER_RUN)) \<le> 79" for xs s
    using near length_slice_from [of xs s 60] length_remdups_leq [of "near_heights tip @ slice_from xs s 60"]
    by (simp add: AUDIT_PER_RUN_def)
  with near show ?thesis by (auto simp: heights_to_check_def Let_def)
qed

text \<open>Thirty runs, an hour at one every two minutes, cannot re-read a record of more than 1,800.\<close>

lemma an_hour_is_not_enough:
  assumes "distinct known" "1800 < length (old_heights tip known)"
  shows "\<exists>h \<in> set (old_heights tip known). \<forall>i<30.
    h \<notin> set (fst (heights_to_check tip known (cursor_after tip known c i)))"
proof -
  let ?old = "old_heights tip known"
  define start where "start i = nat (cursor_after tip known c i mod int (length ?old))" for i
  let ?read = "\<Union>i<30. set (slice_from ?old (start i) 60)"
  have "card ?read \<le> (\<Sum>i<30. card (set (slice_from ?old (start i) 60)))" by (rule card_UN_le) simp
  also have "\<dots> \<le> (\<Sum>i<(30::nat). 60)"
    by (rule sum_mono) (metis card_length length_slice_from le_trans)
  also have "\<dots> < card (set ?old)"
    using assms distinct_card [of ?old] by (simp add: old_heights_def del: set_sort)
  finally have "\<not> set ?old \<subseteq> ?read" by (meson List.finite_set card_mono finite_UN_I finite_lessThan not_less)
  then obtain h where h: "h \<in> set ?old" "h \<notin> ?read" by blast
  moreover have "h \<notin> set (near_heights tip)" using h(1) by (simp add: set_old)
  moreover have "?old \<noteq> []" using assms by auto
  ultimately have "h \<notin> set (fst (heights_to_check tip known (cursor_after tip known c i)))" if "i < 30" for i
    using that by (auto simp: heights_to_check_def Let_def start_def AUDIT_PER_RUN_def)
  with h show ?thesis by blast
qed

section \<open>The text of the answers\<close>

text \<open>The answer of a node that has the hashes: one line each.\<close>

definition hash_text :: "(int \<times> string) list \<Rightarrow> string" where
  "hash_text rows = concat (map (\<lambda>(h, s). int_string h @ CHR 0x20 # s @ [CHR 0x0A]) rows)"

lemma add_hashes_text:
  "list_all (\<lambda>(h, s). length s = 64 \<and> list_all (\<lambda>c. \<not> is_space c) s) rows \<Longrightarrow>
   add_hashes (text_lines (hash_text rows)) got = Inr (foldl (\<lambda>m (h, v). dict_set h v m) got rows)"
proof (induction rows arbitrary: got)
  case Nil
  then show ?case by (simp add: hash_text_def text_lines.simps)
next
  case (Cons r rows)
  obtain h s where r: "r = (h, s)" by (cases r)
  from Cons.prems r have s: "length s = 64" "list_all (\<lambda>c. \<not> is_space c) s" "s \<noteq> []" by auto
  let ?l = "int_string h @ CHR 0x20 # s"
  have "hash_text (r # rows) = ?l @ CHR 0x0A # hash_text rows" by (simp add: hash_text_def r)
  moreover have "list_all (\<lambda>c. \<not> is_break c) ?l"
    using s(2) int_string_chars [of h] no_space_no_break by (auto simp: list_all_iff is_break_def)
  ultimately have "text_lines (hash_text (r # rows)) = ?l # text_lines (hash_text rows)"
    by (simp only: text_lines_Cons)
  then show ?case
    using Cons r s words_two [OF int_string_chars s(2) int_string_Nil s(3)] by simp
qed

section \<open>Where the record and the chain part\<close>

text \<open>The last of some heights below a fork, and the first of them from it on.\<close>

definition boundary :: "int list \<Rightarrow> int \<Rightarrow> int \<Rightarrow> int \<Rightarrow> int \<times> int" where
  "boundary heights fork lo hi =
     (Max (insert lo {h \<in> set heights. lo < h \<and> h < fork}), Min (insert hi {h \<in> set heights. fork \<le> h \<and> h < hi}))"

lemma boundary_step_lo:
  assumes "m \<in> set pool" "lo < m" "m < fork"
  shows "boundary (filter (\<lambda>h. m < h) pool) fork m hi = boundary pool fork lo hi"
proof -
  have "Max (insert m {h \<in> set pool. m < h \<and> h < fork}) = Max (insert lo {h \<in> set pool. lo < h \<and> h < fork})"
    using assms by (intro Max_eq_if) auto
  moreover have "{h \<in> set (filter (\<lambda>h. m < h) pool). fork \<le> h \<and> h < hi} = {h \<in> set pool. fork \<le> h \<and> h < hi}"
    using assms by auto
  moreover have "{h \<in> set (filter (\<lambda>h. m < h) pool). m < h \<and> h < fork} = {h \<in> set pool. m < h \<and> h < fork}" by auto
  ultimately show ?thesis by (simp add: boundary_def)
qed

lemma Min_eq_same:
  fixes M N :: "int set"
  assumes "finite M" "finite N" "\<And>m. m \<in> M \<Longrightarrow> \<exists>n\<in>N. n \<le> m" "\<And>n. n \<in> N \<Longrightarrow> \<exists>m\<in>M. m \<le> n"
    "M \<noteq> {}" "N \<noteq> {}"
  shows "Min M = Min N"
  using assms by (metis Min_in Min_le_iff antisym Min.coboundedI order.trans)

lemma boundary_step_hi:
  assumes "m \<in> set pool" "m < hi" "fork \<le> m"
  shows "boundary (filter (\<lambda>h. h < m) pool) fork lo m = boundary pool fork lo hi"
proof -
  have "Min (insert m {h \<in> set pool. fork \<le> h \<and> h < m}) = Min (insert hi {h \<in> set pool. fork \<le> h \<and> h < hi})"
    using assms by (intro Min_eq_same) auto
  moreover have "{h \<in> set (filter (\<lambda>h. h < m) pool). lo < h \<and> h < fork} = {h \<in> set pool. lo < h \<and> h < fork}"
    using assms by auto
  moreover have "{h \<in> set (filter (\<lambda>h. h < m) pool). fork \<le> h \<and> h < m} = {h \<in> set pool. fork \<le> h \<and> h < m}" by auto
  ultimately show ?thesis by (simp add: boundary_def)
qed

text \<open>The node gives the hash of every height it is asked for.\<close>

definition reads_all :: "'n shell \<Rightarrow> string option \<Rightarrow> string \<Rightarrow> int list \<Rightarrow> (int \<Rightarrow> string) \<Rightarrow> bool" where
  "reads_all sh host c heights hash_at \<longleftrightarrow>
     (\<forall>m \<in> set heights. \<forall>w :: 'n reorg_world. \<exists>got w'. read_hashes sh host c [m] 45 w = (Inr got, w') \<and> map_of got m = Some (hash_at m))"

lemma narrow_boundary:
  fixes w :: "'n reorg_world"
  assumes "reads_all sh host c pool hash_at"
    and "\<And>h. h \<in> set pool \<Longrightarrow> map_of known h = Some (JStr (hash_at h)) \<longleftrightarrow> h < fork"
    and "\<And>h. h \<in> set pool \<Longrightarrow> lo < h \<and> h < hi"
  shows "\<exists>w'. narrow sh host c known pool lo hi w = (Inr (boundary pool fork lo hi), w')"
  using assms
proof (induction pool arbitrary: lo hi w rule: length_induct)
  case (1 pool)
  show ?case
  proof (cases "pool = []")
    case True
    then show ?thesis by (simp add: narrow.simps boundary_def ret_def)
  next
    case False
    define m where "m = pool ! (length pool div 2)"
    have m: "m \<in> set pool" using False by (simp add: m_def)
    obtain got w1 where got: "read_hashes sh host c [m] 45 w = (Inr got, w1)" "map_of got m = Some (hash_at m)"
      using 1(2) m unfolding reads_all_def by blast
    have same: "unchanged_in known got m \<longleftrightarrow> m < fork" using 1(3) [OF m] got(2) by (simp add: unchanged_in_def)
    have step: "narrow sh host c known pool lo hi w =
        (if m < fork then narrow sh host c known (filter (\<lambda>h. m < h) pool) m hi w1
         else narrow sh host c known (filter (\<lambda>h. h < m) pool) lo m w1)"
      using False got(1) same by (subst narrow.simps) (simp add: bnd_def Let_def flip: m_def)
    show ?thesis
    proof (cases "m < fork")
      case True
      have "\<exists>w'. narrow sh host c known (filter (\<lambda>h. m < h) pool) m hi w1
          = (Inr (boundary (filter (\<lambda>h. m < h) pool) fork m hi), w')"
        by (rule 1(1) [rule_format]) (use 1(2-4) m length_filter_less [OF m] in \<open>auto simp: reads_all_def\<close>)
      with True step show ?thesis using boundary_step_lo [OF m, of lo fork hi] 1(4) [OF m] by simp
    next
      case False
      have "\<exists>w'. narrow sh host c known (filter (\<lambda>h. h < m) pool) lo m w1
          = (Inr (boundary (filter (\<lambda>h. h < m) pool) fork lo m), w')"
        by (rule 1(1) [rule_format]) (use 1(2-4) m length_filter_less [OF m] in \<open>auto simp: reads_all_def\<close>)
      with False step show ?thesis using boundary_step_hi [OF m, of hi fork lo] 1(4) [OF m] by simp
    qed
  qed
qed
text \<open>C11: when the node answers every height it is asked for and the recorded heights below some
  fork are unchanged and those from it on are not, \<open>fork_bracket\<close> returns the last recorded
  height that is unchanged and the first one that changed: nothing recorded lies in between.\<close>

theorem fork_bracket_finds_the_boundary:
  fixes w :: "'n reorg_world"
  assumes "reads_all sh host c (map fst known) hash_at" "lo < fork" "fork \<le> hi"
    and "\<And>h. h \<in> set (map fst known) \<Longrightarrow> map_of known h = Some (JStr (hash_at h)) \<longleftrightarrow> h < fork"
  shows "\<exists>w'. fork_bracket sh host c known lo hi w = (Inr (boundary (map fst known) fork lo hi), w')"
proof -
  let ?pool = "sort (filter (\<lambda>h. lo < h \<and> h < hi) (map fst known))"
  have "{h \<in> set ?pool. lo < h \<and> h < fork} = {h \<in> set (map fst known). lo < h \<and> h < fork}"
    "{h \<in> set ?pool. fork \<le> h \<and> h < hi} = {h \<in> set (map fst known). fork \<le> h \<and> h < hi}"
    using assms(2,3) by auto
  then have "boundary ?pool fork lo hi = boundary (map fst known) fork lo hi"
    unfolding boundary_def by (simp only:)
  moreover have "\<exists>w'. narrow sh host c known ?pool lo hi w = (Inr (boundary ?pool fork lo hi), w')"
    by (rule narrow_boundary [where hash_at = hash_at]) (use assms(1,4) in \<open>auto simp: reads_all_def\<close>)
  ultimately show ?thesis by (simp add: fork_bracket_def)
qed

definition sample_hash :: "char \<Rightarrow> string" where
  "sample_hash x = replicate 64 x"

definition sample_hash_at :: "int \<Rightarrow> string" where
  "sample_hash_at h = sample_hash (if h < 13 then CHR ''a'' else CHR ''b'')"

text \<open>A node that answers with the hashes of four heights, whatever it is asked.\<close>

definition sample_rows :: "(int \<times> string) list" where
  "sample_rows = map (\<lambda>h. (h, sample_hash_at h)) [10, 12, 14, 16]"

definition sample_shell :: "unit shell" where
  "sample_shell = (\<lambda>n argv stdin t. (Exited 0 (hash_text sample_rows) [], n))"

definition sample_known :: hash_record where
  "sample_known = map (\<lambda>h. (h, JStr (sample_hash (CHR ''a'')))) [10, 12, 14, 16]"

definition sample_watch :: "unit reorg_world" where
  "sample_watch = \<lparr>hw_node = (), hw_calls = [], hw_files = [], hw_dirs = (\<lambda>p. p = ''/s''), hw_denied = (\<lambda>p. False),
     rg_fails = [], rg_warns = [], rg_unknown = [], rg_announced = []\<rparr>"

lemma sample_hashes: "add_hashes (text_lines (hash_text sample_rows)) [] = Inr sample_rows"
proof -
  have "list_all (\<lambda>(h, s). length s = 64 \<and> list_all (\<lambda>c. \<not> is_space c) s) sample_rows"
    by (simp add: sample_rows_def sample_hash_at_def sample_hash_def list_all_iff is_space_def)
  then show ?thesis by (simp add: add_hashes_text) (simp add: sample_rows_def)
qed

lemma sample_reads: "reads_all sample_shell None c (map fst sample_known) sample_hash_at"
proof -
  have "read_hashes sample_shell None c [m] 45 w = (Inr sample_rows,
      w\<lparr>hw_node := (), hw_calls := hw_calls w @ [(run_argv None, hash_script c [m], Exited 0 (hash_text sample_rows) [])]\<rparr>)"
    for m and w :: "unit reorg_world"
    by (simp add: read_hashes_def run_host_def subprocess_run_def sample_shell_def sample_hashes bnd_def ret_def lift_def)
  then show ?thesis by (auto simp: reads_all_def sample_known_def sample_rows_def)
qed

lemma fork_bracket_finds_the_boundary_witness:
  "(\<exists>w'. fork_bracket sample_shell None ''c'' sample_known 10 16 sample_watch
     = (Inr (boundary (map fst sample_known) 13 10 16), w')) \<and> boundary (map fst sample_known) 13 10 16 = (12, 14)"
proof (intro conjI fork_bracket_finds_the_boundary [OF sample_reads])
  have "{h \<in> {10, 12, 14, 16}. 10 < h \<and> h < 13} = {12 :: int}"
    "{h \<in> {10, 12, 14, 16}. 13 \<le> h \<and> h < 16} = {14 :: int}" by auto
  then show "boundary (map fst sample_known) 13 10 16 = (12, 14)" by (simp add: boundary_def sample_known_def)
qed (auto simp: sample_known_def sample_hash_at_def sample_hash_def)

section \<open>The state file\<close>

lemma recorded_state_doc:
  "distinct (map fst heights) \<Longrightarrow> recorded_heights (state_doc heights tip cursor now) = Inr heights"
proof -
  assume d: "distinct (map fst heights)"
  have "rmap (\<lambda>(k, v). rbind (int_of_string k) (\<lambda>h. Inr (h, v))) (map (\<lambda>(k, v). (int_string k, v)) hs) = Inr hs"
    for hs :: hash_record by (induction hs) auto
  with d foldl_dict_set [of "[]" heights] show ?thesis by (simp add: recorded_heights_def state_doc_def)
qed

lemma save_state_outcome:
  assumes "save_state clock path heights tip cursor w = (r, w')" "distinct (map fst heights)"
  shows "r = Inr () \<and> load_state path w' = (Inr (heights, state_doc heights tip cursor (clock (hw_node w))), w')
    \<or> r \<noteq> Inr () \<and> map_of (hw_files w') path = map_of (hw_files w) path"
proof -
  have ne: "path @ ''.tmp'' \<noteq> path" by simp
  obtain r1 w1 where 1: "host_makedirs (parent_dir path) w = (r1, w1)" by fastforce
  have 2: "hw_files w1 = hw_files w" "hw_node w1 = hw_node w"
    using 1 by (auto simp: host_makedirs_def split: if_splits)
  show ?thesis
  proof (cases r1)
    case Inl
    with assms(1) 1 2 show ?thesis by (auto simp: save_state_def bnd_def)
  next
    case (Inr u)
    let ?doc = "state_doc heights tip cursor (clock (hw_node w))"
    obtain r2 w2 where w2: "host_write (path @ ''.tmp'') (Doc ?doc) w1 = (r2, w2)" by fastforce
    have r: "(case r2 of Inl e \<Rightarrow> (Inl e, w2) | Inr x \<Rightarrow> host_replace (path @ ''.tmp'') path w2) = (r, w')"
      using assms(1) 1 2 w2 Inr by (simp add: save_state_def bnd_def)
    show ?thesis
    proof (cases r2)
      case Inl
      with r w2 2 show ?thesis by (auto simp: host_write_def split: if_splits)
    next
      case Inr2: (Inr u)
      have f: "hw_files w2 = dict_set (path @ ''.tmp'') (Doc ?doc) (hw_files w)"
        using w2 2 Inr2 by (auto simp: host_write_def split: if_splits)
      from r Inr2 have rep: "host_replace (path @ ''.tmp'') path w2 = (r, w')" by simp
      show ?thesis
      proof (cases "r = Inr ()")
        case True
        then have "map_of (hw_files w') path = Some (Doc ?doc)"
          using rep f by (auto simp: host_replace_def split: if_splits)
        with True show ?thesis
          using recorded_state_doc [OF assms(2), of tip cursor "clock (hw_node w)"]
          by (simp add: load_state_def host_load_def attempt_def bnd_def ret_def lift_def)
      next
        case False
        then have "hw_files w' = hw_files w2" using rep f by (auto simp: host_replace_def split: if_splits)
        with False f ne show ?thesis by simp
      qed
    qed
  qed
qed



end
