(* ===== verification/Reorg_Findings.thy ===== *)
theory Reorg_Findings
  imports Reorg_Record
begin

text \<open>
  The findings of \<open>scripts/check_reorg.py\<close>: each of them rests on what a command printed, what
  does not answer is counted apart and cannot be announced, and an alarm on file is reported until
  a person deletes it. The last section holds what the checks miss.
\<close>

section \<open>What a finding rests on\<close>

text \<open>The texts that commands printed before they ended well.\<close>

definition answers :: "(string list \<times> string \<times> outcome) list \<Rightarrow> string list" where
  "answers calls = concat (map (\<lambda>(argv, stdin, res). case res of
      Exited rc out err \<Rightarrow> if rc = 0 then [out] else [] | _ \<Rightarrow> []) calls)"

lemma answers_snoc [simp]:
  "answers (calls @ [(argv, stdin, res)]) = answers calls @ (case res of Exited rc out err \<Rightarrow> if rc = 0 then [out] else [] | _ \<Rightarrow> [])"
  by (simp add: answers_def)

text \<open>A reply that names a valid branch of this depth, at this height, with this hash.\<close>

definition names_branch :: "int \<Rightarrow> json \<Rightarrow> json \<Rightarrow> string \<Rightarrow> bool" where
  "names_branch d height hash out =
     (case rbind (parse_reply out) (\<lambda>(tip, tips). jiter tips) of
        Inl _ \<Rightarrow> False
      | Inr ts \<Rightarrow> list_ex (\<lambda>t. jget t ''status'' JNull = Inr (JStr ''valid-fork'') \<and>
          rbind (jget t ''branchlen'' (JInt 0)) jint = Inr d \<and> jitem t ''height'' = Inr height \<and>
          rbind (jitem t ''hash'') (jprefix 16) = Inr hash) ts)"

definition gives_hash :: "int \<Rightarrow> string \<Rightarrow> string \<Rightarrow> bool" where
  "gives_hash h s out = (case add_hashes (text_lines out) [] of Inl _ \<Rightarrow> False | Inr got \<Rightarrow> map_of got h = Some s)"

text \<open>What a finding of this run must rest on, given the recorded hashes and the texts heard.\<close>

fun evidence :: "int \<Rightarrow> hash_record \<Rightarrow> string list \<Rightarrow> finding \<Rightarrow> bool" where
  "evidence depth_alarm known heard (Branch label d height status hash) =
     (status = JStr ''valid-fork'' \<and> depth_alarm \<le> d \<and> list_ex (names_branch d height hash) heard)"
| "evidence depth_alarm known heard (Rewritten label depth deepest shallowest flr tip prev_tip changed) =
     (changed \<noteq> [] \<and> list_all (\<lambda>(h, was, isnow).
        map_of known h = Some was \<and> was \<noteq> JStr isnow \<and> list_ex (gives_hash h isnow) heard) changed)"
| "evidence depth_alarm known heard (Earlier_Alarm p) = False"

lemma evidence_mono: "evidence a known heard f \<Longrightarrow> set heard \<subseteq> set heard' \<Longrightarrow> evidence a known heard' f"
  by (cases f) (fastforce simp: list_ex_iff list_all_iff)+

lemma evidence_heard: "evidence a known heard f \<Longrightarrow> heard \<noteq> []"
proof (cases f)
  case (Rewritten label depth deepest shallowest flr tip prev_tip changed)
  assume "evidence a known heard f"
  with Rewritten show ?thesis by (cases changed) auto
qed auto

text \<open>The record a run starts from: nothing where there is no file or no document.\<close>

definition record_of :: "stored option \<Rightarrow> hash_record" where
  "record_of f = (case (case f of None \<Rightarrow> Inl OSError | Some (Doc j) \<Rightarrow> Inr j | Some (Text t) \<Rightarrow> json_loads t) of
     Inl e \<Rightarrow> [] | Inr d \<Rightarrow> (case recorded_heights d of Inl e \<Rightarrow> [] | Inr hs \<Rightarrow> hs))"

lemma load_state_record: "load_state path w = (Inr (known, prev), w') \<Longrightarrow>
    known = record_of (map_of (hw_files w) path) \<and> w' = w"
  by (auto simp: load_state_def host_load_def attempt_def record_of_def bnd_def ret_def lift_def
      split: option.splits stored.splits sum.splits if_splits)

lemma load_state_world: "load_state path w = (r, w') \<Longrightarrow> w' = w"
  by (auto simp: load_state_def host_load_def attempt_def bnd_def ret_def lift_def
      split: option.splits stored.splits sum.splits if_splits prod.splits)

definition backed :: "int \<Rightarrow> hash_record \<Rightarrow> finding list \<Rightarrow> 'n reorg_world \<Rightarrow> bool" where
  "backed a known earlier w \<longleftrightarrow>
     (\<exists>new. rg_fails w = earlier @ new \<and> list_all (evidence a known (answers (hw_calls w))) new)"

text \<open>The same while no file has changed yet.\<close>

definition clean :: "(string \<times> stored) list \<Rightarrow> int \<Rightarrow> hash_record \<Rightarrow> finding list \<Rightarrow> 'n reorg_world \<Rightarrow> bool" where
  "clean files a known earlier w \<longleftrightarrow> hw_files w = files \<and> backed a known earlier w"

lemma backed_call:
  assumes "backed a known earlier w"
  shows "backed a known earlier (w\<lparr>hw_node := n, hw_calls := hw_calls w @ [c]\<rparr>)"
proof -
  obtain argv stdin res where c: "c = (argv, stdin, res)" by (cases c)
  have "evidence a known (answers (hw_calls w @ [c])) f" if "evidence a known (answers (hw_calls w)) f" for f
    using that by (rule evidence_mono) (simp add: c)
  with assms show ?thesis unfolding backed_def by (auto simp: list_all_iff)
qed

lemma backed_fail: "backed a known earlier w \<Longrightarrow> evidence a known (answers (hw_calls w)) f \<Longrightarrow>
    backed a known earlier (w\<lparr>rg_fails := rg_fails w @ [f]\<rparr>)"
  by (auto simp: backed_def)

lemma backed_other [simp]:
  "backed a known earlier (w\<lparr>hw_files := fs\<rparr>) = backed a known earlier w"
  "backed a known earlier (w\<lparr>hw_dirs := ds\<rparr>) = backed a known earlier w"
  "backed a known earlier (w\<lparr>rg_warns := xs\<rparr>) = backed a known earlier w"
  "backed a known earlier (w\<lparr>rg_unknown := us\<rparr>) = backed a known earlier w"
  by (simp_all add: backed_def)

text \<open>A command that answers is heard; whatever it does, what was backed stays backed.\<close>

lemma triple_run_host:
  "triple (clean files a known earlier) (run_host sh host cmd t)
     (\<lambda>out w. clean files a known earlier w \<and> out \<in> set (answers (hw_calls w))) (clean files a known earlier)"
  by (auto simp: triple_def run_host_def subprocess_run_def bnd_def ret_def throw_def clean_def
      intro!: backed_call split: prod.splits outcome.splits if_splits)

lemma triple_read_hashes:
  "triple (clean files a known earlier) (read_hashes sh host c hs t)
     (\<lambda>got w. clean files a known earlier w \<and>
        (\<forall>h s. map_of got h = Some s \<longrightarrow> list_ex (gives_hash h s) (answers (hw_calls w))))
     (clean files a known earlier)"
  unfolding read_hashes_def
  by (rule triple_bnd [OF triple_run_host], rule triple_lift)
    (auto simp: gives_hash_def list_ex_iff intro!: bexI split: sum.splits)

text \<open>Narrowing only reads: the hashes already heard stay heard.\<close>

definition knows :: "(string \<times> stored) list \<Rightarrow> int \<Rightarrow> hash_record \<Rightarrow> finding list \<Rightarrow> string list \<Rightarrow> 'n reorg_world \<Rightarrow> bool" where
  "knows files a known earlier heard w \<longleftrightarrow>
     clean files a known earlier w \<and> set heard \<subseteq> set (answers (hw_calls w))"

lemma preserves_read_hashes:
  "preserves (knows files a known earlier heard) (read_hashes sh host c hs t)"
  by (auto simp: preserves_def knows_def clean_def read_hashes_def run_host_def subprocess_run_def bnd_def ret_def
      throw_def lift_def intro!: backed_call split: prod.splits outcome.splits sum.splits if_splits)

lemma narrow_preserves:
  assumes "\<And>m. preserves I (read_hashes sh host c [m] 45)"
  shows "preserves I (narrow sh host c rec pool lo hi)"
proof (induction pool arbitrary: lo hi rule: length_induct)
  case (1 pool)
  show ?case
  proof (cases "pool = []")
    case False
    let ?m = "pool ! (length pool div 2)"
    have "?m \<in> set pool" using False by simp
    then have "length (filter (\<lambda>h. ?m < h) pool) < length pool" "length (filter (\<lambda>h. h < ?m) pool) < length pool"
      by (auto intro: length_filter_less)
    with 1 show ?thesis
      using False by (subst narrow.simps)
        (auto simp: Let_def intro!: preserves_bnd assms preserves_if)
  qed (simp add: narrow.simps preserves_basic)
qed

lemmas preserves_narrow = narrow_preserves [OF preserves_read_hashes]

lemma preserves_warn: "preserves (knows files a known earlier heard) (warn m)"
  by (simp add: preserves_def warn_def knows_def clean_def)

lemma preserves_bracket_of: "preserves (knows files a known earlier heard) (bracket_of sh host c rec now s)"
  unfolding bracket_of_def fork_bracket_def Let_def
  by (intro preserves_rules preserves_narrow preserves_warn)

lemma preserves_backed:
  "preserves (backed a known earlier) (host_makedirs d)"
  "preserves (backed a known earlier) (host_write p x)"
  "preserves (backed a known earlier) (host_replace p q)"
  "preserves (backed a known earlier) (warn m)"
  "preserves (backed a known earlier) (unmeasured u)"
  by (auto simp: preserves_def host_makedirs_def host_write_def host_replace_def warn_def unmeasured_def
      split: option.splits)

lemma preserves_backed_at:
  "preserves (backed a known earlier) (\<lambda>w. host_write (p w) (x w) w)"
  using preserves_backed(2) by (fastforce simp: preserves_def)

lemma preserves_save_state: "preserves (backed a known earlier) (save_state clock path hs tip cursor)"
  unfolding save_state_def by (intro preserves_rules preserves_backed preserves_backed_at)

lemma preserves_raise_alarm: "preserves (backed a known earlier) (raise_alarm clock dir network host detail)"
  unfolding raise_alarm_def by (intro preserves_rules preserves_backed preserves_backed_at)

lemma triple_preserves: "preserves I m \<Longrightarrow> triple I m (\<lambda>_. I) I"
  unfolding preserves_def triple_def by (metis snd_conv)

lemma triple_bad:
  assumes "\<And>w. P w \<Longrightarrow> backed a known earlier w \<and> evidence a known (answers (hw_calls w)) f"
  shows "triple P (bad f) (\<lambda>_. backed a known earlier) E"
  using assms by (auto simp: triple_def bad_def intro: backed_fail)

lemma triple_report_rewrite:
  assumes "changed \<noteq> []"
    and "list_all (\<lambda>(h, was, isnow). map_of known h = Some was \<and> was \<noteq> JStr isnow \<and>
      list_ex (gives_hash h isnow) heard) changed"
  shows "triple (knows files a known earlier heard)
    (report_rewrite sh clock host network dir c known now prev_tip tip changed)
    (\<lambda>_. backed a known earlier) (backed a known earlier)"
proof -
  have weak: "backed a known earlier w" if "knows files a known earlier heard w" for w
    using that by (simp add: knows_def clean_def)
  have ev: "evidence a known (answers (hw_calls w)) (Rewritten l d dd s f tip prev_tip changed)"
    if "knows files a known earlier heard w" for w l d dd s f
    by (rule evidence_mono [of _ _ heard]) (use assms that in \<open>auto simp: knows_def\<close>)
  have after: "triple (knows files a known earlier heard)
      (bnd (bad (Rewritten l d dd s f tip prev_tip changed)) (\<lambda>_.
       bnd (attempt X (raise_alarm clock dir network host detail)) (\<lambda>r.
         case r of Inl e \<Rightarrow> warn (No_Alarm_File e) | Inr _ \<Rightarrow> ret ())))
      (\<lambda>_. backed a known earlier) (backed a known earlier)" for l d dd s f X detail
    by (rule triple_bnd [OF triple_bad], use weak ev in blast, rule triple_preserves)
      (intro preserves_rules preserves_raise_alarm preserves_backed)
  have lift: "triple (knows files a known earlier heard) (lift r)
      (\<lambda>_. knows files a known earlier heard) (backed a known earlier)" for r :: "py_error + json \<times> json option"
    by (rule triple_lift) (simp_all add: weak)
  have narrowed: "triple (knows files a known earlier heard) (bracket_of sh host c known now s)
      (\<lambda>_. knows files a known earlier heard) (backed a known earlier)" for s
    by (rule triple_conseq [OF triple_preserves [OF preserves_bracket_of]]) (use weak in auto)
  show ?thesis
    unfolding report_rewrite_def Let_def
    by (rule triple_bnd [OF narrowed], rule triple_prod, rule triple_bnd [OF lift], rule triple_prod, rule after)
qed

lemma changed_heights_iff:
  "(h, was, isnow) \<in> set (changed_heights known now) \<longleftrightarrow>
     map_of known h = Some was \<and> map_of now h = Some isnow \<and> was \<noteq> JStr isnow" (is "?l = ?r")
proof
  assume ?l
  then show ?r by (auto simp: changed_heights_def split: option.splits if_splits)
next
  assume r: ?r
  then have "h \<in> set (sort (map fst known))" by (force dest: map_of_SomeD)
  with r show ?l unfolding changed_heights_def set_concat set_map
    by (intro UN_I [OF imageI [of h]] UnionI) (auto split: option.splits)
qed

lemma changed_heights_backed:
  assumes "\<forall>h s. map_of now h = Some s \<longrightarrow> list_ex (gives_hash h s) heard"
  shows "list_all (\<lambda>(h, was, isnow). map_of known h = Some was \<and> was \<noteq> JStr isnow \<and>
      list_ex (gives_hash h isnow) heard) (changed_heights known now)"
  using assms by (auto simp: list_all_iff changed_heights_iff)

lemma backed_of_clean: "clean files a known earlier w \<Longrightarrow> backed a known earlier w"
  by (simp add: clean_def)

text \<open>What holds when the hashes have been read: each of them was heard.\<close>

definition heard_hashes :: "(string \<times> stored) list \<Rightarrow> int \<Rightarrow> hash_record \<Rightarrow> finding list \<Rightarrow>
    py_error + (int \<times> string) list \<Rightarrow> 'n reorg_world \<Rightarrow> bool" where
  "heard_hashes files a known earlier r w \<longleftrightarrow>
     clean files a known earlier w \<and> (case r of Inl e \<Rightarrow> True | Inr got \<Rightarrow>
       (\<forall>h s. map_of got h = Some s \<longrightarrow> list_ex (gives_hash h s) (answers (hw_calls w))))"

lemma triple_rewrite_heard:
  assumes "changed_heights known now \<noteq> []"
  shows "triple (heard_hashes files a known earlier (Inr now))
    (report_rewrite sh clock host network dir c known now prev_tip tip (changed_heights known now))
    (\<lambda>_. backed a known earlier) (backed a known earlier)"
proof -
  have "triple (\<lambda>v. v = w)
      (report_rewrite sh clock host network dir c known now prev_tip tip (changed_heights known now))
      (\<lambda>_. backed a known earlier) (backed a known earlier)"
    if "heard_hashes files a known earlier (Inr now) w" for w
  proof (rule triple_conseq [OF triple_report_rewrite [OF assms changed_heights_backed]])
    show "\<forall>h s. map_of now h = Some s \<longrightarrow> list_ex (gives_hash h s) (answers (hw_calls w))"
      using that by (simp add: heard_hashes_def)
    show "knows files a known earlier (answers (hw_calls w)) v" if "v = w" for v
      using that \<open>heard_hashes files a known earlier (Inr now) w\<close> by (simp add: heard_hashes_def knows_def)
  qed
  then show ?thesis unfolding triple_def by blast
qed

lemma triple_judge_hashes:
  "triple (heard_hashes files a known earlier r) (judge_hashes sh clock host network dir c tip known prev_tip cursor r)
    (\<lambda>_. backed a known earlier) (backed a known earlier)"
proof (cases r)
  case (Inl e)
  show ?thesis unfolding judge_hashes_def Inl
    by (simp, rule triple_conseq [OF triple_preserves [OF preserves_backed(5)]])
      (auto simp: heard_hashes_def backed_of_clean)
next
  case (Inr now)
  have "triple (heard_hashes files a known earlier (Inr now))
      (if changed_heights known now \<noteq> []
       then report_rewrite sh clock host network dir c known now prev_tip tip (changed_heights known now) else ret ())
      (\<lambda>_. backed a known earlier) (backed a known earlier)"
    by (intro triple_if triple_rewrite_heard triple_ret) (auto simp: heard_hashes_def backed_of_clean)
  from triple_bnd [OF this triple_preserves [OF preserves_save_state]]
  show ?thesis unfolding judge_hashes_def Inr Let_def sum.case .
qed

lemma triple_lift_clean:
  "triple (clean files a known earlier) (lift r) (\<lambda>_. clean files a known earlier) (backed a known earlier)"
  by (rule triple_lift) (simp_all add: backed_of_clean)

lemma triple_compare_record:
  "triple (clean files a known earlier) (compare_record sh clock host network dir c tip known prev)
    (\<lambda>_. backed a known earlier) (backed a known earlier)"
proof -
  have read: "triple (clean files a known earlier) (attempt is_exception (read_hashes sh host c wanted 120))
      (heard_hashes files a known earlier) (backed a known earlier)" for wanted
    unfolding heard_hashes_def
    by (rule triple_attempt [where E' = "clean files a known earlier"]) (use triple_read_hashes in \<open>simp_all add: backed_of_clean\<close>)
  show ?thesis
    unfolding compare_record_def
    by (rule triple_bnd [OF triple_lift_clean], rule triple_bnd [OF triple_lift_clean], rule triple_prod, rule triple_if,
        rule triple_conseq [OF triple_preserves [OF preserves_save_state] backed_of_clean], assumption+,
        rule triple_bnd [OF read triple_judge_hashes])
qed

text \<open>The comparison starts from the record on file; no file changes before the hashes are read.\<close>

lemma triple_compare_hashes:
  assumes "known = record_of (map_of files (state_path dir host network))"
  shows "triple (clean files a known earlier) (compare_hashes sh clock host network dir c tip)
    (\<lambda>_. backed a known earlier) (backed a known earlier)"
proof -
  have load: "triple (clean files a known earlier) (load_state (state_path dir host network))
      (\<lambda>x w. clean files a known earlier w \<and> fst x = known) (backed a known earlier)"
    using load_state_record load_state_world assms
    by (fastforce simp: triple_def clean_def)
  have "triple (\<lambda>w. clean files a known earlier w \<and> k = known)
      (compare_record sh clock host network dir c tip k prev)
      (\<lambda>_. backed a known earlier) (backed a known earlier)" for k prev
    using triple_compare_record [of files a known earlier sh clock host network dir c tip prev]
    by (auto simp: triple_def)
  then show ?thesis unfolding compare_hashes_def
    by (intro triple_bnd [OF load] triple_prod) simp
qed

lemma preserves_report_tip:
  assumes "parse_reply raw = Inr (tip, tips)" "jiter tips = Inr ts" "t \<in> set ts"
  shows "preserves (knows files a known earlier [raw]) (report_tip label a t)"
proof -
  have "evidence a known (answers (hw_calls w)) (Branch label d height (JStr ''valid-fork'') hash)"
    if "jget t ''status'' JNull = Inr (JStr ''valid-fork'')" "rbind (jget t ''branchlen'' (JInt 0)) jint = Inr d"
      "a \<le> d" "jitem t ''height'' = Inr height" "rbind (jitem t ''hash'') (jprefix 16) = Inr hash"
      "knows files a known earlier [raw] w" for d height hash and w :: "'n reorg_world"
  proof -
    have "names_branch d height hash raw"
      using that assms by (auto simp: names_branch_def list_ex_iff simp del: rbind_eq_Inr)
    with that show ?thesis by (auto simp: knows_def list_ex_iff)
  qed
  then show ?thesis
    by (auto simp: preserves_def report_tip_def bnd_def lift_def ret_def bad_def warn_def knows_def clean_def
        simp del: rbind_eq_Inr evidence.simps intro!: backed_fail split: sum.splits if_splits)
qed

definition known_for :: "string \<Rightarrow> string option \<Rightarrow> string \<Rightarrow> 'n reorg_world \<Rightarrow> hash_record" where
  "known_for dir host network w = record_of (map_of (hw_files w) (state_path dir host network))"

lemma clean_of_knows: "knows files a known earlier heard w \<Longrightarrow> clean files a known earlier w"
  by (simp add: knows_def)

lemma triple_unmeasured:
  "(\<And>w. P w \<Longrightarrow> clean files a known earlier w) \<Longrightarrow>
   triple P (unmeasured u) (\<lambda>_. backed a known earlier) (backed a known earlier)"
  by (rule triple_conseq [OF triple_preserves [OF preserves_backed(5)]]) (auto intro: backed_of_clean)

lemma triple_judge_reply:
  assumes "known = record_of (map_of files (state_path dir host network))"
  shows "triple (knows files a known earlier [raw]) (judge_reply sh clock host network a dir c raw)
    (\<lambda>_. backed a known earlier) (backed a known earlier)"
proof (cases "parse_reply raw")
  case (Inl e)
  then show ?thesis unfolding judge_reply_def by (simp, intro triple_unmeasured) (rule clean_of_knows)
next
  case (Inr x)
  obtain tip tips where x: "x = (tip, tips)" by (cases x)
  let ?K = "knows files a known earlier [raw]"
  let ?B = "backed a known earlier"
  have "triple (\<lambda>w. ?K w \<and> jiter tips = Inr ts)
      (bnd (for_each (report_tip (label_of host) a) ts) (\<lambda>_. compare_hashes sh clock host network dir c tip)) (\<lambda>_. ?B) ?B" for ts
  proof (cases "jiter tips = Inr ts")
    case True
    have "triple ?K (for_each (report_tip (label_of host) a) ts) (\<lambda>_. clean files a known earlier) ?B"
      by (rule triple_conseq [OF triple_preserves [OF preserves_for_each [OF preserves_report_tip [OF Inr [unfolded x] True]]]])
        (auto dest: clean_of_knows intro: backed_of_clean)
    from triple_bnd [OF this triple_compare_hashes [OF assms, where sh = sh and clock = clock and c = c and tip = tip]]
    show ?thesis using True by simp
  qed (simp add: triple_def)
  moreover have "triple ?K (lift (jiter tips)) (\<lambda>ts w. ?K w \<and> jiter tips = Inr ts) ?B"
    by (rule triple_lift) (auto dest: clean_of_knows intro: backed_of_clean)
  ultimately show ?thesis unfolding judge_reply_def Inr x sum.case prod.case by (rule triple_bnd [rotated])
qed

lemma check_adds_evidence:
  assumes "check sh clock host network a dir datadir w = (r, w')"
  shows "\<exists>new. rg_fails w' = rg_fails w @ new
    \<and> list_all (evidence a (known_for dir host network w) (answers (hw_calls w'))) new"
proof -
  let ?k = "known_for dir host network w"
  let ?C = "clean (hw_files w) a ?k (rg_fails w)"
  let ?B = "backed a ?k (rg_fails w)"
  have start: "?C w" by (simp add: clean_def backed_def)
  have ask: "triple ?C (attempt is_exception (run_host sh host cmd t))
      (\<lambda>r v. ?C v \<and> (case r of Inl e \<Rightarrow> True | Inr raw \<Rightarrow> knows (hw_files w) a ?k (rg_fails w) [raw] v)) ?B" for cmd t
    by (rule triple_attempt [where E' = ?C]) (use triple_run_host in \<open>simp_all add: knows_def backed_of_clean\<close>)
  have "triple (\<lambda>v. ?C v \<and> (case r of Inl e \<Rightarrow> True | Inr raw \<Rightarrow> knows (hw_files w) a ?k (rg_fails w) [raw] v))
      (case r of Inl e \<Rightarrow> unmeasured (Not_Answering (label_of host) e)
       | Inr raw \<Rightarrow> judge_reply sh clock host network a dir c raw) (\<lambda>_. ?B) ?B" for c r
  proof (cases r)
    case (Inr raw)
    show ?thesis unfolding Inr by (simp, rule triple_conseq [OF triple_judge_reply [OF known_for_def]]) auto
  qed (simp, intro triple_unmeasured, simp)
  then have "triple ?C (check sh clock host network a dir datadir) (\<lambda>_. ?B) ?B"
    unfolding check_def by (intro triple_bnd [OF triple_lift_clean] triple_bnd [OF ask])
  with start assms have "?B w'" by (cases r) (auto dest: tripleD)
  then show ?thesis by (simp add: backed_def)
qed

text \<open>C6: whatever the node answers, a run adds a finding only on evidence it has heard: a reply
  that names a fully valid branch at least as deep as the alarm, or recorded hashes of which the
  node gave different ones. What does not answer, or cannot be read, adds none.\<close>

theorem every_finding_has_evidence:
  assumes "check sh clock host network a dir datadir w = (r, w')"
  shows "\<exists>new. rg_fails w' = rg_fails w @ new
    \<and> list_all (evidence a (known_for dir host network w) (answers (hw_calls w'))) new"
  using assms by (rule check_adds_evidence)

section \<open>What a run leaves alone\<close>

text \<open>Commands are only added, nothing is announced by a check, and no complaint is withdrawn.\<close>

definition goes_on :: "string list \<Rightarrow> string list \<Rightarrow> unmeasured list \<Rightarrow> 'n reorg_world \<Rightarrow> bool" where
  "goes_on heard announced unknown w \<longleftrightarrow>
     set heard \<subseteq> set (answers (hw_calls w)) \<and> rg_announced w = announced \<and> set unknown \<subseteq> set (rg_unknown w)"

lemma goes_on_refl: "goes_on (answers (hw_calls w)) (rg_announced w) (rg_unknown w) w"
  by (simp add: goes_on_def)

lemma preserves_goes_on [preserves_rules]:
  "preserves (goes_on h x u) (subprocess_run sh argv stdin t)"
  "preserves (goes_on h x u) (host_load p)" "preserves (goes_on h x u) (host_write p f)"
  "preserves (goes_on h x u) (host_replace p q)" "preserves (goes_on h x u) (host_makedirs d)"
  "preserves (goes_on h x u) (host_listdir d)"
  "preserves (goes_on h x u) (warn m)" "preserves (goes_on h x u) (unmeasured v)" "preserves (goes_on h x u) (bad b)"
  by (auto simp: preserves_def goes_on_def subprocess_run_def host_load_def host_write_def host_replace_def
      host_makedirs_def host_listdir_def warn_def unmeasured_def bad_def split: option.splits prod.splits)

lemma preserves_goes_on_at [preserves_rules]: "preserves (goes_on h x u) (\<lambda>w. host_write (p w) (f w) w)"
  using preserves_goes_on(3) by (fastforce simp: preserves_def)

lemma preserves_goes_on_run [preserves_rules]: "preserves (goes_on h x u) (run_host sh host cmd t)"
  unfolding run_host_def by (intro preserves_rules)

lemma preserves_goes_on_read [preserves_rules]: "preserves (goes_on h x u) (read_hashes sh host c hs t)"
  unfolding read_hashes_def by (intro preserves_rules)

lemmas preserves_goes_on_narrow [preserves_rules] = narrow_preserves [OF preserves_goes_on_read]

lemma preserves_goes_on_steps [preserves_rules]:
  "preserves (goes_on h x u) (save_state clock path hs tip cursor)"
  "preserves (goes_on h x u) (raise_alarm clock dir network host detail)"
  "preserves (goes_on h x u) (load_state path)"
  "preserves (goes_on h x u) (bracket_of sh host c known now s)"
  "preserves (goes_on h x u) (report_tip label a t)"
  unfolding save_state_def raise_alarm_def load_state_def bracket_of_def fork_bracket_def report_tip_def Let_def
  by (intro preserves_rules)+

lemma preserves_goes_on_rewrite [preserves_rules]:
  "preserves (goes_on h x u) (report_rewrite sh clock host network dir c known now prev_tip tip changed)"
  unfolding report_rewrite_def Let_def by (intro preserves_rules)

lemma preserves_goes_on_judge [preserves_rules]:
  "preserves (goes_on h x u) (judge_hashes sh clock host network dir c tip known prev_tip cursor r)"
  unfolding judge_hashes_def Let_def by (intro preserves_rules)

lemma preserves_goes_on_compare [preserves_rules]:
  "preserves (goes_on h x u) (compare_hashes sh clock host network dir c tip)"
  unfolding compare_hashes_def compare_record_def by (intro preserves_rules)

lemma preserves_goes_on_reply [preserves_rules]:
  "preserves (goes_on h x u) (judge_reply sh clock host network a dir c raw)"
  unfolding judge_reply_def by (intro preserves_rules)

lemma preserves_goes_on_check [preserves_rules]:
  "preserves (goes_on h x u) (check sh clock host network a dir datadir)"
  unfolding check_def by (intro preserves_rules)

lemma goes_on_D:
  assumes "preserves (goes_on (answers (hw_calls w)) (rg_announced w) (rg_unknown w)) m" "m w = (r, w')"
  shows "goes_on (answers (hw_calls w)) (rg_announced w) (rg_unknown w) w'"
  using preservesD [OF assms(1) goes_on_refl assms(2)] .

text \<open>A check that hears nothing says that it measured nothing.\<close>

lemma check_unanswered:
  assumes "check sh clock host network a dir datadir w = (Inr x, w')" "answers (hw_calls w') = []"
  shows "rg_unknown w' \<noteq> []"
proof -
  let ?cmd = "\<lambda>c. c @ '' getblockcount && echo --- && '' @ c @ '' getchaintips''"
  from assms(1) obtain c where c: "cli_command network datadir = Inr c"
    by (cases "cli_command network datadir") (simp_all add: check_def bnd_def lift_def)
  obtain r v where v: "run_host sh host (?cmd c) 60 w = (r, v)" by fastforce
  show ?thesis
  proof (cases r)
    case (Inl e)
    with assms(1) c v show ?thesis
      by (auto simp: check_def bnd_def lift_def attempt_def unmeasured_def split: if_splits)
  next
    case (Inr raw)
    then have "raw \<in> set (answers (hw_calls v))"
      using v by (auto simp: run_host_def subprocess_run_def bnd_def ret_def throw_def
          split: prod.splits outcome.splits if_splits)
    moreover have "judge_reply sh clock host network a dir c raw v = (Inr x, w')"
      using assms(1) c v Inr by (simp add: check_def bnd_def lift_def attempt_def)
    from goes_on_D [OF preserves_goes_on_reply this] have "set (answers (hw_calls v)) \<subseteq> set (answers (hw_calls w'))"
      by (simp add: goes_on_def)
    ultimately show ?thesis using assms(2) by auto
  qed
qed

section \<open>What is announced\<close>

lemma ordinary_pure [ordinary_rules]:
  "ordinary (cli_command network datadir)" "ordinary (recorded_heights d)" "ordinary (add_hashes lines got)"
  "ordinary (parse_reply raw)" "ordinary (jprefix n v)" "ordinary (jminus v k)" "ordinary (depths p ch f s)"
proof -
  show "ordinary (cli_command network datadir)"
    by (auto simp: cli_command_def ordinary_def split: option.splits)
  show "ordinary (recorded_heights d)"
    unfolding recorded_heights_def
    by (intro ordinary_rules) (auto split: json.split intro!: ordinary_rules)
  show "ordinary (add_hashes lines got)"
    by (induction lines got rule: add_hashes.induct) (auto split: list.split intro!: ordinary_rules)
  show "ordinary (parse_reply raw)"
    by (auto simp: parse_reply_def split: option.split intro!: ordinary_rules)
  show "ordinary (jprefix n v)" by (cases v) (simp_all add: ordinary_def)
  show m: "ordinary (jminus v k)" for v k by (cases v) (auto intro!: ordinary_rules)
  show "ordinary (depths p ch f s)"
    unfolding depths_def by (auto intro!: ordinary_rules m split: option.split)
qed

lemma ordinary_run [ordinary_rules]: "ordinary_prog (run_host sh host cmd t)"
  unfolding run_host_def by (intro ordinary_rules) simp

lemma ordinary_read [ordinary_rules]: "ordinary_prog (read_hashes sh host c hs t)"
  unfolding read_hashes_def by (intro ordinary_rules)

lemma ordinary_notes [ordinary_rules]:
  "ordinary_prog (bad f)" "ordinary_prog (warn m)" "ordinary_prog (unmeasured u)"
  by (simp_all add: ordinary_prog_def ordinary_def bad_def warn_def unmeasured_def)

lemma ordinary_write_at [ordinary_rules]: "ordinary_prog (\<lambda>w. host_write (p w) (f w) w)"
  by (rule ordinary_at) (rule ordinary_rules)

lemma ordinary_steps [ordinary_rules]:
  "ordinary_prog (save_state clock path hs tip cursor)"
  "ordinary_prog (raise_alarm clock dir network host detail)"
  "ordinary_prog (load_state path)" "ordinary_prog (outstanding_alarms dir)"
  "ordinary_prog (report_tip label a t)"
  unfolding save_state_def raise_alarm_def load_state_def outstanding_alarms_def report_tip_def
  by (intro ordinary_rules)+

lemma ordinary_narrow [ordinary_rules]: "ordinary_prog (narrow sh host c known pool lo hi)"
proof (induction sh host c known pool lo hi rule: narrow.induct)
  case (1 sh host c known pool lo hi)
  then show ?case by (subst narrow.simps) (auto simp: Let_def intro!: ordinary_rules)
qed

lemma ordinary_bracket [ordinary_rules]: "ordinary_prog (bracket_of sh host c known now s)"
  unfolding bracket_of_def fork_bracket_def Let_def by (intro ordinary_rules)

lemma ordinary_check [ordinary_rules]: "ordinary_prog (check sh clock host network a dir datadir)"
  unfolding check_def judge_reply_def compare_hashes_def compare_record_def judge_hashes_def report_rewrite_def Let_def
  by (intro ordinary_rules)

lemma check_target_goes_on: "preserves (goes_on x y z) (check_target sh clock a h)"
  unfolding check_target_def by (intro preserves_rules)

lemma check_target_fails:
  assumes "check_target sh clock a h w = (r, w')"
  shows "\<exists>new. rg_fails w' = rg_fails w @ new \<and> (answers (hw_calls w') = [] \<longrightarrow> new = [])"
proof -
  obtain q v where v: "check sh clock h (ra_network a) (ra_depth a) (ra_state_dir a) (ra_datadir a) w = (q, v)"
    by fastforce
  have w': "rg_fails w' = rg_fails v" "hw_calls w' = hw_calls v"
    using assms v by (auto simp: check_target_def attempt_def bnd_def unmeasured_def ret_def split: sum.splits if_splits)
  obtain new where new: "rg_fails v = rg_fails w @ new"
    "list_all (evidence (ra_depth a) (known_for (ra_state_dir a) h (ra_network a) w) (answers (hw_calls v))) new"
    using check_adds_evidence [OF v] by blast
  then have "new = []" if "answers (hw_calls v) = []" using that by (cases new) (auto dest: evidence_heard)
  with new(1) w' show ?thesis by simp
qed

lemma check_target_unanswered:
  assumes "check_target sh clock a h w = (r, w')" "answers (hw_calls w') = []"
  shows "r = Inr () \<and> rg_unknown w' \<noteq> []"
proof -
  obtain q v where v: "check sh clock h (ra_network a) (ra_depth a) (ra_state_dir a) (ra_datadir a) w = (q, v)"
    by fastforce
  have "ordinary q" using ordinary_check v by (metis fst_conv ordinary_prog_def)
  with assms v check_unanswered [of sh clock h "ra_network a" "ra_depth a" "ra_state_dir a" "ra_datadir a" w] show ?thesis
    by (cases q) (auto simp: check_target_def attempt_def bnd_def unmeasured_def ret_def ordinary_def)
qed

text \<open>All targets: the findings before stay, and without an answer there are no more of them.\<close>

lemma check_targets:
  assumes "for_each (check_target sh clock a) hs w = (r, w')"
  shows "\<exists>new. rg_fails w' = rg_fails w @ new \<and> (answers (hw_calls w') = [] \<longrightarrow> new = [])"
    and "answers (hw_calls w') = [] \<Longrightarrow> (\<exists>x. r = Inr x) \<and> (hs \<noteq> [] \<longrightarrow> rg_unknown w' \<noteq> [])"
proof -
  have "(\<exists>new. rg_fails w' = rg_fails w @ new \<and> (answers (hw_calls w') = [] \<longrightarrow> new = []))
    \<and> (answers (hw_calls w') = [] \<longrightarrow> (\<exists>x. r = Inr x) \<and> (hs \<noteq> [] \<longrightarrow> rg_unknown w' \<noteq> []))"
    using assms
  proof (induction hs arbitrary: w r)
    case (Cons h hs)
    obtain q v where v: "check_target sh clock a h w = (q, v)" by fastforce
    obtain new where new: "rg_fails v = rg_fails w @ new" "answers (hw_calls v) = [] \<longrightarrow> new = []"
      using check_target_fails [OF v] by blast
    show ?case
    proof (cases q)
      case (Inl e)
      with Cons.prems v have "w' = v" by (simp add: bnd_def)
      with new check_target_unanswered [OF v] Inl show ?thesis by auto
    next
      case (Inr x)
      obtain q2 v2 where v2: "for_each (check_target sh clock a) hs v = (q2, v2)" by fastforce
      have w': "v2 = w'" and r: "answers (hw_calls w') = [] \<Longrightarrow> (\<exists>x. q2 = Inr x) \<Longrightarrow> (\<exists>x. r = Inr x)"
        using Cons.prems v v2 Inr by (auto simp: bnd_def ret_def split: sum.splits)
      from Cons.IH [of v q2] v2 w' obtain more where more:
        "rg_fails w' = rg_fails v @ more" "answers (hw_calls w') = [] \<longrightarrow> more = [] \<and> (\<exists>x. q2 = Inr x)" by auto
      have on: "goes_on (answers (hw_calls v)) (rg_announced v) (rg_unknown v) w'"
        using goes_on_D [OF preserves_for_each [OF check_target_goes_on] v2] w' by simp
      then have quiet: "answers (hw_calls v) = []" if "answers (hw_calls w') = []"
        using that by (simp add: goes_on_def)
      have "rg_unknown w' \<noteq> []" if "answers (hw_calls w') = []"
        using check_target_unanswered [OF v quiet [OF that]] on by (auto simp: goes_on_def)
      with new more quiet r show ?thesis by auto
    qed
  qed (simp add: ret_def)
  then show "\<exists>new. rg_fails w' = rg_fails w @ new \<and> (answers (hw_calls w') = [] \<longrightarrow> new = [])"
    and "answers (hw_calls w') = [] \<Longrightarrow> (\<exists>x. r = Inr x) \<and> (hs \<noteq> [] \<longrightarrow> rg_unknown w' \<noteq> [])" by blast+
qed

text \<open>A node that answers the given outcomes one after the other.\<close>

definition replay :: "outcome list shell" where
  "replay = (\<lambda>outs argv stdin t. case outs of [] \<Rightarrow> (Not_Started, []) | res # rest \<Rightarrow> (res, rest))"

definition sample_tips :: string where
  "sample_tips = ''5---[{'' @ [CHR 0x22] @ ''status'' @ [CHR 0x22] @ '':'' @ [CHR 0x22] @ ''valid-fork'' @ [CHR 0x22] @
     '','' @ [CHR 0x22] @ ''branchlen'' @ [CHR 0x22] @ '':3,'' @ [CHR 0x22] @ ''height'' @ [CHR 0x22] @ '':4,'' @
     [CHR 0x22] @ ''hash'' @ [CHR 0x22] @ '':'' @ [CHR 0x22] @ ''ab'' @ [CHR 0x22] @ ''}]''"

definition sample_replay :: "outcome list reorg_world" where
  "sample_replay = \<lparr>hw_node = [Exited 0 sample_tips [], Timed_Out], hw_calls = [], hw_files = [],
     hw_dirs = (\<lambda>p. p = ''/s''), hw_denied = (\<lambda>p. False), rg_fails = [], rg_warns = [], rg_unknown = [], rg_announced = []\<rparr>"

lemma sample_tips_reply: "parse_reply sample_tips = Inr (5, JArr [JObj [(''status'', JStr ''valid-fork''),
    (''branchlen'', JInt 3), (''height'', JInt 4), (''hash'', JStr ''ab'')]])"
  by code_simp

lemma every_finding_has_evidence_witness:
  "let w' = snd (check replay (\<lambda>n. 0) None ''testnet'' 2 ''/s'' None sample_replay)
   in (\<exists>new. rg_fails w' = rg_fails sample_replay @ new
        \<and> list_all (evidence 2 (known_for ''/s'' None ''testnet'' sample_replay) (answers (hw_calls w'))) new)
      \<and> rg_fails w' = [Branch ''this machine'' 3 (JInt 4) (JStr ''valid-fork'') (JStr ''ab'')]"
  unfolding Let_def
proof (intro conjI)
  show "\<exists>new. rg_fails (snd (check replay (\<lambda>n. 0) None ''testnet'' 2 ''/s'' None sample_replay)) = rg_fails sample_replay @ new
      \<and> list_all (evidence 2 (known_for ''/s'' None ''testnet'' sample_replay)
          (answers (hw_calls (snd (check replay (\<lambda>n. 0) None ''testnet'' 2 ''/s'' None sample_replay))))) new"
    by (rule every_finding_has_evidence [OF prod.collapse [symmetric]])
  have "fst (heights_to_check 5 [] 0) = [0, 1, 2, 3, 4]" by code_simp
  then obtain c where h: "heights_to_check 5 [] 0 = ([0, 1, 2, 3, 4], c)" by (metis prod.collapse)
  show "rg_fails (snd (check replay (\<lambda>n. 0) None ''testnet'' 2 ''/s'' None sample_replay))
      = [Branch ''this machine'' 3 (JInt 4) (JStr ''valid-fork'') (JStr ''ab'')]"
    by (simp add: check_def cli_command_def bnd_def lift_def ret_def attempt_def run_host_def subprocess_run_def replay_def
        sample_replay_def judge_reply_def sample_tips_reply report_tip_def bad_def label_of_def compare_hashes_def
        load_state_def host_load_def compare_record_def h read_hashes_def judge_hashes_def unmeasured_def)
qed

lemma note_alarms:
  "for_each (\<lambda>f. bad (Earlier_Alarm (g f))) fs w
    = (Inr (map (\<lambda>_. ()) fs), w\<lparr>rg_fails := rg_fails w @ map (\<lambda>f. Earlier_Alarm (g f)) fs\<rparr>)"
  by (induction fs arbitrary: w) (simp_all add: ret_def bnd_def bad_def)

lemma reorg_main_steps:
  assumes "reorg_main sh clock tmp repo a w = (r, w')" "reorg_targets a \<noteq> []"
    "outstanding_alarms (ra_state_dir a) w = (Inr old, w)"
  obtains w1 q v where
    "w1 = w\<lparr>rg_fails := rg_fails w @ map (\<lambda>f. Earlier_Alarm (ra_state_dir a @ ''/'' @ f)) old\<rparr>"
    "for_each (check_target sh clock a) (reorg_targets a) w1 = (q, v)"
    "(case q of Inl e \<Rightarrow> r = Inl e \<and> w' = v | Inr _ \<Rightarrow> reorg_verdict sh tmp repo a v = (r, w'))"
proof -
  let ?w1 = "w\<lparr>rg_fails := rg_fails w @ map (\<lambda>f. Earlier_Alarm (ra_state_dir a @ ''/'' @ f)) old\<rparr>"
  obtain q v where "for_each (check_target sh clock a) (reorg_targets a) ?w1 = (q, v)" by fastforce
  with assms that [OF refl this] show thesis
    by (auto simp: reorg_main_def bnd_def note_alarms split: sum.splits)
qed

lemma outstanding_alarms_world: "outstanding_alarms dir w = (r, w') \<Longrightarrow> w' = w"
  by (auto simp: outstanding_alarms_def host_listdir_def attempt_def bnd_def ret_def split: if_splits)

lemma announce_goes_on:
  "announce sh tmp text repo w = (r, w') \<Longrightarrow> answers (hw_calls w') = [] \<Longrightarrow> answers (hw_calls w) = []"
  by (auto simp: announce_def subprocess_run_def bnd_def ret_def throw_def split: prod.splits outcome.splits if_splits)

text \<open>C7: when no command was answered and no alarm of an earlier run is on file, nothing is found
  and nothing is announced, and the exit code is 2, neither the 0 that vouches for the chain nor
  the 1 that reports a reorganisation.\<close>

theorem nobody_answering_announces_nothing:
  assumes run: "reorg_main sh clock tmp repo a w = (r, w')" and ne: "reorg_targets a \<noteq> []"
    and old: "outstanding_alarms (ra_state_dir a) w = (Inr [], w)"
    and fresh: "rg_fails w = []" "rg_announced w = []"
    and silent: "answers (hw_calls w') = []"
  shows "r = Inr 2 \<and> rg_fails w' = [] \<and> rg_announced w' = []"
proof -
  obtain w1 q v where w1: "w1 = w" and loop: "for_each (check_target sh clock a) (reorg_targets a) w1 = (q, v)"
    and fin: "case q of Inl e \<Rightarrow> r = Inl e \<and> w' = v | Inr _ \<Rightarrow> reorg_verdict sh tmp repo a v = (r, w')"
    using reorg_main_steps [OF run ne old] by auto
  have quiet: "answers (hw_calls v) = []"
    using fin silent announce_goes_on
    by (auto simp: reorg_verdict_def bnd_def ret_def split: sum.splits if_splits prod.splits)
  obtain new where "rg_fails v = rg_fails w @ new" "new = []"
    using check_targets(1) [OF loop] quiet w1 by auto
  with fresh have fails: "rg_fails v = []" by simp
  have unk: "rg_unknown v \<noteq> []" "\<exists>x. q = Inr x" using check_targets(2) [OF loop quiet] ne by auto
  have "rg_announced v = []"
    using goes_on_D [OF preserves_for_each [OF check_target_goes_on] loop] fresh w1 by (simp add: goes_on_def)
  with fin fails unk show ?thesis by (auto simp: reorg_verdict_def)
qed

lemma nobody_answering_announces_nothing_witness:
  "let a = \<lparr>ra_hosts = [''n1''], ra_local = False, ra_network = ''mainnet'', ra_depth = 2, ra_state_dir = ''/s'',
      ra_datadir = None, ra_announce = True\<rparr>;
       x = reorg_main (\<lambda>n argv stdin t. (Timed_Out, n)) (\<lambda>n. 0) ''/t'' ''/r'' a sample_watch
   in fst x = Inr 2 \<and> rg_fails (snd x) = [] \<and> rg_announced (snd x) = []"
  unfolding Let_def
  by (rule nobody_answering_announces_nothing [OF prod.collapse [symmetric]])
    (simp_all add: reorg_targets_def outstanding_alarms_def host_listdir_def sample_watch_def attempt_def bnd_def ret_def
      reorg_main_def note_alarms check_target_def check_def cli_command_def lift_def run_host_def subprocess_run_def
      unmeasured_def reorg_verdict_def answers_def)

text \<open>An alarm file outlives the run that wrote it: as long as one is in the directory, every
  run that ends exits with 1 and, when it is asked to announce, publishes it, whatever the node
  says now and whichever network the file is about.\<close>

theorem an_alarm_on_file_is_reported:
  assumes run: "reorg_main sh clock tmp repo a w = (Inr n, w')" and ne: "reorg_targets a \<noteq> []"
    and old: "outstanding_alarms (ra_state_dir a) w = (Inr (f # fs), w)"
  shows "n = 1 \<and> Earlier_Alarm (ra_state_dir a @ ''/'' @ f) \<in> set (rg_fails w')
    \<and> (if ra_announce a then announcement (ra_network a) (rg_fails w') \<in> set (rg_announced w') else rg_announced w' = rg_announced w)"
proof -
  obtain w1 q v where w1: "w1 = w\<lparr>rg_fails := rg_fails w @ map (\<lambda>f. Earlier_Alarm (ra_state_dir a @ ''/'' @ f)) (f # fs)\<rparr>"
    and loop: "for_each (check_target sh clock a) (reorg_targets a) w1 = (q, v)"
    and fin: "case q of Inl e \<Rightarrow> Inr n = Inl e \<and> w' = v | Inr _ \<Rightarrow> reorg_verdict sh tmp repo a v = (Inr n, w')"
    using reorg_main_steps [OF run ne old] by blast
  obtain new where new: "rg_fails v = rg_fails w1 @ new" using check_targets(1) [OF loop] by blast
  have mem: "Earlier_Alarm (ra_state_dir a @ ''/'' @ f) \<in> set (rg_fails v)" by (simp add: new w1)
  then have fails: "rg_fails v \<noteq> []" by auto
  have ann: "rg_announced v = rg_announced w"
    using goes_on_D [OF preserves_for_each [OF check_target_goes_on] loop] by (simp add: goes_on_def w1)
  from fin have "reorg_verdict sh tmp repo a v = (Inr n, w')" by (cases q) simp_all
  with fails ann mem show ?thesis
    by (auto simp: reorg_verdict_def announce_def subprocess_run_def bnd_def ret_def throw_def
        split: if_splits prod.splits sum.splits outcome.splits)
qed

lemma an_alarm_on_file_is_reported_witness:
  "let a = \<lparr>ra_hosts = [''n1''], ra_local = False, ra_network = ''mainnet'', ra_depth = 2, ra_state_dir = ''/s'',
      ra_datadir = None, ra_announce = False\<rparr>;
       w = sample_watch\<lparr>hw_files := [(''/s/ALARM-testnet-1.json'', Doc JNull)]\<rparr>;
       w' = snd (reorg_main (\<lambda>n argv stdin t. (Timed_Out, n)) (\<lambda>n. 0) ''/t'' ''/r'' a w)
   in Earlier_Alarm ''/s/ALARM-testnet-1.json'' \<in> set (rg_fails w')"
proof -
  let ?a = "\<lparr>ra_hosts = [''n1''], ra_local = False, ra_network = ''mainnet'', ra_depth = 2, ra_state_dir = ''/s'',
      ra_datadir = None, ra_announce = False\<rparr>"
  let ?w = "sample_watch\<lparr>hw_files := [(''/s/ALARM-testnet-1.json'', Doc JNull)]\<rparr>"
  have old: "outstanding_alarms (ra_state_dir ?a) ?w = (Inr [''ALARM-testnet-1.json''], ?w)"
    by (simp add: outstanding_alarms_def host_listdir_def sample_watch_def attempt_def bnd_def ret_def path_basename_def
        path_join_def)
  have ne: "reorg_targets ?a \<noteq> []" by (simp add: reorg_targets_def)
  obtain w' where run: "reorg_main (\<lambda>n argv stdin t. (Timed_Out, n)) (\<lambda>n. 0) ''/t'' ''/r'' ?a ?w = (Inr 1, w')"
    using old by (auto simp: reorg_main_def reorg_targets_def note_alarms check_target_def check_def cli_command_def
      lift_def run_host_def subprocess_run_def unmeasured_def reorg_verdict_def attempt_def bnd_def ret_def)
  show ?thesis using an_alarm_on_file_is_reported [OF run ne old] run by simp
qed

section \<open>The record stays well-formed\<close>

text \<open>Each height once, each with a hash of 64 characters.\<close>

definition hash_ok :: "json \<Rightarrow> bool" where
  "hash_ok v = (case v of JStr s \<Rightarrow> length s = 64 | _ \<Rightarrow> False)"

definition record_ok :: "hash_record \<Rightarrow> bool" where
  "record_ok hs \<longleftrightarrow> distinct (map fst hs) \<and> list_all (\<lambda>(h, v). hash_ok v) hs"

lemma dict_set_ok:
  assumes "record_ok hs" "hash_ok v"
  shows "record_ok (dict_set h v hs)"
proof -
  have "fst ` set (dict_set h v hs) = insert h (fst ` set hs)" for hs :: hash_record
  proof (induction hs)
    case (Cons x hs)
    then show ?case by (cases x) (auto simp: insert_commute)
  qed simp
  then have "distinct (map fst hs) \<Longrightarrow> distinct (map fst (dict_set h v hs))"
    by (induction hs) auto
  moreover have "list_all (\<lambda>(h, v). hash_ok v) hs \<Longrightarrow> list_all (\<lambda>(h, v). hash_ok v) (dict_set h v hs)"
    using assms(2) by (induction hs) auto
  ultimately show ?thesis using assms(1) by (simp add: record_ok_def)
qed

lemma add_hashes_ok:
  "add_hashes lines got = Inr got' \<Longrightarrow> list_all (\<lambda>(h, s). length s = 64) got \<Longrightarrow> list_all (\<lambda>(h, s). length s = 64) got'"
proof (induction lines got rule: add_hashes.induct)
  case (2 line lines got)
  have "list_all (\<lambda>(h, s). length s = 64) got \<Longrightarrow> list_all (\<lambda>(h, s). length s = 64) (dict_set h b got)"
    if "length b = 64" for h b and got :: "(int \<times> string) list"
    using that by (induction got) auto
  with 2 show ?case by (auto split: list.splits if_splits)
qed simp

lemma merged_record_ok:
  assumes "record_ok known" "list_all (\<lambda>(h, s). length s = 64) now"
  shows "record_ok (merged_record known tip now)"
proof -
  have "record_ok (filter P known)" for P
    using assms(1) by (auto simp: record_ok_def list_all_iff distinct_map_filter)
  have "record_ok hs \<Longrightarrow> list_all (\<lambda>(h, s). length s = 64) now \<Longrightarrow>
      record_ok (foldl (\<lambda>m (h, s). dict_set h (JStr s) m) hs now)" for hs
    by (induction now arbitrary: hs) (auto simp: dict_set_ok hash_ok_def)
  with assms(2) \<open>\<And>P. record_ok (filter P known)\<close> show ?thesis by (simp add: merged_record_def)
qed

definition file_ok :: "string \<Rightarrow> 'n reorg_world \<Rightarrow> bool" where
  "file_ok path w \<longleftrightarrow> record_ok (record_of (map_of (hw_files w) path))"

lemma file_ok_run [preserves_rules]:
  "preserves (file_ok path) (run_host sh host cmd t)" "preserves (file_ok path) (host_makedirs d)"
  "preserves (file_ok path) (warn m)" "preserves (file_ok path) (unmeasured u)" "preserves (file_ok path) (bad f)"
  "preserves (file_ok path) (load_state p)"
  by (auto simp: preserves_def file_ok_def run_host_def subprocess_run_def bnd_def ret_def throw_def host_makedirs_def
      warn_def unmeasured_def bad_def load_state_def host_load_def attempt_def lift_def
      split: prod.splits sum.splits outcome.splits option.splits stored.splits if_splits)

lemma file_ok_read [preserves_rules]: "preserves (file_ok path) (read_hashes sh host c hs t)"
  unfolding read_hashes_def by (intro preserves_rules)

lemmas file_ok_narrow [preserves_rules] = narrow_preserves [OF file_ok_read]

lemma file_ok_save [preserves_rules]:
  assumes "record_ok hs"
  shows "preserves (file_ok path) (save_state clock path hs tip cursor)"
proof -
  have "file_ok path w'" if ok: "file_ok path w" and s: "save_state clock path hs tip cursor w = (r, w')" for w r w'
  proof (cases "r = Inr ()")
    case True
    have "distinct (map fst hs)" using assms by (simp add: record_ok_def)
    from save_state_outcome [OF s this] True load_state_record have "record_of (map_of (hw_files w') path) = hs"
      by metis
    with assms show ?thesis by (simp add: file_ok_def)
  next
    case False
    have "distinct (map fst hs)" using assms by (simp add: record_ok_def)
    from save_state_outcome [OF s this] False ok show ?thesis by (simp add: file_ok_def)
  qed
  then show ?thesis unfolding preserves_def by (metis prod.collapse)
qed

lemma path_join_inj: "path_join d x = path_join d y \<Longrightarrow> \<not> starts_with ''/'' x \<Longrightarrow> \<not> starts_with ''/'' y \<Longrightarrow> x = y"
  by (auto simp: path_join_def split: if_splits)

lemma alarm_is_no_state: "alarm_path dir network t \<noteq> state_path dir host network'"
  using path_join_inj [of dir "''ALARM-'' @ network @ ''-'' @ utc_stamp t @ ''.json''"
      "''reorg-'' @ network' @ ''-'' @ map (\<lambda>c. if c = CHR ''/'' \<or> c = CHR '':'' then CHR ''_'' else c) (host_tag host) @ ''.json''"]
  by (auto simp: alarm_path_def state_path_def)

lemma file_ok_alarm_write [preserves_rules]:
  "preserves (file_ok (state_path dir host network')) (\<lambda>w. host_write (alarm_path dir network (t w)) (x w) w)"
  using alarm_is_no_state [of dir network _ host network', THEN not_sym]
  by (auto simp: preserves_def file_ok_def host_write_def)

lemma file_ok_alarm [preserves_rules]:
  "preserves (file_ok (state_path dir host network')) (raise_alarm clock dir network h detail)"
  unfolding raise_alarm_def by (intro preserves_rules)

lemma file_ok_bracket [preserves_rules]: "preserves (file_ok path) (bracket_of sh host c known now s)"
  unfolding bracket_of_def fork_bracket_def Let_def by (intro preserves_rules)

lemma file_ok_rewrite [preserves_rules]:
  "preserves (file_ok (state_path dir host network)) (report_rewrite sh clock host network dir c known now prev_tip tip changed)"
  unfolding report_rewrite_def Let_def by (intro preserves_rules)

lemma file_ok_tip [preserves_rules]: "preserves (file_ok path) (report_tip label a t)"
  unfolding report_tip_def by (intro preserves_rules)

lemma read_hashes_ok:
  "read_hashes sh host c hs t w = (Inr got, w') \<Longrightarrow> list_all (\<lambda>(h, s). length s = 64) got"
  by (auto simp: read_hashes_def bnd_ok_iff lift_def dest: add_hashes_ok)

lemma file_ok_compare [preserves_rules]:
  assumes "record_ok known"
  shows "preserves (file_ok (state_path dir host network)) (compare_record sh clock host network dir c tip known prev)"
proof -
  let ?I = "file_ok (state_path dir host network)"
  have judge: "preserves ?I (judge_hashes sh clock host network dir c tip known prev_tip cursor r)"
    if "case r of Inl e \<Rightarrow> True | Inr got \<Rightarrow> list_all (\<lambda>(h, s). length s = 64) got" for prev_tip cursor r
    using that merged_record_ok [OF assms] unfolding judge_hashes_def Let_def
    by (auto intro!: preserves_rules split: sum.splits)
  have step: "preserves ?I (bnd (attempt is_exception (read_hashes sh host c wanted 120))
      (judge_hashes sh clock host network dir c tip known prev_tip cursor))" for wanted prev_tip cursor
  proof -
    have "?I (snd (bnd (attempt is_exception (read_hashes sh host c wanted 120))
      (judge_hashes sh clock host network dir c tip known prev_tip cursor) w))" if "?I w" for w
    proof -
      obtain r v where v: "read_hashes sh host c wanted 120 w = (r, v)" by fastforce
      with preservesD [OF file_ok_read that] have "?I v" by blast
      with judge [of r prev_tip cursor] v read_hashes_ok [of sh host c wanted 120 w] show ?thesis
        by (cases r) (auto simp: bnd_def attempt_def preserves_def)
    qed
    then show ?thesis by (simp add: preserves_def)
  qed
  have "record_ok []" by (simp add: record_ok_def)
  then show ?thesis unfolding compare_record_def
    by (intro preserves_bnd [OF preserves_basic(3)] preserves_prod preserves_if file_ok_save step)
qed

text \<open>C38: whatever the node answers, a run leaves a well-formed state file well-formed: every height
  once, with a hash of 64 characters.\<close>

theorem record_stays_well_formed:
  assumes "record_ok (known_for dir host network w)"
    and "check sh clock host network a dir datadir w = (r, w')"
  shows "record_ok (known_for dir host network w')"
proof -
  let ?I = "file_ok (state_path dir host network)"
  have "preserves ?I (compare_hashes sh clock host network dir c tip)" for c tip
  proof -
    have "?I (snd (compare_hashes sh clock host network dir c tip w))" if "?I w" for w
    proof -
      obtain q v where v: "load_state (state_path dir host network) w = (q, v)" by fastforce
      have vw: "v = w" using load_state_world [OF v] .
      show ?thesis
      proof (cases q)
        case (Inr x)
        obtain known prev where x: "x = (known, prev)" by (cases x)
        have "record_ok known" using load_state_record [of _ w known prev v] v Inr x that by (auto simp: file_ok_def)
        with file_ok_compare [of known dir host network sh clock c tip prev] that v Inr x vw show ?thesis
          by (auto simp: compare_hashes_def bnd_def preserves_def)
      qed (use v vw that in \<open>simp add: compare_hashes_def bnd_def\<close>)
    qed
    then show ?thesis by (simp add: preserves_def)
  qed
  then have "preserves ?I (check sh clock host network a dir datadir)"
    unfolding check_def judge_reply_def by (intro preserves_rules)
  from preservesD [OF this _ assms(2)] assms(1) show ?thesis by (simp add: file_ok_def known_for_def)
qed

lemma record_stays_well_formed_witness:
  "record_ok (known_for ''/s'' None ''testnet''
     (snd (check replay (\<lambda>n. 0) None ''testnet'' 2 ''/s'' None sample_replay)))"
proof (rule record_stays_well_formed [OF _ prod.collapse [symmetric]])
  show "record_ok (known_for ''/s'' None ''testnet'' sample_replay)"
    by (simp add: known_for_def record_of_def sample_replay_def record_ok_def)
qed

section \<open>Weak points\<close>

text \<open>The file of an alarm is named after the network and the second, not the host: of two alarms
  in the same second only the later is kept.\<close>

theorem alarms_of_one_second_share_a_file:
  assumes "raise_alarm clock dir network h1 d1 w = (Inr (), w1)" "raise_alarm clock dir network h2 d2 w1 = (Inr (), w2)"
    "clock (hw_node w1) = clock (hw_node w)"
  shows "map fst (hw_files w2) = map fst (hw_files w1)
    \<and> map_of (hw_files w2) (alarm_path dir network (clock (hw_node w)))
        = Some (Doc (JObj [(''utc'', JStr (utc_stamp (clock (hw_node w)))), (''network'', JStr network),
            (''host'', JStr (host_tag h2)), (''detail'', d2)]))"
proof -
  have keys: "k \<in> fst ` set kvs \<Longrightarrow> map fst (dict_set k x kvs) = map fst kvs" for k x and kvs :: "(string \<times> stored) list"
    by (induction kvs) force+
  have key: "k \<in> fst ` set (dict_set k x kvs)" for k x and kvs :: "(string \<times> stored) list"
    by (induction kvs) force+
  have one: "\<exists>fs. hw_files w' = dict_set (alarm_path dir network (clock (hw_node v)))
      (Doc (JObj [(''utc'', JStr (utc_stamp (clock (hw_node v)))), (''network'', JStr network),
            (''host'', JStr (host_tag h)), (''detail'', d)])) fs \<and> fs = hw_files v"
    if "raise_alarm clock dir network h d v = (Inr (), w')" for h d v w'
    using that by (auto simp: raise_alarm_def bnd_def host_makedirs_def host_write_def split: if_splits)
  from one [OF assms(1)] one [OF assms(2)] assms(3) show ?thesis by (simp add: keys key)
qed

text \<open>A height the node gave no hash for is taken for a changed one.\<close>

lemma an_unread_height_counts_as_changed:
  assumes "read_hashes sh host c [m] 45 w = (Inr got, w')" "map_of got m = None"
  shows "narrow sh host c known [m] lo hi w = (Inr (lo, m), w')"
  using assms by (subst narrow.simps) (simp add: bnd_def ret_def unchanged_in_def narrow.simps [of _ _ _ _ "[]"])

text \<open>A node that stands at height 0 erases the record of every height above it.\<close>

lemma a_node_at_height_zero_erases_the_record:
  assumes "jget prev ''tip'' JNull = Inr t" "rbind (jget prev ''cursor'' (JInt 0)) jint = Inr k"
    "list_all (\<lambda>h. 0 < h) (map fst known)"
  shows "compare_record sh clock host network dir c 0 known prev = save_state clock (state_path dir host network) [] 0 0"
proof -
  have "near_heights 0 = []" by (simp add: near_heights_def OFFSETS_def)
  moreover have "old_heights 0 (map fst known) = []"
  proof -
    have "filter (\<lambda>h. 0 - FORGET_AFTER < h \<and> h \<le> 0 \<and> h \<notin> set (near_heights 0)) (map fst known) = []"
      using assms(3) by (fastforce simp: list_all_iff filter_empty_conv)
    then show ?thesis unfolding old_heights_def by (metis sort_key_simps(1))
  qed
  ultimately show ?thesis
    using assms(1,2) by (intro ext) (simp add: compare_record_def bnd_def lift_def heights_to_check_def del: rbind_eq_Inr)
qed

end
