(* ===== verification/Quoted.thy ===== *)
theory Quoted
  imports Json_Text Text_Files
begin

text \<open>
  Text patterns, and \<open>scripts/lib/quoted.py\<close>: the convention by which an author marks lines as
  quotation, so that a check that scans text does not take a mention of a thing for the thing.
\<close>

section \<open>Patterns\<close>

text \<open>
  The parts of a regular expression whose repetitions cannot give back what they took: a literal,
  a class repeated at least once, a class a number of times, and the first place where a pattern
  matches. \<open>\s*\<close> is \<open>lstrip\<close>.
\<close>

definition lit :: "string \<Rightarrow> string \<Rightarrow> string option" where
  "lit n s = (if starts_with n s then Some (drop (length n) s) else None)"

definition some_of :: "(char \<Rightarrow> bool) \<Rightarrow> string \<Rightarrow> (string \<times> string) option" where
  "some_of P s = (if takeWhile P s = [] then None else Some (takeWhile P s, dropWhile P s))"

definition exactly :: "nat \<Rightarrow> (char \<Rightarrow> bool) \<Rightarrow> string \<Rightarrow> (string \<times> string) option" where
  "exactly n P s = (if n \<le> length s \<and> list_all P (take n s) then Some (take n s, drop n s) else None)"

fun search :: "(string \<Rightarrow> 'a option) \<Rightarrow> string \<Rightarrow> 'a option" where
  "search m [] = m []"
| "search m (c # s) = (case m (c # s) of Some x \<Rightarrow> Some x | None \<Rightarrow> search m s)"

text \<open>\<open>\w\<close>: letters, digits and the underscore, of the first 256 characters.\<close>

definition is_word :: "char \<Rightarrow> bool" where
  "is_word c \<longleftrightarrow>
     (let n = of_char c :: nat
      in (48 \<le> n \<and> n \<le> 57) \<or> (65 \<le> n \<and> n \<le> 90) \<or> n = 95 \<or> (97 \<le> n \<and> n \<le> 122)
         \<or> n \<in> {170, 178, 179, 181, 185, 186, 188, 189, 190} \<or> (192 \<le> n \<and> n \<noteq> 215 \<and> n \<noteq> 247))"

section \<open>Quotation marks\<close>

text \<open>\<open>BEGIN\<close> and \<open>END\<close> are a whole line, \<open>LINE\<close> sits anywhere on it.\<close>

definition region_mark :: "string \<Rightarrow> string \<Rightarrow> bool" where
  "region_mark m line =
     (let s = dropWhile (\<lambda>c. \<not> is_word c) line
      in starts_with m s \<and> list_all (\<lambda>c. \<not> is_word c) (drop (length m) s))"

definition is_begin :: "string \<Rightarrow> bool" where
  "is_begin = region_mark ''wam:quote-begin''"

definition is_end :: "string \<Rightarrow> bool" where
  "is_end = region_mark ''wam:quote-end''"

definition is_line_mark :: "string \<Rightarrow> bool" where
  "is_line_mark line =
     (search (\<lambda>s. case lit ''wam:quote-line'' s of
        None \<Rightarrow> None | Some [] \<Rightarrow> Some () | Some (c # r) \<Rightarrow> if is_word c then None else Some ()) line \<noteq> None)"

text \<open>Which lines are quoted, from whether a region is open.\<close>

fun quote_marks :: "bool \<Rightarrow> string list \<Rightarrow> bool list" where
  "quote_marks inside [] = []"
| "quote_marks inside (line # lines) =
     (if is_begin line then True # quote_marks True lines
      else if is_end line then True # quote_marks False lines
      else (inside \<or> is_line_mark line) # quote_marks inside lines)"

definition quoted_lines :: "string \<Rightarrow> nat list" where
  "quoted_lines t = (let ms = quote_marks False (text_lines t) in filter (\<lambda>i. ms ! i) [0..<length ms])"

definition stripped_lines :: "string \<Rightarrow> string \<Rightarrow> string list" where
  "stripped_lines t replacement =
     map (\<lambda>(q, line). if q then replacement else line) (zip (quote_marks False (text_lines t)) (text_lines t))"

definition strip_quoted :: "string \<Rightarrow> string \<Rightarrow> string" where
  "strip_quoted t replacement =
     join_char [CHR 0x0A] (stripped_lines t replacement) @
     (if t \<noteq> [] \<and> last t \<in> {CHR 0x0A, CHR 0x0D} then [CHR 0x0A] else [])"

definition unquoted_lines :: "string \<Rightarrow> (nat \<times> string) list" where
  "unquoted_lines t =
     map (\<lambda>(q, x). x) (filter (\<lambda>(q, x). \<not> q)
       (zip (quote_marks False (text_lines t)) (enumerate 1 (text_lines t))))"

section \<open>Line numbers survive\<close>

lemma text_lines_no_break: "l \<in> set (text_lines s) \<Longrightarrow> list_all (\<lambda>c. \<not> is_break c) l"
proof (induction s rule: text_lines.induct)
  case (1 s)
  show ?case
  proof (cases "s = []")
    case True
    with 1 show ?thesis by (simp add: text_lines.simps [of "[]"])
  next
    case False
    let ?rest = "case dropWhile (\<lambda>c. \<not> is_break c) s of [] \<Rightarrow> []
      | c # r \<Rightarrow> if c = CHR 0x0D \<and> starts_with [CHR 0x0A] r then tl r else r"
    have "text_lines s = takeWhile (\<lambda>c. \<not> is_break c) s # text_lines ?rest"
      using False by (subst text_lines.simps) (simp add: Let_def)
    then consider "l = takeWhile (\<lambda>c. \<not> is_break c) s" | "l \<in> set (text_lines ?rest)"
      using 1(2) by auto
    then show ?thesis
    proof cases
      case 1
      then show ?thesis by (auto simp: list_all_iff dest: set_takeWhileD)
    next
      case 2
      then show ?thesis by (rule 1(1) [OF False refl refl])
    qed
  qed
qed

lemma length_quote_marks [simp]: "length (quote_marks b ls) = length ls"
  by (induction b ls rule: quote_marks.induct) auto

lemma length_stripped [simp]: "length (stripped_lines t r) = length (text_lines t)"
  by (simp add: stripped_lines_def)

lemma text_lines_join:
  "list_all (list_all (\<lambda>c. \<not> is_break c)) ls \<Longrightarrow> ls \<noteq> [] \<Longrightarrow> text_lines (join_char [CHR 0x0A] ls @ [CHR 0x0A]) = ls"
proof (induction "[CHR 0x0A] :: string" ls rule: join_char.induct)
  case (2 l)
  then show ?case using text_lines_Cons [of l "[]"] by (simp add: text_lines.simps [of "[]"])
next
  case (3 l m ls)
  then show ?case using text_lines_Cons [of l "join_char [CHR 0x0A] (m # ls) @ [CHR 0x0A]"] by simp
qed simp

lemma stripped_no_break:
  assumes "list_all (\<lambda>c. \<not> is_break c) r"
  shows "list_all (list_all (\<lambda>c. \<not> is_break c)) (stripped_lines t r)"
  using assms text_lines_no_break [of _ t] by (auto simp: stripped_lines_def list_all_iff dest: set_zip_rightD)

text \<open>In a text that ends with a line end, stripping the quoted lines keeps the number of every
  line: each one is the line it was, or the replacement where it is quoted.\<close>

theorem stripping_keeps_line_numbers:
  assumes "t \<noteq> []" "last t \<in> {CHR 0x0A, CHR 0x0D}" "list_all (\<lambda>c. \<not> is_break c) r"
  shows "text_lines (strip_quoted t r) = map (\<lambda>i. if quote_marks False (text_lines t) ! i then r else text_lines t ! i)
    [0..<length (text_lines t)]"
proof -
  have "text_lines t \<noteq> []" using assms(1) by (simp add: text_lines.simps [of t] Let_def)
  then have "stripped_lines t r \<noteq> []" by (metis length_0_conv length_stripped)
  then have "text_lines (strip_quoted t r) = stripped_lines t r"
    using assms text_lines_join [OF stripped_no_break [OF assms(3)]] by (simp add: strip_quoted_def)
  also have "\<dots> = map (\<lambda>i. if quote_marks False (text_lines t) ! i then r else text_lines t ! i) [0..<length (text_lines t)]"
    by (rule nth_equalityI) (auto simp: stripped_lines_def)
  finally show ?thesis .
qed

lemma stripping_keeps_line_numbers_witness:
  "text_lines (strip_quoted (''a'' @ [CHR 0x0A] @ ''# wam:quote-line'' @ [CHR 0x0A]) []) = [''a'', []]"
proof -
  let ?t = "''a'' @ [CHR 0x0A] @ ''# wam:quote-line'' @ [CHR 0x0A]"
  have t: "text_lines ?t = [''a'', ''# wam:quote-line'']" by code_simp
  have m: "quote_marks False [''a'', ''# wam:quote-line''] = [False, True]" by code_simp
  have "text_lines (strip_quoted ?t []) = map (\<lambda>i. if quote_marks False (text_lines ?t) ! i then [] else text_lines ?t ! i)
      [0..<length (text_lines ?t)]"
    by (rule stripping_keeps_line_numbers) simp_all
  also have "\<dots> = [''a'', []]" unfolding t m by (simp add: numeral_2_eq_2 upt_rec)
  finally show ?thesis .
qed

text \<open>Without the line end a quoted last line is lost.\<close>

lemma a_quoted_last_line_is_lost:
  "text_lines (''a'' @ [CHR 0x0A] @ ''# wam:quote-line'') = [''a'', ''# wam:quote-line'']"
  "text_lines (strip_quoted (''a'' @ [CHR 0x0A] @ ''# wam:quote-line'') []) = [''a'']"
  by (code_simp, code_simp)

end
