(* ===== verification/Ledger.thy ===== *)
theory Ledger
  imports Quoted Host_Shell Emission
begin

text \<open>
  \<open>scripts/check_treasury_ledger.py\<close> from its text patterns to \<open>main\<close>: the rows of the ledger
  against the transactions of the chain, the identity between what accrued, what left and what the
  chain holds, the stated balance and the worked example. The accrual itself is in \<open>Emission\<close>.

  Text has 256 characters here; the minus sign of the worked example (U+2212) is not among them
  and is stood for by the control character 0x80.
\<close>

section \<open>Patterns\<close>

text \<open>\<open>flags\<close> of \<open>scripts/wamcli.py\<close>.\<close>

definition wamcli_flags :: "string \<Rightarrow> string option \<Rightarrow> py_error + string" where
  "wamcli_flags network datadir =
     (case map_of [(''mainnet'', ''-chain=main -conf=/root/.wam-mainnet/wam.conf -datadir=/root/.wam-mainnet''),
         (''testnet'', ''-testnet''), (''regtest'', ''-regtest'')] network of
        None \<Rightarrow> Inl ValueError
      | Some flag \<Rightarrow>
          (case datadir of
             Some d \<Rightarrow>
               if d \<noteq> [] then
                 (case map_of [(''mainnet'', ''-chain=main''), (''testnet'', ''-testnet''), (''regtest'', ''-regtest'')] network of
                    None \<Rightarrow> Inl (KeyError network) | Some short \<Rightarrow> Inr (short @ '' -datadir='' @ d))
               else Inr flag
           | None \<Rightarrow> Inr flag))"

definition LEDGER :: string where "LEDGER = ''docs/TREASURY_LEDGER.md''"

definition PARAMS :: string where "PARAMS = ''src/wam/wam-params.h''"

definition TREASURY :: string where "TREASURY = ''WdMMqW1DcgWZ6HtyJuEMdce6QkKg4raGmE''"

text \<open>\<open>atoms\<close>: the double nearest the amount, times one coin, rounded.\<close>

definition coin_atoms :: "json \<Rightarrow> py_error + int" where
  "coin_atoms x = rbind (jfloat x) (\<lambda>v. fround_int (fmul v (Fin (of_int ATOM))))"

text \<open>The constants: a name, an equals sign and a number.\<close>

definition pat_coins :: "string \<Rightarrow> string \<Rightarrow> string option" where
  "pat_coins name s =
     Option.bind (lit name s) (\<lambda>s. Option.bind (lit ''='' (lstrip s)) (\<lambda>s.
     Option.bind (some_of is_digit (lstrip s)) (\<lambda>(d, s). Option.bind (lit ''*'' (lstrip s)) (\<lambda>s.
     map_option (\<lambda>_. d) (lit ''WAM_COIN'' (lstrip s))))))"

definition pat_number :: "(char \<Rightarrow> bool) \<Rightarrow> string \<Rightarrow> string \<Rightarrow> string option" where
  "pat_number P name s =
     Option.bind (lit name s) (\<lambda>s. Option.bind (lit ''='' (lstrip s)) (\<lambda>s.
     map_option fst (some_of P (lstrip s))))"

definition grouped_digit :: "char \<Rightarrow> bool" where
  "grouped_digit c \<longleftrightarrow> is_digit c \<or> c = CHR 0x27 \<or> c = CHR ''_''"

definition one_constant :: "(string \<Rightarrow> string option) \<Rightarrow> string \<Rightarrow> py_error + int" where
  "one_constant m t =
     (case search m t of
        None \<Rightarrow> Inl LookupError
      | Some g \<Rightarrow> int_of_string (filter (\<lambda>c. c \<noteq> CHR 0x27 \<and> c \<noteq> CHR ''_'') g))"

definition consensus_constants :: "string \<Rightarrow> py_error + accrual_consts" where
  "consensus_constants t =
     rbind (one_constant (pat_coins ''WAM_INITIAL_BLOCK_SUBSIDY'') t) (\<lambda>subsidy.
     rbind (one_constant (pat_number grouped_digit ''WAM_SUBSIDY_HALVING_INTERVAL'') t) (\<lambda>interval.
     rbind (one_constant (pat_number is_digit ''WAM_DEVFEE_PERCENT'') t) (\<lambda>percent.
     rbind (one_constant (pat_number grouped_digit ''WAM_DEVFEE_START_HEIGHT'') t) (\<lambda>start.
     rbind (one_constant (pat_number grouped_digit ''WAM_DEVFEE_LAST_HEIGHT'') t) (\<lambda>last.
     rbind (one_constant (pat_number is_digit ''WAM_MAX_HALVINGS'') t) (\<lambda>max_halvings.
     Inr \<lparr>k_subsidy = subsidy, k_interval = interval, k_percent = percent, k_start = start, k_last = last,
          k_max_halvings = max_halvings\<rparr>))))))"

text \<open>\<open>| date | amount | fee | to | reason | txid |\<close>.\<close>

record ledger_row =
  lr_date :: string
  lr_amount :: string
  lr_fee :: string
  lr_to :: string
  lr_txid :: string

definition decimal_char :: "char \<Rightarrow> bool" where
  "decimal_char c \<longleftrightarrow> is_digit c \<or> c = CHR ''.''"

definition lower_hex :: "char \<Rightarrow> bool" where
  "lower_hex c \<longleftrightarrow> is_digit c \<or> (97 \<le> (of_char c :: nat) \<and> (of_char c :: nat) \<le> 102)"

definition pat_date :: "string \<Rightarrow> (string \<times> string) option" where
  "pat_date s =
     Option.bind (exactly 4 is_digit s) (\<lambda>(y, s). Option.bind (lit ''-'' s) (\<lambda>s.
     Option.bind (exactly 2 is_digit s) (\<lambda>(m, s). Option.bind (lit ''-'' s) (\<lambda>s.
     map_option (\<lambda>(d, s). (y @ ''-'' @ m @ ''-'' @ d, s)) (exactly 2 is_digit s)))))"

definition backquote :: string where "backquote = [CHR 0x60]"

definition pat_txid :: "string \<Rightarrow> string option" where
  "pat_txid s =
     Option.bind (lit ''txid'' s) (\<lambda>s. Option.bind (lit backquote (lstrip s)) (\<lambda>s.
     Option.bind (exactly 64 lower_hex s) (\<lambda>(t, s). Option.bind (lit backquote s) (\<lambda>s.
     Option.bind (lit ''|'' (lstrip s)) (\<lambda>s. if lstrip s = [] then Some t else None)))))"

definition row_match :: "string \<Rightarrow> ledger_row option" where
  "row_match s =
     Option.bind (lit ''|'' s) (\<lambda>s. Option.bind (pat_date (lstrip s)) (\<lambda>(date, s).
     Option.bind (lit ''|'' (lstrip s)) (\<lambda>s. Option.bind (lit ''**'' (lstrip s)) (\<lambda>s.
     Option.bind (some_of decimal_char s) (\<lambda>(amount, s). Option.bind (lit ''WAM**'' (lstrip s)) (\<lambda>s.
     Option.bind (lit ''|'' (lstrip s)) (\<lambda>s. Option.bind (lit backquote (lstrip s)) (\<lambda>s.
     Option.bind (some_of decimal_char s) (\<lambda>(fee, s). Option.bind (lit backquote s) (\<lambda>s.
     Option.bind (lit ''|'' (lstrip s)) (\<lambda>s. Option.bind (lit backquote (lstrip s)) (\<lambda>s.
     Option.bind (some_of is_word s) (\<lambda>(to, s). Option.bind (lit backquote s) (\<lambda>s.
     Option.bind (lit ''|'' (lstrip s)) (\<lambda>s. map_option (\<lambda>txid.
       \<lparr>lr_date = date, lr_amount = amount, lr_fee = fee, lr_to = to, lr_txid = txid\<rparr>)
       (search pat_txid s))))))))))))))))"

definition rows_of :: "string \<Rightarrow> ledger_row list" where
  "rows_of t = List.map_filter row_match (text_lines t)"

definition amount_char :: "char \<Rightarrow> bool" where
  "amount_char c \<longleftrightarrow> is_digit c \<or> c = CHR '','' \<or> c = CHR ''.''"

definition count_char :: "char \<Rightarrow> bool" where
  "count_char c \<longleftrightarrow> is_digit c \<or> c = CHR '',''"

definition pat_height :: "string \<Rightarrow> string option" where
  "pat_height s =
     Option.bind (lit ''at'' s) (\<lambda>s. Option.bind (lit ''height'' (lstrip s)) (\<lambda>s.
     map_option fst (some_of count_char (lstrip s))))"

text \<open>\<open>BALANCE\<close>: an amount, and later on a height.\<close>

definition pat_balance :: "string \<Rightarrow> (string \<times> string) option" where
  "pat_balance s =
     Option.bind (lit ''**Balance after the last line:**'' s) (\<lambda>s. Option.bind (lit backquote (lstrip s)) (\<lambda>s.
     Option.bind (some_of amount_char s) (\<lambda>(amount, s). Option.bind (lit (''WAM'' @ backquote) (lstrip s)) (\<lambda>s.
     map_option (\<lambda>h. (amount, h)) (search pat_height s)))))"

text \<open>\<open>EXAMPLE\<close>: the height, the height again, the amounts, the fees, the result.\<close>

definition pat_example :: "string \<Rightarrow> (string \<times> string \<times> string \<times> string \<times> string) option" where
  "pat_example s =
     Option.bind (lit ''At height '' s) (\<lambda>s. Option.bind (some_of count_char s) (\<lambda>(g1, s).
     Option.bind (lit ('' that is '' @ backquote @ ''2.5 '' @ [CHR 0xD7] @ '' '') s) (\<lambda>s.
     Option.bind (some_of count_char s) (\<lambda>(g2, s). Option.bind (lit ('' '' @ [CHR 0x80] @ '' '') s) (\<lambda>s.
     Option.bind (some_of amount_char s) (\<lambda>(g3, s). Option.bind (lit ('' '' @ [CHR 0x80] @ '' '') s) (\<lambda>s.
     Option.bind (some_of amount_char s) (\<lambda>(g4, s). Option.bind (lit '' ='' s) (\<lambda>s.
     Option.bind (some_of amount_char (lstrip s)) (\<lambda>(g5, s).
     map_option (\<lambda>_. (g1, g2, g3, g4, g5)) (lit backquote s)))))))))))"

definition num :: "string \<Rightarrow> string" where
  "num s = filter (\<lambda>c. c \<noteq> CHR '','') s"

section \<open>Commands\<close>

type_synonym ('n, 'a) ledger_task = "('n, unit, 'a) host_task"

text \<open>\<open>rsh\<close>: the status and both streams without the space around them.\<close>

definition rsh_argv :: "string option \<Rightarrow> string \<Rightarrow> string list" where
  "rsh_argv host cmd =
     (if host = None \<or> host = Some [] then [''bash'', ''-lc'', cmd]
      else [''ssh'', ''-o'', ''BatchMode=yes'', ''-o'', ''ConnectTimeout=15'', ''root@'' @ the host, cmd])"

definition rsh :: "'n shell \<Rightarrow> string option \<Rightarrow> string \<Rightarrow> int \<Rightarrow> ('n, int \<times> string \<times> string) ledger_task" where
  "rsh sh host cmd timeout =
     bnd (subprocess_run sh (rsh_argv host cmd) [] timeout) (\<lambda>(rc, out, err). ret (rc, strip out, strip err))"

definition read_file :: "string \<Rightarrow> ('n, string) ledger_task" where
  "read_file p = (\<lambda>w. (case map_of (hw_files w) p of Some (Text t) \<Rightarrow> Inr t | _ \<Rightarrow> Inl OSError, w))"

section \<open>One row\<close>

datatype complaint = No_Transaction | Pays_Other_Amount | Other_Fee | Stray_Output | No_Identity

record tally =
  t_bad :: "(ledger_row option \<times> complaint) list"
  t_spent :: int
  t_heights :: "(json \<times> json) list"
  t_newest :: int
  t_by_height :: "(int \<times> int) list"

definition output_address :: "json \<Rightarrow> py_error + json" where
  "output_address o1 = rbind (jitem o1 ''scriptPubKey'') (\<lambda>s. jget s ''address'' JNull)"

text \<open>What the outputs to an address sum up to.\<close>

definition paid_to :: "string \<Rightarrow> json list \<Rightarrow> py_error + int" where
  "paid_to to os =
     rbind (rmap (\<lambda>o1. rbind (output_address o1) (\<lambda>a.
         if a = JStr to then rbind (jitem o1 ''value'') coin_atoms else Inr 0)) os)
       (\<lambda>vs. Inr (sum_list vs))"

text \<open>
  The addresses that are neither the row's nor the treasury's. They go through a set and are
  sorted: neither works on lists and objects, and sorting does not work on values of two kinds.
\<close>

fun hashable :: "json \<Rightarrow> bool" where
  "hashable (JArr _) = False"
| "hashable (JObj _) = False"
| "hashable _ = True"

fun is_text :: "json \<Rightarrow> bool" where
  "is_text (JStr _) = True"
| "is_text _ = False"

definition strays :: "string \<Rightarrow> json list \<Rightarrow> py_error + json list" where
  "strays to os =
     rbind (rmap output_address os) (\<lambda>as.
       if \<not> list_all hashable as then Inl TypeError
       else let xs = remdups (filter (\<lambda>a. a \<notin> {JStr to, JStr TREASURY, JNull}) as)
         in if length xs \<le> 1 \<or> list_all is_text xs \<or> list_all (\<lambda>a. \<not> is_text a) xs then Inr xs else Inl TypeError)"

text \<open>The complaints about a row, what it took out of the treasury, and the block it is in.\<close>

definition judge_row :: "ledger_row \<Rightarrow> json \<Rightarrow> py_error + complaint list \<times> int \<times> json" where
  "judge_row r tx =
     rbind (rbind (jitem tx ''vout'') jiter) (\<lambda>os.
     rbind (paid_to (lr_to r) os) (\<lambda>paid.
     rbind (coin_atoms (JStr (lr_amount r))) (\<lambda>want.
     rbind (rbind (jget tx ''fee'' (JInt 0)) coin_atoms) (\<lambda>fee.
     rbind (coin_atoms (JStr (lr_fee r))) (\<lambda>row_fee.
     rbind (strays (lr_to r) os) (\<lambda>stray.
     rbind (jget tx ''blockhash'' JNull) (\<lambda>bh.
     Inr ((if paid \<noteq> want then [Pays_Other_Amount] else []) @ (if fee \<noteq> row_fee then [Other_Fee] else []) @
          (if stray \<noteq> [] then [Stray_Output] else []), want + fee, bh))))))))"

text \<open>The height of a block, asked for once; a height that is not an integer is refused.\<close>

fun block_number :: "json \<Rightarrow> py_error + int option" where
  "block_number JNull = Inr None"
| "block_number (JInt n) = Inr (Some n)"
| "block_number (JBool b) = Inr (Some (if b then 1 else 0))"
| "block_number _ = Inl TypeError"

definition height_of :: "'n shell \<Rightarrow> string option \<Rightarrow> string \<Rightarrow> (json \<times> json) list \<Rightarrow> json \<Rightarrow>
    ('n, (json \<times> json) list) ledger_task" where
  "height_of sh host cli heights bh =
     (if \<not> hashable bh then throw TypeError
      else if map_of heights bh \<noteq> None then ret heights
      else bnd (rsh sh host (cli @ '' getblock '' @ jstr bh @ '' 1'') 180) (\<lambda>(rc, out, err).
        bnd (lift (if rc = 0 then rbind (json_loads out) (\<lambda>b. jitem b ''height'') else Inr JNull)) (\<lambda>h.
        ret (heights @ [(bh, h)]))))"

definition place_row :: "'n shell \<Rightarrow> string option \<Rightarrow> string \<Rightarrow> int \<Rightarrow> json \<Rightarrow> tally \<Rightarrow> ('n, tally) ledger_task" where
  "place_row sh host cli took bh t =
     (if \<not> jtruthy bh then ret t
      else bnd (height_of sh host cli (t_heights t) bh) (\<lambda>heights.
        bnd (lift (block_number (the (map_of heights bh)))) (\<lambda>h.
        ret (case h of
            None \<Rightarrow> t\<lparr>t_heights := heights\<rparr>
          | Some n \<Rightarrow> t\<lparr>t_heights := heights, t_newest := max (t_newest t) n, t_by_height := t_by_height t @ [(n, took)]\<rparr>))))"

definition check_row :: "'n shell \<Rightarrow> string option \<Rightarrow> string \<Rightarrow> ledger_row \<Rightarrow> tally \<Rightarrow> ('n, tally) ledger_task" where
  "check_row sh host cli r t =
     bnd (rsh sh host (cli @ '' getrawtransaction '' @ lr_txid r @ '' 2'') 180) (\<lambda>(rc, out, err).
       if rc \<noteq> 0 then ret (t\<lparr>t_bad := t_bad t @ [(Some r, No_Transaction)]\<rparr>)
       else bnd (lift (rbind (json_loads out) (judge_row r))) (\<lambda>(complaints, took, bh).
         bnd (place_row sh host cli took bh (t\<lparr>t_bad := t_bad t @ map (Pair (Some r)) complaints\<rparr>)) (\<lambda>t.
         ret (t\<lparr>t_spent := t_spent t + took\<rparr>))))"

fun check_rows :: "'n shell \<Rightarrow> string option \<Rightarrow> string \<Rightarrow> ledger_row list \<Rightarrow> tally \<Rightarrow> ('n, tally) ledger_task" where
  "check_rows sh host cli [] t = ret t"
| "check_rows sh host cli (r # rs) t = bnd (check_row sh host cli r t) (check_rows sh host cli rs)"

section \<open>The identity, the balance, the example\<close>

text \<open>
  The accrual always ends for constants that were read out of text (lemma \<open>accrual_ends\<close>): the
  last line is never reached.
\<close>

definition accrued :: "int \<Rightarrow> accrual_consts \<Rightarrow> py_error + int" where
  "accrued height k = (case accrued_through height k of Some r \<Rightarrow> r | None \<Rightarrow> Inl TimeoutExpired)"

datatype stale = No_Balance | Balance_Predates | Balance_Differs | No_Example | Two_Heights | Wrong_Terms | Wrong_Result

definition judge_balance :: "string \<Rightarrow> accrual_consts \<Rightarrow> tally \<Rightarrow> py_error + stale list" where
  "judge_balance t k ta =
     (case search pat_balance t of
        None \<Rightarrow> Inr [No_Balance]
      | Some (amount, h) \<Rightarrow>
          rbind (coin_atoms (JStr (num amount))) (\<lambda>said.
          rbind (int_of_string (num h)) (\<lambda>at_h.
            if at_h < t_newest ta then Inr [Balance_Predates]
            else rbind (accrued at_h k) (\<lambda>acc.
              Inr (if acc - sum_list (map (\<lambda>(n, v). if n \<le> at_h then v else 0) (t_by_height ta)) \<noteq> said
                   then [Balance_Differs] else [])))))"

definition judge_example :: "string \<Rightarrow> accrual_consts \<Rightarrow> ledger_row list \<Rightarrow> py_error + stale list" where
  "judge_example t k rows =
     (case search pat_example t of
        None \<Rightarrow> Inr [No_Example]
      | Some (g1, g2, g3, g4, g5) \<Rightarrow>
          rbind (int_of_string (num g1)) (\<lambda>at_h.
          rbind (int_of_string (num g2)) (\<lambda>again.
          rbind (rmap (\<lambda>r. coin_atoms (JStr (lr_amount r))) rows) (\<lambda>amounts.
          rbind (rmap (\<lambda>r. coin_atoms (JStr (lr_fee r))) rows) (\<lambda>fees.
          rbind (coin_atoms (JStr (num g3))) (\<lambda>a3.
          rbind (if a3 \<noteq> sum_list amounts then Inr True
                 else rbind (coin_atoms (JStr (num g4))) (\<lambda>a4. Inr (a4 \<noteq> sum_list fees))) (\<lambda>wrong.
          rbind (if wrong then Inr [Wrong_Terms]
                 else rbind (coin_atoms (JStr (num g5))) (\<lambda>a5. rbind (accrued at_h k) (\<lambda>acc.
                   Inr (if a5 \<noteq> acc - sum_list amounts - sum_list fees then [Wrong_Result] else [])))) (\<lambda>rest.
          Inr ((if again \<noteq> at_h then [Two_Heights] else []) @ rest)))))))))"

section \<open>The program\<close>

record ledger_args =
  la_node :: "string option"
  la_network :: string

text \<open>The reply of \<open>scantxoutset\<close>: the height and what the treasury holds; \<open>None\<close>, an incomplete scan.\<close>

definition sized :: "json \<Rightarrow> bool" where
  "sized v = (case v of JArr _ \<Rightarrow> True | JObj _ \<Rightarrow> True | JStr _ \<Rightarrow> True | _ \<Rightarrow> False)"

definition sliceable :: "json \<Rightarrow> bool" where
  "sliceable v = (case v of JArr _ \<Rightarrow> True | JStr _ \<Rightarrow> True | _ \<Rightarrow> False)"

definition read_scan :: "json \<Rightarrow> py_error + (int \<times> int) option" where
  "read_scan scan =
     rbind (jget scan ''success'' JNull) (\<lambda>success.
     if \<not> jtruthy success then Inr None
     else rbind (jhas ''height'' scan) (\<lambda>has.
       if \<not> has then Inr None
       else rbind (rbind (jitem scan ''height'') jint) (\<lambda>tip.
            rbind (rbind (jitem scan ''total_amount'') coin_atoms) (\<lambda>held.
            rbind (jget scan ''bestblock'' (JStr [])) (\<lambda>best.
            rbind (jitem scan ''unspents'') (\<lambda>unspents.
              if sliceable best \<and> sized unspents then Inr (Some (tip, held)) else Inl TypeError))))))"

definition ledger_sources :: "string \<Rightarrow> ('n, string \<times> accrual_consts) ledger_task" where
  "ledger_sources repo =
     bnd (read_file (path_join repo LEDGER)) (\<lambda>t.
     bnd (read_file (path_join repo PARAMS)) (\<lambda>p.
     bnd (lift (consensus_constants (strip_quoted p []))) (\<lambda>k. ret (strip_quoted t [], k))))"

definition judge_ledger :: "'n shell \<Rightarrow> ledger_args \<Rightarrow> string \<Rightarrow> string \<Rightarrow> accrual_consts \<Rightarrow> ledger_row list \<Rightarrow> int \<Rightarrow> int \<Rightarrow>
    ('n, int) ledger_task" where
  "judge_ledger sh a cli t k rows tip held =
     bnd (check_rows sh (la_node a) cli rows
           \<lparr>t_bad = [], t_spent = 0, t_heights = [], t_newest = 0, t_by_height = []\<rparr>) (\<lambda>ta.
     bnd (lift (accrued tip k)) (\<lambda>acc.
     let bad = t_bad ta @ (if acc - t_spent ta \<noteq> held then [(None, No_Identity)] else [])
     in bnd (lift (judge_balance t k ta)) (\<lambda>s1.
        bnd (lift (judge_example t k rows)) (\<lambda>s2.
        ret (if bad \<noteq> [] \<or> s1 @ s2 \<noteq> [] then 1 else 0)))))"

definition scan_command :: "string \<Rightarrow> string" where
  "scan_command cli = cli @ '' scantxoutset start '' @ [CHR 0x27] @ ''['' @ [CHR 0x22] @ ''addr('' @ TREASURY @ '')'' @
     [CHR 0x22] @ '']'' @ [CHR 0x27]"

definition scan_chain :: "'n shell \<Rightarrow> ledger_args \<Rightarrow> string \<Rightarrow> string \<Rightarrow> accrual_consts \<Rightarrow> ('n, int) ledger_task" where
  "scan_chain sh a cli t k =
     bnd (rsh sh (la_node a) (scan_command cli) 300) (\<lambda>(rc, out, err).
       if rc \<noteq> 0 then ret 2
       else bnd (lift (rbind (json_loads out) read_scan)) (\<lambda>scan. case scan of
         None \<Rightarrow> ret 2
       | Some (tip, held) \<Rightarrow> judge_ledger sh a cli t k (rows_of t) tip held))"

definition ledger_main :: "'n shell \<Rightarrow> string \<Rightarrow> ledger_args \<Rightarrow> ('n, int) ledger_task" where
  "ledger_main sh repo a =
     bnd (attempt (\<lambda>e. e = OSError \<or> e = LookupError) (ledger_sources repo)) (\<lambda>r. case r of
       Inl e \<Rightarrow> ret 2
     | Inr (t, k) \<Rightarrow>
         if rows_of t = [] then ret 2
         else bnd (lift (wamcli_flags (la_network a) None)) (\<lambda>flags. scan_chain sh a (''wam-cli '' @ flags) t k))"

text \<open>The process: an expired limit is the exit code 2, any other exception 1.\<close>

definition ledger_exit :: "py_error + int \<Rightarrow> int" where
  "ledger_exit r = (case r of Inr n \<Rightarrow> n | Inl TimeoutExpired \<Rightarrow> 2 | Inl _ \<Rightarrow> 1)"

end
