(* ===== verification/Ledger_Facts.thy ===== *)
theory Ledger_Facts
  imports Ledger
begin

text \<open>
  What a clean exit of \<open>scripts/check_treasury_ledger.py\<close> means: the accrual ends for every set of
  constants that can be read, and exit code 0 is the identity between the rows, the accrual and
  what the chain holds. The last section runs the program on a ledger of one row.
\<close>

section \<open>The accrual ends\<close>

lemma search_some: "search m s = Some x \<Longrightarrow> \<exists>b. m b = Some x"
  by (induction s) (auto split: option.splits)

lemma digits_nonneg:
  assumes "list_all is_digit s" "int_of_string s = Inr n"
  shows "0 \<le> n"
proof -
  have "list_all (\<lambda>c. \<not> is_space c) s" using assms(1) digit_no_space by (auto simp: list_all_iff)
  then have "strip s = s" by (rule no_spaces_strip)
  moreover have "split_sign s = (1, s)" using assms(1) by (cases s) (auto simp: split_sign_def is_digit_def)
  ultimately show ?thesis using assms(2) by (auto simp: int_of_string_def split: option.splits if_splits)
qed

lemma grouped_nonneg:
  assumes "one_constant (pat_number grouped_digit name) t = Inr n"
  shows "0 \<le> n"
proof -
  let ?ds = "filter (\<lambda>c. c \<noteq> CHR 0x27 \<and> c \<noteq> CHR ''_'')"
  obtain g where g: "search (pat_number grouped_digit name) t = Some g" "int_of_string (?ds g) = Inr n"
    using assms unfolding one_constant_def by (cases "search (pat_number grouped_digit name) t") simp_all
  from search_some [OF g(1)] obtain b where "pat_number grouped_digit name b = Some g" by blast
  then obtain s where "g = takeWhile grouped_digit s"
    unfolding pat_number_def some_of_def by (auto simp: Option.bind_eq_Some_conv split: if_splits)
  then have "c \<in> set g \<Longrightarrow> grouped_digit c" for c by (auto dest: set_takeWhileD)
  then have "list_all is_digit (?ds g)" by (auto simp: list_all_iff grouped_digit_def)
  from this g(2) show ?thesis by (rule digits_nonneg)
qed

lemma treasury_at_zero_interval: "k_interval k = 0 \<Longrightarrow> accrued_loop k height h tot \<noteq> None"
  by (subst accrued_loop.simps) (simp add: py_floordiv_def)

lemma accrual_ends:
  assumes "consensus_constants t = Inr k"
  shows "accrued_through height k = Some (accrued height k)"
proof -
  have "0 \<le> k_interval k" using assms grouped_nonneg by (auto simp: consensus_constants_def)
  then have "accrued_through height k \<noteq> None"
    using accrued_through_sum [of k height] treasury_at_zero_interval [of k height]
    by (cases "k_interval k = 0") (auto simp: accrued_through_def)
  then show ?thesis by (auto simp: accrued_def)
qed

section \<open>What a clean exit means\<close>

definition answered :: "(string list \<times> string \<times> outcome) list \<Rightarrow> string option \<Rightarrow> string \<Rightarrow> string \<Rightarrow> bool" where
  "answered calls host cmd out \<longleftrightarrow>
     list_ex (\<lambda>(argv, stdin, res). argv = rsh_argv host cmd \<and>
       (case res of Exited rc o1 e1 \<Rightarrow> rc = 0 \<and> strip o1 = out | _ \<Rightarrow> False)) calls"

lemma answered_mono: "answered calls host cmd out \<Longrightarrow> set calls \<subseteq> set calls' \<Longrightarrow> answered calls' host cmd out"
  by (auto simp: answered_def list_ex_iff)

definition row_takes :: "ledger_row \<Rightarrow> py_error + int" where
  "row_takes r = rbind (coin_atoms (JStr (lr_amount r))) (\<lambda>a. rbind (coin_atoms (JStr (lr_fee r))) (\<lambda>f. Inr (a + f)))"

text \<open>A transaction is what a row says: the amount to the address, the fee, and nobody else paid.\<close>

definition row_agrees :: "ledger_row \<Rightarrow> string \<Rightarrow> bool" where
  "row_agrees r out \<longleftrightarrow>
     (\<exists>tx os as. json_loads out = Inr tx \<and> rbind (jitem tx ''vout'') jiter = Inr os
        \<and> rmap output_address os = Inr as \<and> set as \<subseteq> {JStr (lr_to r), JStr TREASURY, JNull}
        \<and> (\<exists>n. paid_to (lr_to r) os = Inr n \<and> coin_atoms (JStr (lr_amount r)) = Inr n)
        \<and> (\<exists>n. rbind (jget tx ''fee'' (JInt 0)) coin_atoms = Inr n \<and> coin_atoms (JStr (lr_fee r)) = Inr n))"

lemma judge_row_agrees:
  assumes "rbind (json_loads out) (judge_row r) = Inr ([], took, bh)"
  shows "row_agrees r out \<and> row_takes r = Inr took"
proof -
  obtain tx os paid want fee rfee st b where x:
    "json_loads out = Inr tx" "rbind (jitem tx ''vout'') jiter = Inr os" "paid_to (lr_to r) os = Inr paid"
    "coin_atoms (JStr (lr_amount r)) = Inr want" "rbind (jget tx ''fee'' (JInt 0)) coin_atoms = Inr fee"
    "coin_atoms (JStr (lr_fee r)) = Inr rfee" "strays (lr_to r) os = Inr st" "jget tx ''blockhash'' JNull = Inr b"
    "paid = want" "fee = rfee" "st = []" "took = want + fee"
    using assms by (auto simp: judge_row_def split: if_splits)
  from x(7,11) obtain as where "rmap output_address os = Inr as" "set as \<subseteq> {JStr (lr_to r), JStr TREASURY, JNull}"
    by (auto simp: strays_def Let_def filter_empty_conv split: if_splits)
  with x show ?thesis unfolding row_agrees_def row_takes_def by (auto simp del: rbind_eq_Inr)
qed

definition called :: "(string list \<times> string \<times> outcome) list \<Rightarrow> ('n, 'r) host_world_scheme \<Rightarrow> bool" where
  "called calls w \<longleftrightarrow> set calls \<subseteq> set (hw_calls w)"

lemma preserves_called [preserves_rules]:
  "preserves (called calls) (subprocess_run sh argv stdin t)" "preserves (called calls) (read_file p)"
  by (auto simp: preserves_def called_def subprocess_run_def read_file_def split: prod.splits)

lemma preserves_called_rsh [preserves_rules]: "preserves (called calls) (rsh sh host cmd t)"
  unfolding rsh_def by (intro preserves_rules)

lemma preserves_called_place [preserves_rules]: "preserves (called calls) (place_row sh host cli took bh t)"
  unfolding place_row_def height_of_def by (intro preserves_rules)

lemma preserves_called_row [preserves_rules]: "preserves (called calls) (check_row sh host cli r t)"
  unfolding check_row_def by (intro preserves_rules)

lemma preserves_called_rows [preserves_rules]: "preserves (called calls) (check_rows sh host cli rs t)"
  by (induction rs arbitrary: t) (auto intro!: preserves_rules)

lemma called_D: "preserves (called (hw_calls w)) m \<Longrightarrow> m w = (r, w') \<Longrightarrow> set (hw_calls w) \<subseteq> set (hw_calls w')"
  using preservesD [of "called (hw_calls w)" m w r w'] by (simp add: called_def)

lemma rsh_answered:
  "rsh sh host cmd t w = (Inr (rc, out, err), w') \<Longrightarrow> rc = 0 \<Longrightarrow> answered (hw_calls w') host cmd out"
  by (auto simp: rsh_def subprocess_run_def bnd_def ret_def answered_def split: prod.splits outcome.splits)

lemma place_row_keeps:
  "place_row sh host cli took bh t w = (Inr t', w') \<Longrightarrow> t_bad t' = t_bad t \<and> t_spent t' = t_spent t"
  by (auto simp: place_row_def bnd_ok_iff lift_def ret_def split: if_splits option.splits)

text \<open>A row without a complaint is on the chain as it is written.\<close>

lemma check_row_ok:
  assumes "check_row sh host cli r t w = (Inr t', w')" "t_bad t' = []"
  shows "t_bad t = [] \<and> (\<exists>out took. answered (hw_calls w') host (cli @ '' getrawtransaction '' @ lr_txid r @ '' 2'') out
    \<and> row_agrees r out \<and> row_takes r = Inr took \<and> t_spent t' = t_spent t + took)"
proof -
  let ?cmd = "cli @ '' getrawtransaction '' @ lr_txid r @ '' 2''"
  obtain rc out err v where v: "rsh sh host ?cmd 180 w = (Inr (rc, out, err), v)"
    and k: "(if rc \<noteq> 0 then ret (t\<lparr>t_bad := t_bad t @ [(Some r, No_Transaction)]\<rparr>)
       else bnd (lift (rbind (json_loads out) (judge_row r))) (\<lambda>(complaints, took, bh).
         bnd (place_row sh host cli took bh (t\<lparr>t_bad := t_bad t @ map (Pair (Some r)) complaints\<rparr>)) (\<lambda>t.
         ret (t\<lparr>t_spent := t_spent t + took\<rparr>)))) v = (Inr t', w')"
    using assms(1) unfolding check_row_def bnd_ok_iff by (auto simp del: rbind_eq_Inr)
  have rc: "rc = 0" using k assms(2) by (auto split: if_splits)
  with k obtain x where "rbind (json_loads out) (judge_row r) = Inr x"
    by (cases "rbind (json_loads out) (judge_row r)") (simp_all add: bnd_def lift_def)
  then obtain cs took bh where j: "rbind (json_loads out) (judge_row r) = Inr (cs, took, bh)"
    by (cases x) auto
  from k rc j obtain t2 where p: "place_row sh host cli took bh (t\<lparr>t_bad := t_bad t @ map (Pair (Some r)) cs\<rparr>) v = (Inr t2, w')"
    and t': "t' = t2\<lparr>t_spent := t_spent t2 + took\<rparr>"
    by (auto simp: bnd_ok_iff simp del: rbind_eq_Inr)
  have "t_bad t2 = []" using t' assms(2) by simp
  with place_row_keeps [OF p] have "t_bad t = []" "cs = []" "t_spent t2 = t_spent t" by auto
  moreover have "set (hw_calls v) \<subseteq> set (hw_calls w')"
    using called_D [OF preserves_called_place p] .
  ultimately show ?thesis
    using judge_row_agrees [of out r took bh] j rsh_answered [OF v rc] t' by (auto intro: answered_mono)
qed

lemma check_rows_ok:
  assumes "check_rows sh host cli rs t w = (Inr t', w')" "t_bad t' = []"
  shows "t_bad t = [] \<and> (\<exists>takes. rmap row_takes rs = Inr takes \<and> t_spent t' = t_spent t + sum_list takes)
    \<and> list_all (\<lambda>r. \<exists>out. answered (hw_calls w') host (cli @ '' getrawtransaction '' @ lr_txid r @ '' 2'') out
        \<and> row_agrees r out) rs"
  using assms
proof (induction rs arbitrary: t w)
  case (Cons r rs)
  then obtain t1 w1 where 1: "check_row sh host cli r t w = (Inr t1, w1)"
    and 2: "check_rows sh host cli rs t1 w1 = (Inr t', w')" by (auto simp: bnd_ok_iff)
  note ih = Cons.IH [OF 2 Cons.prems(2)]
  note row = check_row_ok [OF 1]
  have "set (hw_calls w1) \<subseteq> set (hw_calls w')" by (rule called_D [OF preserves_called_rows 2])
  with ih row show ?case by (auto intro: answered_mono)
qed simp

text \<open>The worked example: one height, the sums of the table, and the number they give.\<close>

definition example_agrees :: "string \<Rightarrow> accrual_consts \<Rightarrow> ledger_row list \<Rightarrow> bool" where
  "example_agrees t k rows \<longleftrightarrow>
     (\<exists>g1 g2 g3 g4 g5 h amounts fees acc. search pat_example t = Some (g1, g2, g3, g4, g5)
        \<and> int_of_string (num g1) = Inr h \<and> int_of_string (num g2) = Inr h
        \<and> rmap (\<lambda>r. coin_atoms (JStr (lr_amount r))) rows = Inr amounts \<and> coin_atoms (JStr (num g3)) = Inr (sum_list amounts)
        \<and> rmap (\<lambda>r. coin_atoms (JStr (lr_fee r))) rows = Inr fees \<and> coin_atoms (JStr (num g4)) = Inr (sum_list fees)
        \<and> accrued h k = Inr acc \<and> coin_atoms (JStr (num g5)) = Inr (acc - sum_list amounts - sum_list fees))"

lemma judge_example_agrees: "judge_example t k rows = Inr [] \<Longrightarrow> example_agrees t k rows"
  unfolding judge_example_def example_agrees_def
  by (auto split: option.splits if_splits)

lemma scan_chain_ok:
  assumes "scan_chain sh a cli t k w = (Inr 0, w')"
  shows "\<exists>scan tip held takes acc. answered (hw_calls w') (la_node a) (scan_command cli) scan
    \<and> rbind (json_loads scan) read_scan = Inr (Some (tip, held))
    \<and> list_all (\<lambda>r. \<exists>out. answered (hw_calls w') (la_node a) (cli @ '' getrawtransaction '' @ lr_txid r @ '' 2'') out
        \<and> row_agrees r out) (rows_of t)
    \<and> rmap row_takes (rows_of t) = Inr takes
    \<and> accrued tip k = Inr acc \<and> acc - sum_list takes = held \<and> example_agrees t k (rows_of t)"
proof -
  obtain rc out err v where v: "rsh sh (la_node a) (scan_command cli) 300 w = (Inr (rc, out, err), v)"
    and rest: "(if rc \<noteq> 0 then ret 2
        else bnd (lift (rbind (json_loads out) read_scan)) (\<lambda>scan. case scan of
          None \<Rightarrow> ret 2 | Some (tip, held) \<Rightarrow> judge_ledger sh a cli t k (rows_of t) tip held)) v = (Inr 0, w')"
    using assms unfolding scan_chain_def bnd_ok_iff by auto
  have rc: "rc = 0" using rest by (auto split: if_splits)
  obtain tip held where scan: "rbind (json_loads out) read_scan = Inr (Some (tip, held))"
    and j: "judge_ledger sh a cli t k (rows_of t) tip held v = (Inr 0, w')"
    using rest rc by (cases "rbind (json_loads out) read_scan") (auto simp: bnd_def lift_def ret_def split: option.splits)
  obtain ta acc where ta: "check_rows sh (la_node a) cli (rows_of t)
        \<lparr>t_bad = [], t_spent = 0, t_heights = [], t_newest = 0, t_by_height = []\<rparr> v = (Inr ta, w')"
    and acc: "accrued tip k = Inr acc" "t_bad ta = []" "acc - t_spent ta = held" "judge_example t k (rows_of t) = Inr []"
    using j by (auto simp: judge_ledger_def bnd_ok_iff Let_def split: if_splits)
  have "answered (hw_calls w') (la_node a) (scan_command cli) out"
    using rsh_answered [OF v rc] called_D [OF preserves_called_rows ta] by (rule answered_mono)
  then show ?thesis
    using scan check_rows_ok [OF ta acc(2)] acc judge_example_agrees [OF acc(4)] by auto
qed

text \<open>C3: when the check exits with 0, every row of the ledger is a transaction of the chain that
  pays what the row says, to whom it says, for the fee it says and to nobody else; what accrued
  through the scanned height less everything the rows took is exactly what the chain holds; and the
  worked example gives these numbers.\<close>

theorem clean_ledger_accounts_for_every_atom:
  assumes "ledger_main sh repo a w = (Inr 0, w')"
  shows "\<exists>lt pt k flags scan tip held takes acc.
      map_of (hw_files w) (path_join repo LEDGER) = Some (Text lt)
    \<and> map_of (hw_files w) (path_join repo PARAMS) = Some (Text pt)
    \<and> consensus_constants (strip_quoted pt []) = Inr k
    \<and> rows_of (strip_quoted lt []) \<noteq> []
    \<and> wamcli_flags (la_network a) None = Inr flags
    \<and> answered (hw_calls w') (la_node a) (scan_command (''wam-cli '' @ flags)) scan
    \<and> rbind (json_loads scan) read_scan = Inr (Some (tip, held))
    \<and> list_all (\<lambda>r. \<exists>out. answered (hw_calls w') (la_node a) (''wam-cli '' @ flags @ '' getrawtransaction '' @ lr_txid r @ '' 2'') out
          \<and> row_agrees r out) (rows_of (strip_quoted lt []))
    \<and> rmap row_takes (rows_of (strip_quoted lt [])) = Inr takes
    \<and> accrued_through tip k = Some (Inr acc) \<and> acc - sum_list takes = held
    \<and> example_agrees (strip_quoted lt []) k (rows_of (strip_quoted lt []))"
proof -
  obtain r w1 where r: "ledger_sources repo w = (r, w1)" by fastforce
  obtain t k where tk: "r = Inr (t, k)"
    using assms r by (cases r) (auto simp: ledger_main_def attempt_def bnd_def ret_def split: if_splits)
  from r tk obtain lt pt where src: "map_of (hw_files w) (path_join repo LEDGER) = Some (Text lt)"
    "map_of (hw_files w) (path_join repo PARAMS) = Some (Text pt)"
    "consensus_constants (strip_quoted pt []) = Inr k" "t = strip_quoted lt []"
    by (auto simp: ledger_sources_def bnd_ok_iff read_file_def lift_def split: option.splits stored.splits)
  have ne: "rows_of t \<noteq> []"
    using assms r tk by (auto simp: ledger_main_def attempt_def bnd_def ret_def)
  obtain flags where fl: "wamcli_flags (la_network a) None = Inr flags"
    using assms r tk ne by (cases "wamcli_flags (la_network a) None")
      (auto simp: ledger_main_def attempt_def bnd_def lift_def)
  have "scan_chain sh a (''wam-cli '' @ flags) t k w1 = (Inr 0, w')"
    using assms r tk ne fl by (simp add: ledger_main_def attempt_def bnd_def lift_def)
  from scan_chain_ok [OF this] show ?thesis
    using src ne fl accrual_ends [OF src(3)] by (simp del: rbind_eq_Inr)
qed

section \<open>A ledger of one row\<close>

definition sample_txid :: string where "sample_txid = replicate 64 (CHR ''a'')"

definition sample_row_text :: string where
  "sample_row_text = ''| 2026-10-01 | **1 WAM** | '' @ backquote @ ''1'' @ backquote @ '' | '' @ backquote @ ''W1'' @ backquote @
     '' | a gift, txid '' @ backquote @ sample_txid @ backquote @ '' |''"

definition sample_example_text :: string where
  "sample_example_text = ''At height 2 that is '' @ backquote @ ''2.5 '' @ [CHR 0xD7] @ '' 2 '' @ [CHR 0x80] @ '' 1 '' @ [CHR 0x80] @
     '' 1 = 3'' @ backquote"

definition sample_balance_text :: string where
  "sample_balance_text = ''**Balance after the last line:** '' @ backquote @ ''3 WAM'' @ backquote @ '', at height 2''"

definition sample_ledger :: string where
  "sample_ledger = join_char [CHR 0x0A] [sample_row_text, sample_example_text, sample_balance_text]"

definition sample_params :: string where
  "sample_params = join_char [CHR 0x0A] [''WAM_INITIAL_BLOCK_SUBSIDY = 50 * WAM_COIN'', ''WAM_SUBSIDY_HALVING_INTERVAL = 10'',
     ''WAM_DEVFEE_PERCENT = 5'', ''WAM_DEVFEE_START_HEIGHT = 1'', ''WAM_DEVFEE_LAST_HEIGHT = 9'', ''WAM_MAX_HALVINGS = 3'']"

definition sample_consts :: accrual_consts where
  "sample_consts = \<lparr>k_subsidy = 50, k_interval = 10, k_percent = 5, k_start = 1, k_last = 9, k_max_halvings = 3\<rparr>"

definition sample_row :: ledger_row where
  "sample_row = \<lparr>lr_date = ''2026-10-01'', lr_amount = ''1'', lr_fee = ''1'', lr_to = ''W1'', lr_txid = sample_txid\<rparr>"

text \<open>Amounts of whole coins are exact.\<close>

lemma coin_atoms_whole:
  assumes "\<bar>n\<bar> * ATOM \<le> 2 ^ 53"
  shows "coin_atoms (JInt n) = Inr (n * ATOM)" and "rbind (float_of_int n) (\<lambda>v. fround_int (fmul v (Fin (of_int ATOM)))) = Inr (n * ATOM)"
proof -
  have "\<bar>n\<bar> \<le> 2 ^ 53" using assms by (simp add: ATOM_def)
  then have 1: "fl (of_int n) = Fin (of_int n)" using fl_exact [of n 0 "of_int n"] by simp
  have 2: "fl (of_int (n * ATOM)) = Fin (of_int (n * ATOM))"
    using assms fl_exact [of "n * ATOM" 0 "of_int (n * ATOM)"] by (simp add: abs_mult ATOM_def)
  have "fmul (Fin (of_int n)) (Fin (of_int ATOM)) = Fin (of_int (n * ATOM))" using 2 by simp
  then show "rbind (float_of_int n) (\<lambda>v. fround_int (fmul v (Fin (of_int ATOM)))) = Inr (n * ATOM)"
    using 1 by (simp add: float_of_int_def del: fmul.simps of_int_mult)
  then show "coin_atoms (JInt n) = Inr (n * ATOM)" by (simp add: coin_atoms_def)
qed

lemma coin_atoms_text:
  assumes "float_of_string s = Inr (fl (of_int n))" "\<bar>n\<bar> * ATOM \<le> 2 ^ 53"
  shows "coin_atoms (JStr s) = Inr (n * ATOM)"
proof -
  have "\<bar>n\<bar> \<le> 2 ^ 53" using assms(2) by (simp add: ATOM_def)
  then have "fl (of_int n) = Fin (of_int n)" using fl_exact [of n 0 "of_int n"] by simp
  with coin_atoms_whole(2) [OF assms(2)] assms(1) show ?thesis
    by (simp add: coin_atoms_def float_of_int_def del: fmul.simps)
qed

lemma sample_one: "coin_atoms (JStr ''1'') = Inr 100000000"
proof -
  have "unsigned_decimal ''1'' = Some 1" by code_simp
  then have "float_of_string ''1'' = Inr (fl (of_int 1))"
    by (simp add: float_of_string_def strip_def lstrip_def rstrip_def is_space_def split_sign_def lower_char_def)
  from coin_atoms_text [OF this] show ?thesis by (simp add: ATOM_def)
qed

lemma sample_three: "coin_atoms (JStr ''3'') = Inr 300000000"
proof -
  have "unsigned_decimal ''3'' = Some 3" by code_simp
  then have "float_of_string ''3'' = Inr (fl (of_int 3))"
    by (simp add: float_of_string_def strip_def lstrip_def rstrip_def is_space_def split_sign_def lower_char_def)
  from coin_atoms_text [OF this] show ?thesis by (simp add: ATOM_def)
qed

lemma sample_ledger_unquoted: "strip_quoted sample_ledger [] = sample_ledger"
  by code_simp

lemma sample_params_unquoted: "strip_quoted sample_params [] = sample_params"
  by code_simp

lemma sample_params_read: "consensus_constants sample_params = Inr sample_consts"
  by code_simp

lemma sample_example: "search pat_example sample_ledger = Some (''2'', ''2'', ''1'', ''1'', ''3'')"
  by code_simp

lemma sample_balance: "search pat_balance sample_ledger = Some (''3'', ''2'')"
  by code_simp

lemmas sample_texts = sample_ledger_unquoted sample_params_unquoted sample_params_read sample_example sample_balance

lemma sample_rows_of: "rows_of sample_ledger = [sample_row]"
proof -
  have "text_lines sample_ledger = [sample_row_text, sample_example_text, sample_balance_text]" by code_simp
  moreover have "row_match sample_row_text = Some sample_row" by code_simp
  moreover have "row_match sample_example_text = None" by code_simp
  moreover have "row_match sample_balance_text = None" by code_simp
  ultimately show ?thesis by (simp add: rows_of_def List.map_filter_simps)
qed

definition dquote :: "string \<Rightarrow> string" where
  "dquote s = CHR 0x22 # s @ [CHR 0x22]"

definition sample_scan :: string where
  "sample_scan = ''{'' @ dquote ''success'' @ '':true,'' @ dquote ''height'' @ '':2,'' @ dquote ''total_amount'' @ '':3,'' @
     dquote ''unspents'' @ '':[]}''"

definition sample_tx :: string where
  "sample_tx = ''{'' @ dquote ''vout'' @ '':[{'' @ dquote ''scriptPubKey'' @ '':{'' @ dquote ''address'' @ '':'' @ dquote ''W1'' @
     ''},'' @ dquote ''value'' @ '':1}],'' @ dquote ''fee'' @ '':1,'' @ dquote ''blockhash'' @ '':'' @ dquote ''b'' @ ''}''"

definition sample_block :: string where
  "sample_block = ''{'' @ dquote ''height'' @ '':2}''"

lemma sample_scan_json: "json_loads sample_scan = Inr (JObj [(''success'', JBool True), (''height'', JInt 2),
    (''total_amount'', JInt 3), (''unspents'', JArr [])])"
  by code_simp

lemma sample_tx_json: "json_loads sample_tx = Inr (JObj [(''vout'', JArr [JObj [(''scriptPubKey'',
    JObj [(''address'', JStr ''W1'')]), (''value'', JInt 1)]]), (''fee'', JInt 1), (''blockhash'', JStr ''b'')])"
  by code_simp

lemma sample_block_json: "json_loads sample_block = Inr (JObj [(''height'', JInt 2)])"
  by code_simp

lemma sample_strips: "strip sample_scan = sample_scan" "strip sample_tx = sample_tx" "strip sample_block = sample_block"
  by (simp_all add: strip_def lstrip_def rstrip_def sample_scan_def sample_tx_def sample_block_def dquote_def is_space_def)

lemma sample_accrued: "accrued 2 sample_consts = Inr 500000000"
proof -
  have "accrued_through 2 sample_consts = Some (Inr (\<Sum>h = 1..2. treasury_value sample_consts h))"
    by (rule accrued_through_sum) (simp add: sample_consts_def)
  moreover have "(\<Sum>h = 1..2. treasury_value sample_consts h) = treasury_value sample_consts 1 + treasury_value sample_consts 2"
  proof -
    have "{1..2 :: int} = {1, 2}" by auto
    then show ?thesis by simp
  qed
  moreover have "treasury_value sample_consts 1 = 250000000" "treasury_value sample_consts 2 = 250000000"
    by (simp_all add: treasury_value_def sample_consts_def ATOM_def)
  ultimately show ?thesis by (simp add: accrued_def)
qed

definition sample_host :: "outcome list \<Rightarrow> outcome list host_world" where
  "sample_host outs = \<lparr>hw_node = outs, hw_calls = [], hw_files = [(''/r/docs/TREASURY_LEDGER.md'', Text sample_ledger),
     (''/r/src/wam/wam-params.h'', Text sample_params)], hw_dirs = (\<lambda>p. True), hw_denied = (\<lambda>p. False)\<rparr>"

definition replay_shell :: "outcome list shell" where
  "replay_shell = (\<lambda>outs argv stdin t. case outs of [] \<Rightarrow> (Not_Started, []) | res # rest \<Rightarrow> (res, rest))"

lemma sample_row_judged: "rbind (json_loads sample_tx) (judge_row sample_row) = Inr ([], 200000000, JStr ''b'')"
  unfolding sample_tx_json
  using coin_atoms_whole(1) [of 1] sample_one
  by (simp add: judge_row_def paid_to_def strays_def output_address_def sample_row_def TREASURY_def ATOM_def)

lemma sample_scan_read: "rbind (json_loads sample_scan) read_scan = Inr (Some (2, 300000000))"
  unfolding sample_scan_json using coin_atoms_whole(1) [of 3]
  by (simp add: read_scan_def sliceable_def sized_def ATOM_def)

lemma sample_two: "int_of_string ''2'' = Inr 2"
  by code_simp

lemma sample_nums: "num ''1'' = ''1''" "num ''2'' = ''2''" "num ''3'' = ''3''"
  by (simp_all add: num_def)

lemma sample_example_judged: "judge_example sample_ledger sample_consts [sample_row] = Inr []"
  using sample_one sample_three sample_two
  by (simp add: judge_example_def sample_example sample_nums sample_accrued sample_row_def)

lemma sample_balance_judged:
  "judge_balance sample_ledger sample_consts
     \<lparr>t_bad = [], t_spent = n, t_heights = hs, t_newest = 2, t_by_height = [(2, 200000000)]\<rparr> = Inr []"
  using sample_three sample_two by (simp add: judge_balance_def sample_balance sample_nums sample_accrued)

lemma sample_ledger_run:
  "fst (ledger_main replay_shell ''/r'' \<lparr>la_node = None, la_network = ''testnet''\<rparr>
     (sample_host [Exited 0 sample_scan [], Exited 0 sample_tx [], Exited 0 sample_block []])) = Inr 0"
proof -
  have p: "path_join ''/r'' LEDGER = ''/r/docs/TREASURY_LEDGER.md''" "path_join ''/r'' PARAMS = ''/r/src/wam/wam-params.h''"
    by (simp_all add: path_join_def LEDGER_def PARAMS_def)
  show ?thesis
    using sample_row_judged sample_scan_read
    by (simp add: ledger_main_def ledger_sources_def read_file_def sample_host_def p sample_texts sample_rows_of
        attempt_def bnd_def lift_def ret_def wamcli_flags_def scan_chain_def rsh_def subprocess_run_def replay_shell_def
        sample_strips judge_ledger_def check_row_def place_row_def height_of_def sample_block_json sample_accrued Let_def
        sample_balance_judged sample_example_judged del: rbind_eq_Inr)
qed

text \<open>A ledger of one gift, a chain that holds the rest: the check exits with 0.\<close>

lemma clean_ledger_accounts_for_every_atom_witness:
  "\<exists>lt pt k flags scan tip held takes acc (w' :: outcome list host_world).
      map_of (hw_files (sample_host [Exited 0 sample_scan [], Exited 0 sample_tx [], Exited 0 sample_block []]))
        (path_join ''/r'' LEDGER) = Some (Text lt)
    \<and> consensus_constants (strip_quoted pt []) = Inr k
    \<and> rbind (json_loads scan) read_scan = Inr (Some (tip, held))
    \<and> answered (hw_calls w') None (scan_command (''wam-cli '' @ flags)) scan
    \<and> rmap row_takes (rows_of (strip_quoted lt [])) = Inr takes
    \<and> accrued_through tip k = Some (Inr acc) \<and> acc - sum_list takes = held"
proof -
  obtain w' where "ledger_main replay_shell ''/r'' \<lparr>la_node = None, la_network = ''testnet''\<rparr>
     (sample_host [Exited 0 sample_scan [], Exited 0 sample_tx [], Exited 0 sample_block []]) = (Inr 0, w')"
    using sample_ledger_run by (metis prod.collapse)
  from clean_ledger_accounts_for_every_atom [OF this] show ?thesis
    unfolding ledger_args.simps by blast
qed

end
