(* ===== verification/Ops.thy ===== *)
theory Ops
  imports Quoted Host_Shell
begin

text \<open>
  \<open>ops/ops.py\<close>: the collector behind the operator's dashboard. One \<open>ssh\<close> call per machine, its
  output cut into sections; the repository's own checks, whose exit code is the verdict; the state
  file; what the local server answers. Commands and the clock are parameters, and so are the text
  of the collecting script and the text of an exception.
\<close>

section \<open>Machines\<close>

definition HOSTS :: "(string \<times> string) list" where
  "HOSTS = [(''France'', ''169.58.159.165''), (''Singapore'', ''5.223.52.200''), (''US-east'', ''13.140.33.187'')]"

definition ALL_IPS :: "string list" where "ALL_IPS = map snd HOSTS"

record 'n ops_world = "'n host_world" +
  st_generated :: int
  st_hosts :: "(string \<times> json) list"
  st_checks :: "(string \<times> json) list"

type_synonym ('n, 'a) ops_task = "('n ops_world, py_error, 'a) prog"

section \<open>One command\<close>

text \<open>\<open>_rsh_once\<close>: never raises; what goes wrong on the way is status 255.\<close>

definition ops_argv :: "string \<Rightarrow> string list" where
  "ops_argv host = [''ssh'', ''-o'', ''BatchMode=yes'', ''-o'', ''ConnectTimeout=10'', ''-o'',
     ''StrictHostKeyChecking=accept-new'', ''root@'' @ host, ''bash -s'']"

text \<open>Standard error is used only when there is nothing else to say.\<close>

definition answer_text :: "string \<Rightarrow> string \<Rightarrow> string" where
  "answer_text out err = (if strip out = [] \<and> strip err \<noteq> [] then strip err else out)"

definition rsh_once :: "'n shell \<Rightarrow> (py_error \<Rightarrow> string) \<Rightarrow> string \<Rightarrow> string \<Rightarrow> int \<Rightarrow> ('n, int \<times> string) ops_task" where
  "rsh_once sh etext host cmd timeout =
     bnd (attempt is_exception (subprocess_run sh (ops_argv host) cmd timeout)) (\<lambda>r. case r of
       Inl e \<Rightarrow> ret (255, etext e)
     | Inr (rc, out, err) \<Rightarrow> ret (rc, answer_text out err))"

text \<open>\<open>rsh\<close>: tried again after a status 255, at most \<open>tries\<close> times and at least once.\<close>

fun rsh_tries :: "'n shell \<Rightarrow> (py_error \<Rightarrow> string) \<Rightarrow> string \<Rightarrow> string \<Rightarrow> int \<Rightarrow> nat \<Rightarrow> int \<times> string \<Rightarrow> ('n, int \<times> string) ops_task" where
  "rsh_tries sh etext host cmd timeout 0 prev = ret prev"
| "rsh_tries sh etext host cmd timeout (Suc n) prev =
     bnd (rsh_once sh etext host cmd timeout) (\<lambda>(rc, out).
       if rc \<noteq> 255 then ret (rc, out) else rsh_tries sh etext host cmd timeout n (rc, out))"

definition ops_rsh :: "'n shell \<Rightarrow> (py_error \<Rightarrow> string) \<Rightarrow> string \<Rightarrow> string \<Rightarrow> int \<Rightarrow> nat \<Rightarrow> ('n, int \<times> string) ops_task" where
  "ops_rsh sh etext host cmd timeout tries =
     rsh_tries sh etext host cmd timeout (max 1 tries) (255, ''not attempted'')"

section \<open>One machine\<close>

text \<open>The output is cut at the lines that begin with \<open>###\<close>; what precedes the first is dropped.\<close>

definition section_step :: "string option \<times> (string \<times> string list) list \<Rightarrow> string \<Rightarrow> string option \<times> (string \<times> string list) list" where
  "section_step st line =
     (case st of (key, parts) \<Rightarrow>
        if starts_with ''###'' line then (Some (drop 3 line), dict_set (drop 3 line) [] parts)
        else (case key of
            None \<Rightarrow> st
          | Some k \<Rightarrow> if k = [] then st
              else (key, dict_set k ((case map_of parts k of Some ls \<Rightarrow> ls | None \<Rightarrow> []) @ [line]) parts)))"

definition sections :: "string \<Rightarrow> (string \<times> string list) list" where
  "sections out = snd (foldl section_step (None, []) (text_lines out))"

definition part :: "(string \<times> string list) list \<Rightarrow> string \<Rightarrow> string list" where
  "part parts k = (case map_of parts k of Some ls \<Rightarrow> ls | None \<Rightarrow> [])"

text \<open>\<open>one(k, cast, default)\<close>: the first line that is not blank, or the default where it does not cast.\<close>

definition one_field :: "(string \<times> string list) list \<Rightarrow> string \<Rightarrow> (string \<Rightarrow> py_error + json) \<Rightarrow> json \<Rightarrow> json" where
  "one_field parts k cast dflt =
     (case filter (\<lambda>x. strip x \<noteq> []) (part parts k) of
        [] \<Rightarrow> dflt
      | x # _ \<Rightarrow> (case cast (strip x) of Inr v \<Rightarrow> v | Inl _ \<Rightarrow> dflt))"

definition as_text :: "string \<Rightarrow> py_error + json" where "as_text s = Inr (JStr s)"

definition as_int :: "string \<Rightarrow> py_error + json" where
  "as_int s = rbind (int_of_string s) (\<lambda>n. Inr (JInt n))"

text \<open>Two numbers on a line; a line with fewer words or other words raises.\<close>

definition two_numbers :: "string \<Rightarrow> py_error + json \<times> json" where
  "two_numbers line =
     (case words line of
        [] \<Rightarrow> Inr (JNull, JNull)
      | [a] \<Rightarrow> rbind (int_of_string a) (\<lambda>_. Inl IndexError)
      | a # b # _ \<Rightarrow> rbind (int_of_string a) (\<lambda>x. rbind (int_of_string b) (\<lambda>y. Inr (JInt x, JInt y))))"

definition memory_fields :: "(string \<times> string list) list \<Rightarrow> py_error + (json \<times> json) \<times> json \<times> json" where
  "memory_fields parts =
     (case part parts ''mem'' of
        [] \<Rightarrow> Inr ((JNull, JNull), JNull, JNull)
      | [m] \<Rightarrow> rbind (two_numbers m) (\<lambda>mt. Inr (mt, JNull, JNull))
      | m # s # _ \<Rightarrow> rbind (two_numbers m) (\<lambda>mt. rbind (two_numbers s) (\<lambda>st. Inr (mt, st))))"

definition disk_fields :: "(string \<times> string list) list \<Rightarrow> py_error + json \<times> json" where
  "disk_fields parts =
     (case words (case part parts ''disk'' of [] \<Rightarrow> [] | d # _ \<Rightarrow> d) of
        a # b # _ \<Rightarrow> rbind (int_of_string a) (\<lambda>x. rbind (int_of_string b) (\<lambda>y. Inr (JInt x, JInt y)))
      | _ \<Rightarrow> Inr (JNull, JNull))"

definition service_fields :: "(string \<times> string list) list \<Rightarrow> json" where
  "service_fields parts =
     JObj (foldl (\<lambda>d line. case words line of
         u # a # e # _ \<Rightarrow> dict_set u (JObj [(''active'', JStr a), (''enabled'', JStr e)]) d
       | _ \<Rightarrow> d) [] (part parts ''services''))"

definition text_or_null :: "string \<Rightarrow> json" where
  "text_or_null s = (if s = [] then JNull else JStr s)"

definition unreachable_card :: "string \<Rightarrow> string \<Rightarrow> int \<Rightarrow> string \<Rightarrow> json" where
  "unreachable_card name ip now why =
     JObj [(''name'', JStr name), (''ip'', JStr ip), (''reachable'', JBool False), (''checked'', JInt now), (''why'', JStr why)]"

definition live_card :: "string \<Rightarrow> string \<Rightarrow> int \<Rightarrow> int \<Rightarrow> (string \<times> string list) list \<Rightarrow> py_error + json" where
  "live_card name ip now rc parts =
     rbind (memory_fields parts) (\<lambda>((mem_total, mem_avail), swap_total, swap_used).
     rbind (disk_fields parts) (\<lambda>(disk_avail, disk_total).
     Inr (JObj [(''name'', JStr name), (''ip'', JStr ip), (''reachable'', JBool True), (''checked'', JInt now),
       (''os'', one_field parts ''os'' as_text JNull),
       (''uptimeSeconds'', one_field parts ''uptime'' as_int JNull),
       (''load'', text_or_null (strip (case part parts ''load'' of [] \<Rightarrow> [] | l # _ \<Rightarrow> l))),
       (''memTotalMb'', mem_total), (''memAvailMb'', mem_avail), (''swapTotalMb'', swap_total), (''swapUsedMb'', swap_used),
       (''diskAvailMb'', disk_avail), (''diskTotalMb'', disk_total),
       (''git'', one_field parts ''git'' as_text JNull), (''height'', one_field parts ''height'' as_int JNull),
       (''tip'', one_field parts ''tip'' as_text JNull), (''peers'', one_field parts ''peers'' as_int JNull),
       (''services'', service_fields parts),
       (''newestBackup'', one_field parts ''backup'' as_int JNull),
       (''reorgAlarms'', one_field parts ''alarms'' as_int (JInt 0)),
       (''versionNotice'', JBool (one_field parts ''motd'' as_text JNull = JStr ''yes'')),
       (''failedUnits'', JArr (map (\<lambda>x. JStr (strip x)) (filter (\<lambda>x. strip x \<noteq> []) (part parts ''failed'')))),
       (''maintenance'', one_field parts ''maint'' as_text JNull),
       (''collectWarning'', if rc \<noteq> 0 then JStr (''the collector script exited '' @ int_string rc @ '' on this host'') else JNull)])))"

definition collect_host :: "'n shell \<Rightarrow> ('n \<Rightarrow> int) \<Rightarrow> (py_error \<Rightarrow> string) \<Rightarrow> string \<Rightarrow> string \<Rightarrow> string \<Rightarrow> ('n, json) ops_task" where
  "collect_host sh clock etext script name ip =
     bnd (ops_rsh sh etext ip script 60 2) (\<lambda>(rc, out) w.
       let now = clock (hw_node w)
       in if \<not> contains ''###end'' out
          then (Inr (unreachable_card name ip now (take 200 (strip (if out = [] then ''no answer'' else out)))), w)
          else (live_card name ip now rc (sections out), w))"

section \<open>Checks\<close>

text \<open>\<open>shlex.quote\<close>.\<close>

definition shell_safe :: "char \<Rightarrow> bool" where
  "shell_safe c \<longleftrightarrow> ((of_char c :: nat) < 128 \<and> is_word c) \<or> c \<in> set ''@%+=:,./-''"

definition shell_quote :: "string \<Rightarrow> string" where
  "shell_quote s =
     (if s = [] then [CHR 0x27, CHR 0x27]
      else if list_all shell_safe s then s
      else [CHR 0x27] @ concat (map (\<lambda>c. if c = CHR 0x27 then [CHR 0x27, CHR 0x22, CHR 0x27, CHR 0x22, CHR 0x27] else [c]) s) @
        [CHR 0x27])"

text \<open>\<open>_wsl_path\<close> of an absolute Windows path with a drive letter.\<close>

definition wsl_path :: "string \<Rightarrow> py_error + string" where
  "wsl_path p =
     (case p of
        d # c # rest \<Rightarrow>
          if c = CHR '':'' then Inr (''/mnt/'' @ [lower_char d] @ map (\<lambda>x. if x = CHR 0x5C then CHR ''/'' else x) rest)
          else Inl IndexError
      | _ \<Rightarrow> Inl IndexError)"

definition git_bash_paths :: "string list" where
  "git_bash_paths = map (map (\<lambda>c. if c = CHR ''/'' then CHR 0x5C else c))
     [''C:/Program Files/Git/bin/bash.exe'', ''C:/Program Files/Git/usr/bin/bash.exe'', ''C:/Program Files (x86)/Git/bin/bash.exe'']"

definition git_bash :: "(string \<Rightarrow> bool) \<Rightarrow> string option \<Rightarrow> string option" where
  "git_bash isfile which =
     (case find isfile git_bash_paths of
        Some p \<Rightarrow> Some p
      | None \<Rightarrow> (case which of
            Some f \<Rightarrow>
              if f \<noteq> [] \<and> \<not> contains ''windowsapps'' (map lower_char (map (\<lambda>c. if c = CHR ''/'' then CHR 0x5C else c) f))
              then Some f else None
          | None \<Rightarrow> None))"

record platform =
  pf_windows :: bool
  pf_isfile :: "string \<Rightarrow> bool"
  pf_which_bash :: "string option"
  pf_repo :: string

definition portable :: "platform \<Rightarrow> string list \<Rightarrow> py_error + string list \<times> string option" where
  "portable pf argv =
     (if \<not> pf_windows pf then Inr (argv, Some (pf_repo pf))
      else if argv \<noteq> [] \<and> hd argv = ''bash'' then
        (case git_bash (pf_isfile pf) (pf_which_bash pf) of
           Some gb \<Rightarrow> Inr (gb # tl argv, Some (pf_repo pf))
         | None \<Rightarrow> rbind (wsl_path (pf_repo pf)) (\<lambda>p.
             Inr ([''wsl'', ''-e'', ''bash'', ''-lc'',
               ''cd '' @ shell_quote p @ '' && bash '' @ join_char '' '' (map shell_quote (tl argv))], None)))
      else Inr (argv, Some (pf_repo pf)))"

text \<open>\<open>re.sub(r"\x1b\[[0-9;]*m", "", out)\<close>.\<close>

function strip_ansi :: "string \<Rightarrow> string" where
  "strip_ansi s =
     (case s of
        [] \<Rightarrow> []
      | c # r \<Rightarrow>
          if c = CHR 0x1B \<and> starts_with ''['' r
             \<and> starts_with ''m'' (dropWhile (\<lambda>x. is_digit x \<or> x = CHR '';'') (tl r))
          then strip_ansi (tl (dropWhile (\<lambda>x. is_digit x \<or> x = CHR '';'') (tl r)))
          else c # strip_ansi r)"
  by pat_completeness auto
termination
proof (relation "measure length")
  fix s c and r :: string
  assume "s = c # r"
  moreover have "length (dropWhile P (tl r)) \<le> length (tl r)" for P by (rule length_dropWhile_le)
  ultimately show "(tl (dropWhile (\<lambda>x. is_digit x \<or> x = CHR '';'') (tl r)), s) \<in> measure length"
    by (simp add: le_imp_less_Suc) (meson diff_le_self le_trans less_Suc_eq_le)
qed auto

declare strip_ansi.simps [simp del]

definition last_lines :: "nat \<Rightarrow> 'a list \<Rightarrow> 'a list" where
  "last_lines n xs = drop (length xs - n) xs"

definition verdict :: "int \<Rightarrow> string" where
  "verdict rc = (if rc = 0 then ''ok'' else if rc = 2 then ''unknown'' else ''bad'')"

definition unknown_check :: "string \<Rightarrow> int \<Rightarrow> string \<Rightarrow> json" where
  "unknown_check name started detail =
     JObj [(''name'', JStr name), (''status'', JStr ''unknown''), (''ran'', JInt started), (''detail'', JStr detail)]"

text \<open>What becomes of the command: nothing that did not end is a verdict.\<close>

definition check_json :: "(py_error \<Rightarrow> string) \<Rightarrow> string \<Rightarrow> int \<Rightarrow> int \<Rightarrow> py_error + int \<times> string \<times> string \<Rightarrow> json" where
  "check_json etext name started timeout r =
     (case r of
        Inl e \<Rightarrow> unknown_check name started
          (if e = TimeoutExpired then ''did not finish within '' @ int_string timeout @ ''s -- that is not a pass''
           else ''could not run: '' @ etext e)
      | Inr (rc, out, err) \<Rightarrow>
          JObj [(''name'', JStr name), (''status'', JStr (verdict rc)), (''exit'', JInt rc), (''ran'', JInt started),
            (''detail'', JStr (join_char [CHR 0x0A] (last_lines 14
               (map rstrip (filter (\<lambda>l. strip l \<noteq> []) (text_lines (strip_ansi (out @ err))))))))])"

definition run_check :: "'n shell \<Rightarrow> ('n \<Rightarrow> int) \<Rightarrow> (py_error \<Rightarrow> string) \<Rightarrow> platform \<Rightarrow> string \<Rightarrow> string list \<Rightarrow> int \<Rightarrow> ('n, json) ops_task" where
  "run_check sh clock etext pf name argv timeout = (\<lambda>w0.
     bnd (lift (portable pf argv)) (\<lambda>(argv, cwd).
     bnd (attempt is_exception (subprocess_run sh argv [] timeout)) (\<lambda>r.
     ret (check_json etext name (clock (hw_node w0)) timeout r))) w0)"

section \<open>The collector\<close>

definition FAST_EVERY :: int where "FAST_EVERY = 60"

definition SLOW_EVERY :: int where "SLOW_EVERY = 600"

text \<open>What the panel shows of a machine: its card, or that collecting it raised.\<close>

definition collect_one :: "'n shell \<Rightarrow> ('n \<Rightarrow> int) \<Rightarrow> (py_error \<Rightarrow> string) \<Rightarrow> string \<Rightarrow> string \<times> string \<Rightarrow> ('n, string \<times> json) ops_task" where
  "collect_one sh clock etext script = (\<lambda>(name, ip).
     bnd (attempt is_exception (collect_host sh clock etext script name ip)) (\<lambda>r w.
       (Inr (ip, case r of Inr cd \<Rightarrow> cd
          | Inl e \<Rightarrow> unreachable_card name ip (clock (hw_node w)) (etext e)), w)))"

definition set_hosts :: "('n \<Rightarrow> int) \<Rightarrow> (string \<times> json) list \<Rightarrow> ('n, unit) ops_task" where
  "set_hosts clock hosts = (\<lambda>w.
     (Inr (), w\<lparr>st_hosts := foldl (\<lambda>d (ip, cd). dict_set ip cd d) [] hosts, st_generated := clock (hw_node w)\<rparr>))"

definition slow_checks :: "'n shell \<Rightarrow> ('n \<Rightarrow> int) \<Rightarrow> (py_error \<Rightarrow> string) \<Rightarrow> platform \<Rightarrow> (string \<times> string list \<times> int) list \<Rightarrow> ('n, unit) ops_task" where
  "slow_checks sh clock etext pf checks =
     bnd (for_each (\<lambda>(name, argv, timeout).
         bnd (run_check sh clock etext pf name argv timeout) (\<lambda>r w.
           (Inr (), w\<lparr>st_checks := dict_set name r (st_checks w)\<rparr>))) checks) (\<lambda>_ w.
       (Inr (), w\<lparr>st_generated := clock (hw_node w)\<rparr>))"

definition state_json :: "'n ops_world \<Rightarrow> json" where
  "state_json w = JObj [(''generated'', JInt (st_generated w)), (''hosts'', JObj (st_hosts w)),
     (''checks'', JObj (st_checks w)), (''errors'', JArr [])]"

definition dump_state :: "string \<Rightarrow> ('n, unit) ops_task" where
  "dump_state state =
     bnd (attempt (\<lambda>e. e = OSError)
           (bnd (\<lambda>w. host_write (state @ ''.tmp'') (Doc (state_json w)) w) (\<lambda>_. host_replace (state @ ''.tmp'') state)))
       (\<lambda>_. ret ())"

text \<open>
  One turn of the loop: it takes the moment of the last slow turn, and gives the new one and how
  long to sleep.
\<close>

definition collector_turn :: "'n shell \<Rightarrow> ('n \<Rightarrow> int) \<Rightarrow> (py_error \<Rightarrow> string) \<Rightarrow> platform \<Rightarrow> string \<Rightarrow> string \<Rightarrow>
    (string \<times> string list \<times> int) list \<Rightarrow> int \<Rightarrow> ('n, int \<times> int) ops_task" where
  "collector_turn sh clock etext pf script state checks last_slow = (\<lambda>w0.
     let start = clock (hw_node w0)
     in bnd (for_each (collect_one sh clock etext script) HOSTS) (\<lambda>hosts.
        bnd (set_hosts clock hosts) (\<lambda>_.
        bnd (\<lambda>w. if SLOW_EVERY < clock (hw_node w) - last_slow
                 then bnd (slow_checks sh clock etext pf checks) (\<lambda>_. ret (clock (hw_node w))) w
                 else (Inr last_slow, w)) (\<lambda>slow.
        bnd (dump_state state) (\<lambda>_ w.
          (Inr (slow, max 5 (FAST_EVERY - (clock (hw_node w) - start))), w))))) w0)"

section \<open>The server\<close>

datatype response = State_Body json | Static_File string

definition do_GET :: "'n ops_world \<Rightarrow> string \<Rightarrow> response" where
  "do_GET w path =
     (if starts_with ''/state.json'' path then State_Body (state_json w)
      else Static_File (if path = ''/'' \<or> path = [] then ''/index.html'' else path))"

text \<open>The status of \<open>GET /state.json\<close> on the port, nothing when it cannot be fetched.\<close>

definition already_serving :: "int option \<Rightarrow> bool" where
  "already_serving status = (status = Some 200)"

text \<open>
  Binding the port succeeds, or raises with an errno and perhaps a Windows error; a server that
  was bound runs until it is interrupted.
\<close>

datatype bind_result = Bound | Not_Bound "int option" int

definition ops_main :: "bind_result \<Rightarrow> int option \<Rightarrow> py_error + int" where
  "ops_main b status =
     (case b of
        Bound \<Rightarrow> Inr 0
      | Not_Bound winerror errno \<Rightarrow>
          if winerror = Some 10048 \<or> errno \<in> {48, 98, 10048}
          then Inr (if already_serving status then 0 else 2)
          else Inl OSError)"

end
