(* ===== verification/Ops_Facts.thy ===== *)
theory Ops_Facts
  imports Ops
begin

text \<open>
  What the panel of \<open>ops/ops.py\<close> promises: a card is of the turn that shows it, and a verdict is the
  exit code of the check. The last section runs a turn.
\<close>

section \<open>A card is of this turn\<close>

definition reachable :: "json \<Rightarrow> bool" where
  "reachable cd = (case cd of JObj kvs \<Rightarrow> map_of kvs ''reachable'' = Some (JBool True) | _ \<Rightarrow> False)"

text \<open>A command on a machine that printed the end mark of the script.\<close>

definition ran_to_the_end :: "string \<Rightarrow> string list \<times> string \<times> outcome \<Rightarrow> bool" where
  "ran_to_the_end ip c =
     (case c of (argv, stdin, res) \<Rightarrow> argv = ops_argv ip \<and>
        (case res of Exited rc out err \<Rightarrow> contains ''###end'' (answer_text out err) | _ \<Rightarrow> False))"

lemma rsh_once_call:
  assumes "rsh_once sh etext ip cmd t w = (r, w')"
  shows "\<exists>c out. hw_calls w' = hw_calls w @ [c] \<and> (\<exists>rc. r = Inr (rc, out))
    \<and> (contains ''###end'' out \<longrightarrow> ran_to_the_end ip c \<or> (\<exists>e. out = etext e))"
  using assms
  by (fastforce simp: rsh_once_def subprocess_run_def attempt_def bnd_def ret_def ran_to_the_end_def
      split: prod.splits outcome.splits sum.splits)

lemma rsh_tries_calls:
  assumes "rsh_tries sh etext ip cmd t n prev w = (r, w')" "\<And>e. \<not> contains ''###end'' (etext e)"
  shows "\<exists>new rc out. hw_calls w' = hw_calls w @ new \<and> length new \<le> n \<and> r = Inr (rc, out)
    \<and> (contains ''###end'' out \<longrightarrow> list_ex (ran_to_the_end ip) new \<or> out = snd prev)"
  using assms(1)
proof (induction n arbitrary: prev w)
  case 0
  then show ?case by (cases prev) (auto simp: ret_def)
next
  case (Suc n)
  obtain q v where v: "rsh_once sh etext ip cmd t w = (q, v)" by fastforce
  from rsh_once_call [OF v] assms(2) obtain c rc out where c:
    "hw_calls v = hw_calls w @ [c]" "q = Inr (rc, out)" "contains ''###end'' out \<longrightarrow> ran_to_the_end ip c" by blast
  show ?case
  proof (cases "rc \<noteq> 255")
    case True
    with Suc.prems v c show ?thesis by (auto simp: bnd_def ret_def)
  next
    case False
    then have "rsh_tries sh etext ip cmd t n (rc, out) v = (r, w')"
      using Suc.prems v c by (simp add: bnd_def)
    from Suc.IH [OF this] c show ?thesis by fastforce
  qed
qed

lemma ordinary_card: "ordinary (live_card name ip now rc parts)"
proof -
  have two: "ordinary (two_numbers l)" for l
    by (auto simp: two_numbers_def split: list.split intro!: ordinary_rules)
  have "ordinary (memory_fields parts)"
    by (auto simp: memory_fields_def split: list.split intro!: ordinary_rules two)
  moreover have "ordinary (disk_fields parts)"
    by (auto simp: disk_fields_def split: list.split intro!: ordinary_rules)
  ultimately show ?thesis
    unfolding live_card_def by (auto intro!: ordinary_rbind ordinary_basic split: prod.splits)
qed

lemma live_card_end: "live_card name ip now rc parts = Inr cd \<Longrightarrow> \<exists>kvs. cd = JObj kvs"
  by (auto simp: live_card_def split: prod.splits)

lemma unreachable_not: "\<not> reachable (unreachable_card name ip now why)"
  by (simp add: reachable_def unreachable_card_def)

text \<open>Collecting a machine always gives a card, and a live one only after this very call.\<close>

lemma collect_one_card:
  assumes "collect_one sh clock etext script (name, ip) w = (r, w')" "\<And>e. \<not> contains ''###end'' (etext e)"
  shows "\<exists>new cd. hw_calls w' = hw_calls w @ new \<and> r = Inr (ip, cd)
    \<and> (reachable cd \<longrightarrow> list_ex (ran_to_the_end ip) new)"
proof -
  obtain q v where v: "ops_rsh sh etext ip script 60 2 w = (q, v)" by fastforce
  from rsh_tries_calls [OF v [unfolded ops_rsh_def] assms(2)] obtain new rc out where new:
    "hw_calls v = hw_calls w @ new" "q = Inr (rc, out)" "contains ''###end'' out \<longrightarrow> list_ex (ran_to_the_end ip) new"
    by auto
  let ?now = "clock (hw_node v)"
  show ?thesis
  proof (cases "contains ''###end'' out")
    case False
    then show ?thesis using assms(1) v new unreachable_not
      by (auto simp: collect_one_def collect_host_def attempt_def bnd_def Let_def)
  next
    case True
    have "is_exception e" if "live_card name ip ?now rc (sections out) = Inl e" for e
      using ordinary_card [of name ip ?now rc "sections out"] that by (simp add: ordinary_def)
    with True show ?thesis using assms(1) v new
      by (cases "live_card name ip ?now rc (sections out)")
        (auto simp: collect_one_def collect_host_def attempt_def bnd_def Let_def)
  qed
qed

lemma collect_all_cards:
  assumes "for_each (collect_one sh clock etext script) hs w = (r, w')" "\<And>e. \<not> contains ''###end'' (etext e)"
  shows "\<exists>new cds. hw_calls w' = hw_calls w @ new \<and> r = Inr cds \<and> map fst cds = map snd hs
    \<and> list_all (\<lambda>(ip, cd). reachable cd \<longrightarrow> list_ex (ran_to_the_end ip) new) cds"
  using assms(1)
proof (induction hs arbitrary: w r)
  case (Cons h hs)
  obtain name ip where h: "h = (name, ip)" by (cases h)
  obtain q v where v: "collect_one sh clock etext script h w = (q, v)" by fastforce
  from collect_one_card [OF v [unfolded h] assms(2)] obtain new cd where 1:
    "hw_calls v = hw_calls w @ new" "q = Inr (ip, cd)" "reachable cd \<longrightarrow> list_ex (ran_to_the_end ip) new" by blast
  obtain q2 v2 where v2: "for_each (collect_one sh clock etext script) hs v = (q2, v2)" by fastforce
  have "v2 = w'" using Cons.prems v v2 1(2) by (auto simp: bnd_def ret_def split: sum.splits)
  with Cons.IH [of v q2] v2 obtain more cds where 2:
    "hw_calls w' = hw_calls v @ more" "q2 = Inr cds" "map fst cds = map snd hs"
    "list_all (\<lambda>(ip, cd). reachable cd \<longrightarrow> list_ex (ran_to_the_end ip) more) cds" by auto
  have "r = Inr ((ip, cd) # cds)" using Cons.prems v v2 1(2) 2(2) by (simp add: bnd_def ret_def)
  moreover have "list_all (\<lambda>(ip, cd). reachable cd \<longrightarrow> list_ex (ran_to_the_end ip) (new @ more)) ((ip, cd) # cds)"
    using 1(3) 2(4) by (auto simp: list_all_iff)
  ultimately show ?case using 1(1) 2(1,3) h by (intro exI [of _ "new @ more"] exI [of _ "(ip, cd) # cds"]) simp
qed (simp add: ret_def)

text \<open>What the rest of a turn keeps: the cards, and the calls before.\<close>

definition shows_cards :: "(string \<times> json) list \<Rightarrow> (string list \<times> string \<times> outcome) list \<Rightarrow> 'n ops_world \<Rightarrow> bool" where
  "shows_cards cds calls w \<longleftrightarrow> st_hosts w = cds \<and> (\<exists>more. hw_calls w = calls @ more)"

lemma shows_cards_rules [preserves_rules]:
  "preserves (shows_cards cds calls) (subprocess_run sh argv stdin t)"
  "preserves (shows_cards cds calls) (host_write p f)" "preserves (shows_cards cds calls) (host_replace p q)"
  by (auto simp: preserves_def shows_cards_def subprocess_run_def host_write_def host_replace_def
      split: prod.splits option.splits)

lemma shows_cards_dump: "preserves (shows_cards cds calls) (dump_state state)"
proof -
  have "preserves (shows_cards cds calls) (\<lambda>w. host_write (state @ ''.tmp'') (Doc (state_json w)) w)"
    using shows_cards_rules(2) by (fastforce simp: preserves_def)
  then show ?thesis unfolding dump_state_def by (intro preserves_rules)
qed

lemma shows_cards_check: "preserves (shows_cards cds calls) (run_check sh clock etext pf name argv t)"
proof -
  have "preserves (shows_cards cds calls) (bnd (lift (portable pf argv)) (\<lambda>(argv, cwd).
     bnd (attempt is_exception (subprocess_run sh argv [] t)) (\<lambda>r. ret (check_json etext name started t r))))" for started
    by (intro preserves_rules)
  then show ?thesis unfolding run_check_def preserves_def by blast
qed

lemma shows_cards_slow: "preserves (shows_cards cds calls) (slow_checks sh clock etext pf checks)"
proof -
  have "preserves (shows_cards cds calls) (\<lambda>w. (Inr (), w\<lparr>st_checks := f w\<rparr>))" for f
    by (simp add: preserves_def shows_cards_def)
  moreover have "preserves (shows_cards cds calls) (\<lambda>w. (Inr (), w\<lparr>st_generated := g w\<rparr>))" for g
    by (simp add: preserves_def shows_cards_def)
  ultimately show ?thesis unfolding slow_checks_def
    by (intro preserves_rules shows_cards_check)
qed

text \<open>C32: after a turn of the collector the panel has exactly one card for every machine, and a card
  that says a machine is reachable is of this turn: in it the machine was asked and printed the
  script's output up to its end mark. No reading of an earlier turn is held over.\<close>

theorem no_card_is_held_over:
  assumes "collector_turn sh clock etext pf script state checks last_slow w = (r, w')"
    and "\<And>e. \<not> contains ''###end'' (etext e)"
  shows "\<exists>new. hw_calls w' = hw_calls w @ new \<and> map fst (st_hosts w') = ALL_IPS
    \<and> list_all (\<lambda>(ip, cd). reachable cd \<longrightarrow> list_ex (ran_to_the_end ip) new) (st_hosts w')"
proof -
  obtain q v where v: "for_each (collect_one sh clock etext script) HOSTS w = (q, v)" by fastforce
  from collect_all_cards [OF v assms(2)] obtain new cds where new:
    "hw_calls v = hw_calls w @ new" "q = Inr cds" "map fst cds = ALL_IPS"
    "list_all (\<lambda>(ip, cd). reachable cd \<longrightarrow> list_ex (ran_to_the_end ip) new) cds"
    by (auto simp: ALL_IPS_def)
  have "distinct (map fst ([] @ cds))" using new(3) by (simp add: ALL_IPS_def HOSTS_def)
  from foldl_dict_set [OF this] have d: "foldl (\<lambda>d (ip, cd). dict_set ip cd d) [] cds = cds" by simp
  let ?v = "v\<lparr>st_hosts := cds, st_generated := clock (hw_node v)\<rparr>"
  let ?start = "clock (hw_node w)"
  let ?rest = "bnd (\<lambda>w. if SLOW_EVERY < clock (hw_node w) - last_slow
                 then bnd (slow_checks sh clock etext pf checks) (\<lambda>_. ret (clock (hw_node w))) w
                 else (Inr last_slow, w)) (\<lambda>slow.
        bnd (dump_state state) (\<lambda>_ w. (Inr (slow, max 5 (FAST_EVERY - (clock (hw_node w) - ?start))), w)))"
  have "preserves (shows_cards cds (hw_calls v)) (\<lambda>w. if SLOW_EVERY < clock (hw_node w) - last_slow
                 then bnd (slow_checks sh clock etext pf checks) (\<lambda>_. ret (clock (hw_node w))) w
                 else (Inr last_slow, w))"
    using preserves_bnd [OF shows_cards_slow preserves_basic(1)] by (fastforce simp: preserves_def)
  moreover have "preserves (shows_cards cds (hw_calls v)) (\<lambda>w. (Inr (f w), w))" for f :: "'a ops_world \<Rightarrow> int \<times> int"
    by (simp add: preserves_def)
  ultimately have "preserves (shows_cards cds (hw_calls v)) ?rest"
    by (intro preserves_bnd shows_cards_dump)
  moreover have "shows_cards cds (hw_calls v) ?v" by (simp add: shows_cards_def)
  moreover have "?rest ?v = (r, w')"
  proof -
    have "(r, w') = bnd (for_each (collect_one sh clock etext script) HOSTS)
        (\<lambda>hosts. bnd (set_hosts clock hosts) (\<lambda>_. ?rest)) w"
      using assms(1) by (simp add: collector_turn_def Let_def)
    also have "\<dots> = bnd (set_hosts clock cds) (\<lambda>_. ?rest) v" by (rule bnd_run) (use v new in simp)
    also have "\<dots> = ?rest ?v" by (rule bnd_run) (simp add: set_hosts_def d)
    finally show ?thesis ..
  qed
  ultimately have "shows_cards cds (hw_calls v) w'" by (rule preservesD)
  then obtain more where "st_hosts w' = cds" "hw_calls w' = hw_calls w @ new @ more"
    using new(1) by (auto simp: shows_cards_def)
  with new(3,4) show ?thesis by (intro exI [of _ "new @ more"]) (auto simp: list_all_iff)
qed

section \<open>Verdicts\<close>

definition status_of :: "json \<Rightarrow> json option" where
  "status_of j = (case j of JObj kvs \<Rightarrow> map_of kvs ''status'' | _ \<Rightarrow> None)"

text \<open>The verdict on a check is the exit code of the one command that was run: 0 is ok, 2 and
  everything that did not end is unknown, any other code is bad.\<close>

theorem verdict_is_the_exit_code:
  assumes "run_check sh clock etext pf name argv t w = (Inr j, w')"
  shows "\<exists>cmd res. hw_calls w' = hw_calls w @ [(cmd, [], res)]
    \<and> status_of j = Some (JStr (case res of Exited rc out err \<Rightarrow> if rc = 0 then ''ok'' else if rc = 2 then ''unknown'' else ''bad''
        | _ \<Rightarrow> ''unknown''))"
proof -
  obtain cmd cwd where "portable pf argv = Inr (cmd, cwd)"
    using assms by (cases "portable pf argv") (auto simp: run_check_def bnd_def lift_def)
  moreover obtain res n where sh: "sh (hw_node w) cmd [] t = (res, n)" by fastforce
  ultimately have "hw_calls w' = hw_calls w @ [(cmd, [], res)]"
    "j = check_json etext name (clock (hw_node w)) t (case res of Exited rc out err \<Rightarrow> Inr (rc, out, err)
       | Timed_Out \<Rightarrow> Inl TimeoutExpired | Not_Started \<Rightarrow> Inl OSError)"
    using assms by (cases res; simp add: run_check_def bnd_def lift_def attempt_def ret_def subprocess_run_def sh; force)+
  then show ?thesis
    by (intro exI [of _ cmd] exI [of _ res])
      (cases res; simp add: check_json_def status_of_def verdict_def unknown_check_def)
qed

text \<open>A machine that answers to the end mark with a memory line of one word is shown as unreachable.\<close>

lemma a_torn_field_hides_a_live_machine:
  assumes "sh (hw_node w) (ops_argv ip) script 60 = (Exited 0 (''###mem'' @ [CHR 0x0A] @ ''512'' @ [CHR 0x0A] @ ''###end'') [], n)"
  shows "collect_one sh clock etext script (name, ip) w
    = (Inr (ip, unreachable_card name ip (clock n) (etext IndexError)),
       w\<lparr>hw_node := n, hw_calls := hw_calls w @ [(ops_argv ip, script, Exited 0 (''###mem'' @ [CHR 0x0A] @ ''512'' @ [CHR 0x0A] @ ''###end'') [])]\<rparr>)"
proof -
  let ?out = "''###mem'' @ [CHR 0x0A] @ ''512'' @ [CHR 0x0A] @ ''###end''"
  have "sections ?out = [(''mem'', [''512'']), (''end'', [])]" by code_simp
  moreover have "words ''512'' = [''512'']" "int_of_string ''512'' = Inr 512" by (code_simp, code_simp)
  ultimately have "live_card name ip now 0 (sections ?out) = Inl IndexError" for now
    by (simp add: live_card_def memory_fields_def part_def two_numbers_def)
  moreover have "contains ''###end'' ?out" "answer_text ?out [] = ?out" by (code_simp, code_simp)
  moreover have "max 1 (2 :: nat) = Suc (Suc 0)" by simp
  ultimately show ?thesis
    using assms
    by (simp only: collect_one_def collect_host_def ops_rsh_def rsh_tries.simps rsh_once_def subprocess_run_def attempt_def
        bnd_def ret_def Let_def prod.case outcome.case sum.case is_exception.simps not_True_eq_False if_True if_False)
      (simp add: Let_def)
qed

section \<open>A sample panel\<close>

definition sample_panel :: "unit ops_world" where
  "sample_panel = \<lparr>hw_node = (), hw_calls = [], hw_files = [], hw_dirs = (\<lambda>p. p = ''/o''), hw_denied = (\<lambda>p. False),
     st_generated = 0, st_hosts = [], st_checks = []\<rparr>"

definition sample_platform :: platform where
  "sample_platform = \<lparr>pf_windows = False, pf_isfile = (\<lambda>p. False), pf_which_bash = None, pf_repo = ''/repo''\<rparr>"

definition sample_machine :: "unit shell" where
  "sample_machine = (\<lambda>n argv stdin t. (if argv = ops_argv ''5.223.52.200'' then Timed_Out else Exited 0 ''###end'' [], n))"

lemma no_card_is_held_over_witness:
  "\<exists>new. hw_calls (snd (collector_turn sample_machine (\<lambda>n. 1000) (\<lambda>e. ''error'') sample_platform ''script'' ''/o/state.json'' [] 500
        sample_panel)) = hw_calls sample_panel @ new
    \<and> map fst (st_hosts (snd (collector_turn sample_machine (\<lambda>n. 1000) (\<lambda>e. ''error'') sample_platform ''script''
        ''/o/state.json'' [] 500 sample_panel))) = ALL_IPS"
proof -
  have "\<not> contains ''###end'' ''error''" by simp
  from no_card_is_held_over [OF prod.collapse [symmetric] this,
      of sample_machine "\<lambda>n. 1000" sample_platform "''script''" "''/o/state.json''" "[]" 500 sample_panel]
  show ?thesis by blast
qed

lemma verdict_is_the_exit_code_witness:
  "\<exists>cmd res w'. run_check (\<lambda>n argv stdin t. (Exited 2 [] [], n)) (\<lambda>n. 1000) (\<lambda>e. ''error'') sample_platform ''backups'' [''bash'', ''x''] 9
      sample_panel = (Inr (check_json (\<lambda>e. ''error'') ''backups'' 1000 9 (Inr (2, [], []))), w')
    \<and> hw_calls w' = hw_calls sample_panel @ [(cmd, [], res)]
    \<and> status_of (check_json (\<lambda>e. ''error'') ''backups'' 1000 9 (Inr (2, [], []))) = Some (JStr ''unknown'')"
proof -
  obtain w' where run: "run_check (\<lambda>n argv stdin t. (Exited 2 [] [], n)) (\<lambda>n. 1000) (\<lambda>e. ''error'') sample_platform ''backups''
      [''bash'', ''x''] 9 sample_panel = (Inr (check_json (\<lambda>e. ''error'') ''backups'' 1000 9 (Inr (2, [], []))), w')"
    by (simp add: run_check_def portable_def sample_platform_def bnd_def lift_def attempt_def subprocess_run_def ret_def)
  from verdict_is_the_exit_code [OF this] run show ?thesis
    by (auto simp: check_json_def status_of_def verdict_def)
qed

end
