(* ===== verification/Seeds.thy ===== *)
theory Seeds
  imports Wire Quoted
begin

text \<open>
  The addresses compiled into the node: \<open>contrib/seeds/generate-seeds.py\<close>, which writes the tables of
  \<open>chainparamsseeds.h\<close> from two lists of endpoints, and \<open>scripts/check_fixed_seeds.py\<close>, which reads
  the tables back and asks every address. The sockets are a parameter.
\<close>

section \<open>Base 32\<close>

definition b32_val :: "char \<Rightarrow> nat option" where
  "b32_val c =
     (let n = of_char c :: nat
      in if 65 \<le> n \<and> n \<le> 90 then Some (n - 65) else if 50 \<le> n \<and> n \<le> 55 then Some (n - 24) else None)"

definition upper_char :: "char \<Rightarrow> char" where
  "upper_char c =
     (if 97 \<le> (of_char c :: nat) \<and> (of_char c :: nat) \<le> 122 then char_of (of_char c - (32 :: nat)) else c)"

fun b32_quantum :: "nat \<Rightarrow> string \<Rightarrow> py_error + nat" where
  "b32_quantum acc [] = Inr acc"
| "b32_quantum acc (c # cs) =
     (case b32_val c of None \<Rightarrow> Inl ValueError | Some v \<Rightarrow> b32_quantum (acc * 32 + v) cs)"

function b32_quanta :: "string \<Rightarrow> py_error + nat list" where
  "b32_quanta s =
     (if s = [] then Inr []
      else rbind (b32_quantum 0 (take 8 s)) (\<lambda>a. rbind (b32_quanta (drop 8 s)) (\<lambda>as. Inr (a # as))))"
  by pat_completeness auto
termination by (relation "measure length") auto

declare b32_quanta.simps [simp del]

text \<open>\<open>base64.b32decode(s, True)\<close>; every way of failing is a \<open>ValueError\<close>.\<close>

definition b32decode :: "string \<Rightarrow> py_error + bytes" where
  "b32decode s =
     (if \<not> list_all (\<lambda>c. (of_char c :: nat) < 128) s \<or> length s mod 8 \<noteq> 0 then Inl ValueError
      else
        let u = map upper_char s;
            t = rev (dropWhile (\<lambda>c. c = CHR ''='') (rev u));
            pad = length u - length t
        in rbind (b32_quanta t) (\<lambda>accs.
          if pad \<notin> {0, 1, 3, 4, 6} then Inl ValueError
          else let decoded = concat (map (to_bytes_be 5) accs)
            in if pad \<noteq> 0 \<and> decoded \<noteq> []
               then Inr (take (length decoded - 5) decoded
                 @ take ((43 - 5 * pad) div 8) (to_bytes_be 5 (last accs * 32 ^ pad)))
               else Inr decoded))"

section \<open>Addresses\<close>

datatype bip155_network = IPV4 | IPV6 | TORV2 | TORV3 | I2P | CJDNS

fun network_id :: "bip155_network \<Rightarrow> nat" where
  "network_id IPV4 = 1"
| "network_id IPV6 = 2"
| "network_id TORV2 = 3"
| "network_id TORV3 = 4"
| "network_id I2P = 5"
| "network_id CJDNS = 6"

text \<open>One element of \<open>bytes(..)\<close>.\<close>

definition int_byte :: "int \<Rightarrow> py_error + byte" where
  "int_byte n = (if 0 \<le> n \<and> n < 256 then Inr (word_of_int n) else Inl ValueError)"

text \<open>
  The components of an IPv6 address: \<open>x\<close> counts the empty ones that stand for zeros, \<open>pre\<close> and \<open>suf\<close>
  are the bytes before and after it, \<open>n\<close> is the number of components and \<open>i\<close> the index of the next.
\<close>

fun ipv6_loop :: "nat \<Rightarrow> nat \<Rightarrow> nat \<Rightarrow> int list \<Rightarrow> int list \<Rightarrow> string list \<Rightarrow> py_error + nat \<times> int list \<times> int list" where
  "ipv6_loop n i x pre suf [] = Inr (x, pre, suf)"
| "ipv6_loop n i x pre suf (part # parts) =
     (if part = [] then
        (if i = 0 \<or> i = n - 1 then ipv6_loop n (Suc i) x pre suf parts
         else if Suc x < 2 then ipv6_loop n (Suc i) (Suc x) pre suf parts
         else Inl AssertionError)
      else rbind (int_of_hex part) (\<lambda>v.
        let two = [drop_bit 8 v, v AND 0xFF]
        in if x = 0 then ipv6_loop n (Suc i) x (pre @ two) suf parts
           else ipv6_loop n (Suc i) x pre (suf @ two) parts))"

definition ipv6_bytes :: "string \<Rightarrow> py_error + bytes" where
  "ipv6_bytes addr =
     (let comps = split_char (CHR '':'') addr
      in rbind (ipv6_loop (length comps) 0 0 [] [] comps) (\<lambda>(x, pre, suf).
        let nullbytes = 16 - int (length pre) - int (length suf)
        in if (x = 0 \<and> nullbytes = 0) \<or> (x = 1 \<and> nullbytes > 0)
           then rmap int_byte (pre @ replicate (nat nullbytes) 0 @ suf)
           else Inl AssertionError))"

definition name_to_bip155 :: "string \<Rightarrow> py_error + bip155_network \<times> bytes" where
  "name_to_bip155 addr =
     (if ends_with ''.onion'' addr then
        rbind (b32decode (take (length addr - 6) addr)) (\<lambda>v.
          if length v = 35 then (if v ! 34 = 3 then Inr (TORV3, take 32 v) else Inl AssertionError)
          else if length v = 10 then Inr (TORV2, v)
          else Inl ValueError)
      else if ends_with ''.b32.i2p'' addr then
        rbind (b32decode (take (length addr - 8) addr @ ''====''))  (\<lambda>v.
          if length v = 32 then Inr (I2P, v) else Inl ValueError)
      else if CHR ''.'' \<in> set addr then
        rbind (rmap (\<lambda>p. rbind (int_of_string p) int_byte) (split_char (CHR ''.'') addr)) (\<lambda>bs. Inr (IPV4, bs))
      else if CHR '':'' \<in> set addr then
        rbind (ipv6_bytes addr) (\<lambda>bs. Inr (if bs ! 0 = 0xFC then CJDNS else IPV6, bs))
      else Inl ValueError)"

section \<open>Endpoints\<close>

text \<open>\<open>$\<close>: the end, or before a line end that is the end.\<close>

definition at_end :: "string \<Rightarrow> bool" where
  "at_end s \<longleftrightarrow> s = [] \<or> s = [CHR 0x0A]"

definition bracketed_spec :: "string \<Rightarrow> (string \<times> string) option" where
  "bracketed_spec s =
     (case lit ''['' s of
        None \<Rightarrow> None
      | Some r \<Rightarrow>
          (case some_of (\<lambda>c. is_hex c \<or> c = CHR '':'') r of
             None \<Rightarrow> None
           | Some (host, r) \<Rightarrow>
               (case lit '']'' r of
                  None \<Rightarrow> None
                | Some r \<Rightarrow>
                    if at_end r then Some (host, [])
                    else (case lit '':'' r of
                       None \<Rightarrow> None
                     | Some r \<Rightarrow>
                         (case some_of is_digit r of
                            None \<Rightarrow> None
                          | Some (port, r) \<Rightarrow> if at_end r then Some (host, port) else None)))))"

definition host_and_port :: "string \<Rightarrow> string \<times> string" where
  "host_and_port s =
     (case bracketed_spec s of
        Some hp \<Rightarrow> hp
      | None \<Rightarrow> if 1 < count_list s (CHR '':'') then (s, []) else partition_at (CHR '':'') s)"

definition parse_spec :: "string \<Rightarrow> py_error + (bip155_network \<times> bytes \<times> int) option" where
  "parse_spec s =
     (case host_and_port s of (host, port) \<Rightarrow>
        rbind (if port = [] then Inr 0 else int_of_string port) (\<lambda>port.
        rbind (name_to_bip155 host) (\<lambda>(net, bs).
          Inr (if net = TORV2 then None else Some (net, bs, port)))))"

section \<open>Records\<close>

text \<open>\<open>n.to_bytes(k, 'little')\<close> and \<open>n.to_bytes(k, 'big')\<close>.\<close>

definition int_le :: "nat \<Rightarrow> int \<Rightarrow> py_error + bytes" where
  "int_le k n = (if 0 \<le> n \<and> n < 256 ^ k then Inr (to_bytes_le k (nat n)) else Inl OverflowError)"

definition int_be :: "nat \<Rightarrow> int \<Rightarrow> py_error + bytes" where
  "int_be k n = (if 0 \<le> n \<and> n < 256 ^ k then Inr (to_bytes_be k (nat n)) else Inl OverflowError)"

definition ser_compact_size :: "int \<Rightarrow> py_error + bytes" where
  "ser_compact_size l =
     (if l < 253 then int_le 1 l
      else if l < 0x10000 then rbind (int_le 1 253) (\<lambda>t. rbind (int_le 2 l) (\<lambda>b. Inr (t @ b)))
      else if l < 0x100000000 then rbind (int_le 1 254) (\<lambda>t. rbind (int_le 4 l) (\<lambda>b. Inr (t @ b)))
      else rbind (int_le 1 255) (\<lambda>t. rbind (int_le 8 l) (\<lambda>b. Inr (t @ b))))"

definition bip155_serialize :: "bip155_network \<times> bytes \<times> int \<Rightarrow> py_error + bytes" where
  "bip155_serialize spec =
     (case spec of (net, bs, port) \<Rightarrow>
        rbind (int_le 1 (int (network_id net))) (\<lambda>n.
        rbind (ser_compact_size (int (length bs))) (\<lambda>l.
        rbind (int_be 2 port) (\<lambda>p. Inr (n @ l @ bs @ p)))))"

section \<open>The tables\<close>

text \<open>\<open>'0x%02x' % b\<close>.\<close>

definition hex_byte :: "byte \<Rightarrow> string" where
  "hex_byte b = ''0x'' @ [hex_char (unat b div 16), hex_char (unat b mod 16)]"

definition table_line :: "bytes \<Rightarrow> string" where
  "table_line blob = ''    '' @ join_char '','' (map hex_byte blob) @ '','' @ [LF]"

definition table_head :: "string \<Rightarrow> string" where
  "table_head structname = ''static const uint8_t '' @ structname @ ''[] = {'' @ [LF]"

text \<open>A line of a list without its comment and the space around it.\<close>

definition spec_text :: "string \<Rightarrow> string" where
  "spec_text line = strip (takeWhile (\<lambda>c. c \<noteq> CHR ''#'') line)"

record seed_world = file_tree +
  sw_stdout :: string

type_synonym 'a seed_task = "(seed_world, py_error, 'a) prog"

definition put_out :: "string \<Rightarrow> unit seed_task" where
  "put_out t = (\<lambda>w. (Inr (), w\<lparr>sw_stdout := sw_stdout w @ t\<rparr>))"

definition process_line :: "string \<Rightarrow> unit seed_task" where
  "process_line line =
     (let s = spec_text line
      in if s = [] then ret ()
         else bnd (lift (parse_spec s)) (\<lambda>spec.
           case spec of
             None \<Rightarrow> ret ()
           | Some spec \<Rightarrow> bnd (lift (bip155_serialize spec)) (\<lambda>blob. put_out (table_line blob))))"

definition process_nodes :: "string list \<Rightarrow> string \<Rightarrow> unit seed_task" where
  "process_nodes f structname =
     bnd (put_out (table_head structname)) (\<lambda>_.
     bnd (for_each process_line f) (\<lambda>_. put_out (''};'' @ [LF])))"

definition header_lines :: "string list" where
  "header_lines =
     [''// Copyright (c) 2026 The WAM Coin developers'',
      ''// Distributed under the MIT software license, see COPYING.'',
      '''',
      ''#ifndef WAM_CHAINPARAMSSEEDS_H'',
      ''#define WAM_CHAINPARAMSSEEDS_H'',
      ''/**'',
      '' * Fixed seed nodes for WAM Coin.'',
      '' * AUTOGENERATED by contrib/seeds/generate-seeds.py -- do not edit.'',
      '' *'',
      '' * Each line is a BIP155 serialized (networkID, addr, port) tuple.'',
      '' *'',
      '' * Regenerate:'',
      '' *     python3 contrib/seeds/generate-seeds.py contrib/seeds '' @ [CHR 0x5C],
      '' *         > src/wam/chainparamsseeds.h'',
      '' *'',
      '' * Only main and test are emitted. WAM has no testnet4 and no signet'',
      '' * of its own -- CUnusedNetParams exists only so that upstream code'',
      '' * expecting those constructors still links -- and regtest is local.'',
      '' * All three keep vFixedSeeds.clear(). Emitting an array nothing uses'',
      '' * would be a zero-length array, which is not valid ISO C++.'',
      '' */'']"

definition lines_text :: "string list \<Rightarrow> string" where
  "lines_text ls = concat (map (\<lambda>l. l @ [LF]) ls)"

definition process_file :: "string \<Rightarrow> string \<Rightarrow> unit seed_task" where
  "process_file path structname =
     bnd (read_text path) (\<lambda>t. process_nodes (py_lines (universal_newlines t)) structname)"

definition seeds_main :: "string list \<Rightarrow> unit seed_task" where
  "seeds_main argv =
     (if length argv < 2 then throw (SystemExit 1)
      else let indir = argv ! 1
        in bnd (for_each put_out (map (\<lambda>l. l @ [LF]) header_lines)) (\<lambda>_.
           bnd (process_file (path_join indir ''nodes_main.txt'') ''chainparams_seed_main'') (\<lambda>_.
           bnd (put_out [LF]) (\<lambda>_.
           bnd (process_file (path_join indir ''nodes_test.txt'') ''chainparams_seed_test'') (\<lambda>_.
           bnd (put_out [LF]) (\<lambda>_.
           put_out (''#endif // WAM_CHAINPARAMSSEEDS_H'' @ [LF])))))))"

section \<open>Reading the tables back\<close>

text \<open>The text of a table: its name, brackets, an equals sign and what stands between the braces.\<close>

definition array_at :: "string \<Rightarrow> string \<Rightarrow> string option" where
  "array_at array_name s =
     Option.bind (lit array_name s) (\<lambda>r.
     Option.bind (lit ''[]'' r) (\<lambda>r.
     Option.bind (lit ''='' (lstrip r)) (\<lambda>r.
     Option.bind (lit ''{'' (lstrip r)) (\<lambda>r. map_option fst (split_first ''};'' r)))))"

definition hex_pair :: "string \<Rightarrow> (string \<times> string) option" where
  "hex_pair s = Option.bind (lit ''0x'' s) (exactly 2 is_hex)"

definition host_text :: "nat \<Rightarrow> nat list \<Rightarrow> string" where
  "host_text net addr =
     (if net = 1 \<and> length addr = 4 then join_char ''.'' (map nat_string addr)
      else ''<network '' @ nat_string net @ '', '' @ nat_string (length addr) @ '' bytes>'')"

function seed_entries :: "nat list \<Rightarrow> (string \<times> nat) list" where
  "seed_entries body =
     (case body of
        net # len # rest \<Rightarrow>
          if length rest < 2 \<or> length rest < len + 2 then []
          else (host_text net (take len rest), push_bit 8 (rest ! len) OR rest ! Suc len)
            # seed_entries (drop (len + 2) rest)
      | _ \<Rightarrow> [])"
  by pat_completeness auto
termination by (relation "measure length") auto

declare seed_entries.simps [simp del]

definition seeds_decode :: "string \<Rightarrow> string \<Rightarrow> (string \<times> nat) list option" where
  "seeds_decode text array_name =
     map_option (\<lambda>body. seed_entries (map (\<lambda>h. undigs 16 (rev (map hex_val h))) (find_all hex_pair body)))
       (search (array_at array_name) (strip_quoted text []))"

text \<open>What the auditor says: the number of tables or seeds it complains about and the number of seeds it tried.\<close>

definition audit_seeds ::
  "(string \<times> nat \<Rightarrow> bool) \<Rightarrow> bool \<Rightarrow> string \<Rightarrow> string \<times> string \<Rightarrow> nat \<times> nat \<Rightarrow> nat \<times> nat" where
  "audit_seeds reachable before_launch text wanted counts =
     (case (wanted, counts) of ((net, array), (fails, checked)) \<Rightarrow>
        (case seeds_decode text array of
           None \<Rightarrow> (Suc fails, checked)
         | Some [] \<Rightarrow> (Suc fails, checked)
         | Some seeds \<Rightarrow>
             (if net = ''mainnet'' \<and> before_launch then fails
              else fails + length (filter (\<lambda>s. \<not> reachable s) seeds), checked + length seeds)))"

definition fixed_seeds_main ::
  "(string \<times> nat \<Rightarrow> bool) \<Rightarrow> bool \<Rightarrow> string option \<Rightarrow> string \<Rightarrow> int" where
  "fixed_seeds_main reachable before_launch seeds_file network =
     (case seeds_file of
        None \<Rightarrow> 2
      | Some text \<Rightarrow>
          let wanted = filter (\<lambda>w. network = ''all'' \<or> fst w = network)
                [(''mainnet'', ''chainparams_seed_main''), (''testnet'', ''chainparams_seed_test'')]
          in (case fold (audit_seeds reachable before_launch text) wanted (0, 0) of (fails, checked) \<Rightarrow>
                if checked = 0 then 2 else if fails \<noteq> 0 then 1 else 0))"

end
