(* ===== verification/Seeds_Facts.thy ===== *)
theory Seeds_Facts
  imports Seeds
begin

text \<open>
  What the seed generator and its auditor promise: a record is read back from its bytes, the auditor
  reads back the tables the generator writes, and an address has the length its network requires.
\<close>

section \<open>Records\<close>

lemma int_le_Inr: "int_le k n = Inr b \<longleftrightarrow> 0 \<le> n \<and> n < 256 ^ k \<and> b = to_bytes_le k (nat n)"
  by (auto simp: int_le_def)

lemma int_be_Inr: "int_be k n = Inr b \<longleftrightarrow> 0 \<le> n \<and> n < 256 ^ k \<and> b = to_bytes_be k (nat n)"
  by (auto simp: int_be_def)

lemma tag_bytes [simp]: "int_le 1 253 = Inr [0xFD]" "int_le 1 254 = Inr [0xFE]" "int_le 1 255 = Inr [0xFF]"
  by (simp_all add: int_le_def)

lemma int_le_pack: "int_le k n = Inr b \<longleftrightarrow> pack_u k n = Inr b"
  by (simp add: int_le_Inr pack_u_Inr)

text \<open>The generator's \<open>ser_compact_size\<close> and the scripts' \<open>varint\<close> are one format.\<close>

lemma compact_size_is_varint: "ser_compact_size l = Inr b \<longleftrightarrow> varint l = Inr b"
proof -
  have "l < 0x10000 \<longleftrightarrow> l \<le> 0xFFFF" "l < 0x100000000 \<longleftrightarrow> l \<le> 0xFFFFFFFF" by linarith+
  then show ?thesis
    unfolding ser_compact_size_def varint_def tag_bytes by (simp add: int_le_pack)
qed

fun network_of :: "nat \<Rightarrow> bip155_network option" where
  "network_of n =
     (if n = 1 then Some IPV4 else if n = 2 then Some IPV6 else if n = 3 then Some TORV2
      else if n = 4 then Some TORV3 else if n = 5 then Some I2P else if n = 6 then Some CJDNS else None)"

definition get_record :: "bytes \<Rightarrow> ((bip155_network \<times> bytes \<times> int) \<times> bytes) option" where
  "get_record bs = (case bs of
      [] \<Rightarrow> None
    | n # r \<Rightarrow>
        (case (network_of (unat n), get_var_bytes r) of
           (Some net, Some (a, p)) \<Rightarrow>
             if length p < 2 then None else Some ((net, a, int (from_bytes_be (take 2 p))), drop 2 p)
         | _ \<Rightarrow> None))"

lemma network_id_byte: "int_le 1 (int (network_id net)) = Inr [word_of_nat (network_id net)]"
  and network_of_id: "network_of (unat (word_of_nat (network_id net) :: byte)) = Some net"
  by (cases net; simp add: int_le_def)+

lemma serialize_Inr:
  "bip155_serialize (net, a, port) = Inr bs \<longleftrightarrow>
     (\<exists>l. ser_compact_size (int (length a)) = Inr l \<and> 0 \<le> port \<and> port < 65536
        \<and> bs = word_of_nat (network_id net) # l @ a @ to_bytes_be 2 (nat port))"
  unfolding bip155_serialize_def network_id_byte by (auto simp: int_be_Inr)

interpretation rec: wire_format bip155_serialize get_record
proof
  fix x bs rest assume x: "bip155_serialize x = Inr bs"
  obtain net a port where spec: "x = (net, a, port)" by (cases x)
  from x obtain l where l: "ser_compact_size (int (length a)) = Inr l" "0 \<le> port" "port < 65536"
    and bs: "bs = word_of_nat (network_id net) # l @ a @ to_bytes_be 2 (nat port)"
    unfolding spec serialize_Inr by blast
  have "var_bytes a = Inr (l @ a)" using l(1) by (simp add: compact_size_is_varint var_bytes_def)
  then have "get_var_bytes ((l @ a) @ to_bytes_be 2 (nat port) @ rest) = Some (a, to_bytes_be 2 (nat port) @ rest)"
    by (rule vb.get_put)
  moreover have "int (from_bytes_be (to_bytes_be 2 (nat port))) = port" using l by simp
  ultimately show "get_record (bs @ rest) = Some (x, rest)"
    using network_of_id [of net] by (simp add: get_record_def bs spec del: network_of.simps)
qed

section \<open>Bytes in hexadecimal\<close>

lemma hex_digits: "d < 16 \<Longrightarrow> hex_char d \<in> set ''0123456789abcdef'' \<and> is_hex (hex_char d) \<and> hex_val (hex_char d) = d"
proof -
  assume "d < 16"
  moreover have "list_all (\<lambda>d. hex_char d \<in> set ''0123456789abcdef'' \<and> is_hex (hex_char d) \<and> hex_val (hex_char d) = d) [0..<16]"
    by code_simp
  ultimately show ?thesis by (simp add: list_all_iff)
qed

definition hex_pair_of :: "byte \<Rightarrow> string" where
  "hex_pair_of b = [hex_char (unat b div 16), hex_char (unat b mod 16)]"

lemma unat_byte_nibbles [simp]: "unat (b :: byte) div 16 < 16"
  using unat_byte_less [of b] by linarith

lemma hex_pair_value [simp]: "undigs 16 (rev (map hex_val (hex_pair_of b))) = unat b"
  by (simp add: hex_pair_of_def hex_digits)

lemma find_all_skip: "m (c # s) = None \<Longrightarrow> find_all m (c # s) = find_all m s"
  by (subst find_all.simps) simp

lemma find_all_hex: "find_all hex_pair (hex_byte b @ s) = hex_pair_of b # find_all hex_pair s"
  by (subst find_all.simps)
    (simp add: hex_byte_def hex_pair_def lit_def exactly_def hex_pair_of_def hex_digits numeral_2_eq_2)

lemma hex_pair_other: "c \<noteq> CHR ''0'' \<Longrightarrow> hex_pair (c # s) = None"
  by (simp add: hex_pair_def lit_def)

lemma find_all_join:
  "find_all hex_pair (join_char '','' (map hex_byte bs) @ CHR '','' # s) = map hex_pair_of bs @ find_all hex_pair s"
proof (induction bs rule: induct_list012)
  case (3 b c bs)
  then show ?case by (simp add: find_all_hex find_all_skip hex_pair_other)
qed (simp_all add: find_all_hex find_all_skip hex_pair_other)

lemma find_all_line: "find_all hex_pair (table_line blob @ s) = map hex_pair_of blob @ find_all hex_pair s"
  by (simp add: table_line_def find_all_join find_all_skip hex_pair_other LF_def)

lemma find_all_table:
  "find_all hex_pair (concat (map table_line blobs)) = map hex_pair_of (concat blobs)"
proof -
  have "find_all hex_pair [] = []" by (subst find_all.simps) (simp add: hex_pair_def lit_def)
  then show ?thesis by (induction blobs) (simp_all add: find_all_line)
qed


section \<open>Entries\<close>

text \<open>What the auditor shows of a record.\<close>

definition entry_of :: "bip155_network \<times> bytes \<times> int \<Rightarrow> string \<times> nat" where
  "entry_of spec = (case spec of (net, a, port) \<Rightarrow> (host_text (network_id net) (map unat a), nat port))"

lemma network_id_less [simp]: "unat (word_of_nat (network_id net) :: byte) = network_id net"
  "network_id net mod 256 = network_id net"
  by (cases net; simp)+

lemma port_bytes:
  assumes "0 \<le> p" "p < 65536"
  shows "\<exists>hi lo. to_bytes_be 2 (nat p) = [hi, lo] \<and> push_bit 8 (unat hi) OR unat lo = nat p"
proof -
  let ?hi = "word_of_nat (nat p div 256 mod 256) :: byte" and ?lo = "word_of_nat (nat p mod 256) :: byte"
  have b: "to_bytes_be 2 (nat p) = [?hi, ?lo]"
    by (simp add: to_bytes_be_def numeral_2_eq_2)
  have "nat p div 256 < 256" using assms by (simp add: nat_less_iff less_mult_imp_div_less)
  moreover have "push_bit 8 m OR l = m * 256 + l" if "l < 256" for m l :: nat
  proof -
    have l: "l = take_bit 8 l" using that by (simp add: take_bit_eq_mod)
    have "push_bit 8 m + take_bit 8 l = push_bit 8 m OR take_bit 8 l"
      by (rule disjunctive_add) (auto simp: bit_push_bit_iff bit_take_bit_iff)
    then show ?thesis using l by (simp add: push_bit_eq_mult)
  qed
  ultimately have "push_bit 8 (unat ?hi) OR unat ?lo = nat p" by simp
  with b show ?thesis by blast
qed

lemma seed_entries_record:
  assumes "bip155_serialize spec = Inr blob" "length (fst (snd spec)) < 253"
  shows "seed_entries (map unat blob @ body) = entry_of spec # seed_entries body"
proof -
  obtain net a port where spec: "spec = (net, a, port)" by (cases spec)
  from assms obtain l where l: "ser_compact_size (int (length a)) = Inr l" "0 \<le> port" "port < 65536"
    and blob: "blob = word_of_nat (network_id net) # l @ a @ to_bytes_be 2 (nat port)"
    unfolding spec serialize_Inr by blast
  have "l = [word_of_nat (length a)]" using l(1) assms(2) by (simp add: spec ser_compact_size_def int_le_def)
  moreover have "unat (word_of_nat (length a) :: byte) = length a" using assms(2) by (simp add: spec)
  moreover obtain hi lo where "to_bytes_be 2 (nat port) = [hi, lo]" "push_bit 8 (unat hi) OR unat lo = nat port"
    using port_bytes [OF l(2,3)] by blast
  ultimately show ?thesis
    by (subst seed_entries.simps) (simp add: blob spec entry_of_def nth_append)
qed

lemma seed_entries_table:
  "list_all2 (\<lambda>spec blob. bip155_serialize spec = Inr blob) specs blobs \<Longrightarrow>
   \<forall>spec \<in> set specs. length (fst (snd spec)) < 253 \<Longrightarrow>
   seed_entries (map unat (concat blobs)) = map entry_of specs"
  by (induction rule: list_all2_induct) (simp_all add: seed_entries_record seed_entries.simps [of "[]"])

section \<open>Searching the header\<close>

lemma search_skip: "(\<And>k. k < length a \<Longrightarrow> m (drop k a @ b) = None) \<Longrightarrow> search m (a @ b) = search m b"
proof (induction a)
  case (Cons c a)
  have "m (c # a @ b) = None" using Cons.prems [of 0] by simp
  moreover have "search m (a @ b) = search m b"
    using Cons.prems [of "Suc k" for k] by (intro Cons.IH) simp
  ultimately show ?case by simp
qed simp

lemma starts_with_before: "starts_with n (u @ c # b) \<Longrightarrow> c \<notin> set n \<Longrightarrow> starts_with n u"
proof (induction n arbitrary: u)
  case (Cons x n)
  then show ?case by (cases u) auto
qed simp

lemma contains_drop: "starts_with n (drop k s) \<Longrightarrow> n \<noteq> [] \<Longrightarrow> contains n s"
  by (metis append_take_drop_id contains_append starts_with_split)

lemma contains_other: "c \<in> set n \<Longrightarrow> c \<notin> set s \<Longrightarrow> \<not> contains n s"
  by (auto simp: contains_append)

lemma contains_lines:
  assumes "LF \<notin> set n" "n \<noteq> []" "list_all (\<lambda>l. \<not> contains n l) ls"
  shows "\<not> contains n (lines_text ls)"
  using assms(3)
proof (induction ls)
  case (Cons l ls)
  have "\<not> contains n (l @ LF # lines_text ls)"
  proof
    assume "contains n (l @ LF # lines_text ls)"
    then obtain a b where ab: "l @ LF # lines_text ls = a @ n @ b" by (auto simp: contains_append)
    show False
    proof (cases "length l < length a")
      case True
      then have "contains n (lines_text ls)"
        using ab by (auto simp: append_eq_append_conv2 Cons_eq_append_conv contains_append)
      with Cons show False by simp
    next
      case False
      then have a: "a = take (length a) l" using ab by (metis append_eq_conv_conj le_cases not_le take_all take_append append_Nil2 diff_is_0_eq' take0)
      define u where "u = drop (length a) l"
      have u: "l = a @ u" unfolding u_def using a by (metis append_take_drop_id)
      moreover have "u @ LF # lines_text ls = n @ b" using ab unfolding u by simp
      ultimately have u: "l = a @ u" "u @ LF # lines_text ls = n @ b" by blast+
      then have "starts_with n (u @ LF # lines_text ls)" by simp
      then have "starts_with n u" using assms(1) by (rule starts_with_before)
      then have "contains n l" using u(1) by (metis contains_append starts_with_split)
      with Cons.prems show False by simp
    qed
  qed
  then show ?case by (simp add: lines_text_def)
qed (use assms(2) in \<open>simp add: lines_text_def\<close>)

lemma search_lines:
  assumes "\<And>s. m s \<noteq> None \<Longrightarrow> starts_with n s" "LF \<notin> set n" "n \<noteq> []" "list_all (\<lambda>l. \<not> contains n l) ls"
  shows "search m (lines_text ls @ s) = search m s"
proof (rule search_skip)
  fix k assume k: "k < length (lines_text ls)"
  show "m (drop k (lines_text ls) @ s) = None"
  proof (rule ccontr)
    assume "m (drop k (lines_text ls) @ s) \<noteq> None"
    then have sw: "starts_with n (drop k (lines_text ls) @ s)" by (rule assms(1))
    have "ls \<noteq> []" using k by (auto simp: lines_text_def)
    then have "lines_text ls = butlast (lines_text ls) @ [LF]"
      by (cases ls rule: rev_cases) (simp_all add: lines_text_def butlast_append)
    moreover have "k \<le> length (butlast (lines_text ls))" using k by simp
    ultimately have "drop k (lines_text ls) = drop k (butlast (lines_text ls)) @ [LF]"
      by (metis drop_append diff_is_0_eq drop0)
    with sw have "starts_with n (drop k (butlast (lines_text ls)) @ LF # s)" by simp
    then have "starts_with n (drop k (butlast (lines_text ls)))" using assms(2) by (rule starts_with_before)
    then have "contains n (butlast (lines_text ls))" using assms(3) by (rule contains_drop)
    then have "contains n (lines_text ls)"
      using \<open>lines_text ls = _\<close> by (metis append.assoc contains_append)
    with contains_lines [OF assms(2-4)] show False by blast
  qed
qed

section \<open>Text without marks\<close>

definition plain_line :: "string \<Rightarrow> bool" where
  "plain_line l \<longleftrightarrow> list_all (\<lambda>c. \<not> is_break c \<and> c \<noteq> CHR ''q'') l"

lemma plain_line_append [simp]: "plain_line (a @ b) \<longleftrightarrow> plain_line a \<and> plain_line b"
  by (simp add: plain_line_def)

lemma starts_with_set: "starts_with n s \<Longrightarrow> set n \<subseteq> set s"
  by (metis starts_with_split set_append Un_upper1)

lemma search_Some: "search m s = Some x \<Longrightarrow> \<exists>k. m (drop k s) = Some x"
proof (induction s)
  case (Cons c s)
  show ?case
  proof (cases "m (c # s)")
    case None
    with Cons obtain k where "m (drop k s) = Some x" by auto
    then show ?thesis by (metis drop_Suc_Cons)
  next
    case (Some y)
    with Cons.prems show ?thesis by (metis drop0 option.sel search.simps(2) option.simps(5))
  qed
qed (auto intro!: exI [of _ 0])

lemma plain_no_mark: "plain_line l \<Longrightarrow> \<not> is_begin l \<and> \<not> is_end l \<and> \<not> is_line_mark l"
proof -
  assume "plain_line l"
  then have q: "CHR ''q'' \<notin> set l" by (auto simp: plain_line_def list_all_iff)
  have "\<not> starts_with n (dropWhile P l)" if "CHR ''q'' \<in> set n" for n P
    using starts_with_set [of n "dropWhile P l"] set_dropWhileD [of "CHR ''q''" P l] q that by auto
  then have "\<not> is_begin l" "\<not> is_end l"
    unfolding is_begin_def is_end_def region_mark_def Let_def by simp_all
  moreover have "\<not> starts_with ''wam:quote-line'' (drop k l)" for k
    using starts_with_set [of "''wam:quote-line''" "drop k l"] set_drop_subset [of k l] q by auto
  then have "\<not> is_line_mark l"
    unfolding is_line_mark_def using search_Some [of _ l] by (fastforce simp: lit_def)
  ultimately show ?thesis by blast
qed

lemma quote_marks_plain: "list_all plain_line ls \<Longrightarrow> quote_marks False ls = replicate (length ls) False"
  by (induction ls) (simp_all add: plain_no_mark)

lemma lines_text_join: "ls \<noteq> [] \<Longrightarrow> lines_text ls = join_char [CHR 0x0A] ls @ [CHR 0x0A]"
  by (induction "[CHR 0x0A] :: string" ls rule: join_char.induct) (simp_all add: lines_text_def LF_def)

text \<open>Text without marks is what the auditor reads.\<close>

lemma strip_quoted_plain:
  assumes "list_all plain_line ls" "ls \<noteq> []"
  shows "strip_quoted (lines_text ls) [] = lines_text ls"
proof -
  have "list_all (list_all (\<lambda>c. \<not> is_break c)) ls"
    using assms(1) by (auto simp: list_all_iff plain_line_def)
  then have tl: "text_lines (lines_text ls) = ls"
    using text_lines_join assms(2) by (simp add: lines_text_join)
  have "map (\<lambda>(q, line). if q then [] else line) (zip (replicate (length ls) False) ls) = ls"
    by (rule nth_equalityI) simp_all
  then show ?thesis
    using assms by (simp add: strip_quoted_def stripped_lines_def tl quote_marks_plain) (simp add: lines_text_join)
qed

section \<open>The generated header\<close>

definition data_line :: "bytes \<Rightarrow> string" where
  "data_line blob = ''    '' @ join_char '','' (map hex_byte blob) @ '',''"

definition table_lines :: "string \<Rightarrow> bytes list \<Rightarrow> string list" where
  "table_lines structname blobs =
     (''static const uint8_t '' @ structname @ ''[] = {'') # map data_line blobs @ [''};'']"

definition seeds_lines :: "bytes list \<Rightarrow> bytes list \<Rightarrow> string list" where
  "seeds_lines main test =
     header_lines @ table_lines ''chainparams_seed_main'' main @ [[]] @ table_lines ''chainparams_seed_test'' test
     @ [[], ''#endif // WAM_CHAINPARAMSSEEDS_H'']"

lemma lines_text_append [simp]: "lines_text (a @ b) = lines_text a @ lines_text b"
  by (simp add: lines_text_def)

lemma lines_text_data: "lines_text (map data_line blobs) = concat (map table_line blobs)"
  by (induction blobs) (simp_all add: lines_text_def data_line_def table_line_def)

definition hex_text_chars :: string where
  "hex_text_chars = '' ,x0123456789abcdef''"

lemma join_char_set: "set (join_char sep xs) \<subseteq> set sep \<union> \<Union> (set ` set xs)"
  by (induction sep xs rule: join_char.induct) auto

lemma hex_byte_set: "set (hex_byte b) \<subseteq> set hex_text_chars"
proof -
  have "hex_char (unat b div 16) \<in> set ''0123456789abcdef''" "hex_char (unat b mod 16) \<in> set ''0123456789abcdef''"
    using hex_digits [of "unat b div 16"] hex_digits [of "unat b mod 16"] by simp_all
  then have "hex_char (unat b div 16) \<in> set hex_text_chars" "hex_char (unat b mod 16) \<in> set hex_text_chars"
    unfolding hex_text_chars_def by auto
  moreover have "set ''0x'' \<subseteq> set hex_text_chars" by (simp add: hex_text_chars_def)
  ultimately show ?thesis by (simp add: hex_byte_def)
qed

lemma data_line_set: "set (data_line blob) \<subseteq> set hex_text_chars"
proof -
  have "set (join_char '','' (map hex_byte blob)) \<subseteq> set hex_text_chars"
    using join_char_set [of "'',''" "map hex_byte blob"] hex_byte_set
    by (fastforce simp: hex_text_chars_def)
  then show ?thesis by (auto simp: data_line_def hex_text_chars_def)
qed

lemma data_line_plain: "plain_line (data_line blob)"
proof -
  have "list_all (\<lambda>c. \<not> is_break c \<and> c \<noteq> CHR ''q'') hex_text_chars"
    by (simp add: hex_text_chars_def is_break_def)
  with data_line_set [of blob] show ?thesis unfolding plain_line_def list_all_iff by blast
qed

lemma header_plain: "list_all plain_line header_lines"
  unfolding header_lines_def plain_line_def by (simp add: is_break_def)

lemma seeds_lines_plain: "list_all plain_line (seeds_lines main test)"
proof -
  have "plain_line ''static const uint8_t ''" "plain_line ''chainparams_seed_main''" "plain_line ''chainparams_seed_test''"
    "plain_line ''[] = {''" "plain_line ''};''" "plain_line []" "plain_line ''#endif // WAM_CHAINPARAMSSEEDS_H''"
    by (simp_all add: plain_line_def is_break_def)
  then show ?thesis
    using data_line_plain header_plain
    by (simp add: seeds_lines_def table_lines_def list_all_iff del: append_Cons) (auto simp del: append_Cons)
qed

lemma array_at_starts: "array_at n s \<noteq> None \<Longrightarrow> starts_with n s"
  by (auto simp: array_at_def lit_def split: if_splits)

lemma split_first_at: "d \<notin> set body \<Longrightarrow> split_first (d # n) (body @ d # n @ rest) = Some (body, rest)"
proof (induction body)
  case Nil
  show ?case by simp
next
  case (Cons c body)
  then show ?case by simp
qed

lemma array_at_table:
  "array_at n (n @ ''[] = {'' @ [LF] @ concat (map table_line blobs) @ ''};'' @ rest) = Some (LF # concat (map table_line blobs))"
proof -
  have "CHR ''}'' \<notin> set (data_line b)" for b
    using data_line_set [of b] by (auto simp: hex_text_chars_def)
  then have "CHR ''}'' \<notin> set (table_line b)" for b
    by (auto simp: table_line_def data_line_def LF_def)
  then have "CHR ''}'' \<notin> set (LF # concat (map table_line blobs))" by (auto simp: LF_def)
  from split_first_at [OF this, of "'';''" rest]
  have "split_first ''};'' (LF # concat (map table_line blobs) @ ''};'' @ rest) = Some (LF # concat (map table_line blobs), rest)"
    by simp
  moreover have "is_space (CHR '' '')" "\<not> is_space (CHR ''='')" "\<not> is_space (CHR ''{'')" by (simp_all add: is_space_def)
  ultimately show ?thesis
    by (simp add: array_at_def lit_def lstrip_def starts_with_iff)
qed

lemma seeds_lines_split:
  "lines_text (seeds_lines main test) =
     lines_text header_lines @ ''static const uint8_t '' @ ''chainparams_seed_main'' @ ''[] = {'' @ [LF]
       @ concat (map table_line main) @ ''};''
       @ LF # lines_text ([[]] @ table_lines ''chainparams_seed_test'' test @ [[], ''#endif // WAM_CHAINPARAMSSEEDS_H''])"
  "lines_text (seeds_lines main test) =
     lines_text (header_lines @ table_lines ''chainparams_seed_main'' main @ [[]])
       @ ''static const uint8_t '' @ ''chainparams_seed_test'' @ ''[] = {'' @ [LF] @ concat (map table_line test) @ ''};''
       @ LF # lines_text [[], ''#endif // WAM_CHAINPARAMSSEEDS_H'']"
  by (simp_all add: seeds_lines_def table_lines_def flip: lines_text_data) (simp_all add: lines_text_def)

lemma search_head:
  "search (array_at ''chainparams_seed_main'') (''static const uint8_t '' @ ''chainparams_seed_main'' @ s)
     = search (array_at ''chainparams_seed_main'') (''chainparams_seed_main'' @ s)"
  "search (array_at ''chainparams_seed_test'') (''static const uint8_t '' @ ''chainparams_seed_test'' @ s)
     = search (array_at ''chainparams_seed_test'') (''chainparams_seed_test'' @ s)"
  by (simp_all add: array_at_def lit_def)

lemma search_at: "m s = Some x \<Longrightarrow> search m s = Some x"
  by (cases s) simp_all

lemma header_names:
  "list_all (\<lambda>l. \<not> contains ''chainparams_seed_main'' l) header_lines"
  "list_all (\<lambda>l. \<not> contains ''chainparams_seed_test'' l) header_lines"
  unfolding header_lines_def by simp_all

lemma table_names:
  "list_all (\<lambda>l. \<not> contains ''chainparams_seed_test'' l) (table_lines ''chainparams_seed_main'' main @ [[]])"
proof -
  have "CHR ''s'' \<notin> set (data_line b)" for b using data_line_set [of b] by (auto simp: hex_text_chars_def)
  then have "\<not> contains ''chainparams_seed_test'' (data_line b)" for b
    by (intro contains_other [of "CHR ''s''"]) simp_all
  then show ?thesis by (simp add: table_lines_def list_all_iff)
qed

lemma search_table:
  "search (array_at n) (n @ ''[] = {'' @ [LF] @ concat (map table_line blobs) @ ''};'' @ rest)
    = Some (LF # concat (map table_line blobs))"
  by (rule search_at) (rule array_at_table)

lemma name_letters:
  "LF \<notin> set ''chainparams_seed_main''" "''chainparams_seed_main'' \<noteq> []"
  "LF \<notin> set ''chainparams_seed_test''" "''chainparams_seed_test'' \<noteq> []"
  by (simp_all add: LF_def)

text \<open>The auditor finds the table of either network in the header.\<close>

lemma search_main:
  "search (array_at ''chainparams_seed_main'') (lines_text (seeds_lines main test)) = Some (LF # concat (map table_line main))"
proof -
  have skip: "search (array_at ''chainparams_seed_main'') (lines_text header_lines @ s) = search (array_at ''chainparams_seed_main'') s" for s
    by (rule search_lines [where n = "''chainparams_seed_main''"]) (erule array_at_starts | rule name_letters header_names)+
  show ?thesis unfolding seeds_lines_split(1) skip search_head by (rule search_table)
qed

lemma search_test:
  "search (array_at ''chainparams_seed_test'') (lines_text (seeds_lines main test)) = Some (LF # concat (map table_line test))"
proof -
  have n: "list_all (\<lambda>l. \<not> contains ''chainparams_seed_test'' l)
      (header_lines @ table_lines ''chainparams_seed_main'' main @ [[]])"
    unfolding list_all_append [of _ header_lines] using header_names(2) table_names by blast
  have skip: "search (array_at ''chainparams_seed_test'') (lines_text (header_lines @ table_lines ''chainparams_seed_main'' main @ [[]]) @ s)
      = search (array_at ''chainparams_seed_test'') s" for s
    by (rule search_lines [where n = "''chainparams_seed_test''"]) (erule array_at_starts | rule name_letters n)+
  show ?thesis unfolding seeds_lines_split(2) skip search_head by (rule search_table)
qed

lemma decode_table:
  assumes "search (array_at n) t = Some (LF # concat (map table_line blobs))" "strip_quoted t [] = t"
    and "list_all2 (\<lambda>spec blob. bip155_serialize spec = Inr blob) specs blobs"
    and "\<forall>spec \<in> set specs. length (fst (snd spec)) < 253"
  shows "seeds_decode t n = Some (map entry_of specs)"
proof -
  have "find_all hex_pair (LF # concat (map table_line blobs)) = map hex_pair_of (concat blobs)"
    using find_all_table by (simp add: find_all_skip hex_pair_other LF_def)
  then have "map (\<lambda>h. undigs 16 (rev (map hex_val h))) (find_all hex_pair (LF # concat (map table_line blobs)))
      = map unat (concat blobs)" by simp
  then show ?thesis
    using seed_entries_table [OF assms(3,4)] by (simp add: seeds_decode_def assms(1,2))
qed

section \<open>A run of the generator\<close>

text \<open>What a list says: the endpoints of its lines, in order, without those that are not supported.\<close>

definition listed :: "string \<Rightarrow> py_error + (bip155_network \<times> bytes \<times> int) list" where
  "listed t = rbind (rmap parse_spec (filter (\<lambda>s. s \<noteq> []) (map spec_text (py_lines (universal_newlines t)))))
     (\<lambda>os. Inr (map the (filter (\<lambda>o'. o' \<noteq> None) os)))"

lemma put_out_run: "put_out t w = (Inr (), w\<lparr>sw_stdout := sw_stdout w @ t\<rparr>)"
  by (simp add: put_out_def)

lemma process_lines:
  assumes "rmap parse_spec (filter (\<lambda>s. s \<noteq> []) (map spec_text ls)) = Inr os"
    and "list_all2 (\<lambda>spec blob. bip155_serialize spec = Inr blob) (map the (filter (\<lambda>o'. o' \<noteq> None) os)) blobs"
  shows "\<exists>us. for_each process_line ls w = (Inr us, w\<lparr>sw_stdout := sw_stdout w @ concat (map table_line blobs)\<rparr>)"
  using assms
proof (induction ls arbitrary: os blobs w)
  case Nil
  then show ?case by simp
next
  case (Cons l ls)
  show ?case
  proof (cases "spec_text l = []")
    case True
    then have "process_line l w = (Inr (), w)" by (simp add: process_line_def ret_def)
    moreover obtain us where "for_each process_line ls w = (Inr us, w\<lparr>sw_stdout := sw_stdout w @ concat (map table_line blobs)\<rparr>)"
      using Cons True by fastforce
    ultimately show ?thesis by (simp add: bnd_def ret_def)
  next
    case False
    with Cons.prems(1) obtain o' os' where o: "parse_spec (spec_text l) = Inr o'"
      "rmap parse_spec (filter (\<lambda>s. s \<noteq> []) (map spec_text ls)) = Inr os'" "os = o' # os'" by auto
    show ?thesis
    proof (cases o')
      case None
      then have "process_line l w = (Inr (), w)" using False o(1) by (simp add: process_line_def bnd_def ret_def lift_def)
      moreover obtain us where "for_each process_line ls w = (Inr us, w\<lparr>sw_stdout := sw_stdout w @ concat (map table_line blobs)\<rparr>)"
        using Cons.IH [OF o(2), of blobs w] Cons.prems(2) o(3) None by auto
      ultimately show ?thesis by (simp add: bnd_def ret_def)
    next
      case (Some spec)
      with Cons.prems(2) o(3) obtain b bs where b: "bip155_serialize spec = Inr b" "blobs = b # bs"
        "list_all2 (\<lambda>spec blob. bip155_serialize spec = Inr blob) (map the (filter (\<lambda>o'. o' \<noteq> None) os')) bs"
        by (simp add: list_all2_Cons1 split_paired_Ex del: not_None_eq) blast
      let ?w = "w\<lparr>sw_stdout := sw_stdout w @ table_line b\<rparr>"
      have "process_line l w = (Inr (), ?w)"
        using False o(1) Some b(1) by (simp add: process_line_def bnd_def lift_def put_out_run)
      moreover obtain us where "for_each process_line ls ?w = (Inr us, ?w\<lparr>sw_stdout := sw_stdout ?w @ concat (map table_line bs)\<rparr>)"
        using Cons.IH [OF o(2) b(3)] by blast
      ultimately show ?thesis by (simp add: bnd_def ret_def b(2))
    qed
  qed
qed

lemma process_nodes_run:
  assumes "rmap parse_spec (filter (\<lambda>s. s \<noteq> []) (map spec_text ls)) = Inr os"
    and "list_all2 (\<lambda>spec blob. bip155_serialize spec = Inr blob) (map the (filter (\<lambda>o'. o' \<noteq> None) os)) blobs"
  shows "process_nodes ls n w = (Inr (), w\<lparr>sw_stdout := sw_stdout w @ lines_text (table_lines n blobs)\<rparr>)"
proof -
  let ?w = "w\<lparr>sw_stdout := sw_stdout w @ table_head n\<rparr>"
  obtain us where us: "for_each process_line ls ?w = (Inr us, ?w\<lparr>sw_stdout := sw_stdout ?w @ concat (map table_line blobs)\<rparr>)"
    using process_lines [OF assms] by blast
  have "lines_text (table_lines n blobs) = table_head n @ concat (map table_line blobs) @ ''};'' @ [LF]"
    by (simp add: table_lines_def lines_text_def table_head_def flip: lines_text_data)
  then show ?thesis
    by (simp add: process_nodes_def bnd_run [OF put_out_run] bnd_run [where m = "for_each process_line ls", OF us] put_out_run)
qed

lemma process_file_run:
  assumes "ft_files w path = Some t" "listed t = Inr specs"
    and "list_all2 (\<lambda>spec blob. bip155_serialize spec = Inr blob) specs blobs"
  shows "process_file path n w = (Inr (), w\<lparr>sw_stdout := sw_stdout w @ lines_text (table_lines n blobs)\<rparr>)"
proof -
  from assms(2) obtain os where
    "rmap parse_spec (filter (\<lambda>s. s \<noteq> []) (map spec_text (py_lines (universal_newlines t)))) = Inr os"
    "specs = map the (filter (\<lambda>o'. o' \<noteq> None) os)" by (auto simp: listed_def)
  with process_nodes_run assms(3) show ?thesis
    by (simp add: process_file_def bnd_def read_text_def assms(1))
qed

lemma put_lines: "\<exists>us. for_each put_out (map (\<lambda>l. l @ [LF]) ls) w = (Inr us, w\<lparr>sw_stdout := sw_stdout w @ lines_text ls\<rparr>)"
proof (induction ls arbitrary: w)
  case (Cons l ls)
  obtain us where "for_each put_out (map (\<lambda>l. l @ [LF]) ls) (w\<lparr>sw_stdout := sw_stdout w @ l @ [LF]\<rparr>)
      = (Inr us, w\<lparr>sw_stdout := (sw_stdout w @ l @ [LF]) @ lines_text ls\<rparr>)"
    using Cons.IH [of "w\<lparr>sw_stdout := sw_stdout w @ l @ [LF]\<rparr>"] by auto
  then have "for_each put_out (map (\<lambda>l. l @ [LF]) (l # ls)) w = (Inr (() # us), w\<lparr>sw_stdout := (sw_stdout w @ l @ [LF]) @ lines_text ls\<rparr>)"
    by (simp only: list.map for_each.simps bnd_run [OF put_out_run] bnd_run ret_iff)
  then show ?case by (auto simp: lines_text_def)
qed (simp add: lines_text_def)

lemma serializable:
  assumes "\<forall>(net, a, port) \<in> set specs. length a < 253 \<and> 0 \<le> port \<and> port < 65536"
  shows "\<exists>blobs. list_all2 (\<lambda>spec blob. bip155_serialize spec = Inr blob) specs blobs"
  using assms
proof (induction specs)
  case (Cons spec specs)
  obtain net a port where spec: "spec = (net, a, port)" by (cases spec)
  with Cons.prems have "length a < 253" "0 \<le> port" "port < 65536" by auto
  moreover from this have "ser_compact_size (int (length a)) = Inr [word_of_nat (length a)]"
    by (simp add: ser_compact_size_def int_le_def)
  ultimately have "\<exists>b. bip155_serialize spec = Inr b" unfolding spec serialize_Inr by blast
  with Cons show ?case by (auto simp: list_all2_Cons1)
qed auto


text \<open>A generator that stops with an error has not written the last line: the header it leaves
  behind has no \<open>#endif\<close> and does not compile.\<close>

theorem failed_run_leaves_no_header:
  assumes "seeds_main argv w = (Inl e, w')"
  shows "\<exists>out. sw_stdout w' = sw_stdout w @ out \<and> \<not> contains ''#endif'' out"
proof -
  define I where "I = (\<lambda>v :: seed_world. \<exists>ls. sw_stdout v = sw_stdout w @ lines_text ls \<and> list_all (\<lambda>l. \<not> contains ''#endif'' l) ls)"
  have put: "preserves I (put_out (lines_text ls))" if "list_all (\<lambda>l. \<not> contains ''#endif'' l) ls" for ls
  proof -
    have "I (v\<lparr>sw_stdout := sw_stdout v @ lines_text ls\<rparr>)" if v: "I v" for v
    proof -
      obtain more where m: "sw_stdout v = sw_stdout w @ lines_text more" "list_all (\<lambda>l. \<not> contains ''#endif'' l) more"
        using v by (auto simp: I_def)
      with \<open>list_all _ ls\<close> show ?thesis unfolding I_def by (intro exI [of _ "more @ ls"]) simp
    qed
    then show ?thesis by (simp add: preserves_def put_out_run)
  qed
  have "CHR ''#'' \<notin> set (data_line b)" for b using data_line_set [of b] by (auto simp: hex_text_chars_def)
  then have data: "\<not> contains ''#endif'' (data_line b)" for b by (intro contains_other [of "CHR ''#''"]) simp_all
  have one: "l @ [LF] = lines_text [l]" for l by (simp add: lines_text_def)
  have t: "table_line b = lines_text [data_line b]" for b by (simp add: table_line_def data_line_def lines_text_def)
  have line: "preserves I (process_line l)" for l
  proof -
    have "preserves I (put_out (table_line b))" for b unfolding t by (rule put) (simp add: data)
    then show ?thesis unfolding process_line_def Let_def
      by (intro preserves_if preserves_basic preserves_bnd) (auto intro!: preserves_basic preserves_bnd split: option.split)
  qed
  have table: "preserves I (process_file p n)" if n: "\<not> contains ''#endif'' (''static const uint8_t '' @ n @ ''[] = {'')" for p n
  proof -
    have "table_head n = lines_text [''static const uint8_t '' @ n @ ''[] = {'']" "''};'' @ [LF] = lines_text [''};'']"
      by (simp_all add: table_head_def lines_text_def)
    then have "preserves I (put_out (table_head n))" "preserves I (put_out (''};'' @ [LF]))"
      using put [of "[''static const uint8_t '' @ n @ ''[] = {'']"] put [of "[''};'']"] n by simp_all
    then show ?thesis unfolding process_file_def process_nodes_def
      by (intro preserves_bnd preserves_for_each preserves_read_text line)
  qed
  have "list_all (\<lambda>l. \<not> contains ''#endif'' l) header_lines" unfolding header_lines_def by simp
  then have head: "preserves I (for_each put_out (map (\<lambda>l. l @ [LF]) header_lines))"
    unfolding one by (intro preserves_for_each) (auto simp: list_all_iff intro!: put)
  have files: "preserves I (process_file p ''chainparams_seed_main'')" "preserves I (process_file p ''chainparams_seed_test'')" for p
    by (rule table, simp)+
  have empty: "preserves I (put_out [LF])" using put [of "[[]]"] by (simp add: lines_text_def)
  let ?all = "bnd (for_each put_out (map (\<lambda>l. l @ [LF]) header_lines)) (\<lambda>_.
           bnd (process_file (path_join (argv ! 1) ''nodes_main.txt'') ''chainparams_seed_main'') (\<lambda>_.
           bnd (put_out [LF]) (\<lambda>_.
           bnd (process_file (path_join (argv ! 1) ''nodes_test.txt'') ''chainparams_seed_test'') (\<lambda>_. put_out [LF]))))"
  have all: "preserves I ?all" by (intro preserves_bnd head files empty)
  have "I w" by (auto simp: I_def lines_text_def intro!: exI [of _ "[]"])
  then have I: "I (snd (?all w))" using all by (simp add: preserves_def)
  have "I w'"
  proof (cases "length argv < 2")
    case True
    with assms have "w' = w" by (simp add: seeds_main_def)
    with \<open>I w\<close> show ?thesis by simp
  next
    case False
    then have main: "seeds_main argv w = bnd ?all (\<lambda>_. put_out (''#endif // WAM_CHAINPARAMSSEEDS_H'' @ [LF])) w"
      by (simp add: seeds_main_def bnd_assoc Let_def)
    from assms show ?thesis unfolding main
      by (rule bnd_cases) (use I in \<open>simp_all add: put_out_run\<close>)
  qed
  then obtain ls where ls: "sw_stdout w' = sw_stdout w @ lines_text ls" "list_all (\<lambda>l. \<not> contains ''#endif'' l) ls"
    by (auto simp: I_def)
  have "LF \<notin> set ''#endif''" "''#endif'' \<noteq> []" by (simp_all add: LF_def)
  from contains_lines [OF this ls(2)] ls(1) show ?thesis by blast
qed

section \<open>Addresses\<close>

text \<open>An address that is accepted for a network of fixed length has that length, and the first
  byte decides between the two networks written with colons.\<close>

theorem accepted_addresses_have_their_length:
  assumes "name_to_bip155 addr = Inr (net, bs)"
  shows "case net of
      IPV4 \<Rightarrow> length bs = length (split_char (CHR ''.'') addr)
    | IPV6 \<Rightarrow> length bs = 16 \<and> bs ! 0 \<noteq> 0xFC
    | CJDNS \<Rightarrow> length bs = 16 \<and> bs ! 0 = 0xFC
    | TORV2 \<Rightarrow> length bs = 10
    | TORV3 \<Rightarrow> length bs = 32
    | I2P \<Rightarrow> length bs = 32"
proof -
  have "length b = 16" if b: "ipv6_bytes addr = Inr b" for b
  proof -
    from b obtain x pre suf where
      v: "(x = 0 \<and> 16 - int (length pre) - int (length suf) = 0) \<or> (x = 1 \<and> 16 - int (length pre) - int (length suf) > 0)"
      and r: "rmap int_byte (pre @ replicate (nat (16 - int (length pre) - int (length suf))) 0 @ suf) = Inr b"
      unfolding ipv6_bytes_def Let_def by (auto split: if_splits)
    from v have "length (pre @ replicate (nat (16 - int (length pre) - int (length suf))) 0 @ suf) = 16" by auto
    with rmap_Inr_length [OF r] show ?thesis by simp
  qed
  with assms show ?thesis
    unfolding name_to_bip155_def by (auto split: if_splits dest: rmap_Inr_length)
qed

text \<open>For an IPv4 address that length is the number of its parts, whatever it is.\<close>

lemma three_parts_are_an_address: "name_to_bip155 ''10.0.1'' = Inr (IPV4, [10, 0, 1])"
  by code_simp


section \<open>Text of IPv6 addresses\<close>

definition hex_string :: "nat \<Rightarrow> string" where
  "hex_string n = (if n = 0 then ''0'' else map hex_char (rev (digs 16 n)))"

definition group_bytes :: "nat \<Rightarrow> bytes" where
  "group_bytes v = [word_of_nat (v div 256), word_of_nat (v mod 256)]"

text \<open>Groups of 16 bits, with a run of zeros written as two colons between them.\<close>

definition ipv6_text :: "nat list \<Rightarrow> nat list \<Rightarrow> string" where
  "ipv6_text pre suf = join_char '':'' (map hex_string pre) @ ''::'' @ join_char '':'' (map hex_string suf)"

lemma hex_char_facts:
  assumes "c \<in> set ''0123456789abcdef''"
  shows "is_hex c" "\<not> is_space c" "c \<noteq> CHR ''_''" "c \<noteq> CHR ''-''" "c \<noteq> CHR ''+''" "lower_char c \<noteq> CHR ''x''"
    "c \<noteq> CHR '':''" "c \<noteq> CHR ''.''"
proof -
  have "list_all (\<lambda>c. is_hex c \<and> \<not> is_space c \<and> c \<noteq> CHR ''_'' \<and> c \<noteq> CHR ''-'' \<and> c \<noteq> CHR ''+''
      \<and> lower_char c \<noteq> CHR ''x'' \<and> c \<noteq> CHR '':'' \<and> c \<noteq> CHR ''.'') ''0123456789abcdef''" by code_simp
  then show "is_hex c" "\<not> is_space c" "c \<noteq> CHR ''_''" "c \<noteq> CHR ''-''" "c \<noteq> CHR ''+''" "lower_char c \<noteq> CHR ''x''"
    "c \<noteq> CHR '':''" "c \<noteq> CHR ''.''" using assms unfolding list_all_iff by blast+
qed

lemma hex_string_set: "set (hex_string n) \<subseteq> set ''0123456789abcdef''"
  using digs_less [of 16 _ n] hex_digits by (auto simp: hex_string_def simp del: list.set insert_iff) auto

lemma hex_string_ne [simp]: "hex_string n \<noteq> []"
  by (simp add: hex_string_def)

lemma drop_hex_underscores_none: "CHR ''_'' \<notin> set s \<Longrightarrow> drop_hex_underscores s = Some s"
  by (induction s rule: drop_hex_underscores.induct) auto

lemma hex_string_value: "undigs 16 (rev (map hex_val (hex_string n))) = n"
proof (cases "n = 0")
  case True
  then show ?thesis by (simp add: hex_string_def hex_val_def is_digit_def digit_val_def)
next
  case False
  have "map (hex_val \<circ> hex_char) (digs 16 n) = digs 16 n"
    using digs_less [of 16 _ n] hex_digits by (intro map_idI) simp
  with False show ?thesis by (simp add: hex_string_def rev_map)
qed

lemma int_of_hex_string [simp]: "int_of_hex (hex_string n) = Inr (int n)"
proof -
  let ?s = "hex_string n"
  have c: "c \<in> set ''0123456789abcdef''" if "c \<in> set ?s" for c using hex_string_set that by blast
  have "strip ?s = ?s" by (rule no_spaces_strip) (use c hex_char_facts(2) in \<open>auto simp only: list_all_iff\<close>)
  moreover obtain d ds where ds: "?s = d # ds" by (meson hex_string_ne list.exhaust)
  have "d \<noteq> CHR ''-''" "d \<noteq> CHR ''+''" using c [of d, THEN hex_char_facts(4)] c [of d, THEN hex_char_facts(5)] ds
    by (simp_all only: list.set insert_iff simp_thms)
  then have "split_sign ?s = (1, ?s)" by (simp add: split_sign_def ds)
  moreover have "\<not> starts_with ''0x'' (map lower_char ?s)"
  proof -
    have "\<forall>c \<in> set ?s. lower_char c \<noteq> CHR ''x''" using c hex_char_facts(6) by blast
    then have "CHR ''x'' \<notin> set (map lower_char ?s)" by (auto simp only: set_map image_iff)
    then show ?thesis using starts_with_set [of "''0x''" "map lower_char ?s"] by auto
  qed
  moreover have "drop_hex_underscores ?s = Some ?s"
    by (rule drop_hex_underscores_none) (use c hex_char_facts(3) in blast)
  moreover have "list_all is_hex ?s" using c hex_char_facts(1) by (auto simp only: list_all_iff)
  ultimately show ?thesis by (simp add: int_of_hex_def hex_string_value)
qed

lemma split_char_append: "split_char c (a @ c # b) = split_char c a @ split_char c b"
proof (induction a)
  case (Cons x a)
  have "split_char c a \<noteq> []" for a by (induction a) (auto split: list.splits)
  with Cons show ?case by (auto split: list.splits)
qed simp

lemma split_join: "xs \<noteq> [] \<Longrightarrow> \<forall>x \<in> set xs. c \<notin> set x \<Longrightarrow> split_char c (join_char [c] xs) = xs"
  by (induction "[c]" xs rule: join_char.induct) (simp_all add: split_char_none split_char_append)

definition two_bytes :: "nat \<Rightarrow> int list" where
  "two_bytes v = [drop_bit 8 (int v), int v AND 0xFF]"

lemma ipv6_loop_groups:
  "ipv6_loop n i 0 p s (map hex_string vs @ rest) = ipv6_loop n (i + length vs) 0 (p @ concat (map two_bytes vs)) s rest"
  "ipv6_loop n i 1 p s (map hex_string vs @ rest) = ipv6_loop n (i + length vs) 1 p (s @ concat (map two_bytes vs)) rest"
  by (induction vs arbitrary: i p s) (simp_all add: two_bytes_def Let_def)

lemma int_bytes_groups:
  assumes "\<forall>v \<in> set vs. v < 65536"
  shows "rmap int_byte (concat (map two_bytes vs)) = Inr (concat (map group_bytes vs))"
  using assms
proof (induction vs)
  case (Cons v vs)
  then have "v div 256 < 256" by (simp add: less_mult_imp_div_less)
  moreover have "int v AND 0xFF = take_bit 8 (int v)" unfolding take_bit_eq_mask by (simp add: mask_eq_exp_minus_1)
  then have "int v AND 0xFF = int (v mod 256)" by (simp add: take_bit_eq_mod zmod_int)
  moreover have "drop_bit 8 (int v) = int (v div 256)" by (simp add: drop_bit_eq_div zdiv_int)
  ultimately have "rmap int_byte (two_bytes v) = Inr (group_bytes v)"
    by (simp add: two_bytes_def int_byte_def group_bytes_def)
  with Cons show ?case by (simp add: rmap_append)
qed simp

lemma ipv6_loop_end:
  "ipv6_loop n i 0 p s (map hex_string vs) = Inr (0, p @ concat (map two_bytes vs), s)"
  "ipv6_loop n i 1 p s (map hex_string vs) = Inr (1, p, s @ concat (map two_bytes vs))"
  using ipv6_loop_groups [of n i p s vs "[]"] by simp_all

definition group_parts :: "nat list \<Rightarrow> string list" where
  "group_parts vs = (if vs = [] then [[]] else map hex_string vs)"

lemma hex_string_no_sep: "CHR '':'' \<notin> set (hex_string v)" "CHR ''.'' \<notin> set (hex_string v)"
  using hex_string_set [of v] hex_char_facts(7,8) by blast+

lemma split_groups: "split_char (CHR '':'') (join_char '':'' (map hex_string vs)) = group_parts vs"
  by (cases "vs = []") (simp_all add: group_parts_def split_join hex_string_no_sep)

lemma split_ipv6_text: "split_char (CHR '':'') (ipv6_text pre suf) = group_parts pre @ [[]] @ group_parts suf"
proof -
  have "ipv6_text pre suf = join_char '':'' (map hex_string pre) @ CHR '':'' # [] @ CHR '':'' # join_char '':'' (map hex_string suf)"
    by (simp add: ipv6_text_def)
  then show ?thesis by (simp only: split_char_append split_groups) simp
qed

text \<open>Around the two colons an empty part is skipped, since it is the first or the last.\<close>

lemma ipv6_loop_text:
  assumes n: "n = length (group_parts pre) + 1 + length (group_parts suf)"
  shows "ipv6_loop n 0 0 [] [] (group_parts pre @ [[]] @ group_parts suf)
    = Inr (1, concat (map two_bytes pre), concat (map two_bytes suf))"
proof -
  have mid: "ipv6_loop n (length (group_parts pre)) 0 p [] ([] # group_parts suf)
      = ipv6_loop n (Suc (length (group_parts pre))) 1 p [] (group_parts suf)" for p
    using n by (simp add: group_parts_def split: if_splits)
  have "ipv6_loop n 0 0 [] [] (group_parts pre @ [] # group_parts suf)
      = ipv6_loop n (length (group_parts pre)) 0 (concat (map two_bytes pre)) [] ([] # group_parts suf)"
    using ipv6_loop_groups(1) [of n 0 "[]" "[]" pre "[] # group_parts suf"] by (simp add: group_parts_def)
  also have "\<dots> = ipv6_loop n (Suc (length (group_parts pre))) 1 (concat (map two_bytes pre)) [] (group_parts suf)"
    by (rule mid)
  also have "\<dots> = Inr (1, concat (map two_bytes pre), concat (map two_bytes suf))"
    using n ipv6_loop_end(2) [of n _ _ _ suf] by (cases "suf = []") (simp_all add: group_parts_def)
  finally show ?thesis by simp
qed

lemma length_two_bytes [simp]: "length (concat (map two_bytes vs)) = 2 * length vs"
  by (induction vs) (simp_all add: two_bytes_def)

lemma ipv6_text_set: "CHR ''.'' \<notin> set (ipv6_text pre suf)" "CHR '':'' \<in> set (ipv6_text pre suf)"
proof -
  have "CHR ''.'' \<notin> set (join_char '':'' (map hex_string vs))" for vs
    using join_char_set [of "'':''" "map hex_string vs"] hex_string_no_sep(2) by fastforce
  then show "CHR ''.'' \<notin> set (ipv6_text pre suf)" "CHR '':'' \<in> set (ipv6_text pre suf)"
    by (simp_all add: ipv6_text_def)
qed

lemma ends_with_set: "ends_with n s \<Longrightarrow> set n \<subseteq> set s"
  using starts_with_set [of "rev n" "rev s"] by (simp add: ends_with_def)

text \<open>The text of an IPv6 address is read as the groups before the two colons, zeros, and the groups
  after them, wherever the colons stand.\<close>

theorem ipv6_text_is_read_back:
  assumes "\<forall>v \<in> set (pre @ suf). v < 65536" and "length pre + length suf < 8"
  shows "\<exists>net bs. name_to_bip155 (ipv6_text pre suf) = Inr (net, bs)
    \<and> bs = concat (map group_bytes pre) @ replicate (16 - 2 * length pre - 2 * length suf) 0 @ concat (map group_bytes suf)
    \<and> net = (if bs ! 0 = 0xFC then CJDNS else IPV6)"
proof -
  let ?t = "ipv6_text pre suf" and ?z = "16 - 2 * length pre - 2 * length suf"
  let ?bs = "concat (map group_bytes pre) @ replicate ?z 0 @ concat (map group_bytes suf)"
  have p: "rmap int_byte (concat (map two_bytes pre)) = Inr (concat (map group_bytes pre))"
    and s: "rmap int_byte (concat (map two_bytes suf)) = Inr (concat (map group_bytes suf))"
    using assms(1) by (auto intro: int_bytes_groups)
  have "rmap int_byte (replicate ?z 0) = Inr (replicate ?z 0)"
    using rmap_map_Inr [of "replicate ?z 0" int_byte "\<lambda>_. 0"] by (simp add: int_byte_def)
  moreover have "nat (16 - 2 * int (length pre) - 2 * int (length suf)) = ?z" by linarith
  moreover have "2 * int (length suf) < 16 - 2 * int (length pre)" using assms(2) by linarith
  ultimately have "ipv6_bytes ?t = Inr ?bs"
    by (simp add: ipv6_bytes_def split_ipv6_text ipv6_loop_text [simplified] rmap_append p s)
  moreover have "\<not> ends_with ''.onion'' ?t" "\<not> ends_with ''.b32.i2p'' ?t"
    using ends_with_set [of "''.onion''" ?t] ends_with_set [of "''.b32.i2p''" ?t] ipv6_text_set(1) by auto
  ultimately show ?thesis
    using ipv6_text_set [of pre suf] by (simp add: name_to_bip155_def)
qed

section \<open>Witnesses\<close>

definition seed_lists :: seed_world where
  "seed_lists = \<lparr>ft_files = [''s/nodes_main.txt'' \<mapsto> ''169.58.159.165:9555'', ''s/nodes_test.txt'' \<mapsto> ''5.223.52.200:19555 # US''],
     ft_dirs = (\<lambda>_. False), sw_stdout = []\<rparr>"


lemma entry_of_example: "entry_of (IPV4, [169, 58, 159, 165], 9555) = (''169.58.159.165'', 9555)"
  by code_simp

lemma failed_run_leaves_no_header_witness:
  "\<exists>out. sw_stdout (snd (seeds_main [''generate-seeds.py'', ''t''] seed_lists)) = sw_stdout seed_lists @ out \<and> \<not> contains ''#endif'' out"
proof -
  obtain us v where us: "for_each put_out (map (\<lambda>l. l @ [LF]) header_lines) seed_lists = (Inr us, v)"
    and v: "v = seed_lists\<lparr>sw_stdout := sw_stdout seed_lists @ lines_text header_lines\<rparr>"
    using put_lines by blast
  have "path_join ''t'' ''nodes_main.txt'' = ''t/nodes_main.txt''" by (simp add: path_join_def)
  then have "seeds_main [''generate-seeds.py'', ''t''] seed_lists = (Inl OSError, v)"
    by (simp add: seeds_main_def Let_def bnd_run [where m = "for_each put_out (map (\<lambda>l. l @ [LF]) header_lines)", OF us])
      (simp add: bnd_def process_file_def read_text_def v seed_lists_def)
  from failed_run_leaves_no_header [OF this] show ?thesis
    using \<open>seeds_main _ _ = _\<close> by simp
qed

lemma ipv6_text_is_read_back_witness:
  "\<exists>net bs. name_to_bip155 (ipv6_text [0x2001, 0xDB8] [1]) = Inr (net, bs)
    \<and> bs = concat (map group_bytes [0x2001, 0xDB8]) @ replicate (16 - 2 * length [0x2001 :: nat, 0xDB8] - 2 * length [1 :: nat]) 0
        @ concat (map group_bytes [1])
    \<and> net = (if bs ! 0 = 0xFC then CJDNS else IPV6)"
  by (rule ipv6_text_is_read_back) simp_all

lemma accepted_addresses_have_their_length_witness: "length ([10, 0, 1] :: bytes) = length (split_char (CHR ''.'') ''10.0.1'')"
  using accepted_addresses_have_their_length [OF three_parts_are_an_address] by simp

section \<open>A pass of the auditor\<close>

lemma audit_step:
  "audit_seeds r b t (net, array) (fails, checked) =
     (case seeds_decode t array of
        None \<Rightarrow> (Suc fails, checked)
      | Some seeds \<Rightarrow> if seeds = [] then (Suc fails, checked)
          else (if net = ''mainnet'' \<and> b then fails else fails + length (filter (\<lambda>s. \<not> r s) seeds), checked + length seeds))"
  by (cases "seeds_decode t array"; cases "the (seeds_decode t array)") (auto simp: audit_seeds_def)

text \<open>C40: the auditor of both networks passes exactly when both tables are in the header, neither is
  empty, every address of the test network answers and, from the launch on, every address of the
  main network does.\<close>

theorem a_pass_means_every_seed_answers:
  "fixed_seeds_main r b (Some t) ''all'' = 0 \<longleftrightarrow>
     (\<exists>mains tests. seeds_decode t ''chainparams_seed_main'' = Some mains \<and> mains \<noteq> []
        \<and> seeds_decode t ''chainparams_seed_test'' = Some tests \<and> tests \<noteq> []
        \<and> (b \<or> list_all r mains) \<and> list_all r tests)"
  by (auto simp: fixed_seeds_main_def audit_step list_all_iff filter_empty_conv split: option.splits if_splits)

end
