(* ===== verification/Sweep.thy ===== *)
theory Sweep
  imports Host_Shell
begin

text \<open>
  \<open>scripts/sweep_pool_fee.py\<close>: the operator's fee is moved out of the pool's wallet. The pool's
  statistics and the replies of the node are questions put over \<open>ssh\<close>; two commands move something,
  the payment and the decrement of the counter. The shell is a parameter. The amounts of the pool's
  statistics are integers here: another type raises \<open>TypeError\<close>.
\<close>

section \<open>Commands\<close>

definition COIN :: int where
  "COIN = 100000000"

record sweep_args =
  sa_node :: string
  sa_api :: string
  sa_prefix :: string
  sa_min :: pyfloat
  sa_send :: bool

type_synonym ('n, 'a) sweep_task = "('n host_world, py_error, 'a) prog"

definition die :: "('n, 'a) sweep_task" where
  "die = throw (SystemExit 2)"

definition sweep_argv :: "string \<Rightarrow> string \<Rightarrow> string list" where
  "sweep_argv host cmd = [''ssh'', ''-o'', ''BatchMode=yes'', ''-o'', ''ConnectTimeout=15'', ''root@'' @ host, cmd]"

definition rsh :: "'n shell \<Rightarrow> string \<Rightarrow> string \<Rightarrow> ('n, int \<times> string) sweep_task" where
  "rsh sh host cmd =
     bnd (subprocess_run sh (sweep_argv host cmd) [] 90) (\<lambda>(rc, out, err). ret (rc, strip out))"

definition wamcli_command :: "string \<Rightarrow> string" where
  "wamcli_command args =
     ''wam-cli -chain=main -conf=/root/.wam-mainnet/wam.conf -datadir=/root/.wam-mainnet '' @ args"

definition wamcli :: "'n shell \<Rightarrow> string \<Rightarrow> string \<Rightarrow> ('n, string) sweep_task" where
  "wamcli sh host args =
     bnd (rsh sh host (wamcli_command args)) (\<lambda>(rc, out). if rc \<noteq> 0 then die else ret out)"

definition redis_command :: "string \<Rightarrow> string" where
  "redis_command args =
     ''P=$(python3 -c '' @ [CHR 0x27] @ ''import json;print(json.load(open('' @ [CHR 0x22] @ ''/opt/wam/pool/config.json'' @
     [CHR 0x22] @ ''))['' @ [CHR 0x22] @ ''redis'' @ [CHR 0x22] @ ''].get('' @ [CHR 0x22] @ ''password'' @ [CHR 0x22] @ '','' @
     [CHR 0x22, CHR 0x22] @ ''))'' @ [CHR 0x27] @ ''); redis-cli --no-auth-warning -a '' @ [CHR 0x22] @ ''$P'' @ [CHR 0x22] @
     '' --raw '' @ args"

definition redis_cmd :: "'n shell \<Rightarrow> string \<Rightarrow> string \<Rightarrow> ('n, string) sweep_task" where
  "redis_cmd sh host args =
     bnd (rsh sh host (redis_command args)) (\<lambda>(rc, out). if rc \<noteq> 0 then die else ret out)"

section \<open>Amounts\<close>

text \<open>\<open>f'{x:.8f}'\<close> of a finite double: its exact value rounded half-even to eight places.\<close>

definition eight_digits :: "nat \<Rightarrow> string" where
  "eight_digits n = replicate (8 - length (nat_string n)) (CHR ''0'') @ nat_string n"

definition fixed8 :: "rat \<Rightarrow> string" where
  "fixed8 x =
     (let n = nat \<bar>round_half_even (x * 10 ^ 8)\<bar>
      in (if x < 0 then ''-'' else []) @ nat_string (n div 10 ^ 8) @ ''.'' @ eight_digits (n mod 10 ^ 8))"

text \<open>\<open>n / COIN\<close>, which raises when the quotient is no double.\<close>

definition in_coins :: "int \<Rightarrow> py_error + rat" where
  "in_coins n = (case int_truediv n COIN of Fin x \<Rightarrow> Inr x | _ \<Rightarrow> Inl OverflowError)"

text \<open>\<open>round(x)\<close>.\<close>

definition float_round :: "pyfloat \<Rightarrow> py_error + int" where
  "float_round x = (case x of Fin a \<Rightarrow> Inr (round_half_even a) | NaN \<Rightarrow> Inl ValueError | _ \<Rightarrow> Inl OverflowError)"

definition atoms_of_float :: "pyfloat \<Rightarrow> py_error + int" where
  "atoms_of_float x = float_round (fmul x (Fin (of_int COIN)))"

fun json_int :: "json \<Rightarrow> py_error + int" where
  "json_int (JInt n) = Inr n"
| "json_int (JBool b) = Inr (if b then 1 else 0)"
| "json_int _ = Inl TypeError"

section \<open>What the pool and the wallet say\<close>

text \<open>\<open>d.get(k) or e\<close>.\<close>

definition get_or :: "json \<Rightarrow> string \<Rightarrow> json \<Rightarrow> py_error + json" where
  "get_or d k e = rbind (jget d k JNull) (\<lambda>v. Inr (if jtruthy v then v else e))"

text \<open>What is owed, what has accrued, and where the fee goes.\<close>

definition pool_figures :: "json \<Rightarrow> py_error + json \<times> json \<times> json" where
  "pool_figures stats =
     rbind (get_or stats ''pool'' stats) (\<lambda>pool.
     rbind (get_or stats ''config'' (JObj [])) (\<lambda>cfg.
     rbind (jget pool ''totalOwed'' (JInt 0)) (\<lambda>owed.
     rbind (jget pool ''poolFeesCollected'' (JInt 0)) (\<lambda>accrued.
     rbind (jget cfg ''poolFeeAddress'' JNull) (\<lambda>dest. Inr (owed, accrued, dest))))))"

definition wallet_balance :: "json \<Rightarrow> py_error + int \<times> int" where
  "wallet_balance reply =
     rbind (jitem reply ''mine'') (\<lambda>bal.
     rbind (rbind (jitem bal ''trusted'') jfloat) (\<lambda>t.
     rbind (atoms_of_float t) (\<lambda>spendable.
     rbind (rbind (jget bal ''immature'' (JInt 0)) jfloat) (\<lambda>i.
     rbind (atoms_of_float i) (\<lambda>immature. Inr (spendable, immature))))))"

definition quoted_arg :: "string \<Rightarrow> string \<Rightarrow> string" where
  "quoted_arg cmd dest = cmd @ '' '' @ [CHR 0x22] @ dest @ [CHR 0x22]"

section \<open>The decision\<close>

datatype verdict = Nothing_Accrued | Below_Minimum | Plan_Only | Move

text \<open>The operator is paid last.\<close>

definition sweep_verdict :: "sweep_args \<Rightarrow> int \<Rightarrow> int \<Rightarrow> int \<Rightarrow> py_error + verdict" where
  "sweep_verdict a accrued owed spendable =
     (if accrued \<le> 0 then Inr Nothing_Accrued
      else rbind (atoms_of_float (sa_min a)) (\<lambda>least.
        if accrued < least then Inr Below_Minimum
        else let left = spendable - accrued
          in if left < owed then Inl (SystemExit 2)
             else if \<not> sa_send a then Inr Plan_Only else Inr Move))"

text \<open>The four questions, in their order: the figures the report prints and the destination.\<close>

definition ask_pool :: "'n shell \<Rightarrow> sweep_args \<Rightarrow> ('n, json \<times> json \<times> json) sweep_task" where
  "ask_pool sh a =
     bnd (rsh sh (sa_node a) (''curl -s -m 10 '' @ sa_api a)) (\<lambda>(rc, out).
       if rc \<noteq> 0 \<or> out = [] then die
       else lift (rbind (json_loads out) pool_figures))"

definition check_destination :: "'n shell \<Rightarrow> sweep_args \<Rightarrow> json \<Rightarrow> ('n, unit) sweep_task" where
  "check_destination sh a dest =
     (if \<not> jtruthy dest then die
      else bnd (wamcli sh (sa_node a) (quoted_arg ''validateaddress'' (jstr dest))) (\<lambda>out.
        bnd (lift (rbind (json_loads out) (\<lambda>info. jget info ''isvalid'' JNull))) (\<lambda>valid.
        if \<not> jtruthy valid then die
        else bnd (wamcli sh (sa_node a) (quoted_arg ''getaddressinfo'' (jstr dest))) (\<lambda>out.
          bnd (lift (rbind (json_loads out) (\<lambda>info. jget info ''ismine'' JNull))) (\<lambda>mine.
          if jtruthy mine then die else ret ())))))"

definition ask_wallet :: "'n shell \<Rightarrow> sweep_args \<Rightarrow> ('n, int \<times> int) sweep_task" where
  "ask_wallet sh a =
     bnd (wamcli sh (sa_node a) ''getbalances'') (\<lambda>out. lift (rbind (json_loads out) wallet_balance))"

text \<open>Printing the report divides every figure.\<close>

definition report_figures :: "json \<Rightarrow> json \<Rightarrow> int \<Rightarrow> int \<Rightarrow> py_error + int \<times> int" where
  "report_figures accrued owed spendable immature =
     rbind (json_int accrued) (\<lambda>accrued.
     rbind (in_coins accrued) (\<lambda>_.
     rbind (json_int owed) (\<lambda>owed.
     rbind (in_coins owed) (\<lambda>_.
     rbind (in_coins spendable) (\<lambda>_.
     rbind (in_coins immature) (\<lambda>_. Inr (accrued, owed)))))))"

section \<open>Moving\<close>

definition send_command :: "string \<Rightarrow> string \<Rightarrow> string" where
  "send_command dest amount = quoted_arg ''sendtoaddress'' dest @ '' '' @ amount"

definition decrement_command :: "string \<Rightarrow> int \<Rightarrow> string" where
  "decrement_command prefix accrued = ''DECRBY '' @ prefix @ '':poolfees '' @ int_string accrued"

definition move_fee :: "'n shell \<Rightarrow> sweep_args \<Rightarrow> string \<Rightarrow> int \<Rightarrow> ('n, int) sweep_task" where
  "move_fee sh a dest accrued =
     bnd (lift (in_coins accrued)) (\<lambda>coins.
     bnd (wamcli sh (sa_node a) (send_command dest (fixed8 coins))) (\<lambda>txid.
       if length txid \<noteq> 64 then die
       else bnd (redis_cmd sh (sa_node a) (decrement_command (sa_prefix a) accrued)) (\<lambda>_. ret 0)))"

definition sweep_main :: "'n shell \<Rightarrow> sweep_args \<Rightarrow> ('n, int) sweep_task" where
  "sweep_main sh a =
     bnd (ask_pool sh a) (\<lambda>(owed, accrued, dest).
     bnd (check_destination sh a dest) (\<lambda>_.
     bnd (ask_wallet sh a) (\<lambda>(spendable, immature).
     bnd (lift (report_figures accrued owed spendable immature)) (\<lambda>(accrued, owed).
     bnd (lift (sweep_verdict a accrued owed spendable)) (\<lambda>v.
       case v of Move \<Rightarrow> move_fee sh a (jstr dest) accrued | _ \<Rightarrow> ret 0)))))"

end
