(* ===== verification/Sweep_Facts.thy ===== *)
theory Sweep_Facts
  imports Sweep
begin

text \<open>
  What a run of the fee sweep can move: nothing unless it was asked to, never before the miners'
  money, and exactly what has accrued.
\<close>

section \<open>The log of a run\<close>

definition call_of :: "string \<Rightarrow> string \<Rightarrow> outcome \<Rightarrow> string list \<times> string \<times> outcome" where
  "call_of host cmd res = (sweep_argv host cmd, [], res)"

lemma call_of_eq [simp]: "call_of h c r = call_of h c r' \<longleftrightarrow> r = r'"
  by (simp add: call_of_def)

lemma rsh_call:
  assumes "rsh sh host cmd w = (r, v)"
  obtains res where "hw_calls v = hw_calls w @ [call_of host cmd res]"
    "\<And>rc out. r = Inr (rc, out) \<Longrightarrow> \<exists>o' e'. res = Exited rc o' e' \<and> out = strip o'"
proof -
  obtain res n where sh: "sh (hw_node w) (sweep_argv host cmd) [] 90 = (res, n)" by fastforce
  show ?thesis
    by (rule that [of res])
      (use assms sh in \<open>auto simp: rsh_def subprocess_run_def bnd_def call_of_def split: outcome.splits\<close>)
qed

lemma wamcli_call:
  assumes "wamcli sh host args w = (r, v)"
  obtains res where "hw_calls v = hw_calls w @ [call_of host (wamcli_command args) res]"
    "\<And>out. r = Inr out \<Longrightarrow> \<exists>o' e'. res = Exited 0 o' e' \<and> out = strip o'"
  using assms unfolding wamcli_def
proof (cases rule: bnd_cases)
  case (raised e)
  from raised(1) show ?thesis by (rule rsh_call) (use raised(2) that in auto)
next
  case (returned x u)
  obtain rc out where x: "x = (rc, out)" by (cases x)
  obtain res where res: "hw_calls u = hw_calls w @ [call_of host (wamcli_command args) res]"
    "\<exists>o' e'. res = Exited rc o' e' \<and> out = strip o'"
    using rsh_call [OF returned(1)] x by metis
  show ?thesis by (rule that [of res]) (use res returned(2) x in \<open>auto simp: die_def split: if_splits\<close>)
qed

lemma redis_call:
  assumes "redis_cmd sh host args w = (r, v)"
  obtains res where "hw_calls v = hw_calls w @ [call_of host (redis_command args) res]"
  using assms unfolding redis_cmd_def
proof (cases rule: bnd_cases)
  case (raised e)
  from raised(1) show ?thesis by (rule rsh_call) (use that in auto)
next
  case (returned x u)
  from returned(1) show ?thesis
    by (rule rsh_call) (use returned(2) that in \<open>auto simp: die_def split: prod.splits if_splits\<close>)
qed

text \<open>A question to the pool or the node, and what was answered to it.\<close>

definition question :: "sweep_args \<Rightarrow> string list \<times> string \<times> outcome \<Rightarrow> bool" where
  "question a c \<longleftrightarrow>
     (\<exists>res. c = call_of (sa_node a) (''curl -s -m 10 '' @ sa_api a) res
        \<or> c = call_of (sa_node a) (wamcli_command ''getbalances'') res
        \<or> (\<exists>dest. c = call_of (sa_node a) (wamcli_command (quoted_arg ''validateaddress'' dest)) res
             \<or> c = call_of (sa_node a) (wamcli_command (quoted_arg ''getaddressinfo'' dest)) res))"

definition answered :: "sweep_args \<Rightarrow> (string list \<times> string \<times> outcome) list \<Rightarrow> string \<Rightarrow> json \<Rightarrow> bool" where
  "answered a calls cmd reply \<longleftrightarrow>
     (\<exists>out err. call_of (sa_node a) cmd (Exited 0 out err) \<in> set calls \<and> json_loads (strip out) = Inr reply)"

lemma ask_pool_call:
  assumes "ask_pool sh a w = (r, v)"
  obtains new where "hw_calls v = hw_calls w @ new" "list_all (question a) new"
    "\<And>figures. r = Inr figures \<Longrightarrow> \<exists>stats. answered a new (''curl -s -m 10 '' @ sa_api a) stats \<and> pool_figures stats = Inr figures"
  using assms unfolding ask_pool_def
proof (cases rule: bnd_cases)
  case (raised e)
  from raised(1) show ?thesis
    by (rule rsh_call) (rule that, assumption, use raised(2) in \<open>auto simp: question_def\<close>)
next
  case (returned x u)
  obtain rc out where x: "x = (rc, out)" by (cases x)
  obtain res where res: "hw_calls u = hw_calls w @ [call_of (sa_node a) (''curl -s -m 10 '' @ sa_api a) res]"
    "\<exists>o' e'. res = Exited rc o' e' \<and> out = strip o'"
    using rsh_call [OF returned(1)] x by metis
  show ?thesis
    by (rule that [of "[call_of (sa_node a) (''curl -s -m 10 '' @ sa_api a) res]"])
      (use res returned(2) x in \<open>auto simp: die_def question_def answered_def Inr_eq_rbind split: if_splits\<close>)
qed

lemma ask_wallet_call:
  assumes "ask_wallet sh a w = (r, v)"
  obtains new where "hw_calls v = hw_calls w @ new" "list_all (question a) new"
    "\<And>b. r = Inr b \<Longrightarrow> \<exists>reply. answered a new (wamcli_command ''getbalances'') reply \<and> wallet_balance reply = Inr b"
  using assms unfolding ask_wallet_def
proof (cases rule: bnd_cases)
  case (raised e)
  from raised(1) show ?thesis
    by (rule wamcli_call) (rule that, assumption, use raised(2) in \<open>auto simp: question_def\<close>)
next
  case (returned out u)
  from returned(1) show ?thesis
    by (rule wamcli_call) (rule that, use returned(2) in \<open>auto simp: question_def answered_def Inr_eq_rbind\<close>)
qed

definition destination_approved :: "sweep_args \<Rightarrow> (string list \<times> string \<times> outcome) list \<Rightarrow> string \<Rightarrow> bool" where
  "destination_approved a calls dest \<longleftrightarrow>
     (\<exists>info valid mine owner. answered a calls (wamcli_command (quoted_arg ''validateaddress'' dest)) info
        \<and> jget info ''isvalid'' JNull = Inr valid \<and> jtruthy valid
        \<and> answered a calls (wamcli_command (quoted_arg ''getaddressinfo'' dest)) owner
        \<and> jget owner ''ismine'' JNull = Inr mine \<and> \<not> jtruthy mine)"

lemma check_destination_call:
  assumes "check_destination sh a dest w = (r, v)"
  obtains new where "hw_calls v = hw_calls w @ new" "list_all (question a) new"
    "r = Inr () \<Longrightarrow> destination_approved a new (jstr dest)"
proof (cases "jtruthy dest")
  case False
  with assms have "v = w" "r = Inl (SystemExit 2)" by (simp_all add: check_destination_def die_def)
  then show ?thesis by (intro that [of "[]"]) simp_all
next
  case True
  let ?v = "wamcli_command (quoted_arg ''validateaddress'' (jstr dest))"
    and ?o = "wamcli_command (quoted_arg ''getaddressinfo'' (jstr dest))"
  let ?second = "bnd (wamcli sh (sa_node a) (quoted_arg ''getaddressinfo'' (jstr dest))) (\<lambda>out.
          bnd (lift (rbind (json_loads out) (\<lambda>info. jget info ''ismine'' JNull))) (\<lambda>mine.
          if jtruthy mine then die else ret ()))"
  from True assms have run: "bnd (wamcli sh (sa_node a) (quoted_arg ''validateaddress'' (jstr dest))) (\<lambda>out.
        bnd (lift (rbind (json_loads out) (\<lambda>info. jget info ''isvalid'' JNull))) (\<lambda>valid.
        if \<not> jtruthy valid then die else ?second)) w = (r, v)"
    by (simp add: check_destination_def)
  from run show ?thesis
  proof (cases rule: bnd_cases)
    case (raised e)
    from raised(1) show ?thesis
      by (rule wamcli_call) (rule that, assumption, use raised(2) in \<open>auto simp: question_def\<close>)
  next
    case (returned out u)
    from wamcli_call [OF returned(1)] obtain o' e' where
      u: "hw_calls u = hw_calls w @ [call_of (sa_node a) ?v (Exited 0 o' e')]" "out = strip o'" by metis
    from returned(2) show ?thesis
    proof (cases rule: bnd_cases)
      case (raised e)
      then show ?thesis
        by (intro that [of "[call_of (sa_node a) ?v (Exited 0 o' e')]"]) (use u in \<open>auto simp: question_def\<close>)
    next
      case (returned valid u')
      then have valid: "u' = u" "rbind (json_loads out) (\<lambda>info. jget info ''isvalid'' JNull) = Inr valid" by auto
      show ?thesis
      proof (cases "jtruthy valid")
        case False
        with returned(2) valid(1) show ?thesis
          by (intro that [of "[call_of (sa_node a) ?v (Exited 0 o' e')]"]) (use u in \<open>auto simp: question_def die_def\<close>)
      next
        case True
        with returned(2) have "?second u = (r, v)" by (simp add: valid(1))
        then show ?thesis
        proof (cases rule: bnd_cases)
          case (raised e)
          from raised(1) show ?thesis
            by (rule wamcli_call)
              (rule that [of "[call_of (sa_node a) ?v (Exited 0 o' e'), call_of (sa_node a) ?o res]" for res],
               use u raised(2) in \<open>auto simp: question_def\<close>)
        next
          case (returned out2 x)
          from wamcli_call [OF returned(1)] obtain o2 e2 where
            x: "hw_calls x = hw_calls u @ [call_of (sa_node a) ?o (Exited 0 o2 e2)]" "out2 = strip o2" by metis
          have "hw_calls v = hw_calls x \<and> (r = Inr () \<longrightarrow>
              (\<exists>mine. rbind (json_loads out2) (\<lambda>info. jget info ''ismine'' JNull) = Inr mine \<and> \<not> jtruthy mine))"
            using returned(2) by (auto elim!: bnd_cases simp: die_def Inr_eq_rbind split: if_splits)
          then show ?thesis
            by (intro that [of "[call_of (sa_node a) ?v (Exited 0 o' e'), call_of (sa_node a) ?o (Exited 0 o2 e2)]"])
              (use u x valid True in \<open>fastforce simp: question_def destination_approved_def answered_def\<close>)+
        qed
      qed
    qed
  qed
qed

lemma sweep_answered_mono: "answered a c cmd j \<Longrightarrow> set c \<subseteq> set d \<Longrightarrow> answered a d cmd j"
  by (auto simp: answered_def)

lemma destination_approved_mono: "destination_approved a c dest \<Longrightarrow> set c \<subseteq> set d \<Longrightarrow> destination_approved a d dest"
  unfolding destination_approved_def by (meson sweep_answered_mono)

text \<open>The commands that move: the payment, and after a transaction id the decrement.\<close>

definition moves :: "sweep_args \<Rightarrow> string \<Rightarrow> int \<Rightarrow> rat \<Rightarrow> (string list \<times> string \<times> outcome) list \<Rightarrow> bool" where
  "moves a dest accrued coins calls \<longleftrightarrow>
     (let send = call_of (sa_node a) (wamcli_command (send_command dest (fixed8 coins)));
          decrement = call_of (sa_node a) (redis_command (decrement_command (sa_prefix a) accrued))
      in (\<exists>res. calls = [send res])
         \<or> (\<exists>out err res. length (strip out) = 64 \<and> calls = [send (Exited 0 out err), decrement res]))"

lemma move_fee_calls:
  assumes "move_fee sh a dest accrued w = (r, v)"
  obtains "hw_calls v = hw_calls w"
    | coins new where "in_coins accrued = Inr coins" "hw_calls v = hw_calls w @ new" "moves a dest accrued coins new"
  using assms unfolding move_fee_def
proof (cases rule: bnd_cases)
  case (raised e)
  then show ?thesis by (intro that(1)) simp
next
  case (returned coins u)
  then have c: "in_coins accrued = Inr coins" "u = w" by auto
  from returned(2) show ?thesis
  proof (cases rule: bnd_cases)
    case (raised e)
    from raised(1) obtain res where "hw_calls v = hw_calls u @ [call_of (sa_node a) (wamcli_command (send_command dest (fixed8 coins))) res]"
      by (rule wamcli_call)
    then show ?thesis by (rule that(2) [OF c(1) _, unfolded c(2) [symmetric]]) (auto simp: moves_def Let_def)
  next
    case (returned txid x)
    obtain o' e' where x: "hw_calls x = hw_calls u @ [call_of (sa_node a) (wamcli_command (send_command dest (fixed8 coins))) (Exited 0 o' e')]"
      "txid = strip o'" using wamcli_call [OF returned(1)] by metis
    show ?thesis
    proof (cases "length txid = 64")
      case False
      with returned(2) have "v = x" by (simp add: die_def)
      then show ?thesis using x by (intro that(2) [OF c(1)]) (auto simp: c(2) moves_def Let_def)
    next
      case True
      with returned(2) have "bnd (redis_cmd sh (sa_node a) (decrement_command (sa_prefix a) accrued)) (\<lambda>_. ret 0) x = (r, v)"
        by simp
      then obtain q y where "redis_cmd sh (sa_node a) (decrement_command (sa_prefix a) accrued) x = (q, y)" "hw_calls v = hw_calls y"
        by (auto elim!: bnd_cases)
      then obtain res where "hw_calls v = hw_calls x @ [call_of (sa_node a) (redis_command (decrement_command (sa_prefix a) accrued)) res]"
        by (metis redis_call)
      then show ?thesis using x True
        by (intro that(2) [OF c(1), of "[call_of (sa_node a) (wamcli_command (send_command dest (fixed8 coins))) (Exited 0 o' e'),
            call_of (sa_node a) (redis_command (decrement_command (sa_prefix a) accrued)) res]"])
          (auto simp: c(2) moves_def Let_def)
    qed
  qed
qed

text \<open>
  What allows a movement: the pool's own figures, an approved destination and a balance that covers
  what the miners are owed after the fee is gone.
\<close>

definition allowed :: "sweep_args \<Rightarrow> (string list \<times> string \<times> outcome) list \<Rightarrow> string \<Rightarrow> int \<Rightarrow> bool" where
  "allowed a asked dest accrued \<longleftrightarrow>
     (\<exists>stats jowed jaccrued jdest owed balances spendable immature least.
        answered a asked (''curl -s -m 10 '' @ sa_api a) stats \<and> pool_figures stats = Inr (jowed, jaccrued, jdest)
        \<and> json_int jaccrued = Inr accrued \<and> json_int jowed = Inr owed \<and> jstr jdest = dest
        \<and> destination_approved a asked dest
        \<and> answered a asked (wamcli_command ''getbalances'') balances \<and> wallet_balance balances = Inr (spendable, immature)
        \<and> atoms_of_float (sa_min a) = Inr least
        \<and> sa_send a \<and> 0 < accrued \<and> least \<le> accrued \<and> owed \<le> spendable - accrued)"

lemma sweep_verdict_Move:
  "sweep_verdict a accrued owed spendable = Inr Move \<longleftrightarrow>
     0 < accrued \<and> sa_send a \<and> owed \<le> spendable - accrued \<and> (\<exists>least. atoms_of_float (sa_min a) = Inr least \<and> least \<le> accrued)"
  by (cases "atoms_of_float (sa_min a)") (auto simp: sweep_verdict_def Let_def)

text \<open>After the questions: the figures are judged, and the fee moves or not.\<close>

lemma verdict_calls:
  assumes "bnd (lift (report_figures jaccrued jowed spendable immature)) (\<lambda>(accrued, owed).
         bnd (lift (sweep_verdict a accrued owed spendable)) (\<lambda>v.
           case v of Move \<Rightarrow> move_fee sh a dest accrued | _ \<Rightarrow> ret 0)) w = (r, w')"
  obtains "hw_calls w' = hw_calls w"
    | accrued owed coins new where "json_int jaccrued = Inr accrued" "json_int jowed = Inr owed"
        "sweep_verdict a accrued owed spendable = Inr Move" "in_coins accrued = Inr coins"
        "hw_calls w' = hw_calls w @ new" "moves a dest accrued coins new"
proof (cases "hw_calls w' = hw_calls w")
  case False
  with assms obtain accrued owed where
    figs: "report_figures jaccrued jowed spendable immature = Inr (accrued, owed)"
    and v: "sweep_verdict a accrued owed spendable = Inr Move"
    and mv: "move_fee sh a dest accrued w = (r, w')"
    by (auto elim!: bnd_cases split: verdict.splits dest!: sym [of "Inr _"])
  from mv False obtain coins new where
    "in_coins accrued = Inr coins" "hw_calls w' = hw_calls w @ new" "moves a dest accrued coins new"
    by (metis move_fee_calls)
  moreover from figs have "json_int jaccrued = Inr accrued" "json_int jowed = Inr owed"
    by (auto simp: report_figures_def)
  ultimately show thesis using that(2) v by blast
qed (rule that(1))

text \<open>A run that has its figures: the questions about the destination and the wallet, then the verdict.\<close>

lemma figured_run_calls:
  assumes run: "bnd (check_destination sh a jdest) (\<lambda>_.
         bnd (ask_wallet sh a) (\<lambda>(spendable, immature).
         bnd (lift (report_figures jaccrued jowed spendable immature)) (\<lambda>(accrued, owed).
         bnd (lift (sweep_verdict a accrued owed spendable)) (\<lambda>v.
           case v of Move \<Rightarrow> move_fee sh a (jstr jdest) accrued | _ \<Rightarrow> ret 0)))) w = (r, w')"
    and pool: "answered a n1 (''curl -s -m 10 '' @ sa_api a) stats" "pool_figures stats = Inr (jowed, jaccrued, jdest)"
  obtains asked where "hw_calls w' = hw_calls w @ asked" "list_all (question a) asked"
    | asked accrued coins moved where "hw_calls w' = hw_calls w @ asked @ moved" "list_all (question a) asked"
        "allowed a (n1 @ asked) (jstr jdest) accrued" "in_coins accrued = Inr coins" "moves a (jstr jdest) accrued coins moved"
  using run
proof (cases rule: bnd_cases)
  case (raised e)
  from raised(1) show thesis by (rule check_destination_call) (rule that(1))
next
  case (returned u w2)
  from returned(1) obtain n2 where n2: "hw_calls w2 = hw_calls w @ n2" "list_all (question a) n2"
    "destination_approved a n2 (jstr jdest)" by (metis check_destination_call old.unit.exhaust)
  from returned(2) show thesis
  proof (cases rule: bnd_cases)
    case (raised e)
    from raised(1) show thesis
      by (rule ask_wallet_call) (rule that(1) [of "n2 @ n" for n], use n2 in auto)
  next
    case (returned b w3)
    obtain spendable immature where b: "b = (spendable, immature)" by (cases b)
    from returned(1) obtain n3 balances where n3: "hw_calls w3 = hw_calls w2 @ n3" "list_all (question a) n3"
      "answered a n3 (wamcli_command ''getbalances'') balances" "wallet_balance balances = Inr (spendable, immature)"
      using b by (metis ask_wallet_call)
    from returned(2) show thesis unfolding b prod.case
    proof (cases rule: verdict_calls)
      case 1
      then show thesis using n2 n3 by (intro that(1) [of "n2 @ n3"]) simp_all
    next
      case (2 accrued owed coins new)
      have "destination_approved a (n1 @ n2 @ n3) (jstr jdest)" by (rule destination_approved_mono [OF n2(3)]) auto
      moreover have "answered a (n1 @ n2 @ n3) (''curl -s -m 10 '' @ sa_api a) stats"
        by (rule sweep_answered_mono [OF pool(1)]) auto
      moreover have "answered a (n1 @ n2 @ n3) (wamcli_command ''getbalances'') balances"
        by (rule sweep_answered_mono [OF n3(3)]) auto
      ultimately have "allowed a (n1 @ n2 @ n3) (jstr jdest) accrued"
        using 2(1-3) pool(2) n3(4) unfolding allowed_def sweep_verdict_Move by blast
      with 2 n2 n3 show thesis by (intro that(2) [of "n2 @ n3" new]) simp_all
    qed
  qed
qed

text \<open>C8: the operator is paid last. A run asks its questions first, and what it then does is nothing, or
  one payment of what has accrued, in text, to the pool's fee address, followed, once the node has
  answered with a transaction id, by the decrement of the counter by the same amount. It does so
  only with the flag, to an address that is valid and not the pool's own, above the minimum, and when
  the spendable balance less the fee covers what the miners are owed.\<close>

theorem fee_is_the_last_money_out:
  assumes "sweep_main sh a w = (r, w')"
  shows "\<exists>asked moved. hw_calls w' = hw_calls w @ asked @ moved \<and> list_all (question a) asked
    \<and> (moved \<noteq> [] \<longrightarrow> (\<exists>dest accrued coins. allowed a asked dest accrued \<and> in_coins accrued = Inr coins
         \<and> moves a dest accrued coins moved))"
proof -
  have quiet: ?thesis if "hw_calls w' = hw_calls w @ new" "list_all (question a) new" for new
    using that by (intro exI [of _ new] exI [of _ "[]"]) simp
  from assms show ?thesis unfolding sweep_main_def
  proof (cases rule: bnd_cases)
    case (raised e)
    from raised(1) show ?thesis by (rule ask_pool_call) (rule quiet)
  next
    case (returned figures w1)
    obtain jowed jaccrued jdest where f: "figures = (jowed, jaccrued, jdest)" by (cases figures)
    from returned(1) obtain n1 stats where n1: "hw_calls w1 = hw_calls w @ n1" "list_all (question a) n1"
      "answered a n1 (''curl -s -m 10 '' @ sa_api a) stats" "pool_figures stats = Inr (jowed, jaccrued, jdest)"
      using f by (metis ask_pool_call)
    from returned(2) show ?thesis unfolding f prod.case
    proof (rule figured_run_calls [OF _ n1(3,4)])
      fix asked assume "hw_calls w' = hw_calls w1 @ asked" "list_all (question a) asked"
      then show ?thesis using n1 by (intro quiet [of "n1 @ asked"]) simp_all
    next
      fix asked accrued coins moved
      assume "hw_calls w' = hw_calls w1 @ asked @ moved" "list_all (question a) asked"
        "allowed a (n1 @ asked) (jstr jdest) accrued" "in_coins accrued = Inr coins" "moves a (jstr jdest) accrued coins moved"
      then show ?thesis using n1 by (intro exI [of _ "n1 @ asked"] exI [of _ moved]) auto
    qed
  qed
qed


section \<open>The amount in text\<close>

lemma ulp_below:
  assumes "0 < x" "x < 2 powi k" "-1000 \<le> k"
  shows "ulp x \<le> 2 powi (k - 53)"
proof -
  have "2 powi flog 2 x \<le> x" using flog_bounds(1) [of 2 x] assms(1) by simp
  then have "(2::rat) powi flog 2 x < 2 powi k" using assms(2) by linarith
  then have "flog 2 x < k" by (meson not_le power_int_increasing one_le_numeral)
  then have "max (flog 2 \<bar>x\<bar> - 52) (-1074) \<le> k - 53" using assms by simp
  then show ?thesis unfolding ulp_def by (intro power_int_increasing) simp_all
qed

lemma in_coins_near:
  assumes "0 < n" "n < 2 ^ 26 * COIN"
  shows "\<exists>x. in_coins n = Inr x \<and> 0 \<le> x \<and> \<bar>x * 10 ^ 8 - of_int n\<bar> < 1 / 2"
proof -
  let ?x = "of_int n / of_int COIN :: rat"
  have c: "(of_int COIN :: rat) = 10 ^ 8" by (simp add: COIN_def)
  have x0: "0 < ?x" using assms(1) by (simp add: c)
  have "(of_int n :: rat) < of_int (2 ^ 26 * COIN)" using assms(2) by (simp only: of_int_less_iff)
  then have hi: "?x < 2 powi 26" by (simp add: c divide_less_eq)
  have "ulp ?x \<le> 2 powi (26 - 53)" by (rule ulp_below [OF x0 hi]) simp
  then have u: "ulp ?x \<le> 1 / 2 ^ 27" by (simp add: power_int_def field_simps)
  have e: "\<bar>rnd ?x - ?x\<bar> \<le> 1 / 2 ^ 28" using rnd_error [of ?x] u by simp
  have lo: "1 / 10 ^ 8 \<le> ?x"
  proof -
    have "(1 :: rat) \<le> of_int n" using assms(1) by simp
    then show ?thesis unfolding c by (simp add: divide_right_mono)
  qed
  have near: "?x - 1 / 2 ^ 28 \<le> rnd ?x" "rnd ?x \<le> ?x + 1 / 2 ^ 28" using e unfolding abs_diff_le_iff by blast+
  have "(1 :: rat) / 2 ^ 28 < 1 / 10 ^ 8" by simp
  with near(1) lo have pos: "0 < rnd ?x" by linarith
  have "(2 :: rat) powi 26 + 1 / 2 ^ 28 < 2 ^ 27" by (simp add: power_int_def)
  with near(2) hi have "rnd ?x < 2 ^ 27" by linarith
  have "flog 2 (rnd ?x) < 1024"
  proof (rule ccontr)
    assume "\<not> flog 2 (rnd ?x) < 1024"
    then have "(2::rat) powi 27 \<le> 2 powi flog 2 (rnd ?x)" by (intro power_int_increasing) simp_all
    also have "\<dots> \<le> rnd ?x" using flog_bounds(1) [of 2 "rnd ?x"] pos by simp
    finally show False using \<open>rnd ?x < 2 ^ 27\<close> by simp
  qed
  then have "fl ?x = Fin (rnd ?x)" using pos by (simp add: fl_def)
  moreover have "\<bar>rnd ?x * 10 ^ 8 - of_int n\<bar> < 1 / 2"
  proof -
    have d: "rnd ?x * 10 ^ 8 - of_int n = (rnd ?x - ?x) * 10 ^ 8" by (simp add: c left_diff_distrib)
    have "\<bar>rnd ?x * 10 ^ 8 - of_int n\<bar> = \<bar>rnd ?x - ?x\<bar> * 10 ^ 8" unfolding d abs_mult by simp
    also have "\<dots> \<le> 1 / 2 ^ 28 * 10 ^ 8" using e by (rule mult_right_mono) simp
    also have "\<dots> < 1 / 2" by simp
    finally show ?thesis .
  qed
  ultimately show ?thesis using pos by (simp add: in_coins_def int_truediv_def less_imp_le)
qed

lemma length_nat_string_less: "n < 10 ^ k \<Longrightarrow> 0 < k \<Longrightarrow> length (nat_string n) \<le> k"
  using length_digs_le [of 10 n k] by (simp add: nat_string_def)

lemma string_nat_append: "string_nat (a @ b) = string_nat a * 10 ^ length b + string_nat b"
  by (simp add: string_nat_def undigs_append)

lemma eight_digits_facts:
  assumes "n < 10 ^ 8"
  shows "length (eight_digits n) = 8" "list_all is_digit (eight_digits n)" "string_nat (eight_digits n) = n"
proof -
  show "length (eight_digits n) = 8" using length_nat_string_less [OF assms] by (simp add: eight_digits_def)
  have "is_digit (CHR ''0'')" by (simp add: is_digit_def)
  then show "list_all is_digit (eight_digits n)"
    using nat_string_digits [of n] by (auto simp: eight_digits_def list_all_iff)
  have "digit_val (CHR ''0'') = 0" by (simp add: digit_val_def)
  then have "string_nat (replicate k (CHR ''0'')) = 0" for k by (simp add: string_nat_def)
  then show "string_nat (eight_digits n) = n" by (simp add: eight_digits_def string_nat_append)
qed

text \<open>Below 67 million coins the division by the float and the printing of eight decimals lose
  nothing: the text that is sent to the node, read as a decimal, is exactly what has accrued.\<close>

theorem sent_amount_is_exact:
  assumes "0 < accrued" "accrued < 2 ^ 26 * COIN"
  shows "\<exists>coins. in_coins accrued = Inr coins
    \<and> decimal_of_string (fixed8 coins) = Some (DFin (of_int accrued / 10 ^ 8))"
proof -
  from in_coins_near [OF assms] obtain x where x: "in_coins accrued = Inr x" "0 \<le> x" "\<bar>x * 10 ^ 8 - of_int accrued\<bar> < 1 / 2" by blast
  define hi where "hi = nat accrued div 10 ^ 8"
  define lo where "lo = nat accrued mod 10 ^ 8"
  have "round_half_even (x * 10 ^ 8) = accrued" using x(3) by (rule round_half_even_near)
  then have f: "fixed8 x = nat_string hi @ ''.'' @ eight_digits lo"
    using x(2) assms(1) by (simp add: fixed8_def Let_def hi_def lo_def)
  have lo: "lo < 10 ^ 8" by (simp add: lo_def)
  note e = eight_digits_facts [OF lo]
  have hd: "list_all is_digit (nat_string hi)" "nat_string hi \<noteq> []" by (rule nat_string_digits) (simp add: nat_string_def)
  have dot: "\<not> is_digit (CHR ''.'')" by (simp add: is_digit_def)
  let ?t = "nat_string hi @ CHR ''.'' # eight_digits lo"
  have sp: "list_all (\<lambda>c. \<not> is_space c) ?t"
    using hd(1) e(2) digit_no_space by (auto simp: list_all_iff is_space_def)
  have us: "filter (\<lambda>c. c \<noteq> CHR ''_'') ?t = ?t"
  proof -
    have "\<not> is_digit (CHR ''_'')" by (simp add: is_digit_def)
    then have "\<forall>c \<in> set ?t. c \<noteq> CHR ''_''" using hd(1) e(2) by (auto simp: list_all_iff)
    then show ?thesis by (simp add: filter_id_conv)
  qed
  obtain d ds where ds: "nat_string hi = d # ds" using hd(2) by (cases "nat_string hi") auto
  then have d: "is_digit d" using hd(1) by simp
  then have nsign: "d \<noteq> CHR ''-''" "d \<noteq> CHR ''+''" by (auto simp: is_digit_def)
  then have sg: "split_sign ?t = (1, ?t)" by (simp add: split_sign_def ds)
  have letters: "is_digit c \<Longrightarrow> lower_char c = c" for c by (auto simp: is_digit_def lower_char_def)
  have first: "map lower_char ?t = d # map lower_char (ds @ CHR ''.'' # eight_digits lo)"
    using ds letters [OF d] by simp
  have nd: "d \<noteq> CHR ''i''" "d \<noteq> CHR ''n''" "d \<noteq> CHR ''s''" using d by (auto simp: is_digit_def)
  have t: "takeWhile is_digit ?t = nat_string hi" "dropWhile is_digit ?t = CHR ''.'' # eight_digits lo"
    using takeWhile_dropWhile_at [OF hd(1) dot] by simp_all
  have l: "takeWhile is_digit (eight_digits lo) = eight_digits lo" "dropWhile is_digit (eight_digits lo) = []"
    using e(2) by (simp_all add: list_all_iff takeWhile_eq_all_conv dropWhile_eq_Nil_conv)
  have "unsigned_decimal ?t = Some (of_nat (string_nat (nat_string hi @ eight_digits lo)) * 10 powi (- 8))"
    using hd(2) by (simp add: unsigned_decimal_def t l e(1))
  also have "string_nat (nat_string hi @ eight_digits lo) = nat accrued"
    by (simp add: string_nat_append e(1,3)) (simp add: hi_def lo_def)
  also have "of_nat (nat accrued) * 10 powi (- 8) = (of_int accrued / 10 ^ 8 :: rat)"
    using assms(1) by (simp add: power_int_def field_simps)
  finally have u: "unsigned_decimal ?t = Some (of_int accrued / 10 ^ 8)" .
  have "decimal_of_string ?t = Some (DFin (of_int accrued / 10 ^ 8))"
    unfolding decimal_of_string_def no_spaces_strip [OF sp] us sg prod.case Let_def first
    using nd by (simp add: u)
  then show ?thesis using x(1) f by auto
qed

text \<open>
  What the node deducts for the transaction itself is not in the comparison: with the balance exactly
  covering what is owed the sweep goes ahead, and any transaction fee is then missing.
\<close>

lemma transaction_fee_is_not_counted:
  assumes "0 < accrued" "sa_send a" "atoms_of_float (sa_min a) = Inr least" "least \<le> accrued" "0 < fee"
  shows "sweep_verdict a accrued owed (owed + accrued) = Inr Move \<and> (owed + accrued) - accrued - fee < owed"
  using assms by (simp add: sweep_verdict_def)

section \<open>A sample sweep\<close>

definition api_reply :: string where
  "api_reply = ''{'' @ [CHR 0x22] @ ''totalOwed'' @ [CHR 0x22] @ '':5,'' @ [CHR 0x22] @ ''poolFeesCollected'' @ [CHR 0x22] @
     '':7,'' @ [CHR 0x22] @ ''config'' @ [CHR 0x22] @ '':{'' @ [CHR 0x22] @ ''poolFeeAddress'' @ [CHR 0x22] @ '':'' @
     [CHR 0x22] @ ''W'' @ [CHR 0x22] @ ''}}''"

definition json_field :: "string \<Rightarrow> string \<Rightarrow> string" where
  "json_field k v = ''{'' @ [CHR 0x22] @ k @ [CHR 0x22] @ '':'' @ v @ ''}''"

definition sample_sweep :: sweep_args where
  "sample_sweep = \<lparr>sa_node = ''h'', sa_api = ''u'', sa_prefix = ''wam'', sa_min = Fin 0, sa_send = True\<rparr>"

text \<open>A pool with seven atoms of fee and one coin in its wallet; the node counts the commands.\<close>

definition sample_pool :: "nat shell" where
  "sample_pool = (\<lambda>n argv stdin t.
     (Exited 0 ([api_reply, json_field ''isvalid'' ''true'', json_field ''ismine'' ''false'',
        json_field ''mine'' (json_field ''trusted'' ''1''), replicate 64 (CHR ''a''), ''0''] ! n) [], Suc n))"

definition sample_host :: "nat host_world" where
  "sample_host = \<lparr>hw_node = 0, hw_calls = [], hw_files = [], hw_dirs = (\<lambda>p. False), hw_denied = (\<lambda>p. False)\<rparr>"

definition after :: "nat \<Rightarrow> (string list \<times> string \<times> outcome) list \<Rightarrow> nat host_world" where
  "after n calls = sample_host\<lparr>hw_node := n, hw_calls := calls\<rparr>"

definition reply :: "nat \<Rightarrow> string" where
  "reply n = [api_reply, json_field ''isvalid'' ''true'', json_field ''ismine'' ''false'',
        json_field ''mine'' (json_field ''trusted'' ''1''), replicate 64 (CHR ''a''), ''0''] ! n"

lemma sample_rsh: "rsh sample_pool ''h'' cmd (after n calls)
    = (Inr (0, strip (reply n)), after (Suc n) (calls @ [call_of ''h'' cmd (Exited 0 (reply n) [])]))"
  by (simp add: rsh_def subprocess_run_def sample_pool_def bnd_def after_def call_of_def reply_def ret_def)

lemma sample_wamcli: "wamcli sample_pool ''h'' args (after n calls)
    = (Inr (strip (reply n)), after (Suc n) (calls @ [call_of ''h'' (wamcli_command args) (Exited 0 (reply n) [])]))"
  by (simp add: wamcli_def bnd_def sample_rsh ret_def)

lemma sample_redis: "redis_cmd sample_pool ''h'' args (after n calls)
    = (Inr (strip (reply n)), after (Suc n) (calls @ [call_of ''h'' (redis_command args) (Exited 0 (reply n) [])]))"
  by (simp add: redis_cmd_def bnd_def sample_rsh ret_def)

lemma sample_replies:
  "rbind (json_loads (strip (reply 0))) pool_figures = Inr (JInt 5, JInt 7, JStr ''W'')"
  "strip (reply 0) \<noteq> []"
  "rbind (json_loads (strip (reply 1))) (\<lambda>info. jget info ''isvalid'' JNull) = Inr (JBool True)"
  "rbind (json_loads (strip (reply 2))) (\<lambda>info. jget info ''ismine'' JNull) = Inr (JBool False)"
  "json_loads (strip (reply 3)) = Inr (JObj [(''mine'', JObj [(''trusted'', JInt 1)])])"
  "length (strip (reply 4)) = 64"
  by (code_simp, code_simp, code_simp, code_simp, code_simp, code_simp)

lemma sample_floats:
  "wallet_balance (JObj [(''mine'', JObj [(''trusted'', JInt 1)])]) = Inr (100000000, 0)"
  "atoms_of_float (Fin 0) = Inr 0" "\<exists>x. in_coins 7 = Inr x" "\<exists>x. in_coins 5 = Inr x"
  "in_coins 100000000 = Inr 1" "in_coins 0 = Inr 0"
proof -
  have e: "\<bar>n\<bar> \<le> 2 ^ 53 \<Longrightarrow> fl (of_int n) = Fin (of_int n)" for n
    by (rule fl_exact [of n 0]) simp_all
  show "wallet_balance (JObj [(''mine'', JObj [(''trusted'', JInt 1)])]) = Inr (100000000, 0)"
    using e [of 1] e [of 100000000] e [of 0] round_half_even_int [of 100000000] round_half_even_int [of 0]
    by (simp add: wallet_balance_def atoms_of_float_def float_round_def float_of_int_def COIN_def)
  show "atoms_of_float (Fin 0) = Inr 0"
    using e [of 0] round_half_even_int [of 0] by (simp add: atoms_of_float_def float_round_def)
  show "in_coins 100000000 = Inr 1" "in_coins 0 = Inr 0"
    using e [of 1] e [of 0] by (simp_all add: in_coins_def int_truediv_def COIN_def)
  show "\<exists>x. in_coins 7 = Inr x" "\<exists>x. in_coins 5 = Inr x"
    using in_coins_near [of 7] in_coins_near [of 5] by (auto simp: COIN_def)
qed

lemma sample_run_moves: "\<exists>calls. sweep_main sample_pool sample_sweep (after 0 []) = (Inr 0, after 6 calls)"
proof -
  obtain x y where xy: "in_coins 5 = Inr x" "in_coins 7 = Inr y" using sample_floats(3,4) by blast
  have a: "sa_node sample_sweep = ''h''" "sa_send sample_sweep" "sa_min sample_sweep = Fin 0" by (simp_all add: sample_sweep_def)
  have 1: "ask_pool sample_pool sample_sweep (after 0 []) = (Inr (JInt 5, JInt 7, JStr ''W''),
      after 1 [call_of ''h'' (''curl -s -m 10 '' @ sa_api sample_sweep) (Exited 0 (reply 0) [])])"
    using sample_replies(1,2) by (simp add: ask_pool_def a bnd_def sample_rsh lift_def del: rbind_eq_Inr)
  have 2: "\<exists>d. check_destination sample_pool sample_sweep (JStr ''W'') (after 1 c) = (Inr (), after 3 d)" for c
    using sample_replies(3,4)
    by (simp add: check_destination_def a bnd_def sample_wamcli lift_def ret_def numeral_2_eq_2 numeral_3_eq_3 del: rbind_eq_Inr) blast
  have 3: "\<exists>d. ask_wallet sample_pool sample_sweep (after 3 c) = (Inr (100000000, 0), after 4 d)" for c
    using sample_replies(5) sample_floats(1) by (simp add: ask_wallet_def a bnd_def sample_wamcli lift_def numeral_3_eq_3 eval_nat_numeral) blast
  have 4: "report_figures (JInt 7) (JInt 5) 100000000 0 = Inr (7, 5)"
    using sample_floats xy by (simp add: report_figures_def)
  have 5: "sweep_verdict sample_sweep 7 5 100000000 = Inr Move"
    using sample_floats(2) by (simp add: sweep_verdict_def a)
  have 6: "\<exists>d. move_fee sample_pool sample_sweep ''W'' 7 (after 4 c) = (Inr 0, after 6 d)" for c
    using sample_replies(6) xy by (simp add: move_fee_def a bnd_def lift_def sample_wamcli sample_redis ret_def eval_nat_numeral) blast
  obtain c1 where c1: "ask_pool sample_pool sample_sweep (after 0 []) = (Inr (JInt 5, JInt 7, JStr ''W''), after 1 c1)"
    using 1 by blast
  obtain c2 where c2: "check_destination sample_pool sample_sweep (JStr ''W'') (after 1 c1) = (Inr (), after 3 c2)"
    using 2 by blast
  obtain c3 where c3: "ask_wallet sample_pool sample_sweep (after 3 c2) = (Inr (100000000, 0), after 4 c3)"
    using 3 by blast
  obtain c4 where c4: "move_fee sample_pool sample_sweep ''W'' 7 (after 4 c3) = (Inr 0, after 6 c4)" using 6 by blast
  show ?thesis by (intro exI [of _ c4]) (simp add: sweep_main_def bnd_def c1 c2 c3 4 5 c4 lift_def del: One_nat_def)
qed

lemma fee_is_the_last_money_out_witness:
  "\<exists>calls asked moved. sweep_main sample_pool sample_sweep (after 0 []) = (Inr 0, after 6 calls)
    \<and> hw_calls (after 6 calls) = hw_calls (after 0 []) @ asked @ moved \<and> list_all (question sample_sweep) asked"
proof -
  obtain calls where run: "sweep_main sample_pool sample_sweep (after 0 []) = (Inr 0, after 6 calls)"
    using sample_run_moves by blast
  from fee_is_the_last_money_out [OF run] run show ?thesis by blast
qed

lemma sent_amount_is_exact_witness:
  "\<exists>coins. in_coins 2000000000 = Inr coins \<and> decimal_of_string (fixed8 coins) = Some (DFin (of_int 2000000000 / 10 ^ 8))"
  by (rule sent_amount_is_exact) (simp_all add: COIN_def)

end
