(* ===== verification/Notify.thy ===== *)
theory Notify
  imports Host_Shell Quoted
begin

text \<open>
  \<open>scripts/wamnotify.py\<close>: the one way the watchers reach a person. A text goes to the chat when the
  machine holds a token and the chat takes it; otherwise it is parked in a file that another machine
  reads. What the chat answers is a parameter, as are the commands, the clock and the name of an
  exception. \<open>ww_said\<close> and \<open>ww_posts\<close> log what was handed to \<open>send\<close> and what the chat was asked.
\<close>

section \<open>The machine of a watcher\<close>

record 'n outside =
  o_shell :: "'n shell"
  o_clock :: "'n \<Rightarrow> rat"
  o_post :: "'n \<Rightarrow> json \<Rightarrow> json \<Rightarrow> string \<Rightarrow> (py_error + json) \<times> 'n"
  o_etype :: "py_error \<Rightarrow> string"

record 'n watch_world = "'n host_world" +
  ww_said :: "string list"
  ww_posts :: "(string \<times> (py_error + json)) list"

type_synonym ('n, 'a) watch_task = "('n watch_world, py_error, 'a) prog"

definition CONF :: string where
  "CONF = ''/etc/wam/announce.json''"

definition PENDING :: string where
  "PENDING = ''/var/lib/wam-login-watch/pending.txt''"

definition MAINT :: string where
  "MAINT = ''/var/lib/wam-login-watch/maintenance.json''"

definition KEEP :: nat where
  "KEEP = 200"

definition STALE_HOURS :: int where
  "STALE_HOURS = 24"

text \<open>\<open>int(time.time())\<close> and, of a machine, \<open>time.time()\<close> as a float.\<close>

definition whole_seconds :: "rat \<Rightarrow> int" where
  "whole_seconds t = (if t < 0 then \<lceil>t\<rceil> else \<lfloor>t\<rfloor>)"

definition now_is :: "'n outside \<Rightarrow> ('n, int) watch_task" where
  "now_is o' = (\<lambda>w. (Inr (whole_seconds (o_clock o' (hw_node w))), w))"

section \<open>Parking\<close>

text \<open>A text file read, extended or written; a JSON document is no text file here.\<close>

definition read_lines :: "string \<Rightarrow> ('n, string list) watch_task" where
  "read_lines p = (\<lambda>w. (case map_of (hw_files w) p of
      Some (Text t) \<Rightarrow> Inr (py_lines (universal_newlines t)) | _ \<Rightarrow> Inl OSError, w))"

definition append_text :: "string \<Rightarrow> string \<Rightarrow> ('n, unit) watch_task" where
  "append_text p t = (\<lambda>w. case map_of (hw_files w) p of
      None \<Rightarrow> host_write p (Text t) w
    | Some (Text old) \<Rightarrow> host_write p (Text (old @ t)) w
    | Some (Doc _) \<Rightarrow> (Inl OSError, w))"

definition parked_line :: "int \<Rightarrow> string \<Rightarrow> string" where
  "parked_line stamp text =
     ''['' @ int_string stamp @ ''] '' @ map (\<lambda>c. if c = LF then CHR '' '' else c) text @ [LF]"

text \<open>The time a parked line carries, \<open>re.match(r'\[(\d+)\] ', line)\<close>.\<close>

definition line_stamp :: "string \<Rightarrow> int option" where
  "line_stamp line =
     Option.bind (lit ''['' line) (\<lambda>r.
     Option.bind (some_of is_digit r) (\<lambda>(ds, r).
     Option.bind (lit ''] '' r) (\<lambda>_. Some (int (string_nat ds)))))"

definition still_fresh :: "int \<Rightarrow> string \<Rightarrow> bool" where
  "still_fresh cutoff line = (case line_stamp line of None \<Rightarrow> True | Some s \<Rightarrow> cutoff \<le> s)"

text \<open>\<open>xs[-n:]\<close>.\<close>

definition newest :: "nat \<Rightarrow> 'a list \<Rightarrow> 'a list" where
  "newest n xs = drop (length xs - n) xs"

definition park_file :: "int \<Rightarrow> string \<Rightarrow> ('n, unit) watch_task" where
  "park_file stamp text =
     bnd (host_makedirs (parent_dir PENDING)) (\<lambda>_.
     bnd (append_text PENDING (parked_line stamp text)) (\<lambda>_.
     bnd (read_lines PENDING) (\<lambda>lines.
     host_write PENDING (Text (concat (newest KEEP (filter (still_fresh (stamp - STALE_HOURS * 3600)) lines)))))))"

definition park :: "'n outside \<Rightarrow> string \<Rightarrow> ('n, unit) watch_task" where
  "park o' text =
     bnd (now_is o') (\<lambda>stamp.
     bnd (attempt (\<lambda>e. e = OSError) (park_file stamp text)) (\<lambda>_. ret ()))"

section \<open>State files\<close>

text \<open>\<open>rec[k] = v\<close> and \<open>rec.update(..)\<close> of a dictionary.\<close>

fun jset :: "string \<Rightarrow> json \<Rightarrow> json \<Rightarrow> py_error + json" where
  "jset k v (JObj kvs) = Inr (JObj (dict_set k v kvs))"
| "jset k v _ = Inl TypeError"

text \<open>A JSON file that may be absent or broken.\<close>

definition load_json_file :: "string \<Rightarrow> ('n, json option) watch_task" where
  "load_json_file p =
     bnd (attempt (\<lambda>e. e = OSError \<or> e = ValueError) (host_load p)) (\<lambda>r.
     ret (case r of Inl _ \<Rightarrow> None | Inr j \<Rightarrow> Some j))"

text \<open>Written beside it and renamed; a failure to write is no failure of the run.\<close>

definition save_state_file :: "string \<Rightarrow> json \<Rightarrow> ('n, unit) watch_task" where
  "save_state_file path j =
     bnd (attempt (\<lambda>e. e = OSError)
       (bnd (host_makedirs (parent_dir path)) (\<lambda>_.
        bnd (host_write (path @ ''.tmp'') (Doc j)) (\<lambda>_.
        host_replace (path @ ''.tmp'') path)))) (\<lambda>_. ret ())"

section \<open>Maintenance windows\<close>

text \<open>The open window, if there is one; an expired one is none.\<close>

definition maintenance :: "'n outside \<Rightarrow> ('n, (json \<times> pyfloat) option) watch_task" where
  "maintenance o' =
     bnd (load_json_file MAINT) (\<lambda>m. case m of
       None \<Rightarrow> ret None
     | Some m \<Rightarrow>
         bnd (lift (rbind (jget m ''until'' (JInt 0)) jfloat)) (\<lambda>until w.
           (Inr (if fle until (Fin (o_clock o' (hw_node w))) then None else Some (m, until)), w)))"

text \<open>The label, whose dash is outside the characters modelled and stood for by one of them.\<close>

definition DASH :: char where
  "DASH = CHR 0x97"

definition planned_label :: "'n outside \<Rightarrow> json \<times> pyfloat \<Rightarrow> string \<Rightarrow> ('n, string) watch_task" where
  "planned_label o' m text =
     (case m of (m, until) \<Rightarrow> (\<lambda>w.
        (rbind (jint (JFloat (fdiv_const (fsub until (Fin (o_clock o' (hw_node w)))) 60))) (\<lambda>left.
         rbind (jget m ''reason'' (JStr ''?'')) (\<lambda>reason.
           Inr (''[planned work in progress: '' @ jstr reason @ '' '' @ [DASH] @ '' '' @ int_string left @
             '' min left. This alarm was still sent.]'' @ [LF] @ text))), w)))"

section \<open>Delivery\<close>

definition post_text :: "'n outside \<Rightarrow> json \<Rightarrow> json \<Rightarrow> string \<Rightarrow> ('n, json) watch_task" where
  "post_text o' chat token text = (\<lambda>w.
     case o_post o' (hw_node w) chat token text of (r, n) \<Rightarrow>
       (r, w\<lparr>hw_node := n, ww_posts := ww_posts w @ [(text, r)]\<rparr>))"

definition announce_config :: "json \<Rightarrow> py_error + json \<times> json" where
  "announce_config cfg =
     rbind (jget cfg ''opsChatId'' JNull) (\<lambda>chat.
     rbind (jget cfg ''telegram'' (JObj [])) (\<lambda>t.
     rbind (jget t ''token'' JNull) (\<lambda>token. Inr (chat, token))))"

text \<open>The answer of the chat: taken, refused, or not to be had.\<close>

definition deliver :: "'n outside \<Rightarrow> json \<Rightarrow> json \<Rightarrow> string \<Rightarrow> ('n, unit) watch_task" where
  "deliver o' chat token text =
     bnd (attempt is_exception
       (bnd (post_text o' chat token text) (\<lambda>body.
        bnd (lift (jget body ''ok'' JNull)) (\<lambda>ok.
        if jtruthy ok then ret ()
        else bnd (lift (jget body ''description'' JNull)) (\<lambda>d.
          park o' (text @ ''  [telegram refused it: '' @ take 80 (jstr d) @ '']'')))))) (\<lambda>r.
       case r of
         Inl e \<Rightarrow> park o' (text @ ''  [could not send from that host: '' @ o_etype o' e @ '']'')
       | Inr _ \<Rightarrow> ret ())"

definition send_text :: "'n outside \<Rightarrow> string \<Rightarrow> ('n, unit) watch_task" where
  "send_text o' text0 =
     bnd (maintenance o') (\<lambda>m.
     bnd (case m of None \<Rightarrow> ret text0 | Some m \<Rightarrow> planned_label o' m text0) (\<lambda>text.
     bnd (attempt (\<lambda>e. e = OSError \<or> e = ValueError)
           (bnd (host_load CONF) (\<lambda>cfg. lift (announce_config cfg)))) (\<lambda>r.
       case r of
         Inl _ \<Rightarrow> park o' text
       | Inr (chat, token) \<Rightarrow>
           if \<not> (jtruthy chat \<and> jtruthy token) then park o' text else deliver o' chat token text)))"

definition send :: "'n outside \<Rightarrow> bool \<Rightarrow> string \<Rightarrow> ('n, unit) watch_task" where
  "send o' dry text =
     (if dry then ret ()
      else bnd (\<lambda>w. (Inr (), w\<lparr>ww_said := ww_said w @ [text]\<rparr>)) (\<lambda>_. send_text o' text))"

end
