(* ===== verification/Notify_Facts.thy ===== *)
theory Notify_Facts
  imports Notify
begin

text \<open>
  What \<^theory_text>\<open>Notify\<close> promises: an alarm that is handed over is taken by the chat or is the last line
  of the parking file, and that file keeps at most \<open>KEEP\<close> lines.
\<close>

section \<open>Lines of a file that grows\<close>

lemma newlines_append: "a = [] \<or> last a = LF \<Longrightarrow> universal_newlines (a @ b) = universal_newlines a @ universal_newlines b"
proof (induction a rule: universal_newlines.induct)
  case (2 c)
  then show ?case by (cases b) (auto simp: LF_def)
next
  case (3 c d s)
  show ?case
  proof (cases "c = CHR 0x0D \<and> d = LF")
    case True
    with 3 show ?thesis by (cases "s = []") (auto simp: LF_def)
  next
    case False
    with 3 show ?thesis by (cases "c = CHR 0x0D") (auto simp: LF_def)
  qed
qed simp

lemma newlines_plain: "CHR 0x0D \<notin> set s \<Longrightarrow> universal_newlines s = s"
  by (induction s rule: universal_newlines.induct) auto

lemma newlines_last: "s \<noteq> [] \<Longrightarrow> last s = LF \<Longrightarrow> universal_newlines s \<noteq> [] \<and> last (universal_newlines s) = LF"
  by (induction s rule: universal_newlines.induct) (auto simp: LF_def split: if_splits)

lemma py_lines_Nil [simp]: "py_lines [] = []"
  by (simp add: py_lines.simps)

lemma py_lines_break:
  assumes "LF \<notin> set l" shows "py_lines (l @ LF # r) = (l @ [LF]) # py_lines r"
proof -
  have "takeWhile (\<lambda>c. c \<noteq> LF) (l @ LF # r) = l" "dropWhile (\<lambda>c. c \<noteq> LF) (l @ LF # r) = LF # r"
    by (intro takeWhile_dropWhile_at; use assms in \<open>auto simp: list_all_iff\<close>)+
  then show ?thesis by (subst py_lines.simps) simp
qed

lemma py_lines_append: "a = [] \<or> last a = LF \<Longrightarrow> py_lines (a @ b) = py_lines a @ py_lines b"
proof (induction a rule: py_lines.induct)
  case (1 a)
  show ?case
  proof (cases "a = []")
    case False
    with 1 have "LF \<in> set a" by (metis last_in_set)
    then obtain l r where a: "a = l @ LF # r" and l: "LF \<notin> set l" by (meson split_list_first)
    have w: "dropWhile (\<lambda>c. c \<noteq> LF) a = LF # r"
      unfolding a by (intro takeWhile_dropWhile_at) (use l in \<open>auto simp: list_all_iff\<close>)
    have "r = [] \<or> last r = LF" using 1(2) False a by (cases "r = []") auto
    with 1(1) [OF False w] have "py_lines (r @ b) = py_lines r @ py_lines b" by blast
    with a l show ?thesis by (simp add: py_lines_break)
  qed simp
qed

section \<open>The parking file\<close>

text \<open>Every writer leaves complete lines.\<close>

definition complete :: "string \<Rightarrow> bool" where
  "complete t \<longleftrightarrow> t = [] \<or> last t = LF"

definition parked_text :: "'n watch_world \<Rightarrow> string option" where
  "parked_text w = (case map_of (hw_files w) PENDING of
     None \<Rightarrow> Some [] | Some (Text t) \<Rightarrow> Some t | Some (Doc _) \<Rightarrow> None)"

definition can_park :: "'n watch_world \<Rightarrow> bool" where
  "can_park w \<longleftrightarrow> hw_dirs w (parent_dir PENDING) \<and> \<not> hw_dirs w PENDING \<and> \<not> hw_denied w PENDING \<and>
     (case parked_text w of None \<Rightarrow> False | Some t \<Rightarrow> complete t)"

lemma int_string_no_break: "LF \<notin> set (int_string n)" "CHR 0x0D \<notin> set (int_string n)"
  using int_string_chars [of n] by (auto simp: list_all_iff LF_def is_space_def)

lemma parked_line_parts:
  "\<exists>l. parked_line s t = l @ [LF] \<and> LF \<notin> set l" "complete (parked_line s t)"
  "CHR 0x0D \<notin> set t \<Longrightarrow> CHR 0x0D \<notin> set (parked_line s t)"
  using int_string_no_break [of s] by (auto simp: parked_line_def LF_def complete_def)

lemma py_lines_parked [simp]: "py_lines (parked_line s t) = [parked_line s t]"
  using parked_line_parts(1) [of s t] py_lines_break [of _ "[]"] by auto

lemma line_stamp_parked: "0 \<le> s \<Longrightarrow> line_stamp (parked_line s t) = Some s"
proof -
  assume "0 \<le> s"
  then have i: "int_string s = nat_string (nat s)" "int (string_nat (nat_string (nat s))) = s"
    by (simp_all add: int_string_def)
  have "\<not> is_digit (CHR '']'')" by (simp add: is_digit_def)
  then have "takeWhile is_digit (nat_string (nat s) @ CHR '']'' # r) = nat_string (nat s)"
    "dropWhile is_digit (nat_string (nat s) @ CHR '']'' # r) = CHR '']'' # r" for r
    using takeWhile_dropWhile_at [OF nat_string_digits] by blast+
  moreover have "nat_string (nat s) \<noteq> []" by (simp add: nat_string_def)
  ultimately show ?thesis
    using i by (simp add: parked_line_def line_stamp_def lit_def some_of_def)
qed

lemma line_stamp_negative: "s < 0 \<Longrightarrow> line_stamp (parked_line s t) = None"
  by (simp add: line_stamp_def parked_line_def lit_def some_of_def int_string_def is_digit_def)

lemma parked_is_fresh [simp]: "still_fresh (s - STALE_HOURS * 3600) (parked_line s t)"
  by (cases "0 \<le> s") (simp_all add: still_fresh_def line_stamp_parked line_stamp_negative STALE_HOURS_def)


lemma parked_is_plain: "CHR 0x0D \<notin> set t \<Longrightarrow> universal_newlines (parked_line s t) = parked_line s t"
  by (rule newlines_plain, rule parked_line_parts)

text \<open>The lines that stay when a text is parked.\<close>

definition kept_lines :: "int \<Rightarrow> string \<Rightarrow> string \<Rightarrow> string list" where
  "kept_lines s text old =
     newest KEEP (filter (still_fresh (s - STALE_HOURS * 3600)) (py_lines (universal_newlines (old @ parked_line s text))))"

lemma length_kept_lines: "length (kept_lines s text old) \<le> KEEP"
  by (simp add: kept_lines_def newest_def)

lemma kept_lines_last:
  assumes "complete old" "CHR 0x0D \<notin> set text"
  shows "\<exists>ls. kept_lines s text old = ls @ [parked_line s text] \<and> length ls < KEEP"
proof -
  let ?xs = "filter (still_fresh (s - STALE_HOURS * 3600)) (py_lines (universal_newlines old))"
  have c: "universal_newlines old = [] \<or> last (universal_newlines old) = LF"
    using assms(1) newlines_last [of old] by (cases "old = []") (auto simp: complete_def)
  have "kept_lines s text old = newest KEEP (?xs @ [parked_line s text])"
    using assms c by (simp add: kept_lines_def complete_def newlines_append parked_is_plain py_lines_append)
  also have "\<dots> = drop (Suc (length ?xs) - KEEP) ?xs @ [parked_line s text]"
    by (simp add: newest_def KEEP_def)
  finally show ?thesis by (auto simp: KEEP_def)
qed

lemma py_lines_complete: "complete t \<Longrightarrow> l \<in> set (py_lines t) \<Longrightarrow> l \<noteq> [] \<and> last l = LF"
proof (induction t rule: py_lines.induct)
  case (1 t)
  show ?case
  proof (cases "t = []")
    case False
    with 1 have "LF \<in> set t" by (metis complete_def last_in_set)
    then obtain a r where t: "t = a @ LF # r" and a: "LF \<notin> set a" by (meson split_list_first)
    have w: "dropWhile (\<lambda>c. c \<noteq> LF) t = LF # r"
      unfolding t by (intro takeWhile_dropWhile_at) (use a in \<open>auto simp: list_all_iff\<close>)
    have "complete r" using 1(2) False t by (cases "r = []") (auto simp: complete_def)
    with 1(1) [OF False w] 1(3) t a show ?thesis by (auto simp: py_lines_break)
  qed (use 1(3) in simp)
qed

lemma complete_concat: "(\<And>l. l \<in> set ls \<Longrightarrow> l \<noteq> [] \<and> last l = LF) \<Longrightarrow> complete (concat ls)"
  by (cases ls rule: rev_cases) (auto simp: complete_def)

lemma kept_lines_complete: "complete old \<Longrightarrow> complete (concat (kept_lines s text old))"
proof (rule complete_concat)
  fix l assume old: "complete old" and l: "l \<in> set (kept_lines s text old)"
  from old have "complete (old @ parked_line s text)"
    using parked_line_parts(2) [of s "text"] by (cases "parked_line s text = []") (auto simp: complete_def)
  then have "complete (universal_newlines (old @ parked_line s text))"
    using newlines_last [of "old @ parked_line s text"] unfolding complete_def by (metis universal_newlines.simps(1))
  moreover have "l \<in> set (py_lines (universal_newlines (old @ parked_line s text)))"
    using l by (auto simp: kept_lines_def newest_def dest!: in_set_dropD)
  ultimately show "l \<noteq> [] \<and> last l = LF" by (rule py_lines_complete)
qed

lemma dict_set_twice [simp]: "dict_set k v (dict_set k u d) = dict_set k v d"
  by (induction d) auto

lemma park_run:
  assumes w: "can_park w" "parked_text w = Some old" and st: "s = whole_seconds (o_clock o' (hw_node w))"
  shows "\<exists>w'. park o' text w = (Inr (), w') \<and> parked_text w' = Some (concat (kept_lines s text old)) \<and>
     can_park w' \<and> hw_node w' = hw_node w \<and> ww_posts w' = ww_posts w"
proof -
  let ?v = "\<lambda>t. w\<lparr>hw_files := dict_set PENDING (Text t) (hw_files w)\<rparr>"
  have c: "complete old" using w by (simp add: can_park_def)
  have wr: "host_write PENDING (Text t) w' = (Inr (), w'\<lparr>hw_files := dict_set PENDING (Text t) (hw_files w')\<rparr>)"
    if "hw_dirs w' = hw_dirs w" "hw_denied w' = hw_denied w" for t and w' :: "'a watch_world"
    using w that by (simp add: host_write_def can_park_def)
  have m: "host_makedirs (parent_dir PENDING) w = (Inr (), w)" using w by (simp add: host_makedirs_def can_park_def)
  have a: "append_text PENDING t w = (Inr (), ?v (old @ t))" for t
    using w(2) by (auto simp: append_text_def parked_text_def wr split: option.splits stored.splits)
  have f: "park_file s text w = (Inr (), ?v (concat (kept_lines s text old)))"
  proof -
    have r: "read_lines PENDING (?v t) = (Inr (py_lines (universal_newlines t)), ?v t)" for t
      by (simp add: read_lines_def)
    show ?thesis
      unfolding park_file_def
      by (simp add: bnd_def m a r wr kept_lines_def)
  qed
  show ?thesis
    using w c kept_lines_complete [OF c, of s "text"]
    by (simp add: park_def bnd_def now_is_def attempt_def f ret_def parked_text_def can_park_def st [symmetric])
qed


section \<open>What becomes of an alarm\<close>

lemma maintenance_world: "maintenance o' w = (r, w') \<Longrightarrow> w' = w"
  by (auto simp: maintenance_def load_json_file_def attempt_def host_load_def bnd_def ret_def lift_def
      split: option.splits prod.splits sum.splits stored.splits if_splits)

lemma planned_label_keeps: "planned_label o' m text w = (r, w') \<Longrightarrow>
    w' = w \<and> (\<forall>t. r = Inr t \<longrightarrow> (\<exists>a. t = a @ text))"
  unfolding planned_label_def
  by (auto simp: rbind_def split: prod.splits sum.splits)

text \<open>The chat answered \<open>ok\<close>.\<close>

definition accepted :: "json \<Rightarrow> bool" where
  "accepted body = (case jget body ''ok'' JNull of Inr ok \<Rightarrow> jtruthy ok | Inl _ \<Rightarrow> False)"

text \<open>The text is in the last line of the parking file, with what the line says around it.\<close>

definition parked_at_the_end :: "int \<Rightarrow> string \<Rightarrow> 'n watch_world \<Rightarrow> bool" where
  "parked_at_the_end s full w \<longleftrightarrow>
     (CHR 0x0D \<notin> set full \<longrightarrow>
       (\<exists>ls. length ls < KEEP \<and> parked_text w = Some (concat ls @ parked_line s full)))"

definition parked_now :: "'n outside \<Rightarrow> string \<Rightarrow> 'n watch_world \<Rightarrow> bool" where
  "parked_now o' text w \<longleftrightarrow>
     (\<exists>a b. parked_at_the_end (whole_seconds (o_clock o' (hw_node w))) (a @ text @ b) w)"

lemma park_leaves:
  assumes "can_park w"
  obtains w' where "park o' (a @ text @ b) w = (Inr (), w')" "can_park w'" "parked_now o' text w'"
    "ww_posts w' = ww_posts w"
proof -
  obtain old where old: "parked_text w = Some old" using assms by (auto simp: can_park_def split: option.splits)
  with assms have c: "complete old" by (simp add: can_park_def)
  from park_run [OF assms old refl] obtain w' where
    w': "park o' (a @ text @ b) w = (Inr (), w')" "can_park w'" "ww_posts w' = ww_posts w" "hw_node w' = hw_node w"
      "parked_text w' = Some (concat (kept_lines (whole_seconds (o_clock o' (hw_node w))) (a @ text @ b) old))"
    by blast
  have "parked_at_the_end (whole_seconds (o_clock o' (hw_node w'))) (a @ text @ b) w'"
    unfolding parked_at_the_end_def
  proof
    assume "CHR 0x0D \<notin> set (a @ text @ b)"
    with kept_lines_last [OF c] obtain ls where
      "kept_lines (whole_seconds (o_clock o' (hw_node w))) (a @ text @ b) old =
         ls @ [parked_line (whole_seconds (o_clock o' (hw_node w))) (a @ text @ b)]" "length ls < KEEP" by blast
    with w'(4,5) show "\<exists>ls. length ls < KEEP \<and> parked_text w' = Some (concat ls @ parked_line
        (whole_seconds (o_clock o' (hw_node w'))) (a @ text @ b))"
      by auto
  qed
  with w' that show thesis unfolding parked_now_def by blast
qed

lemma can_park_log [simp]: "can_park (w\<lparr>hw_node := n, ww_posts := ps\<rparr>) = can_park w"
  "can_park (w\<lparr>ww_said := ss\<rparr>) = can_park w"
  by (simp_all add: can_park_def parked_text_def)

lemma deliver_leaves:
  assumes "can_park w" "deliver o' chat token (pre @ text) w = (r, w')"
  shows "can_park w' \<and> (r = Inr () \<longrightarrow>
    (\<exists>body. ww_posts w' = ww_posts w @ [(pre @ text, Inr body)] \<and> accepted body) \<or> parked_now o' text w')"
proof -
  obtain q n where q: "o_post o' (hw_node w) chat token (pre @ text) = (q, n)" by fastforce
  let ?v = "w\<lparr>hw_node := n, ww_posts := ww_posts w @ [(pre @ text, q)]\<rparr>"
  have v: "can_park ?v" using assms(1) by simp
  have p: "\<exists>u. park o' (pre @ text @ b) ?v = (Inr (), u) \<and> can_park u \<and> parked_now o' text u" for b
    using park_leaves [OF v] by metis
  have post: "post_text o' chat token (pre @ text) w = (q, ?v)" using q by (simp add: post_text_def)
  show ?thesis
  proof (cases q)
    case (Inl e)
    with assms(2) p [of "''  [could not send from that host: '' @ o_etype o' e @ '']''"] v show ?thesis
      by (auto simp: deliver_def bnd_def post attempt_def split: if_splits)
  next
    case (Inr body)
    note run = deliver_def bnd_def post attempt_def lift_def ret_def accepted_def Inr
    note could_not = p [of "''  [could not send from that host: '' @ o_etype o' e @ '']''" for e]
    have raised: "jget body k JNull = Inl e \<Longrightarrow> is_exception e" for k e by (cases body) (auto split: option.splits)
    show ?thesis
    proof (cases "jget body ''ok'' JNull")
      case (Inl e)
      with raised [OF Inl] could_not [of e] assms(2) show ?thesis by (auto simp: run)
    next
      case ok: (Inr ok)
      show ?thesis
      proof (cases "jtruthy ok")
        case True
        with ok assms(2) v show ?thesis by (auto simp: run)
      next
        case no: False
        show ?thesis
        proof (cases "jget body ''description'' JNull")
          case (Inl e)
          with raised [OF Inl] could_not [of e] ok no assms(2) show ?thesis by (auto simp: run)
        next
          case (Inr d)
          with p [of "''  [telegram refused it: '' @ take 80 (jstr d) @ '']''"] ok no assms(2)
          show ?thesis by (auto simp: run)
        qed
      qed
    qed
  qed
qed


lemma caught_world: "host_load p w = (r, v) \<Longrightarrow> v = w"
  by (simp add: host_load_def)

lemma send_text_leaves:
  assumes w: "can_park w" and s: "send_text o' text w = (r, w')"
  shows "can_park w' \<and> (r = Inr () \<longrightarrow>
    (\<exists>pre body. ww_posts w' = ww_posts w @ [(pre @ text, Inr body)] \<and> accepted body) \<or> parked_now o' text w')"
proof -
  obtain rm wm where m: "maintenance o' w = (rm, wm)" by fastforce
  have wm: "wm = w" using maintenance_world [OF m] .
  show ?thesis
  proof (cases rm)
    case (Inl e)
    with s w m wm show ?thesis by (auto simp: send_text_def bnd_def)
  next
    case (Inr mo)
    obtain rl wl where l: "(case mo of None \<Rightarrow> ret text | Some m \<Rightarrow> planned_label o' m text) w = (rl, wl)" by fastforce
    have wl: "wl = w" using l by (cases mo) (auto dest: planned_label_keeps)
    show ?thesis
    proof (cases rl)
      case e: (Inl e)
      with s w m wm Inr l wl show ?thesis by (auto simp: send_text_def bnd_def)
    next
      case t: (Inr t)
      obtain pre where pre: "t = pre @ text" using l t by (cases mo) (auto dest: planned_label_keeps)
      obtain u where u: "park o' (pre @ text) w = (Inr (), u)" "can_park u" "parked_now o' text u"
        using park_leaves [OF w, of o' pre "text" "[]"] by auto
      have d: "can_park v \<and> (q = Inr () \<longrightarrow> (\<exists>body. ww_posts v = ww_posts w @ [(pre @ text, Inr body)] \<and> accepted body) \<or>
          parked_now o' text v)"
        if "deliver o' chat token (pre @ text) w = (q, v)" for chat token q v
        using deliver_leaves [OF w that] .
      from s m [unfolded wm] Inr l [unfolded wl] t pre u w show ?thesis
        by (auto simp: send_text_def bnd_def attempt_def host_load_def lift_def
            split: prod.splits sum.splits if_splits dest!: d)
    qed
  qed
qed



section \<open>What is on record\<close>

text \<open>Sending touches the parking file only, and logs what it was handed.\<close>

definition said_so_far :: "(string \<Rightarrow> stored option) \<Rightarrow> string list \<Rightarrow> 'n watch_world \<Rightarrow> bool" where
  "said_so_far F told w \<longleftrightarrow> (\<forall>p. p \<noteq> PENDING \<longrightarrow> map_of (hw_files w) p = F p) \<and> ww_said w = told"

lemma preserves_pure: "(\<And>w. snd (m w) = w) \<Longrightarrow> preserves I m"
  by (simp add: preserves_def)

lemma said_so_far_host [preserves_rules]:
  "preserves (said_so_far F told) (host_load p)"
  "preserves (said_so_far F told) (host_makedirs p)"
  "preserves (said_so_far F told) (host_write PENDING c)"
  "preserves (said_so_far F told) (read_lines p)"
  "preserves (said_so_far F told) (append_text PENDING t)"
  "preserves (said_so_far F told) (now_is o')"
  "preserves (said_so_far F told) (post_text o' chat token t)"
  by (auto simp: preserves_def said_so_far_def host_load_def host_makedirs_def host_write_def read_lines_def
      append_text_def now_is_def post_text_def split: option.splits stored.splits prod.splits)

lemma said_so_far_park [preserves_rules]: "preserves (said_so_far F told) (park o' t)"
  unfolding park_def park_file_def by (intro preserves_rules)

lemma said_so_far_deliver [preserves_rules]: "preserves (said_so_far F told) (deliver o' chat token t)"
  unfolding deliver_def by (intro preserves_rules)

lemma said_so_far_send_text [preserves_rules]: "preserves (said_so_far F told) (send_text o' t)"
proof -
  have "preserves (said_so_far F told) (maintenance o')"
    by (rule preserves_pure) (metis maintenance_world prod.collapse)
  moreover have "preserves (said_so_far F told) (planned_label o' m t)" for m
    by (rule preserves_pure) (metis planned_label_keeps prod.collapse)
  ultimately show ?thesis unfolding send_text_def by (intro preserves_rules)
qed

lemma send_says:
  assumes "said_so_far F told w" "send o' False t w = (r, w')"
  shows "said_so_far F (told @ [t]) w'"
proof -
  have "said_so_far F (told @ [t]) (w\<lparr>ww_said := ww_said w @ [t]\<rparr>)" using assms(1) by (simp add: said_so_far_def)
  with assms(2) show ?thesis
    by (auto simp: send_def bnd_def intro: preservesD [OF said_so_far_send_text])
qed

text \<open>
  What the watchers rely on: the notifier is told one text after another, and each is on record once it
  was told, whether or not the telling raises.
\<close>

locale notifier =
  fixes tell :: "string \<Rightarrow> ('w, py_error, unit) prog" and world :: "string list \<Rightarrow> 'w \<Rightarrow> bool"
  assumes tells: "world told w \<Longrightarrow> tell t w = (r, w') \<Longrightarrow> world (told @ [t]) w'"
begin

lemma all_told:
  "world told w \<Longrightarrow> for_each (\<lambda>n. tell (f n)) ns w = (Inr us, w') \<Longrightarrow> world (told @ map f ns) w'"
proof (induction ns arbitrary: told w us)
  case (Cons n ns)
  then obtain r v us' where "tell (f n) w = (Inr r, v)" "for_each (\<lambda>n. tell (f n)) ns v = (Inr us', w')"
    by (auto simp: bnd_ok_iff)
  with Cons.IH [OF tells [OF Cons.prems(1)]] show ?case by fastforce
qed simp

lemma told_until_it_raised:
  "world told w \<Longrightarrow> for_each (\<lambda>n. tell (f n)) ns w = (Inl e, w') \<Longrightarrow>
   \<exists>k < length ns. world (told @ map f (take (Suc k) ns)) w'"
proof (induction ns arbitrary: told w)
  case (Cons n ns)
  from Cons.prems(2) [unfolded for_each.simps] show ?case
  proof (cases rule: bnd_cases)
    case (raised e')
    with tells [OF Cons.prems(1) raised(1)] show ?thesis by (intro exI [of _ 0]) simp
  next
    case (returned x v)
    then have "for_each (\<lambda>n. tell (f n)) ns v = (Inl e, w')" by (auto elim: bnd_cases)
    from Cons.IH [OF tells [OF Cons.prems(1) returned(1)] this] obtain k where
      "k < length ns" "world ((told @ [f n]) @ map f (take (Suc k) ns)) w'" by blast
    then show ?thesis by (intro exI [of _ "Suc k"]) simp
  qed
qed simp

end

interpretation nt: notifier "send o' False" "said_so_far F" for o' F
  by unfold_locales (rule send_says)

section \<open>A host without a token\<close>

text \<open>A host without a token on a first alarm, and one with a token whose chat answers.\<close>

definition quiet_host :: "nat \<Rightarrow> nat watch_world" where
  "quiet_host n = \<lparr>hw_node = n, hw_calls = [], hw_files = [],
     hw_dirs = (\<lambda>p. p = ''/var/lib/wam-login-watch''), hw_denied = (\<lambda>_. False), ww_said = [], ww_posts = []\<rparr>"

definition deaf_outside :: "nat outside" where
  "deaf_outside = \<lparr>o_shell = (\<lambda>n argv stdin t. (Not_Started, n)), o_clock = (\<lambda>n. 1000),
     o_post = (\<lambda>n chat token t. (Inl OSError, n)), o_etype = (\<lambda>_. ''URLError'')\<rparr>"

lemma send_without_token:
  assumes "can_park w" "map_of (hw_files w) MAINT = None" "map_of (hw_files w) CONF = None"
  shows "\<exists>w'. send o' False t w = (Inr (), w') \<and> ww_posts w' = ww_posts w"
proof -
  let ?w = "w\<lparr>ww_said := ww_said w @ [t]\<rparr>"
  have "maintenance o' ?w = (Inr None, ?w)"
    using assms(2) by (simp add: maintenance_def load_json_file_def attempt_def host_load_def bnd_def ret_def)
  moreover have "host_load CONF ?w = (Inl OSError, ?w)" using assms(3) by (simp add: host_load_def)
  moreover have "can_park ?w" using assms(1) by simp
  then obtain w' where "park o' t ?w = (Inr (), w')" "ww_posts w' = ww_posts w"
    using park_leaves [of ?w o' "[]" t "[]"] by auto
  ultimately show ?thesis by (simp add: send_def send_text_def bnd_def ret_def attempt_def)
qed

lemma quiet_host_can_park: "can_park (quiet_host n)"
  by (simp add: can_park_def quiet_host_def parked_text_def PENDING_def parent_dir_def path_dirname_def complete_def)


end
