(* ===== verification/Peer_Watch.thy ===== *)
theory Peer_Watch
  imports Notify
begin

text \<open>
  \<open>scripts/peer_watch.py\<close>: from a timer, the other seeds are looked for in the peer list of the
  machine's own node; a seed that is missing on three runs in a row is announced once, and once more
  when it is back. The beliefs are kept in a JSON file between the runs. A count or a time in that file
  that is no integer raises.
\<close>

section \<open>The seeds and the state file\<close>

definition SEEDS :: "(string \<times> string) list" where
  "SEEDS = [(''169.58.159.165'', ''France''), (''5.223.52.200'', ''Singapore''), (''13.140.33.187'', ''US-east'')]"

definition MISSES_BEFORE_ALARM :: int where
  "MISSES_BEFORE_ALARM = 3"

record peer_config =
  pc_state :: string
  pc_cli :: string
  pc_network :: string
  pc_conf :: string
  pc_datadir :: string

text \<open>\<open>Path.with_suffix('.tmp')\<close>.\<close>

definition with_tmp :: "string \<Rightarrow> string" where
  "with_tmp p =
     (let name = path_basename p;
          ext = takeWhile (\<lambda>c. c \<noteq> CHR ''.'') (rev name)
      in (if CHR ''.'' \<in> set (tl name) \<and> ext \<noteq> [] then take (length p - Suc (length ext)) p else p) @ ''.tmp'')"

definition load_state :: "string \<Rightarrow> ('n, json) watch_task" where
  "load_state path =
     bnd (attempt is_exception (host_load path)) (\<lambda>r. ret (case r of Inl _ \<Rightarrow> JObj [] | Inr j \<Rightarrow> j))"

text \<open>A failure to save is printed and the run goes on.\<close>

definition save_json :: "string \<Rightarrow> json \<Rightarrow> ('n, unit) watch_task" where
  "save_json path state =
     bnd (attempt is_exception
       (bnd (host_makedirs (parent_dir path)) (\<lambda>_.
        bnd (host_write (with_tmp path) (Doc state)) (\<lambda>_.
        host_replace (with_tmp path) path)))) (\<lambda>_. ret ())"

section \<open>Who is here and who is seen\<close>

definition me :: "'n outside \<Rightarrow> ('n, string option) watch_task" where
  "me o' =
     bnd (attempt is_exception (subprocess_run (o_shell o') [''hostname'', ''-I''] [] 10)) (\<lambda>r.
     ret (case r of
         Inl _ \<Rightarrow> None
       | Inr (rc, out, err) \<Rightarrow> find (\<lambda>a. map_of SEEDS a \<noteq> None) (words out)))"

definition host_exists :: "string \<Rightarrow> 'n watch_world \<Rightarrow> bool" where
  "host_exists p w \<longleftrightarrow> map_of (hw_files w) p \<noteq> None \<or> hw_dirs w p"

definition peer_command :: "peer_config \<Rightarrow> bool \<Rightarrow> string list \<Rightarrow> string list" where
  "peer_command c conf args =
     [pc_cli c] @ (if pc_network c = ''testnet'' then [''-testnet''] else [])
       @ (if conf then [''-conf='' @ pc_conf c, ''-datadir='' @ pc_datadir c] else []) @ args"

definition peer_cli :: "'n outside \<Rightarrow> peer_config \<Rightarrow> string list \<Rightarrow> ('n, string option) watch_task" where
  "peer_cli o' c args = (\<lambda>w.
     bnd (attempt is_exception (subprocess_run (o_shell o') (peer_command c (host_exists (pc_conf c) w) args) [] 25)) (\<lambda>r.
       ret (case r of Inl _ \<Rightarrow> None | Inr (rc, out, err) \<Rightarrow> if rc = 0 then Some out else None)) w)"

text \<open>\<open>s.rsplit(':', 1)[0]\<close>.\<close>

definition before_last_colon :: "string \<Rightarrow> string" where
  "before_last_colon s =
     (if CHR '':'' \<in> set s then rev (tl (dropWhile (\<lambda>c. c \<noteq> CHR '':'') (rev s))) else s)"

definition peer_addr :: "json \<Rightarrow> py_error + string" where
  "peer_addr p =
     rbind (jget p ''addr'' (JStr [])) (\<lambda>a. case a of JStr s \<Rightarrow> Inr (before_last_colon s) | _ \<Rightarrow> Inl AttributeError)"

definition visible_peers :: "'n outside \<Rightarrow> peer_config \<Rightarrow> ('n, string list option) watch_task" where
  "visible_peers o' c =
     bnd (peer_cli o' c [''getpeerinfo'']) (\<lambda>raw. case raw of
       None \<Rightarrow> ret None
     | Some raw \<Rightarrow>
         (case json_loads raw of
            Inl e \<Rightarrow> if is_exception e then ret None else throw e
          | Inr peers \<Rightarrow>
              bnd (lift (rbind (jiter peers) (rmap peer_addr))) (\<lambda>addrs. ret (Some addrs))))"

section \<open>One run\<close>

datatype notice = Recovered string string int | Alarm string string int int

fun notice_text :: "string \<Rightarrow> notice \<Rightarrow> string" where
  "notice_text here (Recovered name ip gone) =
     ''RECOVERED  '' @ name @ '' ('' @ ip @ '') is visible again from '' @ here @ '', after about '' @ int_string gone @ '' minute(s).''"
| "notice_text here (Alarm name ip misses mins) =
     ''ALARM  '' @ name @ '' ('' @ ip @ '') has not been a peer of '' @ here @ '' for '' @ int_string misses @ '' checks (~'' @
     int_string mins @ '' min).'' @ [LF] @
     ''This host can still be reached, so this is about that one: either its node is down, or the network between us is.'' @ [LF] @
     ''Nothing here can tell which. Look at the panel, and at whether the explorer and the pool answer.''"

declare notice_text.simps [simp del]

fun as_int :: "json \<Rightarrow> py_error + int" where
  "as_int (JInt n) = Inr n"
| "as_int (JBool b) = Inr (if b then 1 else 0)"
| "as_int _ = Inl TypeError"

text \<open>\<open>int(seconds / 60)\<close>.\<close>

definition minutes :: "int \<Rightarrow> py_error + int" where
  "minutes s = jint (JFloat (int_truediv s 60))"

definition seen_peer :: "string \<Rightarrow> string \<Rightarrow> int \<Rightarrow> json \<Rightarrow> py_error + json \<times> notice list" where
  "seen_peer ip name now rec =
     rbind (jitem rec ''alarmed'') (\<lambda>alarmed.
     rbind (if jtruthy alarmed then
              rbind (rbind (jget rec ''since'' (JInt now)) as_int) (\<lambda>since.
              rbind (minutes (now - since)) (\<lambda>gone. Inr [Recovered name ip gone]))
            else Inr []) (\<lambda>said.
     rbind (jset ''misses'' (JInt 0) rec) (\<lambda>rec.
     rbind (jset ''alarmed'' (JBool False) rec) (\<lambda>rec.
     rbind (jset ''since'' (JInt now) rec) (\<lambda>rec. Inr (rec, said))))))"

definition missed_peer :: "string \<Rightarrow> string \<Rightarrow> int \<Rightarrow> json \<Rightarrow> py_error + json \<times> notice list" where
  "missed_peer ip name now rec =
     rbind (rbind (jitem rec ''misses'') as_int) (\<lambda>m.
     let misses = m + 1 in
     rbind (jset ''misses'' (JInt misses) rec) (\<lambda>rec.
     rbind (if misses = 1 then jset ''since'' (JInt now) rec else Inr rec) (\<lambda>rec.
     rbind (if misses \<ge> MISSES_BEFORE_ALARM
            then rbind (jitem rec ''alarmed'') (\<lambda>al. Inr (\<not> jtruthy al)) else Inr False) (\<lambda>speak.
     if \<not> speak then Inr (rec, [])
     else rbind (jset ''alarmed'' (JBool True) rec) (\<lambda>rec.
       rbind (rbind (jitem rec ''since'') as_int) (\<lambda>since.
       rbind (minutes (now - since)) (\<lambda>mins. Inr (rec, [Alarm name ip misses mins]))))))))"

definition fresh_rec :: "int \<Rightarrow> json" where
  "fresh_rec now = JObj [(''misses'', JInt 0), (''alarmed'', JBool False), (''since'', JInt now)]"

text \<open>One seed: its record, or a fresh one, after this observation.\<close>

definition watch_one :: "string list \<Rightarrow> int \<Rightarrow> string \<times> string \<Rightarrow> json \<Rightarrow> py_error + json \<times> notice list" where
  "watch_one seen now p state =
     (case (p, state) of
        ((ip, name), JObj kvs) \<Rightarrow>
          let rec = (case map_of kvs ip of Some r \<Rightarrow> r | None \<Rightarrow> fresh_rec now)
          in rbind (if ip \<in> set seen then seen_peer ip name now rec else missed_peer ip name now rec) (\<lambda>(rec, said).
               Inr (JObj (dict_set ip rec kvs), said))
      | _ \<Rightarrow> Inl AttributeError)"

fun watch_all :: "string list \<Rightarrow> int \<Rightarrow> (string \<times> string) list \<Rightarrow> json \<Rightarrow> py_error + json \<times> notice list" where
  "watch_all seen now [] state = Inr (state, [])"
| "watch_all seen now (p # ps) state =
     rbind (watch_one seen now p state) (\<lambda>(state, said).
     rbind (watch_all seen now ps state) (\<lambda>(state, more). Inr (state, said @ more)))"

definition here_name :: "string option \<Rightarrow> string" where
  "here_name self = (case self of Some a \<Rightarrow> a | None \<Rightarrow> ''this host'')"

definition started_text :: "string option \<Rightarrow> (string \<times> string) list \<Rightarrow> string" where
  "started_text self watched =
     ''peer watch started on '' @ here_name self @ ''. It is watching '' @ comma_join (sort (map snd watched)) @
     '' through this node'' @ [CHR 0x27] @ ''s own peer list, and will speak only when one of them stops appearing for '' @
     int_string MISSES_BEFORE_ALARM @ '' checks.''"

definition watched_by :: "string option \<Rightarrow> (string \<times> string) list" where
  "watched_by self = sort (filter (\<lambda>(ip, name). Some ip \<noteq> self) SEEDS)"

definition peer_main :: "'n outside \<Rightarrow> peer_config \<Rightarrow> bool \<Rightarrow> bool \<Rightarrow> ('n, int) watch_task" where
  "peer_main o' c dry status =
     bnd (load_state (pc_state c)) (\<lambda>state.
     if status then ret 0
     else bnd (me o') (\<lambda>self.
       let watched = watched_by self in
       if watched = [] then ret 2
       else bnd (visible_peers o' c) (\<lambda>seen. case seen of
         None \<Rightarrow> ret 2
       | Some seen \<Rightarrow>
           bnd (now_is o') (\<lambda>now.
           bnd (lift (watch_all seen now watched state)) (\<lambda>(state', alarms).
           bnd (save_json (pc_state c) state') (\<lambda>_.
           if \<not> jtruthy state then bnd (send o' dry (started_text self watched)) (\<lambda>_. ret 0)
           else if alarms = [] then ret 0
           else bnd (for_each (\<lambda>n. send o' dry (notice_text (here_name self) n)) alarms) (\<lambda>_. ret 1)))))))"

end
