(* ===== verification/Peer_Watch_Facts.thy ===== *)
theory Peer_Watch_Facts
  imports Peer_Watch Notify_Facts
begin

text \<open>
  What \<^theory_text>\<open>Peer_Watch\<close> promises: after any history of observations the record of a seed is the number
  of its latest misses in a row, and it is spoken of exactly when that number becomes three and when it
  is seen again after that.
\<close>

section \<open>Minutes\<close>

definition whole_minutes :: "int \<Rightarrow> int" where
  "whole_minutes d = (if d < 0 then - (- d div 60) else d div 60)"

lemma rnd_close:
  assumes "\<bar>x\<bar> < 2 ^ 40" shows "\<bar>rnd x - x\<bar> < 1 / 60"
proof -
  have "(2::rat) powi (int 40 - 54) = 1 / 16384" by (simp add: power_int_minus field_simps)
  with rnd_near [OF assms] show ?thesis by linarith
qed

lemma minutes_exact:
  assumes "\<bar>d\<bar> < 2 ^ 45" shows "minutes d = Inr (whole_minutes d)"
proof -
  let ?x = "of_int d / 60 :: rat"
  have "\<bar>of_int d :: rat\<bar> < 2 ^ 45"
    using assms by (metis of_int_abs of_int_less_iff of_int_numeral of_int_power)
  then have x: "\<bar>?x\<bar> < 2 ^ 40" by simp
  have near: "\<bar>rnd ?x - ?x\<bar> < 1 / 60" by (rule rnd_close [OF x])
  show ?thesis
  proof (cases "60 dvd d")
    case True
    then obtain k where k: "d = 60 * k" by blast
    then have "?x = of_int k" by simp
    moreover have "\<bar>k\<bar> \<le> 2 ^ 53" using assms k by simp
    ultimately have "rnd ?x = of_int k" by simp
    moreover have "- (60 * k) div 60 = - k" by simp
    ultimately show ?thesis using k x by (simp add: minutes_def int_truediv_def fl_finite [of _ 40] whole_minutes_def)
  next
    case False
    let ?q = "d div 60" and ?r = "d mod 60"
    have r: "1 \<le> ?r" "?r \<le> 59" using False by (simp_all add: dvd_eq_mod_eq_0 order_less_le)
    have "of_int d = (of_int (60 * ?q + ?r) :: rat)" by simp
    then have "?x = of_int ?q + of_int ?r / 60" by (simp only: of_int_add of_int_mult) simp
    moreover have "(1::rat) \<le> of_int ?r" "of_int ?r \<le> (59::rat)" using r by linarith+
    ultimately have b: "of_int ?q < rnd ?x" "rnd ?x < of_int ?q + 1" using near by linarith+
    then have fc: "\<lfloor>rnd ?x\<rfloor> = ?q" "\<lceil>rnd ?x\<rceil> = ?q + 1" by linarith+
    show ?thesis
    proof (cases "d < 0")
      case True
      then have "?q \<le> -1" by linarith
      then have "rnd ?x < 0" using b(2) by linarith
      moreover have "- (- d div 60) = ?q + 1" using r zdiv_zminus1_eq_if [of 60 d] by simp
      ultimately show ?thesis using fc x True
        by (simp add: minutes_def int_truediv_def fl_finite [of _ 40] whole_minutes_def)
    next
      case d: False
      then have "0 \<le> ?q" by simp
      then have "0 < rnd ?x" using b(1) by linarith
      with fc x d show ?thesis by (simp add: minutes_def int_truediv_def fl_finite [of _ 40] whole_minutes_def)
    qed
  qed
qed


section \<open>Beliefs\<close>

text \<open>The record of a seed: the misses in a row, and the time of the first of them.\<close>

definition belief_rec :: "nat \<times> int \<Rightarrow> json" where
  "belief_rec b = JObj [(''misses'', JInt (int (fst b))), (''alarmed'', JBool (3 \<le> fst b)), (''since'', JInt (snd b))]"

definition next_belief :: "bool \<Rightarrow> int \<Rightarrow> nat \<times> int \<Rightarrow> nat \<times> int" where
  "next_belief here now b = (if here then (0, now) else (Suc (fst b), if fst b = 0 then now else snd b))"

definition said_of :: "bool \<Rightarrow> int \<Rightarrow> string \<times> string \<Rightarrow> nat \<times> int \<Rightarrow> notice list" where
  "said_of here now p b =
     (if here then (if 3 \<le> fst b then [Recovered (snd p) (fst p) (whole_minutes (now - snd b))] else [])
      else if fst b = 2 then [Alarm (snd p) (fst p) 3 (whole_minutes (now - snd b))] else [])"

definition moment :: "int \<Rightarrow> bool" where
  "moment t \<longleftrightarrow> 0 \<le> t \<and> t < 2 ^ 45"

lemma minutes_between: "moment a \<Longrightarrow> moment b \<Longrightarrow> minutes (a - b) = Inr (whole_minutes (a - b))"
  by (rule minutes_exact) (auto simp: moment_def)

lemma seen_belief:
  "moment now \<Longrightarrow> moment (snd b) \<Longrightarrow>
   seen_peer ip name now (belief_rec b) = Inr (belief_rec (next_belief True now b), said_of True now (ip, name) b)"
  by (simp add: seen_peer_def belief_rec_def next_belief_def said_of_def minutes_between)

lemma missed_belief:
  "moment now \<Longrightarrow> moment (snd b) \<Longrightarrow>
   missed_peer ip name now (belief_rec b) = Inr (belief_rec (next_belief False now b), said_of False now (ip, name) b)"
  by (cases b) (auto simp: missed_peer_def belief_rec_def next_belief_def said_of_def minutes_between MISSES_BEFORE_ALARM_def Let_def)

text \<open>A seed that is not in the file has not been missed.\<close>

definition believed :: "(string \<times> json) list \<Rightarrow> string \<Rightarrow> nat \<times> int \<Rightarrow> bool" where
  "believed kvs ip b \<longleftrightarrow> moment (snd b) \<and> (case map_of kvs ip of None \<Rightarrow> fst b = 0 | Some r \<Rightarrow> r = belief_rec b)"

lemma watch_one_belief:
  assumes "believed kvs ip b" "moment now"
  shows "watch_one seen now (ip, name) (JObj kvs) =
    Inr (JObj (dict_set ip (belief_rec (next_belief (ip \<in> set seen) now b)) kvs), said_of (ip \<in> set seen) now (ip, name) b)"
proof (cases "map_of kvs ip")
  case None
  have f: "fresh_rec now = belief_rec (0, now)" by (simp add: fresh_rec_def belief_rec_def)
  from None assms have "next_belief h now (0, now) = next_belief h now b" "said_of h now (ip, name) (0, now) = said_of h now (ip, name) b" for h
    by (auto simp: believed_def next_belief_def said_of_def)
  with None assms show ?thesis
    using seen_belief [of now "(0, now)"] missed_belief [of now "(0, now)"]
    by (simp add: watch_one_def f moment_def Let_def)
next
  case (Some r)
  with assms show ?thesis by (simp add: watch_one_def believed_def seen_belief missed_belief Let_def)
qed

lemma believed_next: "moment now \<Longrightarrow> moment (snd b) \<Longrightarrow> moment (snd (next_belief h now b))"
  by (simp add: next_belief_def)

text \<open>A run over the seeds: each record takes its step, and what is said is what each seed gives.\<close>

lemma watch_all_beliefs:
  assumes "\<And>p. p \<in> set ps \<Longrightarrow> believed kvs (fst p) (B (fst p))" "distinct (map fst ps)" "moment now"
  shows "\<exists>kvs'. watch_all seen now ps (JObj kvs) =
      Inr (JObj kvs', concat (map (\<lambda>p. said_of (fst p \<in> set seen) now p (B (fst p))) ps)) \<and>
    (\<forall>p \<in> set ps. believed kvs' (fst p) (next_belief (fst p \<in> set seen) now (B (fst p)))) \<and>
    (\<forall>ip. ip \<notin> fst ` set ps \<longrightarrow> map_of kvs' ip = map_of kvs ip)"
  using assms(1,2)
proof (induction ps arbitrary: kvs)
  case (Cons p ps)
  obtain ip name where p: "p = (ip, name)" by fastforce
  let ?n = "next_belief (ip \<in> set seen) now (B ip)"
  let ?kvs = "dict_set ip (belief_rec ?n) kvs"
  have b: "believed kvs ip (B ip)" using Cons.prems(1) [of p] p by simp
  then have m: "moment (snd ?n)" using assms(3) believed_next by (auto simp: believed_def)
  have "believed ?kvs (fst q) (B (fst q))" if "q \<in> set ps" for q
  proof -
    have "fst q \<noteq> ip" using Cons.prems(2) p that by auto
    then show ?thesis using Cons.prems(1) [of q] that by (simp add: believed_def)
  qed
  with Cons.IH [of ?kvs] Cons.prems(2) obtain kvs' where
    k: "watch_all seen now ps (JObj ?kvs) = Inr (JObj kvs', concat (map (\<lambda>p. said_of (fst p \<in> set seen) now p (B (fst p))) ps))"
    "\<forall>p \<in> set ps. believed kvs' (fst p) (next_belief (fst p \<in> set seen) now (B (fst p)))"
    "\<forall>i. i \<notin> fst ` set ps \<longrightarrow> map_of kvs' i = map_of ?kvs i" by auto
  have "ip \<notin> fst ` set ps" using Cons.prems(2) p by auto
  with k(3) m have "believed kvs' ip ?n" by (simp add: believed_def)
  with k p show ?case by (auto simp: watch_one_belief [OF b assms(3)])
qed simp


section \<open>Histories\<close>

text \<open>Runs after one another, each with the peers that were visible and the time.\<close>

fun watch_history :: "(string \<times> string) list \<Rightarrow> (string list \<times> int) list \<Rightarrow> json \<Rightarrow> py_error + json \<times> notice list list" where
  "watch_history ps [] state = Inr (state, [])"
| "watch_history ps ((seen, now) # obs) state =
     rbind (watch_all seen now ps state) (\<lambda>(state, said).
     rbind (watch_history ps obs state) (\<lambda>(state, more). Inr (state, said # more)))"

fun beliefs_after :: "(string list \<times> int) list \<Rightarrow> (string \<Rightarrow> nat \<times> int) \<Rightarrow> string \<Rightarrow> nat \<times> int" where
  "beliefs_after [] B = B"
| "beliefs_after ((seen, now) # obs) B = beliefs_after obs (\<lambda>ip. next_belief (ip \<in> set seen) now (B ip))"

lemma beliefs_after_snoc:
  "beliefs_after (obs @ [(seen, now)]) B ip = next_belief (ip \<in> set seen) now (beliefs_after obs B ip)"
  by (induction obs arbitrary: B) auto

lemma watch_history_beliefs:
  assumes "distinct (map fst ps)"
  shows "(\<And>p. p \<in> set ps \<Longrightarrow> believed kvs (fst p) (B (fst p))) \<Longrightarrow> (\<And>x. x \<in> set obs \<Longrightarrow> moment (snd x)) \<Longrightarrow>
    \<exists>kvs' said. watch_history ps obs (JObj kvs) = Inr (JObj kvs', said) \<and> length said = length obs \<and>
      (\<forall>p \<in> set ps. believed kvs' (fst p) (beliefs_after obs B (fst p))) \<and>
      (\<forall>i < length obs. said ! i =
         concat (map (\<lambda>p. said_of (fst p \<in> set (fst (obs ! i))) (snd (obs ! i)) p (beliefs_after (take i obs) B (fst p))) ps))"
proof (induction obs arbitrary: kvs B)
  case (Cons x obs)
  obtain seen now where x: "x = (seen, now)" by fastforce
  then have "moment now" using Cons.prems(2) [of x] by simp
  from watch_all_beliefs [OF Cons.prems(1) assms this, of seen] obtain kvs1 where
    one: "watch_all seen now ps (JObj kvs) = Inr (JObj kvs1, concat (map (\<lambda>p. said_of (fst p \<in> set seen) now p (B (fst p))) ps))"
    and b: "\<forall>p \<in> set ps. believed kvs1 (fst p) (next_belief (fst p \<in> set seen) now (B (fst p)))" by blast
  obtain kvs' said where more: "watch_history ps obs (JObj kvs1) = Inr (JObj kvs', said)" "length said = length obs"
    "\<forall>p \<in> set ps. believed kvs' (fst p) (beliefs_after obs (\<lambda>ip. next_belief (ip \<in> set seen) now (B ip)) (fst p))"
    "\<forall>i < length obs. said ! i = concat (map (\<lambda>p. said_of (fst p \<in> set (fst (obs ! i))) (snd (obs ! i)) p
         (beliefs_after (take i obs) (\<lambda>ip. next_belief (ip \<in> set seen) now (B ip)) (fst p))) ps)"
    using Cons.IH [of kvs1 "\<lambda>ip. next_belief (ip \<in> set seen) now (B ip)"] b Cons.prems(2) by auto
  show ?case
    using one more x by (auto simp: nth_Cons less_Suc_eq_0_disj split: nat.splits)
qed simp

text \<open>How many of the latest observations, in a row, did not show the seed.\<close>

definition trailing :: "string \<Rightarrow> (string list \<times> int) list \<Rightarrow> nat" where
  "trailing ip obs = length (takeWhile (\<lambda>x. ip \<notin> set (fst x)) (rev obs))"

lemma trailing_snoc [simp]:
  "trailing ip [] = 0"
  "trailing ip (obs @ [x]) = (if ip \<in> set (fst x) then 0 else Suc (trailing ip obs))"
  by (simp_all add: trailing_def)

lemma trailing_le: "trailing ip obs \<le> length obs"
  unfolding trailing_def by (metis length_rev length_takeWhile_le)

lemma beliefs_are_trailing:
  "fst (beliefs_after obs (\<lambda>_. (0, s)) ip) = trailing ip obs \<and>
   (0 < trailing ip obs \<longrightarrow> snd (beliefs_after obs (\<lambda>_. (0, s)) ip) = snd (obs ! (length obs - trailing ip obs)))"
proof (induction obs rule: rev_induct)
  case (snoc x obs)
  obtain seen now where x: "x = (seen, now)" by fastforce
  have "length obs - trailing ip obs < length obs" if "0 < trailing ip obs"
    using that trailing_le [of ip obs] by linarith
  with snoc x show ?case
    using trailing_le [of ip obs]
    by (auto simp: beliefs_after_snoc next_belief_def nth_append)
qed simp


fun about :: "string \<Rightarrow> notice \<Rightarrow> bool" where
  "about ip (Recovered _ i _) = (i = ip)"
| "about ip (Alarm _ i _ _) = (i = ip)"

lemma filter_about:
  assumes "distinct (map fst ps)" "p \<in> set ps"
  shows "filter (about (fst p)) (concat (map (\<lambda>p. said_of (h p) (t p) p (b p)) ps)) = said_of (h p) (t p) p (b p)"
  using assms
proof (induction ps)
  case (Cons q ps)
  have own: "filter (about (fst p)) (said_of (h r) (t r) r (b r)) = (if fst r = fst p then said_of (h r) (t r) r (b r) else [])" for r
    by (simp add: said_of_def)
  have rest: "filter (about (fst p)) (concat (map (\<lambda>p. said_of (h p) (t p) p (b p)) rs)) = []" if "fst p \<notin> fst ` set rs" for rs
    using that by (induction rs) (auto simp: own)
  show ?case
  proof (cases "p = q")
    case True
    with Cons.prems(1) own rest show ?thesis by simp
  next
    case False
    with Cons.prems have p: "p \<in> set ps" by simp
    then have "fst q \<noteq> fst p" using Cons.prems(1) by (auto simp: image_iff)
    with own Cons.IH p Cons.prems(1) show ?thesis by simp
  qed
qed simp

lemma watched_distinct [simp]: "distinct (map fst (watched_by self))"
proof -
  have "distinct (map fst SEEDS)" by (simp add: SEEDS_def)
  then have "inj_on fst (set SEEDS)" "distinct SEEDS" by (simp_all add: distinct_map)
  then show ?thesis by (auto simp: watched_by_def distinct_map intro: inj_on_subset)
qed

lemma sort_Nil_iff: "sort xs = [] \<longleftrightarrow> xs = []"
  by (simp only: flip: length_0_conv) simp

lemma watched_not_Nil [simp]: "watched_by self \<noteq> []"
proof
  assume "watched_by self = []"
  then have w: "Some (fst x) = self" if "x \<in> set SEEDS" for x
    using that by (auto simp: watched_by_def sort_Nil_iff filter_empty_conv)
  have "(''169.58.159.165'', ''France'') \<in> set SEEDS" "(''5.223.52.200'', ''Singapore'') \<in> set SEEDS"
    by (simp_all add: SEEDS_def)
  from this [THEN w] show False by (cases self) simp_all
qed

text \<open>What is to be said of a seed at the \<open>i\<close>-th run.\<close>

definition due_notices :: "string \<times> string \<Rightarrow> (string list \<times> int) list \<Rightarrow> nat \<Rightarrow> notice list" where
  "due_notices p obs i =
     (let k = trailing (fst p) (take i obs); now = snd (obs ! i)
      in if fst p \<in> set (fst (obs ! i))
         then (if 3 \<le> k then [Recovered (snd p) (fst p) (whole_minutes (now - snd (obs ! (i - k))))] else [])
         else if k = 2 then [Alarm (snd p) (fst p) 3 (whole_minutes (now - snd (obs ! (i - 2))))] else [])"

text \<open>C17: "The same host missing on three consecutive runs before it says anything, and it says it once.
  When the host comes back it says that once too, with how long it was gone."  For every history of
  runs from an empty state, and every seed that is watched, what is said of it at the \<open>i\<close>-th run is
  an alarm exactly when that run is the third miss in a row, and a recovery exactly when it is seen
  after three misses or more, both with the minutes since the first of those misses.\<close>

theorem seeds_are_announced_once:
  assumes "p \<in> set (watched_by self)" "\<forall>x \<in> set obs. moment (snd x)"
  shows "\<exists>state said. watch_history (watched_by self) obs (JObj []) = Inr (state, said) \<and> length said = length obs \<and>
    (\<forall>i < length obs. filter (about (fst p)) (said ! i) = due_notices p obs i)"
proof -
  let ?B = "\<lambda>_ :: string. (0 :: nat, 0 :: int)"
  have "believed [] ip (?B ip)" for ip by (simp add: believed_def moment_def)
  then obtain kvs said where h: "watch_history (watched_by self) obs (JObj []) = Inr (JObj kvs, said)" "length said = length obs"
    "\<forall>i < length obs. said ! i = concat (map (\<lambda>p. said_of (fst p \<in> set (fst (obs ! i))) (snd (obs ! i)) p
       (beliefs_after (take i obs) ?B (fst p))) (watched_by self))"
    using watch_history_beliefs [of "watched_by self" "[]" ?B obs] assms(2) by auto
  have "filter (about (fst p)) (said ! i) = due_notices p obs i" if i: "i < length obs" for i
  proof -
    have "filter (about (fst p)) (said ! i) = said_of (fst p \<in> set (fst (obs ! i))) (snd (obs ! i)) p (beliefs_after (take i obs) ?B (fst p))"
      using h(3) i filter_about [OF watched_distinct assms(1)] by simp
    also have "\<dots> = due_notices p obs i"
      using beliefs_are_trailing [of "take i obs" 0 "fst p"] i trailing_le [of "fst p" "take i obs"]
      by (auto simp: said_of_def due_notices_def Let_def min_def)
    finally show ?thesis .
  qed
  with h show ?thesis by blast
qed


lemma singapore_watched: "(''5.223.52.200'', ''Singapore'') \<in> set (watched_by (Some ''169.58.159.165''))"
  by (simp add: watched_by_def SEEDS_def)

lemma seeds_are_announced_once_witness:
  "\<exists>state said. watch_history (watched_by (Some ''169.58.159.165''))
       [([], 0), ([], 300), ([], 600), ([], 900), ([''5.223.52.200''], 1200)] (JObj []) = Inr (state, said) \<and>
     filter (about ''5.223.52.200'') (said ! 1) = [] \<and>
     filter (about ''5.223.52.200'') (said ! 2) = [Alarm ''Singapore'' ''5.223.52.200'' 3 10] \<and>
     filter (about ''5.223.52.200'') (said ! 3) = [] \<and>
     filter (about ''5.223.52.200'') (said ! 4) = [Recovered ''Singapore'' ''5.223.52.200'' 20]"
proof -
  let ?obs = "[([], 0), ([], 300), ([], 600), ([], 900), ([''5.223.52.200''], 1200)] :: (string list \<times> int) list"
  let ?p = "(''5.223.52.200'', ''Singapore'')"
  have "\<forall>x \<in> set ?obs. moment (snd x)" by (simp add: moment_def)
  from seeds_are_announced_once [OF singapore_watched this] obtain state said where
    h: "watch_history (watched_by (Some ''169.58.159.165'')) ?obs (JObj []) = Inr (state, said)"
       "\<forall>i < 5. filter (about ''5.223.52.200'') (said ! i) = due_notices ?p ?obs i" by auto
  have "due_notices ?p ?obs 1 = []" "due_notices ?p ?obs 2 = [Alarm ''Singapore'' ''5.223.52.200'' 3 10]" "due_notices ?p ?obs 3 = []"
    "due_notices ?p ?obs 4 = [Recovered ''Singapore'' ''5.223.52.200'' 20]"
    by (simp_all add: due_notices_def trailing_def whole_minutes_def Let_def)
  with h(2) have "filter (about ''5.223.52.200'') (said ! 1) = []"
    "filter (about ''5.223.52.200'') (said ! 2) = [Alarm ''Singapore'' ''5.223.52.200'' 3 10]"
    "filter (about ''5.223.52.200'') (said ! 3) = []"
    "filter (about ''5.223.52.200'') (said ! 4) = [Recovered ''Singapore'' ''5.223.52.200'' 20]" by simp_all
  with h(1) show ?thesis by blast
qed


section \<open>A run of the machine\<close>

lemma asking_changes_no_file:
  "me o' w = (r, w') \<Longrightarrow> hw_files w' = hw_files w \<and> hw_dirs w' = hw_dirs w \<and> hw_denied w' = hw_denied w \<and> ww_said w' = ww_said w"
  "visible_peers o' c w = (q, w') \<Longrightarrow> hw_files w' = hw_files w \<and> hw_dirs w' = hw_dirs w \<and> hw_denied w' = hw_denied w \<and> ww_said w' = ww_said w"
  by (auto simp: me_def visible_peers_def peer_cli_def subprocess_run_def attempt_def bnd_def ret_def throw_def lift_def
      split: prod.splits sum.splits outcome.splits option.splits if_splits)


definition can_save :: "peer_config \<Rightarrow> 'n watch_world \<Rightarrow> bool" where
  "can_save c w \<longleftrightarrow> (\<forall>p \<in> {pc_state c, with_tmp (pc_state c)}.
     hw_dirs w (parent_dir p) \<and> \<not> hw_dirs w p \<and> \<not> hw_denied w p)"

definition state_file :: "peer_config \<Rightarrow> 'n watch_world \<Rightarrow> (string \<times> json) list \<Rightarrow> bool" where
  "state_file c w kvs \<longleftrightarrow> map_of (hw_files w) (pc_state c) = Some (Doc (JObj kvs)) \<or>
     map_of (hw_files w) (pc_state c) = None \<and> kvs = []"

lemma load_state_run: "state_file c w kvs \<Longrightarrow> load_state (pc_state c) w = (Inr (JObj kvs), w)"
  by (auto simp: state_file_def load_state_def host_load_def attempt_def bnd_def)

lemma save_json_run:
  assumes "can_save c w"
  obtains v where "save_json (pc_state c) j w = (Inr (), v)"
    "map_of (hw_files v) (pc_state c) = Some (Doc j)" "ww_said v = ww_said w"
    "hw_dirs v = hw_dirs w" "hw_denied v = hw_denied w"
    "\<And>p. p \<noteq> pc_state c \<Longrightarrow> p \<noteq> with_tmp (pc_state c) \<Longrightarrow> map_of (hw_files v) p = map_of (hw_files w) p"
  using assms
  by (simp add: save_json_def can_save_def host_makedirs_def host_write_def host_replace_def attempt_def bnd_def)

definition due_now :: "(string \<times> string) list \<Rightarrow> string list \<Rightarrow> int \<Rightarrow> (string \<Rightarrow> nat \<times> int) \<Rightarrow> notice list" where
  "due_now ps seen now B = concat (map (\<lambda>p. said_of (fst p \<in> set seen) now p (B (fst p))) ps)"

text \<open>A run up to its sends, in the world \<open>v\<close> in which the state is saved.\<close>

lemma peer_main_run:
  assumes "state_file c w kvs" "can_save c w"
    and self: "me o' w = (Inr self, w1)" and seen: "visible_peers o' c w1 = (Inr (Some seen), w2)"
    and now: "now = whole_seconds (o_clock o' (hw_node w2))" "moment now"
    and B: "\<forall>p \<in> set (watched_by self). believed kvs (fst p) (B (fst p))"
  obtains kvs' v where
    "\<forall>p \<in> set (watched_by self). believed kvs' (fst p) (next_belief (fst p \<in> set seen) now (B (fst p)))"
    "map_of (hw_files v) (pc_state c) = Some (Doc (JObj kvs'))" "ww_said v = ww_said w"
    "hw_dirs v = hw_dirs w" "hw_denied v = hw_denied w"
    "\<And>p. p \<noteq> pc_state c \<Longrightarrow> p \<noteq> with_tmp (pc_state c) \<Longrightarrow> map_of (hw_files v) p = map_of (hw_files w) p"
    "peer_main o' c False False w =
      (if kvs = [] then bnd (send o' False (started_text self (watched_by self))) (\<lambda>_. ret 0)
       else if due_now (watched_by self) seen now B = [] then ret 0
       else bnd (for_each (\<lambda>n. send o' False (notice_text (here_name self) n)) (due_now (watched_by self) seen now B)) (\<lambda>_. ret 1)) v"
proof -
  let ?ps = "watched_by self"
  note q = asking_changes_no_file(1) [OF self] asking_changes_no_file(2) [OF seen]
  obtain kvs' where k: "watch_all seen now ?ps (JObj kvs) = Inr (JObj kvs', due_now ?ps seen now B)"
    "\<forall>p \<in> set ?ps. believed kvs' (fst p) (next_belief (fst p \<in> set seen) now (B (fst p)))"
    using watch_all_beliefs [of ?ps kvs B now seen] B now(2) by (auto simp: due_now_def)
  have "can_save c w2" using assms(2) q by (simp add: can_save_def)
  then obtain v where v: "save_json (pc_state c) (JObj kvs') w2 = (Inr (), v)"
    "map_of (hw_files v) (pc_state c) = Some (Doc (JObj kvs'))" "ww_said v = ww_said w2"
    "hw_dirs v = hw_dirs w2" "hw_denied v = hw_denied w2"
    "\<And>p. p \<noteq> pc_state c \<Longrightarrow> p \<noteq> with_tmp (pc_state c) \<Longrightarrow> map_of (hw_files v) p = map_of (hw_files w2) p"
    by (rule save_json_run [where j = "JObj kvs'"]) (rule that)
  have "peer_main o' c False False w =
      (if kvs = [] then bnd (send o' False (started_text self ?ps)) (\<lambda>_. ret 0)
       else if due_now ?ps seen now B = [] then ret 0
       else bnd (for_each (\<lambda>n. send o' False (notice_text (here_name self) n)) (due_now ?ps seen now B)) (\<lambda>_. ret 1)) v"
    by (simp add: peer_main_def bnd_def Let_def load_state_run [OF assms(1)] self seen now_is_def
        now(1) [symmetric] lift_def k v)
  with k(2) v q that show thesis by auto
qed

text \<open>C20: one run from the timer is one step of the beliefs: it loads them, hands every notice that
  is due to the notifier in the order of the seeds, or the first-run message when there was no state,
  and leaves the next beliefs in the state file, whatever the chat does with the messages.\<close>

theorem a_run_is_one_step:
  assumes "state_file c w kvs" "can_save c w" "pc_state c \<noteq> PENDING"
    and self: "me o' w = (Inr self, w1)" and seen: "visible_peers o' c w1 = (Inr (Some seen), w2)"
    and now: "now = whole_seconds (o_clock o' (hw_node w2))" "moment now"
    and B: "\<forall>p \<in> set (watched_by self). believed kvs (fst p) (B (fst p))"
    and run: "peer_main o' c False False w = (Inr r, w')"
  shows "\<exists>kvs'. state_file c w' kvs' \<and>
    (\<forall>p \<in> set (watched_by self). believed kvs' (fst p) (next_belief (fst p \<in> set seen) now (B (fst p)))) \<and>
    ww_said w' = ww_said w @
      (if kvs = [] then [started_text self (watched_by self)]
       else map (notice_text (here_name self)) (due_now (watched_by self) seen now B)) \<and>
    r = (if kvs \<noteq> [] \<and> due_now (watched_by self) seen now B \<noteq> [] then 1 else 0)"
proof -
  obtain kvs' v where
    k: "\<forall>p \<in> set (watched_by self). believed kvs' (fst p) (next_belief (fst p \<in> set seen) now (B (fst p)))"
    and v: "map_of (hw_files v) (pc_state c) = Some (Doc (JObj kvs'))" "ww_said v = ww_said w"
      "hw_dirs v = hw_dirs w" "hw_denied v = hw_denied w"
      "\<And>p. p \<noteq> pc_state c \<Longrightarrow> p \<noteq> with_tmp (pc_state c) \<Longrightarrow> map_of (hw_files v) p = map_of (hw_files w) p"
    and rest: "peer_main o' c False False w =
      (if kvs = [] then bnd (send o' False (started_text self (watched_by self))) (\<lambda>_. ret 0)
       else if due_now (watched_by self) seen now B = [] then ret 0
       else bnd (for_each (\<lambda>n. send o' False (notice_text (here_name self) n)) (due_now (watched_by self) seen now B)) (\<lambda>_. ret 1)) v"
    by (rule peer_main_run [OF assms(1,2) self seen now B]) (rule that)
  have start: "said_so_far (map_of (hw_files v)) (ww_said w) v" using v by (simp add: said_so_far_def)
  have finished: "\<exists>told. said_so_far (map_of (hw_files v)) (ww_said w @ told) w' \<and>
    told = (if kvs = [] then [started_text self (watched_by self)]
            else map (notice_text (here_name self)) (due_now (watched_by self) seen now B)) \<and>
    r = (if kvs \<noteq> [] \<and> due_now (watched_by self) seen now B \<noteq> [] then 1 else 0)"
    using rest [symmetric, unfolded run] start by (auto simp: bnd_ok_iff split: if_splits dest: send_says nt.all_told)
  then have "map_of (hw_files w') (pc_state c) = Some (Doc (JObj kvs'))"
    using assms(3) v(1) by (auto simp: said_so_far_def)
  with k finished show ?thesis by (auto simp: state_file_def said_so_far_def)
qed


text \<open>Singapore has been missing twice when the timer fires on the France host.\<close>

definition france_config :: peer_config where
  "france_config = \<lparr>pc_state = ''/var/lib/wam-peer-watch/state.json'', pc_cli = ''wam-cli'', pc_network = ''testnet'',
     pc_conf = ''/root/.wam/wam.conf'', pc_datadir = ''/root/.wam''\<rparr>"

definition france_beliefs :: "string \<Rightarrow> nat \<times> int" where
  "france_beliefs ip = (if ip = ''5.223.52.200'' then (2, 100) else (0, 100))"

definition france_state :: "(string \<times> json) list" where
  "france_state = [(''5.223.52.200'', belief_rec (2, 100)), (''13.140.33.187'', belief_rec (0, 100))]"

definition france :: "nat watch_world" where
  "france = \<lparr>hw_node = 0, hw_calls = [], hw_files = [(''/var/lib/wam-peer-watch/state.json'', Doc (JObj france_state))],
     hw_dirs = (\<lambda>p. p = ''/var/lib/wam-login-watch'' \<or> p = ''/var/lib/wam-peer-watch''), hw_denied = (\<lambda>_. False),
     ww_said = [], ww_posts = []\<rparr>"

definition france_outside :: "nat outside" where
  "france_outside = \<lparr>o_shell = (\<lambda>n argv stdin t. (Exited 0 (if hd argv = ''hostname'' then ''169.58.159.165 '' else ''[]'') [], n)),
     o_clock = (\<lambda>n. 1000), o_post = (\<lambda>n chat token t. (Inl OSError, n)), o_etype = (\<lambda>_. ''URLError'')\<rparr>"

lemma watched_from_france:
  "watched_by (Some ''169.58.159.165'') = [(''13.140.33.187'', ''US-east''), (''5.223.52.200'', ''Singapore'')]"
  by code_simp

lemma france_asks:
  "\<exists>w1. me france_outside france = (Inr (Some ''169.58.159.165''), w1) \<and>
     (\<exists>w2. visible_peers france_outside france_config w1 = (Inr (Some []), w2) \<and> o_clock france_outside (hw_node w2) = 1000)"
proof -
  have "words ''169.58.159.165 '' = [''169.58.159.165'']" by code_simp
  moreover have "json_loads ''[]'' = Inr (JArr [])" by code_simp
  ultimately show ?thesis
    by (simp add: me_def visible_peers_def peer_cli_def peer_command_def subprocess_run_def attempt_def bnd_def ret_def
        lift_def france_outside_def france_config_def SEEDS_def)
qed

lemma france_files:
  "state_file france_config france france_state" "can_save france_config france" "pc_state france_config \<noteq> PENDING"
  "\<forall>p \<in> set (watched_by (Some ''169.58.159.165'')). believed france_state (fst p) (france_beliefs (fst p))"
  "due_now (watched_by (Some ''169.58.159.165'')) [] 1000 france_beliefs = [Alarm ''Singapore'' ''5.223.52.200'' 3 15]"
  "with_tmp (pc_state france_config) = ''/var/lib/wam-peer-watch/state.tmp''"
proof -
  show t: "with_tmp (pc_state france_config) = ''/var/lib/wam-peer-watch/state.tmp''"
    by (simp add: with_tmp_def france_config_def path_basename_def)
  have "parent_dir ''/var/lib/wam-peer-watch/state.tmp'' = ''/var/lib/wam-peer-watch''"
    "parent_dir ''/var/lib/wam-peer-watch/state.json'' = ''/var/lib/wam-peer-watch''"
    by (simp_all add: parent_dir_def path_dirname_def)
  then show "can_save france_config france" using t by (simp add: can_save_def france_config_def france_def)
qed (simp_all add: state_file_def france_config_def france_def france_state_def PENDING_def watched_from_france
      believed_def moment_def france_beliefs_def due_now_def said_of_def whole_minutes_def)

lemma france_paths:
  "p \<in> {PENDING, MAINT, CONF} \<Longrightarrow>
     p \<noteq> pc_state france_config \<and> p \<noteq> ''/var/lib/wam-peer-watch/state.tmp'' \<and> map_of (hw_files france) p = None"
  by (auto simp: france_config_def france_def PENDING_def MAINT_def CONF_def)

lemma a_run_is_one_step_witness:
  "\<exists>w' kvs'. peer_main france_outside france_config False False france = (Inr 1, w') \<and> state_file france_config w' kvs' \<and>
     believed kvs' ''5.223.52.200'' (3, 100) \<and>
     ww_said w' = [notice_text ''169.58.159.165'' (Alarm ''Singapore'' ''5.223.52.200'' 3 15)]"
proof -
  obtain w1 w2 where self: "me france_outside france = (Inr (Some ''169.58.159.165''), w1)"
    and seen: "visible_peers france_outside france_config w1 = (Inr (Some []), w2)"
    and t: "o_clock france_outside (hw_node w2) = 1000" using france_asks by blast
  have now: "1000 = whole_seconds (o_clock france_outside (hw_node w2))" "moment 1000"
    using t by (simp_all add: whole_seconds_def moment_def)
  let ?say = "\<lambda>n. send france_outside False (notice_text (here_name (Some ''169.58.159.165'')) n)"
  obtain kvs v where "\<forall>p \<in> set (watched_by (Some ''169.58.159.165'')).
        believed kvs (fst p) (next_belief (fst p \<in> set []) 1000 (france_beliefs (fst p)))"
      "map_of (hw_files v) (pc_state france_config) = Some (Doc (JObj kvs))" "ww_said v = ww_said france"
    and v: "hw_dirs v = hw_dirs france" "hw_denied v = hw_denied france"
      "\<And>p. p \<noteq> pc_state france_config \<Longrightarrow> p \<noteq> with_tmp (pc_state france_config) \<Longrightarrow> map_of (hw_files v) p = map_of (hw_files france) p"
    and main: "peer_main france_outside france_config False False france =
      (if france_state = [] then bnd (send france_outside False (started_text (Some ''169.58.159.165'') (watched_by (Some ''169.58.159.165'')))) (\<lambda>_. ret 0)
       else if due_now (watched_by (Some ''169.58.159.165'')) [] 1000 france_beliefs = [] then ret 0
       else bnd (for_each ?say (due_now (watched_by (Some ''169.58.159.165'')) [] 1000 france_beliefs)) (\<lambda>_. ret 1)) v"
    by (rule peer_main_run [OF france_files(1,2) self seen now france_files(4)]) (rule that)
  have state: "france_state \<noteq> []" by (simp add: france_state_def)
  have none: "map_of (hw_files v) p = None" if "p \<in> {PENDING, MAINT, CONF}" for p
    using v(3) [of p] france_paths [OF that] by (simp add: france_files(6))
  then have "map_of (hw_files v) PENDING = None" by blast
  then have park: "can_park v"
    using v(1,2) by (simp add: can_park_def parked_text_def complete_def france_def PENDING_def parent_dir_def path_dirname_def)
  obtain w' where "?say (Alarm ''Singapore'' ''5.223.52.200'' 3 15) v = (Inr (), w')"
    using send_without_token [OF park none none] by blast
  with main state have run: "peer_main france_outside france_config False False france = (Inr 1, w')"
    by (simp add: bnd_def ret_def france_files(5))
  have p: "(''5.223.52.200'', ''Singapore'') \<in> set (watched_by (Some ''169.58.159.165''))" by (rule singapore_watched)
  have n: "next_belief (''5.223.52.200'' \<in> set []) 1000 (france_beliefs ''5.223.52.200'') = (3, 100)"
    by (simp add: next_belief_def france_beliefs_def)
  have none_said: "ww_said france = []" by (simp add: france_def)
  from a_run_is_one_step [OF france_files(1-3) self seen now france_files(4) run] obtain kvs' where
    k: "state_file france_config w' kvs'"
      "\<forall>p \<in> set (watched_by (Some ''169.58.159.165'')). believed kvs' (fst p) (next_belief (fst p \<in> set []) 1000 (france_beliefs (fst p)))"
      "ww_said w' = map (notice_text (here_name (Some ''169.58.159.165''))) [Alarm ''Singapore'' ''5.223.52.200'' 3 15]"
    unfolding france_files(5) none_said using state by auto
  have "believed kvs' ''5.223.52.200'' (3, 100)" using bspec [OF k(2) p] n by simp
  with k(1,3) run show ?thesis by (auto simp: here_name_def)
qed

end
