(* ===== verification/Login_Watch.thy ===== *)
theory Login_Watch
  imports Notify Sha256
begin

text \<open>
  \<open>scripts/login_watch.py\<close>: from a timer, the logins of the last half hour are compared with the keys
  and networks that were used before, the authorised keys, the accounts and the listening ports with
  those of the last run; and what another machine parked (\<^theory_text>\<open>Notify\<close>) is fetched and forwarded.
  Sets of strings are lists here, sorted where the code sorts them. A remembered list whose items are
  no strings raises. The name of the host is read once: nothing writes its file in between.
\<close>

section \<open>Files and digests\<close>

definition WATCH_STATE :: string where
  "WATCH_STATE = ''/var/lib/wam-login-watch/state.json''"

definition AUTHKEYS :: string where
  "AUTHKEYS = ''/root/.ssh/authorized_keys''"

definition OTHERS :: "string list" where
  "OTHERS = [''5.223.52.200'']"

definition REPORT_KEY :: string where
  "REPORT_KEY = ''/root/.ssh/id_report''"

definition FORWARD_PER_RUN :: nat where
  "FORWARD_PER_RUN = 6"

definition load_beliefs :: "('n, json) watch_task" where
  "load_beliefs =
     bnd (load_json_file WATCH_STATE) (\<lambda>r. ret (case r of None \<Rightarrow> JObj [] | Some j \<Rightarrow> j))"

definition save_beliefs :: "json \<Rightarrow> ('n, unit) watch_task" where
  "save_beliefs j =
     bnd (attempt (\<lambda>e. e = OSError)
       (bnd (host_makedirs (parent_dir WATCH_STATE)) (\<lambda>_.
        bnd (host_write (WATCH_STATE @ ''.tmp'') (Doc j)) (\<lambda>_.
        host_replace (WATCH_STATE @ ''.tmp'') WATCH_STATE)))) (\<lambda>_. ret ())"

text \<open>A text file; the characters modelled are encoded in one byte or two.\<close>

definition file_text :: "string \<Rightarrow> ('n, string option) watch_task" where
  "file_text p = (\<lambda>w. (Inr (case map_of (hw_files w) p of Some (Text t) \<Rightarrow> Some t | _ \<Rightarrow> None), w))"

definition encode_char :: "char \<Rightarrow> bytes" where
  "encode_char c =
     (let n = of_char c :: nat
      in if n < 128 then [word_of_nat n] else [word_of_nat (192 + n div 64), word_of_nat (128 + n mod 64)])"

definition hexdigest :: "bytes \<Rightarrow> string" where
  "hexdigest bs = concat (map (\<lambda>b. [hex_char (unat b div 16), hex_char (unat b mod 16)]) bs)"

definition short_digest :: "string \<Rightarrow> string" where
  "short_digest s = take 16 (hexdigest (sha256 (concat (map encode_char s))))"

definition watched_host :: "('n, string) watch_task" where
  "watched_host =
     bnd (file_text ''/etc/hostname'') (\<lambda>t. ret (case t of None \<Rightarrow> ''?'' | Some t \<Rightarrow> strip (universal_newlines t)))"

definition authkeys_digest :: "('n, string option) watch_task" where
  "authkeys_digest = bnd (file_text AUTHKEYS) (\<lambda>t. ret (map_option short_digest t))"

section \<open>What the machine says\<close>

definition not_space :: "char \<Rightarrow> bool" where
  "not_space c \<longleftrightarrow> \<not> is_space c"

text \<open>\<open>re.search(r'(SHA256:\S+)', line)\<close>.\<close>

definition fingerprint_here :: "string \<Rightarrow> string option" where
  "fingerprint_here s =
     Option.bind (lit ''SHA256:'' s) (\<lambda>r. map_option (\<lambda>(f, _). ''SHA256:'' @ f) (some_of not_space r))"

definition known_fingerprints :: "'n outside \<Rightarrow> ('n, string list) watch_task" where
  "known_fingerprints o' =
     bnd (attempt is_exception (subprocess_run (o_shell o') [''ssh-keygen'', ''-lf'', AUTHKEYS] [] 20)) (\<lambda>r.
     ret (case r of Inl _ \<Rightarrow> [] | Inr (rc, out, err) \<Rightarrow> List.map_filter (search fingerprint_here) (text_lines out)))"

record login =
  lg_method :: string
  lg_user :: string
  lg_ip :: string
  lg_fp :: string

definition is_ip_char :: "char \<Rightarrow> bool" where
  "is_ip_char c \<longleftrightarrow> is_hex c \<or> c = CHR '':'' \<or> c = CHR ''.''"

text \<open>The optional \<open>(?:\s+(\S+)\s+(\S+))?\<close>: the second group, if it matches.\<close>

definition key_words :: "string \<Rightarrow> string option" where
  "key_words s =
     Option.bind (some_of is_space s) (\<lambda>(_, r).
     Option.bind (some_of not_space r) (\<lambda>(_, r).
     Option.bind (some_of is_space r) (\<lambda>(_, r).
     map_option fst (some_of not_space r))))"

text \<open>The expression \<open>ACCEPTED\<close> at the start of a text.\<close>

definition accepted_here :: "string \<Rightarrow> login option" where
  "accepted_here s =
     Option.bind (lit ''Accepted '' s) (\<lambda>r.
     Option.bind (some_of not_space r) (\<lambda>(how, r).
     Option.bind (lit '' for '' r) (\<lambda>r.
     Option.bind (some_of not_space r) (\<lambda>(user, r).
     Option.bind (lit '' from '' r) (\<lambda>r.
     Option.bind (some_of is_ip_char r) (\<lambda>(ip, r).
     Option.bind (lit '' port '' r) (\<lambda>r.
     Option.bind (some_of is_digit r) (\<lambda>(_, r).
     map_option (\<lambda>r. \<lparr>lg_method = how, lg_user = user, lg_ip = ip,
         lg_fp = (case key_words r of None \<Rightarrow> ''?'' | Some fp \<Rightarrow> fp)\<rparr>)
       (lit '' ssh2:'' r)))))))))"

definition logins_since :: "'n outside \<Rightarrow> string \<Rightarrow> ('n, login list) watch_task" where
  "logins_since o' since =
     bnd (subprocess_run (o_shell o')
       [''journalctl'', ''-u'', ''ssh'', ''--since'', since, ''--no-pager'', ''-o'', ''cat''] [] 120) (\<lambda>(rc, out, err).
     ret (List.map_filter (search accepted_here) (text_lines out)))"

text \<open>The network of an address, for telling a home line's churn from a stranger.\<close>

definition network_of :: "string \<Rightarrow> string" where
  "network_of ip =
     (if CHR '':'' \<in> set ip then join_char '':'' (take 4 (split_char (CHR '':'') ip)) @ ''::/64''
      else let parts = split_char (CHR ''.'') ip
        in if length parts = 4 then join_char ''.'' (take 3 parts) @ ''.0/24'' else ip)"

definition login_account :: "string \<Rightarrow> string option" where
  "login_account line =
     (let f = split_char (CHR '':'') line
      in if length f > 6 \<and> \<not> (ends_with ''nologin'' (strip (f ! 6)) \<or> ends_with ''false'' (strip (f ! 6)))
         then Some (f ! 0) else None)"

definition login_accounts :: "('n, string list) watch_task" where
  "login_accounts =
     bnd (file_text ''/etc/passwd'') (\<lambda>t.
     ret (case t of None \<Rightarrow> [] | Some t \<Rightarrow> List.map_filter login_account (py_lines (universal_newlines t))))"

text \<open>\<open>s.rsplit(':', 1)[-1]\<close> of the fourth word.\<close>

definition listening_port :: "string \<Rightarrow> string option" where
  "listening_port line =
     (let f = words line in if length f > 3 then Some (rev (takeWhile (\<lambda>c. c \<noteq> CHR '':'') (rev (f ! 3)))) else None)"

definition listening_ports :: "'n outside \<Rightarrow> ('n, string list) watch_task" where
  "listening_ports o' =
     bnd (attempt is_exception (subprocess_run (o_shell o') [''ss'', ''-lntH''] [] 20)) (\<lambda>r.
     ret (case r of Inl _ \<Rightarrow> [] | Inr (rc, out, err) \<Rightarrow> List.map_filter listening_port (text_lines out)))"

section \<open>Comparing\<close>

definition str_items :: "json \<Rightarrow> py_error + string list" where
  "str_items j = rbind (jiter j) (rmap (\<lambda>x. case x of JStr s \<Rightarrow> Inr s | _ \<Rightarrow> Inl TypeError))"

definition pair_items :: "json \<Rightarrow> py_error + (string \<times> string) list" where
  "pair_items j = rbind (jiter j) (rmap (\<lambda>x. case x of JArr [JStr a, JStr b] \<Rightarrow> Inr (a, b) | _ \<Rightarrow> Inl TypeError))"

text \<open>\<open>sorted(set)\<close>, and \<open>a - b\<close> of sets.\<close>

definition sorted_set :: "'a :: linorder list \<Rightarrow> 'a list" where
  "sorted_set xs = sort (remdups xs)"

definition set_minus :: "'a list \<Rightarrow> 'a list \<Rightarrow> 'a list" where
  "set_minus xs ys = filter (\<lambda>x. x \<notin> set ys) xs"

definition unauthorised_text :: "string \<Rightarrow> string \<Rightarrow> string" where
  "unauthorised_text h fp = ''ALARM  a login on '' @ h @ '' used key '' @ fp @ '', which is NOT in authorized_keys. Somebody added a key and removed it again, or sshd is reading a file you do not know about.''"

definition first_key_text :: "string \<Rightarrow> login \<Rightarrow> string" where
  "first_key_text h e = ''ALARM  first ever login on '' @ h @ '' with key '' @ lg_fp e @ '' (user '' @ lg_user e @ '', from '' @ lg_ip e @ ''). It is authorised, but it has never been used here before.''"

definition new_network_text :: "string \<Rightarrow> string \<Rightarrow> string" where
  "new_network_text h net = ''notice  '' @ h @ '': a known key logged in from '' @ net @ '', a network never used here before. If that was not you, it is not you.''"

text \<open>One login, against the keys and networks seen so far.\<close>

definition look_at :: "string \<Rightarrow> string list \<Rightarrow> login \<Rightarrow> string list \<times> (string \<times> string) list \<Rightarrow> string list" where
  "look_at h authorised e seen =
     (let fp = lg_fp e; net = network_of (lg_ip e)
      in if fp \<notin> set authorised \<and> fp \<noteq> ''?'' then [unauthorised_text h fp]
         else if fp \<notin> set (fst seen) \<and> fp \<noteq> ''?'' then [first_key_text h e]
         else if (fp, net) \<notin> set (snd seen) then [new_network_text h net]
         else [])"

fun look_at_all :: "string \<Rightarrow> string list \<Rightarrow> login list \<Rightarrow> string list \<times> (string \<times> string) list \<Rightarrow>
    string list \<times> string list \<times> (string \<times> string) list" where
  "look_at_all h authorised [] seen = ([], seen)"
| "look_at_all h authorised (e # es) seen =
     (let told = look_at h authorised e seen;
          (more, seen') = look_at_all h authorised es (lg_fp e # fst seen, (lg_fp e, network_of (lg_ip e)) # snd seen)
      in (told @ more, seen'))"

definition authkeys_text :: "string \<Rightarrow> string" where
  "authkeys_text h = ''ALARM  '' @ h @ '': authorized_keys CHANGED. Somebody added or removed a key. Check it now.''"

definition compare_authkeys :: "string \<Rightarrow> string option \<Rightarrow> json \<Rightarrow> py_error + string list \<times> json" where
  "compare_authkeys h digest state =
     rbind (jget state ''authkeys'' JNull) (\<lambda>before.
     let changed = (case digest of None \<Rightarrow> False | Some d \<Rightarrow> jtruthy before \<and> before \<noteq> JStr d)
     in rbind (jset ''authkeys'' (case digest of None \<Rightarrow> JNull | Some d \<Rightarrow> JStr d) state) (\<lambda>state.
        Inr (if changed then [authkeys_text h] else [], state)))"

text \<open>What was not there at the last run, for the accounts and for the ports.\<close>

definition compare_set :: "string \<Rightarrow> (string \<Rightarrow> string) \<Rightarrow> string list \<Rightarrow> json \<Rightarrow> py_error + string list \<times> json" where
  "compare_set key say now state =
     rbind (jget state key JNull) (\<lambda>before.
     rbind (if jtruthy before then rbind (str_items before) (\<lambda>old. Inr (set_minus now old)) else Inr []) (\<lambda>new.
     rbind (jset key (JArr (map JStr (sorted_set now))) state) (\<lambda>state.
     Inr (if new \<noteq> [] then [say (comma_join (sorted_set new))] else [], state))))"

definition accounts_text :: "string \<Rightarrow> string \<Rightarrow> string" where
  "accounts_text h new = ''ALARM  '' @ h @ '': new account(s) that can log in: '' @ new"

definition ports_text :: "string \<Rightarrow> string \<Rightarrow> string" where
  "ports_text h new = ''notice  '' @ h @ '': now listening on port(s) '' @ new @ '', which were closed before.''"

definition learned_text :: "string \<Rightarrow> string list \<Rightarrow> (string \<times> string) list \<Rightarrow> string" where
  "learned_text h fps pairs =
     ''login watch started on '' @ h @ ''. It has learned '' @ nat_string (card (set fps)) @ '' key(s) and '' @
     nat_string (card (set pairs)) @ '' network(s) as normal, and will speak only when something is not.''"

definition remember :: "string list \<Rightarrow> (string \<times> string) list \<Rightarrow> json \<Rightarrow> py_error + json" where
  "remember fps pairs state =
     rbind (jset ''fingerprints'' (JArr (map JStr (sorted_set fps))) state)
       (jset ''pairs'' (JArr (map (\<lambda>(fp, net). JArr [JStr fp, JStr net]) (newest 400 (sorted_set pairs)))))"

text \<open>The authorised keys, the accounts and the listening ports.\<close>

definition compare_machine :: "'n outside \<Rightarrow> string \<Rightarrow> json \<Rightarrow> ('n, string list \<times> json) watch_task" where
  "compare_machine o' h state =
     bnd authkeys_digest (\<lambda>digest.
     bnd (lift (compare_authkeys h digest state)) (\<lambda>(told_keys, state).
     bnd login_accounts (\<lambda>accounts.
     bnd (lift (compare_set ''accounts'' (accounts_text h) accounts state)) (\<lambda>(told_accounts, state).
     bnd (listening_ports o') (\<lambda>ports.
     bnd (lift (compare_set ''ports'' (ports_text h) ports state)) (\<lambda>(told_ports, state).
     ret (told_keys @ told_accounts @ told_ports, state)))))))"

definition examine :: "'n outside \<Rightarrow> login list \<Rightarrow> json \<Rightarrow> bool \<Rightarrow> ('n, string list \<times> json) watch_task" where
  "examine o' events state first_run =
     bnd (lift (rbind (jget state ''fingerprints'' (JArr [])) str_items)) (\<lambda>fps.
     bnd (lift (rbind (jget state ''pairs'' (JArr [])) pair_items)) (\<lambda>pairs.
     bnd (known_fingerprints o') (\<lambda>authorised.
     bnd watched_host (\<lambda>h.
     case look_at_all h authorised events (fps, pairs) of (told, fps, pairs) \<Rightarrow>
     bnd (compare_machine o' h state) (\<lambda>(more, state).
     bnd (lift (remember fps pairs state)) (\<lambda>state.
     ret (if first_run then [learned_text h fps pairs] else told @ more, state)))))))"

section \<open>Forwarding\<close>

fun text_before :: "string \<Rightarrow> string \<Rightarrow> string" where
  "text_before n [] = []"
| "text_before n (c # s) = (if starts_with n (c # s) then [] else c # text_before n s)"

text \<open>\<open>re.sub(r'^\[\d+\]\s*', '', line)\<close>.\<close>

definition unstamped :: "string \<Rightarrow> string" where
  "unstamped line =
     (case Option.bind (lit ''['' line) (\<lambda>r. Option.bind (some_of is_digit r) (\<lambda>(_, r). lit '']'' r)) of
        None \<Rightarrow> line | Some r \<Rightarrow> lstrip r)"

text \<open>The lines of the other machine's answer between its marks, without their stamps.\<close>

definition alarm_block :: "string \<Rightarrow> string option" where
  "alarm_block out = map_option (text_before ''###end'') (search (lit ''###alarm'') out)"

definition parked_alarms :: "string \<Rightarrow> string list" where
  "parked_alarms block = map unstamped (filter (\<lambda>l. l \<noteq> []) (map strip (text_lines block)))"

definition waiting_text :: "nat \<Rightarrow> string \<Rightarrow> string" where
  "waiting_text n ip = ''('' @ nat_string n @ '' more line(s) waiting on '' @ ip @ ''; they follow at six per run. Something over there is repeating.)''"

definition forward_block :: "string \<Rightarrow> string \<Rightarrow> string list \<Rightarrow> string list \<times> string list" where
  "forward_block ip block forwarded =
     (let fresh = filter (\<lambda>l. short_digest l \<notin> set forwarded) (parked_alarms block);
          out = take FORWARD_PER_RUN fresh
      in (out @ (if length fresh > FORWARD_PER_RUN then [waiting_text (length fresh - FORWARD_PER_RUN) ip] else []),
          map short_digest out @ forwarded))"

fun collect_from :: "'n outside \<Rightarrow> string list \<Rightarrow> string list \<Rightarrow> ('n, string list \<times> string list) watch_task" where
  "collect_from o' [] forwarded = ret ([], forwarded)"
| "collect_from o' (ip # ips) forwarded =
     bnd (attempt is_exception (subprocess_run (o_shell o')
       [''ssh'', ''-i'', REPORT_KEY, ''-o'', ''BatchMode=yes'', ''-o'', ''ConnectTimeout=10'', ''root@'' @ ip, ''facts''] [] 45)) (\<lambda>r.
     let (out, forwarded) = (case r of
           Inl _ \<Rightarrow> ([], forwarded)
         | Inr (rc, out, err) \<Rightarrow>
             (case alarm_block out of None \<Rightarrow> ([], forwarded) | Some block \<Rightarrow> forward_block ip block forwarded))
     in bnd (collect_from o' ips forwarded) (\<lambda>(more, forwarded). ret (out @ more, forwarded)))"

definition is_there :: "string \<Rightarrow> ('n, bool) watch_task" where
  "is_there p = (\<lambda>w. (Inr (map_of (hw_files w) p \<noteq> None \<or> hw_dirs w p), w))"

definition collect_parked :: "'n outside \<Rightarrow> json \<Rightarrow> ('n, string list \<times> json) watch_task" where
  "collect_parked o' state =
     bnd (is_there REPORT_KEY) (\<lambda>there.
     if \<not> there then ret ([], state)
     else
       bnd (lift (rbind (jget state ''forwarded'' (JArr [])) str_items)) (\<lambda>forwarded.
       bnd (collect_from o' OTHERS forwarded) (\<lambda>(out, forwarded).
       bnd (lift (jset ''forwarded'' (JArr (map JStr (newest 500 (sorted_set forwarded)))) state)) (\<lambda>state.
       ret (out, state)))))"

definition login_main :: "'n outside \<Rightarrow> string \<Rightarrow> bool \<Rightarrow> ('n, int) watch_task" where
  "login_main o' backfill dry =
     bnd load_beliefs (\<lambda>state.
     bnd (lift (jget state ''fingerprints'' JNull)) (\<lambda>fps.
     let first_run = \<not> jtruthy fps
     in bnd (logins_since o' (if first_run then ''2 days ago'' else backfill)) (\<lambda>events.
     bnd (examine o' events state first_run) (\<lambda>(alarms, state).
     bnd (collect_parked o' state) (\<lambda>(parked, state).
     bnd (if dry then ret () else save_beliefs state) (\<lambda>_.
     bnd (for_each (send o' dry) (alarms @ parked)) (\<lambda>_. ret 0)))))))"

end
