(* ===== verification/Login_Watch_Facts.thy ===== *)
theory Login_Watch_Facts
  imports Login_Watch Notify_Facts
begin

text \<open>
  What \<^theory_text>\<open>Login_Watch\<close> promises: a login with a key that is not authorised is announced whatever the
  state remembers, a known key from a known network is not, what another machine parked is read back
  as it was said, and each parked alarm is forwarded once, six in a run.
\<close>

section \<open>Lines that were parked\<close>

text \<open>A text as a parked line carries it: on one line, with nothing around it.\<close>

definition flat :: "string \<Rightarrow> string" where
  "flat t = map (\<lambda>c. if c = LF then CHR '' '' else c) t"

definition parkable :: "string \<Rightarrow> bool" where
  "parkable t \<longleftrightarrow> t \<noteq> [] \<and> \<not> is_space (hd t) \<and> \<not> is_space (last t) \<and> (\<forall>c \<in> set t. is_break c \<longrightarrow> c = LF)"

lemma flat_parkable:
  assumes "parkable t"
  shows "flat t \<noteq> []" "\<not> is_space (hd (flat t))" "\<not> is_space (last (flat t))" "list_all (\<lambda>c. \<not> is_break c) (flat t)"
proof -
  have "\<not> is_break (CHR '' '')" by (simp add: is_break_def)
  moreover have "is_space LF" by (simp add: is_space_def LF_def)
  ultimately show "flat t \<noteq> []" "\<not> is_space (hd (flat t))" "\<not> is_space (last (flat t))" "list_all (\<lambda>c. \<not> is_break c) (flat t)"
    using assms by (auto simp: flat_def parkable_def list_all_iff hd_map last_map)
qed

lemma is_space_breaks: "is_break c \<Longrightarrow> is_space c"
  by (auto simp: is_break_def is_space_def)

lemma strip_trimmed: "s \<noteq> [] \<Longrightarrow> \<not> is_space (hd s) \<Longrightarrow> \<not> is_space (last s) \<Longrightarrow> strip s = s"
proof -
  have d: "xs \<noteq> [] \<Longrightarrow> \<not> is_space (hd xs) \<Longrightarrow> dropWhile is_space xs = xs" for xs by (cases xs) simp_all
  assume "s \<noteq> []" "\<not> is_space (hd s)" "\<not> is_space (last s)"
  then show ?thesis using d [of s] d [of "rev s"] by (simp add: strip_def lstrip_def rstrip_def hd_rev)
qed

lemma lstrip_trimmed: "s \<noteq> [] \<Longrightarrow> \<not> is_space (hd s) \<Longrightarrow> lstrip s = s"
  by (cases s) (simp_all add: lstrip_def)

definition stamp_text :: "int \<Rightarrow> string \<Rightarrow> string" where
  "stamp_text s t = ''['' @ int_string s @ ''] '' @ flat t"

lemma parked_line_flat: "parked_line s t = stamp_text s t @ [LF]"
  by (simp add: parked_line_def stamp_text_def flat_def)

lemma stamp_text_line:
  assumes "parkable t"
  shows "list_all (\<lambda>c. \<not> is_break c) (stamp_text s t)" "strip (stamp_text s t) = stamp_text s t" "stamp_text s t \<noteq> []"
proof -
  have "list_all (\<lambda>c. \<not> is_break c) (int_string s)"
    using int_string_chars [of s] is_space_breaks by (auto simp: list_all_iff)
  then show "list_all (\<lambda>c. \<not> is_break c) (stamp_text s t)"
    using flat_parkable(4) [OF assms] by (simp add: stamp_text_def) (simp add: is_break_def)
  have "\<not> is_space (CHR ''['')" by (simp add: is_space_def)
  then show "strip (stamp_text s t) = stamp_text s t"
    using flat_parkable [OF assms] by (intro strip_trimmed) (simp_all add: stamp_text_def)
qed (simp add: stamp_text_def)

lemma unstamped_stamp_text:
  assumes "parkable t" "0 \<le> s" shows "unstamped (stamp_text s t) = flat t"
proof -
  have i: "int_string s = nat_string (nat s)" using assms(2) by (simp add: int_string_def)
  have "\<not> is_digit (CHR '']'')" by (simp add: is_digit_def)
  then have "takeWhile is_digit (nat_string (nat s) @ CHR '']'' # r) = nat_string (nat s)"
    "dropWhile is_digit (nat_string (nat s) @ CHR '']'' # r) = CHR '']'' # r" for r
    using takeWhile_dropWhile_at [OF nat_string_digits] by blast+
  moreover have "nat_string (nat s) \<noteq> []" by (simp add: nat_string_def)
  moreover have "lstrip (CHR '' '' # flat t) = flat t"
    using lstrip_trimmed [of "flat t"] flat_parkable [OF assms(1)] by (simp add: lstrip_def is_space_def)
  ultimately show ?thesis by (simp add: unstamped_def stamp_text_def i lit_def some_of_def)
qed

lemma parked_lines_are_read_back:
  assumes "\<forall>p \<in> set ps. parkable (snd p) \<and> 0 \<le> fst p"
  shows "parked_alarms (LF # concat (map (\<lambda>p. parked_line (fst p) (snd p)) ps)) = map (\<lambda>p. flat (snd p)) ps"
proof -
  have "parked_alarms (concat (map (\<lambda>p. parked_line (fst p) (snd p)) ps)) = map (\<lambda>p. flat (snd p)) ps"
    using assms
  proof (induction ps)
    case Nil
    then show ?case by (simp add: parked_alarms_def text_lines.simps)
  next
    case (Cons p ps)
    have p: "parkable (snd p)" "0 \<le> fst p" using Cons.prems by auto
    have "text_lines (stamp_text (fst p) (snd p) @ CHR 0x0A # r) = stamp_text (fst p) (snd p) # text_lines r" for r
      by (rule text_lines_Cons) (rule stamp_text_line [OF p(1)])
    with Cons p show ?case
      by (simp add: parked_line_flat parked_alarms_def LF_def stamp_text_line unstamped_stamp_text)
  qed
  moreover have "text_lines (LF # r) = [] # text_lines r" for r using text_lines_Cons [of "[]" r] by (simp add: LF_def)
  ultimately show ?thesis by (simp add: parked_alarms_def strip_def lstrip_def rstrip_def)
qed

text \<open>C19: what a machine without a token parked is what the machine with the token reads: the lines of
  its parking file, as the other machine sends them after its mark, are the texts without the stamps,
  in the order in which they were parked.\<close>

theorem parked_alarms_are_read_back:
  assumes "\<forall>p \<in> set ps. parkable (snd p) \<and> 0 \<le> fst p"
  shows "parked_alarms (LF # concat (map (\<lambda>p. parked_line (fst p) (snd p)) ps)) = map (\<lambda>p. flat (snd p)) ps"
  using assms by (rule parked_lines_are_read_back)

lemma parked_alarms_are_read_back_witness:
  "parked_alarms (LF # parked_line 100 ''one'' @ parked_line 200 (''two'' @ LF # ''lines'')) = [''one'', ''two lines'']"
  using parked_alarms_are_read_back [of "[(100, ''one''), (200, ''two'' @ LF # ''lines'')]"]
  by (simp add: parkable_def is_break_def is_space_def LF_def flat_def)


section \<open>Forwarding\<close>

lemma set_sorted_set [simp]: "set (sorted_set xs) = set xs"
  by (simp add: sorted_set_def)

lemma length_sorted_set: "length (sorted_set xs) = card (set xs)"
  by (simp add: sorted_set_def length_remdups_card_conv)

lemma newest_all: "length xs \<le> n \<Longrightarrow> newest n xs = xs"
  by (simp add: newest_def)

text \<open>The runs of the timer, with nothing but the forwarding in them.\<close>

fun collect_rounds :: "nat \<Rightarrow> 'n outside \<Rightarrow> json \<Rightarrow> ('n, string list list \<times> json) watch_task" where
  "collect_rounds 0 o' state = ret ([], state)"
| "collect_rounds (Suc k) o' state =
     bnd (collect_parked o' state) (\<lambda>(out, state).
     bnd (collect_rounds k o' state) (\<lambda>(outs, state). ret (out # outs, state)))"

definition facts_command :: "string list" where
  "facts_command = [''ssh'', ''-i'', REPORT_KEY, ''-o'', ''BatchMode=yes'', ''-o'', ''ConnectTimeout=10'', ''root@5.223.52.200'', ''facts'']"

text \<open>The other machine keeps answering with the same parking file.\<close>

definition answers_with :: "'n outside \<Rightarrow> string \<Rightarrow> bool" where
  "answers_with o' out \<longleftrightarrow> (\<forall>n. fst (o_shell o' n facts_command [] 45) = Exited 0 out [])"

definition key_there :: "'n watch_world \<Rightarrow> bool" where
  "key_there w \<longleftrightarrow> map_of (hw_files w) REPORT_KEY \<noteq> None"

definition still_to_send :: "string list \<Rightarrow> string list \<Rightarrow> string list" where
  "still_to_send lines sent = filter (\<lambda>l. short_digest l \<notin> set sent) lines"

lemma collect_parked_run:
  assumes "key_there w" "answers_with o' out" "alarm_block out = Some block" "map_of kvs ''forwarded'' = Some (JArr (map JStr old))"
  shows "\<exists>w'. collect_parked o' (JObj kvs) w =
      (Inr (fst (forward_block ''5.223.52.200'' block old),
        JObj (dict_set ''forwarded'' (JArr (map JStr (newest 500 (sorted_set (snd (forward_block ''5.223.52.200'' block old)))))) kvs)), w') \<and>
     key_there w'"
proof -
  obtain n where n: "o_shell o' (hw_node w) facts_command [] 45 = (Exited 0 out [], n)"
    using assms(2) by (metis answers_with_def prod.collapse)
  have items: "str_items (JArr (map JStr old)) = Inr old"
    by (simp add: str_items_def rmap_map_Inr rmap_Inr_iff list_all2_conv_all_nth)
  show ?thesis
    using assms(1,3,4) n items
    by (simp add: collect_parked_def is_there_def key_there_def bnd_def lift_def OTHERS_def attempt_def subprocess_run_def
        facts_command_def [symmetric] ret_def split_beta)
qed


lemma filter_not_taken: "distinct xs \<Longrightarrow> filter (\<lambda>x. x \<notin> set (take n xs)) xs = drop n xs"
proof -
  assume xs: "distinct xs"
  then have "set (take n xs) \<inter> set (drop n xs) = {}" by (rule set_take_disj_set_drop_if_distinct) simp
  then have "filter (\<lambda>x. x \<notin> set (take n xs)) (drop n xs) = drop n xs" by (auto intro: filter_True)
  moreover have "filter (\<lambda>x. x \<notin> set (take n xs)) (take n xs) = []" by simp
  moreover have "xs = take n xs @ drop n xs" by simp
  ultimately show ?thesis by (metis append_Nil filter_append)
qed

lemma still_to_send_next:
  assumes "distinct lines" "inj_on short_digest (set lines)"
    and sent: "set sent = short_digest ` set (take n (still_to_send lines old)) \<union> set old"
  shows "still_to_send lines sent = drop n (still_to_send lines old)"
proof -
  let ?fresh = "still_to_send lines old"
  have sub: "set ?fresh \<subseteq> set lines" by (auto simp: still_to_send_def)
  have "still_to_send lines sent = filter (\<lambda>l. short_digest l \<notin> short_digest ` set (take n ?fresh)) ?fresh"
    by (simp add: still_to_send_def sent conj_commute)
  also have "\<dots> = filter (\<lambda>l. l \<notin> set (take n ?fresh)) ?fresh"
  proof (rule filter_cong [OF refl])
    fix l assume "l \<in> set ?fresh"
    with sub have "l \<in> set lines" "set (take n ?fresh) \<subseteq> set lines" by (auto dest: in_set_takeD)
    then show "(short_digest l \<notin> short_digest ` set (take n ?fresh)) = (l \<notin> set (take n ?fresh))"
      using assms(2) by (simp add: inj_on_image_mem_iff)
  qed
  also have "\<dots> = drop n ?fresh" using assms(1) by (intro filter_not_taken) (simp add: still_to_send_def)
  finally show ?thesis .
qed

text \<open>What the \<open>i\<close>-th run forwards of the lines that were fresh at the first.\<close>

definition share_of_run :: "nat \<Rightarrow> string list \<Rightarrow> string list" where
  "share_of_run i fresh = take 6 (drop (6 * i) fresh) @
     (if 6 * Suc i < length fresh then [waiting_text (length fresh - 6 * Suc i) ''5.223.52.200''] else [])"

lemma forward_block_share:
  "forward_block ip block old = (case ip of _ \<Rightarrow>
     (take 6 (still_to_send (parked_alarms block) old) @
        (if 6 < length (still_to_send (parked_alarms block) old)
         then [waiting_text (length (still_to_send (parked_alarms block) old) - 6) ip] else []),
      map short_digest (take 6 (still_to_send (parked_alarms block) old)) @ old))"
  by (simp add: forward_block_def still_to_send_def FORWARD_PER_RUN_def Let_def)

lemma collect_rounds_run:
  assumes "answers_with o' out" "alarm_block out = Some block" "lines = parked_alarms block"
    and lines: "distinct lines" "inj_on short_digest (set lines)"
  shows "key_there w \<Longrightarrow> map_of kvs ''forwarded'' = Some (JArr (map JStr old)) \<Longrightarrow>
    card (set old \<union> short_digest ` set lines) \<le> 500 \<Longrightarrow>
    \<exists>outs state' w'. collect_rounds k o' (JObj kvs) w = (Inr (outs, state'), w') \<and> length outs = k \<and>
      (\<forall>i < k. outs ! i = share_of_run i (still_to_send lines old))"
proof (induction k arbitrary: w kvs old)
  case (Suc k)
  let ?fresh = "still_to_send lines old"
  let ?sent = "map short_digest (take 6 ?fresh) @ old"
  have sub: "set (take 6 ?fresh) \<subseteq> set lines" by (auto simp: still_to_send_def dest: in_set_takeD)
  then have all: "set ?sent \<union> short_digest ` set lines = set old \<union> short_digest ` set lines" by auto
  have "card (set ?sent) \<le> card (set old \<union> short_digest ` set lines)" using sub by (intro card_mono) auto
  then have n: "newest 500 (sorted_set ?sent) = sorted_set ?sent"
    using Suc.prems(3) by (intro newest_all) (simp add: length_sorted_set)
  obtain v where v: "collect_parked o' (JObj kvs) w =
      (Inr (share_of_run 0 ?fresh, JObj (dict_set ''forwarded'' (JArr (map JStr (sorted_set ?sent))) kvs)), v)" "key_there v"
    using collect_parked_run [OF Suc.prems(1) assms(1,2) Suc.prems(2)] n
    by (auto simp: forward_block_share assms(3) [symmetric] share_of_run_def)
  have next': "still_to_send lines (sorted_set ?sent) = drop 6 ?fresh"
    by (rule still_to_send_next [OF lines]) auto
  have "card (set (sorted_set ?sent) \<union> short_digest ` set lines) \<le> 500" using Suc.prems(3) all by simp
  from Suc.IH [OF v(2) _ this, of "dict_set ''forwarded'' (JArr (map JStr (sorted_set ?sent))) kvs"] obtain outs state' w' where
    r: "collect_rounds k o' (JObj (dict_set ''forwarded'' (JArr (map JStr (sorted_set ?sent))) kvs)) v = (Inr (outs, state'), w')"
      "length outs = k" "\<forall>i < k. outs ! i = share_of_run i (drop 6 ?fresh)"
    unfolding next' by auto
  have "share_of_run i (drop 6 ?fresh) = share_of_run (Suc i) ?fresh" for i
    by (simp add: share_of_run_def add.commute) arith
  with v r show ?case by (auto simp: bnd_def ret_def nth_Cons less_Suc_eq_0_disj split: nat.splits)
qed simp




text \<open>What the set of 500 loses is what sorts first, which can be what was just forwarded.\<close>

lemma least_digest_is_forgotten:
  assumes "x \<notin> set xs" "\<forall>y \<in> set xs. x < y" "500 \<le> card (set xs)"
  shows "x \<notin> set (newest 500 (sorted_set (x # xs)))"
proof -
  have "sorted_set (x # xs) = x # sorted_set xs"
    using assms(1,2) by (auto simp: sorted_set_def insort_is_Cons less_imp_le)
  moreover have "Suc (length (sorted_set xs)) - 500 = Suc (length (sorted_set xs) - 500)"
    using assms(3) by (simp only: length_sorted_set Suc_diff_le)
  ultimately have "set (newest 500 (sorted_set (x # xs))) \<subseteq> set (sorted_set xs)"
    by (simp del: set_sorted_set add: newest_def) (rule set_drop_subset)
  with assms(1) show ?thesis by auto
qed

text \<open>Two parked lines that differ in their stamps only are both forwarded by one run.\<close>

lemma parked_twice_is_forwarded_twice:
  assumes "parkable t" "short_digest (flat t) \<notin> set old" "0 \<le> a" "0 \<le> b"
  shows "fst (forward_block ip (LF # parked_line a t @ parked_line b t) old) = [flat t, flat t]"
  using parked_lines_are_read_back [of "[(a, t), (b, t)]"] assms
  by (simp add: forward_block_share still_to_send_def)


section \<open>Logins\<close>

lemma look_at_all_Cons:
  "fst (look_at_all h authorised (e # es) seen) =
   look_at h authorised e seen @ fst (look_at_all h authorised es (lg_fp e # fst seen, (lg_fp e, network_of (lg_ip e)) # snd seen))"
  by (simp add: Let_def split_beta)

declare look_at_all.simps(2) [simp del]

lemma foreign_key_is_told:
  "e \<in> set events \<Longrightarrow> lg_fp e \<notin> set authorised \<Longrightarrow> lg_fp e \<noteq> ''?'' \<Longrightarrow>
   unauthorised_text h (lg_fp e) \<in> set (fst (look_at_all h authorised events seen))"
proof (induction events arbitrary: seen)
  case (Cons e' es)
  then show ?case by (cases "e = e'") (simp_all add: look_at_all_Cons look_at_def Let_def)
qed simp

lemma known_login_is_quiet:
  "(\<And>e. e \<in> set events \<Longrightarrow> (lg_fp e \<in> set authorised \<and> lg_fp e \<in> set (fst seen) \<or> lg_fp e = ''?'') \<and>
      (lg_fp e, network_of (lg_ip e)) \<in> set (snd seen)) \<Longrightarrow>
   fst (look_at_all h authorised events seen) = []"
proof (induction events arbitrary: seen)
  case (Cons e es)
  have "look_at h authorised e seen = []" using Cons.prems [of e] by (auto simp: look_at_def Let_def)
  moreover have "fst (look_at_all h authorised es (lg_fp e # fst seen, (lg_fp e, network_of (lg_ip e)) # snd seen)) = []"
    using Cons.prems by (intro Cons.IH) auto
  ultimately show ?case by (simp add: look_at_all_Cons)
qed simp

lemma quiet_reads:
  "watched_host w = (r, w') \<Longrightarrow> w' = w \<and> (\<exists>h. r = Inr h)"
  "authkeys_digest w = (q, w') \<Longrightarrow> w' = w"
  "login_accounts w = (p, w') \<Longrightarrow> w' = w"
  by (auto simp: watched_host_def authkeys_digest_def login_accounts_def file_text_def bnd_def ret_def)

text \<open>What \<open>examine\<close> returns begins with what it has to say of the logins.\<close>

lemma examine_tells:
  assumes "examine o' events state False w = (Inr (alarms, state'), w')"
  obtains fps pairs authorised w1 h more where
    "rbind (jget state ''fingerprints'' (JArr [])) str_items = Inr fps"
    "rbind (jget state ''pairs'' (JArr [])) pair_items = Inr pairs"
    "known_fingerprints o' w = (Inr authorised, w1)" "watched_host w1 = (Inr h, w1)"
    "alarms = fst (look_at_all h authorised events (fps, pairs)) @ more"
proof -
  from assms obtain fps pairs authorised v h u more where
    f: "Inr fps = rbind (jget state ''fingerprints'' (JArr [])) str_items" "Inr pairs = rbind (jget state ''pairs'' (JArr [])) pair_items"
    and k: "known_fingerprints o' w = (Inr authorised, v)" and h: "watched_host v = (Inr h, u)"
    and a: "alarms = fst (look_at_all h authorised events (fps, pairs)) @ more"
    by (auto simp: examine_def bnd_ok_iff split_beta simp del: rbind_eq_Inr)
  from h have "u = v" by (auto dest: quiet_reads)
  with that [OF f [symmetric] k _ a] h show thesis by blast
qed

lemma said_so_far_login [preserves_rules]:
  "preserves (said_so_far F told) (load_json_file p)"
  "preserves (said_so_far F told) (subprocess_run sh argv stdin t)"
  "preserves (said_so_far F told) (file_text p)"
  "preserves (said_so_far F told) (is_there p)"
  by (auto simp: preserves_def said_so_far_def load_json_file_def attempt_def host_load_def bnd_def ret_def
      subprocess_run_def file_text_def is_there_def split: prod.splits sum.splits)


lemma said_so_far_examine [preserves_rules]: "preserves (said_so_far F told) (examine o' events state first_run)"
  unfolding examine_def compare_machine_def known_fingerprints_def watched_host_def authkeys_digest_def login_accounts_def
    listening_ports_def
  by (intro preserves_rules)

lemma said_so_far_collect_from [preserves_rules]: "preserves (said_so_far F told) (collect_from o' ips sent)"
  by (induction ips arbitrary: sent) (auto intro!: preserves_rules split: prod.splits)

lemma said_so_far_collect [preserves_rules]: "preserves (said_so_far F told) (collect_parked o' state)"
  unfolding collect_parked_def by (intro preserves_rules)

lemma said_so_far_logins [preserves_rules]: "preserves (said_so_far F told) (logins_since o' since)"
  unfolding logins_since_def by (intro preserves_rules)

text \<open>Saving says nothing.\<close>

lemma saving_says_nothing: "save_beliefs j w = (r, w') \<Longrightarrow> ww_said w' = ww_said w"
  by (auto simp: save_beliefs_def attempt_def bnd_def ret_def host_makedirs_def host_write_def host_replace_def
      split: prod.splits sum.splits option.splits if_splits)

text \<open>C14: "A third fingerprint means somebody put a key there."  Once keys have been learned, a run that
  returns has handed to the notifier, for every login of the last half hour with a key that is not
  authorised now, the alarm that names the key, whatever was remembered of it; and after them, in
  order, everything else it found and what was parked elsewhere, and nothing more.\<close>

theorem foreign_keys_are_announced:
  assumes "load_beliefs w = (Inr state, w)" "jget state ''fingerprints'' JNull = Inr fps" "jtruthy fps"
    and "logins_since o' backfill w = (Inr events, w1)" "examine o' events state False w1 = (Inr (alarms, state1), w2)"
    and "collect_parked o' state1 w2 = (Inr (parked, state2), w3)"
    and "login_main o' backfill False w = (Inr r, w')"
  shows "ww_said w' = ww_said w @ alarms @ parked \<and>
    (\<exists>h authorised w1'. watched_host w1' = (Inr h, w1') \<and> known_fingerprints o' w1 = (Inr authorised, w1') \<and>
      (\<forall>e \<in> set events. lg_fp e \<notin> set authorised \<and> lg_fp e \<noteq> ''?'' \<longrightarrow> unauthorised_text h (lg_fp e) \<in> set alarms))"
proof -
  obtain u where u: "save_beliefs state2 w3 = (Inr (), u)"
    and rest: "bnd (for_each (send o' False) (alarms @ parked)) (\<lambda>_. ret 0) u = (Inr r, w')"
    using assms by (auto simp: login_main_def bnd_ok_iff Let_def)
  define F where "F = map_of (hw_files w)"
  have "said_so_far F (ww_said w) w" by (simp add: F_def said_so_far_def)
  then have "said_so_far F (ww_said w) w3"
    using assms(4-6) said_so_far_logins said_so_far_examine said_so_far_collect by (metis preservesD)
  then have "ww_said u = ww_said w" using saving_says_nothing [OF u] by (simp add: said_so_far_def)
  then have "said_so_far (map_of (hw_files u)) (ww_said w) u" by (simp add: said_so_far_def)
  from nt.all_told [OF this, of o' "\<lambda>t. t" "alarms @ parked"] rest have "ww_said w' = ww_said w @ alarms @ parked"
    by (auto simp: bnd_ok_iff said_so_far_def)
  moreover obtain authorised v h more fps pairs where "known_fingerprints o' w1 = (Inr authorised, v)" "watched_host v = (Inr h, v)"
    "alarms = fst (look_at_all h authorised events (fps, pairs)) @ more"
    using assms(5) by (rule examine_tells)
  ultimately show ?thesis using foreign_key_is_told by (metis UnI1 set_append)
qed


text \<open>A login with a key that is in no file, on a machine without a token.\<close>

definition gate_line :: string where
  "gate_line = ''Accepted publickey for root from 1.2.3.4 port 50022 ssh2: ED25519 SHA256:theirs''"

definition gate_login :: login where
  "gate_login = \<lparr>lg_method = ''publickey'', lg_user = ''root'', lg_ip = ''1.2.3.4'', lg_fp = ''SHA256:theirs''\<rparr>"

definition gate_state :: json where
  "gate_state = JObj [(''fingerprints'', JArr [JStr ''SHA256:mine''])]"

definition gate :: "nat watch_world" where
  "gate = \<lparr>hw_node = 0, hw_calls = [], hw_files = [(WATCH_STATE, Doc gate_state)],
     hw_dirs = (\<lambda>p. p = ''/var/lib/wam-login-watch''), hw_denied = (\<lambda>_. False), ww_said = [], ww_posts = []\<rparr>"

definition gate_outside :: "nat outside" where
  "gate_outside = \<lparr>o_shell = (\<lambda>n argv stdin t. (Exited 0 (if hd argv = ''journalctl'' then gate_line else []) [], n)),
     o_clock = (\<lambda>n. 1000), o_post = (\<lambda>n chat token t. (Inl OSError, n)), o_etype = (\<lambda>_. ''URLError'')\<rparr>"

lemma gate_logins: "List.map_filter (search accepted_here) (text_lines gate_line) = [gate_login]"
  by code_simp

lemma gate_runs:
  "load_beliefs gate = (Inr gate_state, gate)"
  "jget gate_state ''fingerprints'' JNull = Inr (JArr [JStr ''SHA256:mine''])"
  "\<exists>w1. logins_since gate_outside ''30min'' gate = (Inr [gate_login], w1) \<and> hw_files w1 = hw_files gate \<and> hw_dirs w1 = hw_dirs gate \<and>
     hw_denied w1 = hw_denied gate"
proof -
  show "load_beliefs gate = (Inr gate_state, gate)"
    by (simp add: load_beliefs_def load_json_file_def attempt_def host_load_def gate_def bnd_def ret_def)
  show "jget gate_state ''fingerprints'' JNull = Inr (JArr [JStr ''SHA256:mine''])" by (simp add: gate_state_def)
  show "\<exists>w1. logins_since gate_outside ''30min'' gate = (Inr [gate_login], w1) \<and> hw_files w1 = hw_files gate \<and> hw_dirs w1 = hw_dirs gate \<and>
     hw_denied w1 = hw_denied gate"
    by (simp add: logins_since_def subprocess_run_def gate_outside_def bnd_def ret_def gate_logins)
qed

lemma text_lines_Nil [simp]: "text_lines [] = []"
  by (simp add: text_lines.simps)

lemma gate_files:
  "map_of (hw_files gate) ''/etc/hostname'' = None" "map_of (hw_files gate) AUTHKEYS = None"
  "map_of (hw_files gate) ''/etc/passwd'' = None" "map_of (hw_files gate) REPORT_KEY = None" "\<not> hw_dirs gate REPORT_KEY"
  by (simp_all add: gate_def WATCH_STATE_def AUTHKEYS_def REPORT_KEY_def)

lemma gate_examine:
  assumes "hw_files w1 = hw_files gate"
  shows "\<exists>state1 w2. examine gate_outside [gate_login] gate_state False w1 =
      (Inr ([unauthorised_text ''?'' ''SHA256:theirs''], state1), w2) \<and>
    hw_files w2 = hw_files w1 \<and> hw_dirs w2 = hw_dirs w1 \<and> hw_denied w2 = hw_denied w1"
proof -
  have k: "\<exists>v. known_fingerprints gate_outside w1 = (Inr [], v) \<and> hw_files v = hw_files w1 \<and> hw_dirs v = hw_dirs w1 \<and> hw_denied v = hw_denied w1"
    by (simp add: known_fingerprints_def subprocess_run_def gate_outside_def bnd_def ret_def attempt_def List.map_filter_simps)
  then obtain v where v: "known_fingerprints gate_outside w1 = (Inr [], v)" "hw_files v = hw_files w1" "hw_dirs v = hw_dirs w1"
    "hw_denied v = hw_denied w1" by blast
  have f: "file_text p v = (Inr None, v)" if "map_of (hw_files gate) p = None" for p
    using that v(2) assms by (simp add: file_text_def)
  have h: "watched_host v = (Inr ''?'', v)" "authkeys_digest v = (Inr None, v)" "login_accounts v = (Inr [], v)"
    using f gate_files by (simp_all add: watched_host_def authkeys_digest_def login_accounts_def bnd_def ret_def)
  have "\<exists>v2. listening_ports gate_outside v = (Inr [], v2) \<and> hw_files v2 = hw_files v \<and> hw_dirs v2 = hw_dirs v \<and> hw_denied v2 = hw_denied v"
    by (simp add: listening_ports_def subprocess_run_def gate_outside_def bnd_def ret_def attempt_def List.map_filter_simps)
  then obtain v2 where v2: "listening_ports gate_outside v = (Inr [], v2)" "hw_files v2 = hw_files v" "hw_dirs v2 = hw_dirs v"
    "hw_denied v2 = hw_denied v" by blast
  have "fst (look_at_all ''?'' [] [gate_login] seen) = [unauthorised_text ''?'' ''SHA256:theirs'']" for seen
    by (simp add: look_at_all_Cons look_at_def gate_login_def)
  then obtain seen' where l: "look_at_all ''?'' [] [gate_login] ([''SHA256:mine''], []) = ([unauthorised_text ''?'' ''SHA256:theirs''], seen')"
    by (metis prod.collapse)
  then show ?thesis
    using v2(2-4) v(2-4)
    by (cases seen') (simp add: examine_def bnd_def lift_def ret_def gate_state_def str_items_def pair_items_def v(1) h l
        compare_machine_def v2(1) compare_authkeys_def compare_set_def remember_def)
qed


lemma gate_save:
  assumes "hw_files w2 = hw_files gate" "hw_dirs w2 = hw_dirs gate" "hw_denied w2 = hw_denied gate"
  shows "\<exists>u. save_beliefs j w2 = (Inr (), u) \<and> can_park u \<and> map_of (hw_files u) MAINT = None \<and> map_of (hw_files u) CONF = None"
proof -
  have d: "parent_dir WATCH_STATE = ''/var/lib/wam-login-watch''" "parent_dir (WATCH_STATE @ ''.tmp'') = ''/var/lib/wam-login-watch''"
    "parent_dir PENDING = ''/var/lib/wam-login-watch''"
    by (simp_all add: parent_dir_def path_dirname_def WATCH_STATE_def PENDING_def)
  have n: "WATCH_STATE \<noteq> ''/var/lib/wam-login-watch''" "WATCH_STATE @ ''.tmp'' \<noteq> ''/var/lib/wam-login-watch''"
    "PENDING \<noteq> ''/var/lib/wam-login-watch''" "p \<in> {MAINT, CONF, PENDING} \<Longrightarrow> p \<noteq> WATCH_STATE \<and> p \<noteq> WATCH_STATE @ ''.tmp''" for p
    by (auto simp: WATCH_STATE_def PENDING_def MAINT_def CONF_def)
  have f: "hw_files w2 = [(WATCH_STATE, Doc gate_state)]" "hw_dirs w2 p = (p = ''/var/lib/wam-login-watch'')" "\<not> hw_denied w2 p" for p
    using assms by (simp_all add: gate_def)
  show ?thesis
    using n(4) [of MAINT] n(4) [of CONF] n(4) [of PENDING]
    by (simp add: save_beliefs_def attempt_def bnd_def ret_def host_makedirs_def host_write_def host_replace_def
        d n(1-3) f can_park_def parked_text_def complete_def)
qed

lemma foreign_keys_are_announced_witness:
  "\<exists>r w'. login_main gate_outside ''30min'' False gate = (Inr r, w') \<and>
     ww_said w' = [unauthorised_text ''?'' ''SHA256:theirs'']"
proof -
  obtain w1 where w1: "logins_since gate_outside ''30min'' gate = (Inr [gate_login], w1)" "hw_files w1 = hw_files gate"
    "hw_dirs w1 = hw_dirs gate" "hw_denied w1 = hw_denied gate" using gate_runs(3) by blast
  obtain state1 w2 where w2: "examine gate_outside [gate_login] gate_state False w1 = (Inr ([unauthorised_text ''?'' ''SHA256:theirs''], state1), w2)"
    "hw_files w2 = hw_files gate" "hw_dirs w2 = hw_dirs gate" "hw_denied w2 = hw_denied gate" using gate_examine [OF w1(2)] w1 by auto
  have c: "collect_parked gate_outside state1 w2 = (Inr ([], state1), w2)"
    using gate_files(4,5) w2(2,3) by (simp add: collect_parked_def is_there_def bnd_def ret_def)
  obtain u where u: "save_beliefs state1 w2 = (Inr (), u)" "can_park u" "map_of (hw_files u) MAINT = None" "map_of (hw_files u) CONF = None"
    using gate_save [OF w2(2-4)] by blast
  obtain w' where "send gate_outside False (unauthorised_text ''?'' ''SHA256:theirs'') u = (Inr (), w')"
    using send_without_token [OF u(2-4)] by blast
  then have run: "login_main gate_outside ''30min'' False gate = (Inr 0, w')"
    by (simp add: login_main_def bnd_def lift_def gate_runs(1,2) w1(1) w2(1) c u(1) ret_def Let_def)
  from foreign_keys_are_announced [OF gate_runs(1,2) _ w1(1) w2(1) c run]
  have "ww_said w' = ww_said gate @ [unauthorised_text ''?'' ''SHA256:theirs''] @ []" by simp
  moreover have "ww_said gate = []" by (simp add: gate_def)
  ultimately show ?thesis using run by auto
qed

end
