(* ===== verification/Verify_Address.thy ===== *)
theory Verify_Address
  imports Base58
begin

text \<open>
  \<open>scripts/verify_address.py\<close>: an address that was carried by hand is decoded, its checksum and
  version are judged, and after a wrong checksum every text that differs in one character is tried.
  What is printed is the value here.
\<close>

section \<open>Decoding\<close>

definition decode :: "string \<Rightarrow> py_error + bytes \<times> bool" where
  "decode address =
     (if \<not> is_b58 address then Inl ValueError
      else let raw = b58_decode address
        in if length raw \<noteq> 25 then Inl ValueError
           else let payload = take (length raw - 4) raw
             in Inr (payload, drop (length raw - 4) raw = take 4 (sha256 (sha256 payload))))"

text \<open>A correction: the position from 1, the character there, the one that should be, the text.\<close>

type_synonym correction = "nat \<times> char \<times> char \<times> string"

definition passes :: "string \<Rightarrow> bool" where
  "passes cand = (case decode cand of Inr (_, good) \<Rightarrow> good | Inl _ \<Rightarrow> False)"

definition corrections_at :: "string \<Rightarrow> nat \<Rightarrow> correction list" where
  "corrections_at bad i =
     concat (map (\<lambda>c.
       let cand = take i bad @ c # drop (Suc i) bad
       in if c \<noteq> bad ! i \<and> passes cand then [(Suc i, bad ! i, c, cand)] else []) B58)"

definition find_single_char_fix :: "string \<Rightarrow> correction list" where
  "find_single_char_fix bad = concat (map (corrections_at bad) [0..<length bad])"

section \<open>The verdict\<close>

definition NETWORKS :: "(nat \<times> string \<times> string \<times> string) list" where
  "NETWORKS = [(73, ''mainnet'', ''P2PKH'', ''W''), (135, ''mainnet'', ''P2SH'', ''w''),
     (65, ''testnet'', ''P2PKH'', ''T''), (128, ''testnet'', ''P2SH'', ''t'')]"

datatype problem = Bad_Checksum | Unknown_Version nat | Burn_Placeholder

datatype address_verdict = Usage | Malformed | Accepted string string bytes | Refused "problem list" "correction list"

definition problems_of :: "bytes \<Rightarrow> bool \<Rightarrow> problem list" where
  "problems_of payload good =
     (if good then [] else [Bad_Checksum]) @
     (case map_of NETWORKS (unat (payload ! 0)) of None \<Rightarrow> [Unknown_Version (unat (payload ! 0))] | Some _ \<Rightarrow> []) @
     (if drop 1 payload = replicate 20 0 then [Burn_Placeholder] else [])"

text \<open>The script that pays the address.\<close>

definition script_of :: "string \<Rightarrow> bytes \<Rightarrow> bytes" where
  "script_of kind hash =
     (if kind = ''P2PKH'' then [0x76, 0xa9, 0x14] @ hash @ [0x88, 0xac] else [0xa9, 0x14] @ hash @ [0x87])"

definition judge_address :: "string \<Rightarrow> bytes \<Rightarrow> bool \<Rightarrow> address_verdict" where
  "judge_address address payload good =
     (case (problems_of payload good, map_of NETWORKS (unat (payload ! 0))) of
        ([], Some (net, kind, _)) \<Rightarrow> Accepted net kind (script_of kind (drop 1 payload))
      | (problems, _) \<Rightarrow> Refused problems (if good then [] else find_single_char_fix address))"

definition address_main :: "string list \<Rightarrow> address_verdict" where
  "address_main argv =
     (case argv of
        [arg] \<Rightarrow>
          (case decode (strip arg) of
             Inl _ \<Rightarrow> Malformed
           | Inr (payload, good) \<Rightarrow> judge_address (strip arg) payload good)
      | _ \<Rightarrow> Usage)"

fun exit_code :: "address_verdict \<Rightarrow> int" where
  "exit_code Usage = 2"
| "exit_code (Accepted _ _ _) = 0"
| "exit_code _ = 1"

section \<open>What is accepted\<close>

lemma decode_ok_iff:
  "decode s = Inr (p, True) \<longleftrightarrow> length p = 21 \<and> s = b58check p"
proof
  assume d: "decode s = Inr (p, True)"
  then have s: "is_b58 s" and l: "length (b58_decode s) = 25"
    and p: "p = take 21 (b58_decode s)" and c: "drop 21 (b58_decode s) = checksum4 p"
    by (auto simp: decode_def Let_def checksum4_def split: if_splits)
  have "p @ checksum4 p = b58_decode s" unfolding p c [symmetric, unfolded p] by simp
  then have "b58check p = b58_encode (b58_decode s)" by (simp add: b58check_def)
  with s l p show "length p = 21 \<and> s = b58check p" by (simp add: b58.enc_dec)
next
  assume p: "length p = 21 \<and> s = b58check p"
  then have "b58_decode s = p @ checksum4 p" by (simp add: b58check_def b58.dec_enc)
  with p show "decode s = Inr (p, True)" by (simp add: decode_def b58check_def b58.ok_enc Let_def checksum4_def [symmetric])
qed

text \<open>C21: "Check a WAM address before you build anything on it."  The run accepts, with exit status 0,
  exactly the texts that are the checked encoding of a version byte of the network and a 20-byte hash
  that is not the burn placeholder, and the script it prints pays that hash.\<close>

theorem address_is_accepted_iff:
  "address_main [arg] = Accepted net kind script \<longleftrightarrow>
     (\<exists>v hash first. strip arg = b58check (v # hash) \<and> length hash = 20 \<and> hash \<noteq> replicate 20 0 \<and>
        map_of NETWORKS (unat v) = Some (net, kind, first) \<and> script = script_of kind hash)"
proof
  assume a: "address_main [arg] = Accepted net kind script"
  then obtain p good where d: "decode (strip arg) = Inr (p, good)" and j: "judge_address (strip arg) p good = Accepted net kind script"
    by (auto simp: address_main_def split: sum.splits)
  then have n: "problems_of p good = []" "\<exists>first. map_of NETWORKS (unat (p ! 0)) = Some (net, kind, first)"
    "script = script_of kind (drop 1 p)"
    by (auto simp: judge_address_def split: list.splits option.splits prod.splits)
  then have good by (simp add: problems_of_def split: if_splits)
  with d have p: "length p = 21" "strip arg = b58check p" by (simp_all add: decode_ok_iff)
  then obtain v hash where v: "p = v # hash" "length hash = 20" by (cases p) auto
  with n p show "\<exists>v hash first. strip arg = b58check (v # hash) \<and> length hash = 20 \<and> hash \<noteq> replicate 20 0 \<and>
      map_of NETWORKS (unat v) = Some (net, kind, first) \<and> script = script_of kind hash"
    by (auto simp: problems_of_def split: if_splits)
next
  assume "\<exists>v hash first. strip arg = b58check (v # hash) \<and> length hash = 20 \<and> hash \<noteq> replicate 20 0 \<and>
      map_of NETWORKS (unat v) = Some (net, kind, first) \<and> script = script_of kind hash"
  then obtain v hash first where h: "strip arg = b58check (v # hash)" "length hash = 20" "hash \<noteq> replicate 20 0"
      "map_of NETWORKS (unat v) = Some (net, kind, first)" "script = script_of kind hash" by blast
  then have "decode (strip arg) = Inr (v # hash, True)" by (simp add: decode_ok_iff)
  with h show "address_main [arg] = Accepted net kind script"
    by (simp add: address_main_def judge_address_def problems_of_def)
qed

section \<open>One wrong character\<close>

lemma passes_iff: "passes s \<longleftrightarrow> (\<exists>p. length p = 21 \<and> s = b58check p)"
proof -
  have "passes s \<longleftrightarrow> (\<exists>p. decode s = Inr (p, True))"
    by (auto simp: passes_def split: sum.splits prod.splits)
  then show ?thesis by (simp add: decode_ok_iff)
qed

text \<open>A text that differs from another in one place.\<close>

lemma slip_iff:
  assumes "i < length bad" "is_b58 s"
  shows "(\<exists>c \<in> set B58. c \<noteq> bad ! i \<and> s = bad[i := c] \<and> x = (Suc i, bad ! i, c, s)) \<longleftrightarrow>
      length s = length bad \<and> (\<forall>j < length bad. (s ! j = bad ! j) = (j \<noteq> i)) \<and> x = (Suc i, bad ! i, s ! i, s)"
proof
  assume "\<exists>c \<in> set B58. c \<noteq> bad ! i \<and> s = bad[i := c] \<and> x = (Suc i, bad ! i, c, s)"
  with assms(1) show "length s = length bad \<and> (\<forall>j < length bad. (s ! j = bad ! j) = (j \<noteq> i)) \<and> x = (Suc i, bad ! i, s ! i, s)"
    by (auto simp: nth_list_update)
next
  assume r: "length s = length bad \<and> (\<forall>j < length bad. (s ! j = bad ! j) = (j \<noteq> i)) \<and> x = (Suc i, bad ! i, s ! i, s)"
  then have "s = bad[i := s ! i]" using assms(1) by (auto simp: list_eq_iff_nth_eq nth_list_update)
  moreover have "s ! i \<in> set B58" using assms r by (auto simp: is_b58_def list_all_iff)
  ultimately show "\<exists>c \<in> set B58. c \<noteq> bad ! i \<and> s = bad[i := c] \<and> x = (Suc i, bad ! i, c, s)"
    using r assms(1) by (intro bexI [of _ "s ! i"]) auto
qed

lemma corrections_iff:
  "x \<in> set (find_single_char_fix bad) \<longleftrightarrow>
   (\<exists>i < length bad. \<exists>p. length p = 21 \<and>
      (\<exists>c \<in> set B58. c \<noteq> bad ! i \<and> b58check p = bad[i := c] \<and> x = (Suc i, bad ! i, c, b58check p)))"
proof -
  have "x \<in> set (corrections_at bad i) \<longleftrightarrow>
      (\<exists>c \<in> set B58. c \<noteq> bad ! i \<and> passes (bad[i := c]) \<and> x = (Suc i, bad ! i, c, bad[i := c]))" if "i < length bad" for i
    using that by (auto simp: corrections_at_def Let_def upd_conv_take_nth_drop)
  then have "x \<in> set (find_single_char_fix bad) \<longleftrightarrow>
      (\<exists>i < length bad. \<exists>c \<in> set B58. c \<noteq> bad ! i \<and> passes (bad[i := c]) \<and> x = (Suc i, bad ! i, c, bad[i := c]))"
    by (auto simp: find_single_char_fix_def)
  then show ?thesis unfolding passes_iff by metis
qed

lemma differ_in_one:
  "(i < n \<and> (\<forall>j < n. (s ! j = t ! j) = (j \<noteq> i))) = ({j. j < n \<and> s ! j \<noteq> t ! j} = {i})"
  by auto

text \<open>C22: "A 32-bit checksum makes a single-character slip recoverable."  The corrections that are tried
  after a wrong checksum are exactly the texts with a valid checksum that differ from the given one in
  one character, each with its place and both characters: a slip of one character of a valid address
  is always among them.\<close>

theorem one_slip_is_recovered:
  "x \<in> set (find_single_char_fix bad) \<longleftrightarrow>
    (\<exists>i p. length p = 21 \<and> length (b58check p) = length bad \<and>
       {j. j < length bad \<and> b58check p ! j \<noteq> bad ! j} = {i} \<and>
       x = (Suc i, bad ! i, b58check p ! i, b58check p))"
proof -
  have "is_b58 (b58check p)" for p by (simp add: b58check_def b58.ok_enc)
  then have "x \<in> set (find_single_char_fix bad) \<longleftrightarrow>
    (\<exists>i < length bad. \<exists>p. length p = 21 \<and> length (b58check p) = length bad \<and>
       (\<forall>j < length bad. (b58check p ! j = bad ! j) = (j \<noteq> i)) \<and> x = (Suc i, bad ! i, b58check p ! i, b58check p))"
    unfolding corrections_iff by (intro ex_cong1 conj_cong refl) (rule slip_iff)
  then show ?thesis unfolding differ_in_one [symmetric] by blast
qed

end
