(* ===== verification/Pool_Check.thy ===== *)
theory Pool_Check
  imports Sweep Ledger
begin

text \<open>
  \<open>scripts/check_pool.py\<close>: does the pool hand out work, does it pay, and can it pay what it owes. The
  pool's page, the connections to its ports, the node behind \<open>ssh\<close> and the clock are parameters; a
  connection is the list of what arrives on it, with the seconds since it was opened, before nothing
  more arrives in time. Heights and amounts that are no integers raise. A failed check is a value of
  \<open>failing\<close>; what is printed is not modelled.
\<close>

section \<open>The outside\<close>

datatype reply = Chunk string | Broken py_error

record 'n pool_outside =
  po_shell :: "'n shell"
  po_clock :: "'n \<Rightarrow> rat"
  po_fetch :: "'n \<Rightarrow> string \<Rightarrow> (py_error + json) \<times> 'n"
  po_connect :: "'n \<Rightarrow> string \<Rightarrow> json \<Rightarrow> bool \<Rightarrow> string \<Rightarrow> (py_error + (rat \<times> reply) list) \<times> 'n"

record pool_args =
  pa_api :: string
  pa_stratum :: string
  pa_node :: string
  pa_network :: string
  pa_address :: string
  pa_lag :: int
  pa_interval :: int

datatype failing =
    No_Answer | Shape_Changed | Wrong_Height int | No_Split | Split_Off int int int | Wrong_Share
  | No_Ports | No_Connection json | Not_Authorised json | No_Job json | Seed_Ahead json
  | Never_Paid | Run_Stopped | Payouts_Stopped | No_Record | Wallet_Unread | Short_By int

type_synonym ('n, 'a) pool_task = "('n host_world, py_error, 'a) prog"

definition fetch :: "'n pool_outside \<Rightarrow> string \<Rightarrow> ('n, json) pool_task" where
  "fetch o' url = (\<lambda>w. case po_fetch o' (hw_node w) url of (r, n) \<Rightarrow> (r, w\<lparr>hw_node := n\<rparr>))"

definition pool_ssh :: "'n pool_outside \<Rightarrow> string \<Rightarrow> string \<Rightarrow> ('n, int \<times> string \<times> string) pool_task" where
  "pool_ssh o' host cmd = subprocess_run (po_shell o')
     [''ssh'', ''-o'', ''BatchMode=yes'', ''-o'', ''ConnectTimeout=15'', ''root@'' @ host, cmd] [] 60"

definition node_height :: "'n pool_outside \<Rightarrow> string \<Rightarrow> string \<Rightarrow> ('n, int option) pool_task" where
  "node_height o' host network =
     bnd (lift (wamcli_flags network None)) (\<lambda>flag.
     bnd (pool_ssh o' host (''wam-cli '' @ flag @ '' getblockcount'')) (\<lambda>(rc, out, err).
     ret (let s = strip out in if rc = 0 \<and> s \<noteq> [] \<and> list_all is_digit s then Some (int (string_nat s)) else None)))"

text \<open>What the wallet holds, spendable and maturing; a wallet that cannot be read is not an empty one.\<close>

definition pool_wallet :: "'n pool_outside \<Rightarrow> string \<Rightarrow> string \<Rightarrow> ('n, (int \<times> int) option) pool_task" where
  "pool_wallet o' host network =
     bnd (lift (wamcli_flags network None)) (\<lambda>flag.
     bnd (pool_ssh o' host (''wam-cli '' @ flag @ '' getbalances'')) (\<lambda>(rc, out, err).
     ret (if rc \<noteq> 0 then None
          else (case rbind (json_loads out) wallet_balance of Inl _ \<Rightarrow> None | Inr b \<Rightarrow> Some b))))"

section \<open>Work from a port\<close>

record work =
  wk_authorized :: bool
  wk_difficulty :: "json option"
  wk_seedheight :: json
  wk_job :: "json option"

definition no_work :: work where
  "no_work = \<lparr>wk_authorized = False, wk_difficulty = None, wk_seedheight = JNull, wk_job = None\<rparr>"

text \<open>\<open>j == n\<close> and \<open>j[n]\<close> of a JSON value.\<close>

fun equals_int :: "json \<Rightarrow> int \<Rightarrow> bool" where
  "equals_int (JInt k) n = (k = n)"
| "equals_int (JBool b) n = ((if b then 1 else 0) = n)"
| "equals_int (JFloat x) n = feq x (Fin (of_int n))"
| "equals_int _ n = False"

fun jnth :: "json \<Rightarrow> nat \<Rightarrow> py_error + json" where
  "jnth (JArr xs) n = (if n < length xs then Inr (xs ! n) else Inl IndexError)"
| "jnth (JStr s) n = (if n < length s then Inr (JStr [s ! n]) else Inl IndexError)"
| "jnth (JObj _) n = Inl (KeyError (nat_string n))"
| "jnth _ n = Inl TypeError"

fun jlength :: "json \<Rightarrow> nat" where
  "jlength (JArr xs) = length xs"
| "jlength (JStr s) = length s"
| "jlength _ = 0"

definition first_param :: "json \<Rightarrow> py_error + json" where
  "first_param m = rbind (jget m ''params'' JNull) (\<lambda>p. if jtruthy p then jnth p 0 else Inr JNull)"

definition seed_height :: "json \<Rightarrow> py_error + json" where
  "seed_height m =
     rbind (jget m ''params'' JNull) (\<lambda>p.
       if jtruthy p then rbind (jnth p 0) (\<lambda>_. if 1 < jlength p then jnth p 1 else Inr JNull) else Inr JNull)"

definition handle_message :: "work \<Rightarrow> json \<Rightarrow> py_error + work" where
  "handle_message info m =
     rbind (jget m ''id'' JNull) (\<lambda>i.
     rbind (jget m ''result'' JNull) (\<lambda>result.
     rbind (jget m ''method'' JNull) (\<lambda>how.
     if equals_int i 1 \<and> jtruthy result then rbind (jnth result 1) (\<lambda>_. Inr info)
     else if equals_int i 2 then Inr (info\<lparr>wk_authorized := result = JBool True\<rparr>)
     else if how = JStr ''mining.set_difficulty'' then rbind (first_param m) (\<lambda>d. Inr (info\<lparr>wk_difficulty := Some d\<rparr>))
     else if how = JStr ''mining.set_seedhash'' then rbind (seed_height m) (\<lambda>h. Inr (info\<lparr>wk_seedheight := h\<rparr>))
     else if how = JStr ''mining.notify'' then rbind (first_param m) (\<lambda>j. Inr (info\<lparr>wk_job := Some j\<rparr>))
     else Inr info)))"

fun handle_lines :: "work \<Rightarrow> string list \<Rightarrow> py_error + work" where
  "handle_lines info [] = Inr info"
| "handle_lines info (line # lines) =
     rbind (case json_loads line of Inl _ \<Rightarrow> Inr info | Inr m \<Rightarrow> if strip line = [] then Inr info else handle_message info m)
       (\<lambda>info. handle_lines info lines)"

text \<open>The loop over what is received, within the deadline and until there is a job.\<close>

fun read_work :: "rat \<Rightarrow> rat \<Rightarrow> (rat \<times> reply) list \<Rightarrow> string \<Rightarrow> work \<Rightarrow> py_error + work" where
  "read_work deadline now [] buf info = Inr info"
| "read_work deadline now ((t, r) # rs) buf info =
     (if \<not> (now < deadline \<and> wk_job info = None) then Inr info
      else (case r of
          Broken e \<Rightarrow> Inl e
        | Chunk c \<Rightarrow>
            if c = [] then Inl OSError
            else let parts = split_char LF (buf @ c)
              in rbind (handle_lines info (butlast parts)) (read_work deadline t rs (last parts))))"

definition stratum_job :: "'n pool_outside \<Rightarrow> string \<Rightarrow> json \<Rightarrow> string \<Rightarrow> bool \<Rightarrow> ('n, work option) pool_task" where
  "stratum_job o' host port address tls = (\<lambda>w.
     case po_connect o' (hw_node w) host port tls address of (r, n) \<Rightarrow>
       (Inr (case rbind r (\<lambda>rs. read_work 25 0 rs [] no_work) of Inl _ \<Rightarrow> None | Inr info \<Rightarrow> Some info),
        w\<lparr>hw_node := n\<rparr>))"

section \<open>The checks\<close>

definition check_height :: "'n pool_outside \<Rightarrow> pool_args \<Rightarrow> json \<Rightarrow> ('n, failing list) pool_task" where
  "check_height o' a net =
     (if pa_node a = [] then ret []
      else bnd (node_height o' (pa_node a) (pa_network a)) (\<lambda>h. case h of
          None \<Rightarrow> ret []
        | Some h \<Rightarrow>
            bnd (lift (rbind (get_or net ''blocks'' (JInt 0)) json_int)) (\<lambda>blocks.
            ret (if pa_lag a < \<bar>h - blocks\<bar> then [Wrong_Height (h - blocks)] else []))))"

fun json_number :: "json \<Rightarrow> py_error + pyfloat" where
  "json_number (JInt n) = float_of_int n"
| "json_number (JBool b) = Inr (Fin (if b then 1 else 0))"
| "json_number (JFloat x) = Inr x"
| "json_number _ = Inl TypeError"

fun fabs :: "pyfloat \<Rightarrow> pyfloat" where
  "fabs (Fin x) = Fin \<bar>x\<bar>"
| "fabs NaN = NaN"
| "fabs _ = PosInf"

text \<open>\<open>tre * 100.0 / sub\<close>, for \<open>sub\<close> that is not zero.\<close>

definition percent_of :: "int \<Rightarrow> int \<Rightarrow> py_error + pyfloat" where
  "percent_of tre sub =
     rbind (float_of_int tre) (\<lambda>t. rbind (float_of_int sub) (\<lambda>s.
     case s of Fin d \<Rightarrow> Inr (fdiv_const (fmul t (Fin 100)) d) | _ \<Rightarrow> Inl OverflowError))"

definition check_share :: "json \<Rightarrow> int \<Rightarrow> int \<Rightarrow> py_error + failing list" where
  "check_share cfg tre sub =
     rbind (jget cfg ''chainDevFeePercent'' JNull) (\<lambda>want.
     if want = JNull \<or> sub = 0 then Inr []
     else rbind (percent_of tre sub) (\<lambda>actual.
       rbind (json_number want) (\<lambda>want.
       Inr (if fless (fl (1 / 100)) (fabs (fsub actual want)) then [Wrong_Share] else []))))"

definition check_split :: "json \<Rightarrow> json \<Rightarrow> py_error + failing list" where
  "check_split net cfg =
     rbind (jget net ''blockSubsidy'' JNull) (\<lambda>sub.
     rbind (jget net ''minerSubsidy'' JNull) (\<lambda>mine.
     rbind (jget net ''treasurySubsidy'' JNull) (\<lambda>tre.
     if JNull \<in> {sub, mine, tre} then Inr [No_Split]
     else rbind (json_int mine) (\<lambda>mine. rbind (json_int tre) (\<lambda>tre. rbind (json_int sub) (\<lambda>sub.
       rbind (check_share cfg tre sub) (\<lambda>share.
       Inr ((if mine + tre \<noteq> sub then [Split_Off mine tre sub] else []) @ share))))))))"

definition judge_port :: "json \<Rightarrow> json \<Rightarrow> work option \<Rightarrow> py_error + failing list" where
  "judge_port net port r =
     (case r of
        None \<Rightarrow> Inr [No_Connection port]
      | Some info \<Rightarrow>
          if \<not> wk_authorized info then Inr [Not_Authorised port]
          else if \<not> (case wk_job info of None \<Rightarrow> False | Some j \<Rightarrow> jtruthy j) then Inr [No_Job port]
          else rbind (jget net ''blocks'' JNull) (\<lambda>blocks.
            if wk_seedheight info \<noteq> JNull \<and> blocks \<noteq> JNull
            then rbind (json_int (wk_seedheight info)) (\<lambda>sh. rbind (json_int blocks) (\<lambda>b.
              Inr (if b < sh then [Seed_Ahead port] else [])))
            else Inr []))"

fun check_ports :: "'n pool_outside \<Rightarrow> pool_args \<Rightarrow> json \<Rightarrow> json list \<Rightarrow> ('n, failing list) pool_task" where
  "check_ports o' a net [] = ret []"
| "check_ports o' a net (p # ps) =
     bnd (lift (jget p ''port'' JNull)) (\<lambda>port.
     bnd (lift (jget p ''tls'' JNull)) (\<lambda>tls.
     bnd (stratum_job o' (pa_stratum a) port (pa_address a) (jtruthy tls)) (\<lambda>r.
     bnd (lift (judge_port net port r)) (\<lambda>found.
     bnd (check_ports o' a net ps) (\<lambda>others. ret (found @ others))))))"

definition check_all_ports :: "'n pool_outside \<Rightarrow> pool_args \<Rightarrow> json \<Rightarrow> json \<Rightarrow> ('n, failing list) pool_task" where
  "check_all_ports o' a net cfg =
     bnd (lift (rbind (get_or cfg ''ports'' (JArr [])) jiter)) (\<lambda>ports.
     bnd (check_ports o' a net ports) (\<lambda>found.
     ret ((if ports = [] then [No_Ports] else []) @ found)))"

text \<open>Whether miners are paid.\<close>

definition check_number :: "json \<Rightarrow> string \<Rightarrow> py_error + int" where
  "check_number d k = rbind (jget d k (JInt 0)) json_int"

text \<open>An integral minimum stays exact; another is a double.\<close>

definition minimum_payout :: "json \<Rightarrow> py_error + pyfloat" where
  "minimum_payout cfg =
     rbind (get_or cfg ''minimumPayoutWam'' (JInt 0)) (\<lambda>m. case m of
       JInt n \<Rightarrow> Inr (Fin (of_int (n * COIN)))
     | _ \<Rightarrow> rbind (json_number m) (\<lambda>x. Inr (fmul x (Fin (of_int COIN)))))"

text \<open>\<open>owed >= minimum > 0\<close>.\<close>

definition is_due :: "int \<Rightarrow> pyfloat \<Rightarrow> bool" where
  "is_due owed minimum = (case minimum of Fin m \<Rightarrow> m \<le> of_int owed \<and> 0 < m | _ \<Rightarrow> False)"

text \<open>\<open>time.time() - t / 1000.0\<close>.\<close>

definition age_of :: "rat \<Rightarrow> int \<Rightarrow> py_error + pyfloat" where
  "age_of clock t = rbind (float_of_int t) (\<lambda>x. Inr (fsub (Fin clock) (fdiv_const x 1000)))"

definition overdue :: "pool_args \<Rightarrow> pyfloat \<Rightarrow> bool" where
  "overdue a age \<longleftrightarrow> fless (Fin (of_int (pa_interval a * 3))) age"

definition check_postponed :: "pool_args \<Rightarrow> rat \<Rightarrow> json \<Rightarrow> py_error + failing list" where
  "check_postponed a clock pp =
     rbind (rbind (check_number pp ''at'') (age_of clock)) (\<lambda>pp_age.
     rbind (check_number pp ''held'') (\<lambda>held.
     rbind (check_number pp ''due'') (\<lambda>due.
     rbind (check_number pp ''shortfall'') (\<lambda>short.
     Inr (if overdue a pp_age then [Run_Stopped] else [])))))"

definition check_paid :: "pool_args \<Rightarrow> rat \<Rightarrow> json \<Rightarrow> json \<Rightarrow> py_error + failing list" where
  "check_paid a clock pool cfg =
     rbind (check_number pool ''blocksConfirmed'') (\<lambda>confirmed.
     rbind (check_number pool ''totalPaid'') (\<lambda>paid.
     rbind (check_number pool ''totalOwed'') (\<lambda>owed.
     rbind (rbind (get_or pool ''recentPayments'' (JArr [])) jiter) (\<lambda>payments.
     rbind (minimum_payout cfg) (\<lambda>minimum.
     if confirmed = 0 then Inr []
     else if paid = 0 then Inr [Never_Paid]
     else if payments \<noteq> [] then
       rbind (rmap (\<lambda>p. check_number p ''time'') payments) (\<lambda>times.
       rbind (age_of clock (Max (set times))) (\<lambda>age.
       rbind (jget pool ''paymentPostponed'' JNull) (\<lambda>pp.
       if is_due owed minimum \<and> overdue a age
       then (if jtruthy pp then check_postponed a clock pp else Inr [Payouts_Stopped])
       else Inr [])))
     else Inr (if is_due owed minimum then [No_Record] else []))))))"

text \<open>Whether the pool can cover what it owes.\<close>

definition check_cover :: "'n pool_outside \<Rightarrow> pool_args \<Rightarrow> json \<Rightarrow> ('n, failing list) pool_task" where
  "check_cover o' a pool =
     (if pa_node a = [] then ret []
      else bnd (pool_wallet o' (pa_node a) (pa_network a)) (\<lambda>b. case b of
          None \<Rightarrow> ret [Wallet_Unread]
        | Some (trusted, immature) \<Rightarrow>
            bnd (lift (check_number pool ''poolFeesCollected'')) (\<lambda>fees.
            bnd (lift (check_number pool ''totalOwed'')) (\<lambda>owed.
            let held = trusted + immature; need = owed + fees
            in ret (if held < need then [Short_By (need - held)] else [])))))"

definition pool_now :: "'n pool_outside \<Rightarrow> ('n, rat) pool_task" where
  "pool_now o' = (\<lambda>w. (Inr (po_clock o' (hw_node w)), w))"

definition check_sections :: "'n pool_outside \<Rightarrow> pool_args \<Rightarrow> json \<Rightarrow> json \<Rightarrow> json \<Rightarrow> ('n, failing list) pool_task" where
  "check_sections o' a pool net cfg =
     bnd (check_height o' a net) (\<lambda>height.
     bnd (lift (check_split net cfg)) (\<lambda>split.
     bnd (check_all_ports o' a net cfg) (\<lambda>ports.
     bnd (pool_now o') (\<lambda>clock.
     bnd (lift (check_paid a clock pool cfg)) (\<lambda>paid.
     bnd (check_cover o' a pool) (\<lambda>cover.
     ret (height @ split @ ports @ paid @ cover)))))))"

definition pool_main :: "'n pool_outside \<Rightarrow> pool_args \<Rightarrow> ('n, int \<times> failing list) pool_task" where
  "pool_main o' a =
     bnd (attempt is_exception (fetch o' (pa_api a))) (\<lambda>r. case r of
       Inl _ \<Rightarrow> ret (1, [No_Answer])
     | Inr d \<Rightarrow>
         bnd (lift (jget d ''pool'' (JObj []))) (\<lambda>pool.
         bnd (lift (jget d ''network'' (JObj []))) (\<lambda>net.
         bnd (lift (jget d ''config'' (JObj []))) (\<lambda>cfg.
         if \<not> jtruthy pool \<or> \<not> jtruthy net then ret (1, [Shape_Changed])
         else bnd (check_sections o' a pool net cfg) (\<lambda>fails.
           ret (if fails = [] then 0 else 1, fails))))))"

end
