(* ===== verification/Pool_Check_Facts.thy ===== *)
theory Pool_Check_Facts
  imports Pool_Check
begin

text \<open>
  What \<^theory_text>\<open>Pool_Check\<close> promises: a run that ends with 0 has seen the page of the pool, a split of the
  subsidy that adds up, a job from every port, a payment once a block matured and, when a node was
  named, a wallet that covers what is owed.
\<close>

section \<open>Lines that arrive in pieces\<close>

fun chunk_text :: "reply \<Rightarrow> string" where
  "chunk_text (Chunk c) = c"
| "chunk_text (Broken e) = []"

definition received :: "(rat \<times> reply) list \<Rightarrow> string" where
  "received rs = concat (map (chunk_text \<circ> snd) rs)"

lemma split_char_glue:
  "split_char c (a @ b) = butlast (split_char c a) @ split_char c (last (split_char c a) @ b)"
proof (induction a)
  case (Cons x a)
  obtain w ws where w: "split_char c a = w # ws" by (cases "split_char c a") auto
  obtain v vs where v: "split_char c b = v # vs" by (cases "split_char c b") auto
  show ?case
  proof (cases "x = c")
    case False
    with Cons w show ?thesis by (cases ws) (auto split: list.splits)
  qed (use Cons w in simp)
qed simp

lemma split_char_last: "c \<notin> set (last (split_char c s))"
  by (induction s) (auto split: list.splits)

lemma handle_lines_append:
  "handle_lines info (xs @ ys) = rbind (handle_lines info xs) (\<lambda>info. handle_lines info ys)"
  by (induction xs arbitrary: info) (auto simp: rbind_def split: sum.splits)

text \<open>Reading in pieces is reading the text: what came of the pieces that were read is what comes of the
  complete lines of their text.\<close>

lemma read_work_lines:
  "read_work deadline now rs buf info = Inr info' \<Longrightarrow> LF \<notin> set buf \<Longrightarrow>
   \<exists>k. handle_lines info (butlast (split_char LF (buf @ received (take k rs)))) = Inr info'"
proof (induction rs arbitrary: now buf info)
  case Nil
  then show ?case by (simp add: received_def split_char_none)
next
  case (Cons x rs)
  obtain t r where x: "x = (t, r)" by fastforce
  show ?case
  proof (cases "now < deadline \<and> wk_job info = None")
    case False
    with Cons.prems x show ?thesis by (intro exI [of _ 0]) (simp add: received_def split_char_none)
  next
    case True
    with Cons.prems x obtain c mid where c: "r = Chunk c"
      and m: "handle_lines info (butlast (split_char LF (buf @ c))) = Inr mid"
      and rest: "read_work deadline t rs (last (split_char LF (buf @ c))) mid = Inr info'"
      by (auto simp: Let_def split: reply.splits if_splits)
    from Cons.IH [OF rest split_char_last] obtain k where
      "handle_lines mid (butlast (split_char LF (last (split_char LF (buf @ c)) @ received (take k rs)))) = Inr info'" by blast
    then have "handle_lines info (butlast (split_char LF ((buf @ c) @ received (take k rs)))) = Inr info'"
      unfolding split_char_glue [of LF "buf @ c"] by (simp add: butlast_append handle_lines_append m)
    then show ?thesis using x c by (intro exI [of _ "Suc k"]) (simp add: received_def)
  qed
qed

text \<open>Messages among the lines.\<close>

definition among :: "string list \<Rightarrow> json \<Rightarrow> bool" where
  "among ls m \<longleftrightarrow> (\<exists>l \<in> set ls. json_loads l = Inr m)"

definition says_authorised :: "json \<Rightarrow> bool" where
  "says_authorised m \<longleftrightarrow> (\<exists>i. jget m ''id'' JNull = Inr i \<and> equals_int i 2) \<and> jget m ''result'' JNull = Inr (JBool True)"

definition gives_job :: "json \<Rightarrow> bool" where
  "gives_job m \<longleftrightarrow> jget m ''method'' JNull = Inr (JStr ''mining.notify'') \<and> (\<exists>j. first_param m = Inr j \<and> jtruthy j)"

definition has_job :: "work \<Rightarrow> bool" where
  "has_job info \<longleftrightarrow> (case wk_job info of None \<Rightarrow> False | Some j \<Rightarrow> jtruthy j)"

lemma handle_message_work:
  assumes "handle_message info m = Inr info'"
  shows "wk_authorized info' \<Longrightarrow> \<not> wk_authorized info \<Longrightarrow> says_authorised m"
    and "has_job info' \<Longrightarrow> \<not> has_job info \<Longrightarrow> gives_job m"
  using assms by (auto simp: handle_message_def says_authorised_def gives_job_def has_job_def split: if_splits)

lemma handle_lines_work:
  "handle_lines info ls = Inr info' \<Longrightarrow>
    (wk_authorized info' \<longrightarrow> wk_authorized info \<or> (\<exists>m. among ls m \<and> says_authorised m)) \<and>
    (has_job info' \<longrightarrow> has_job info \<or> (\<exists>m. among ls m \<and> gives_job m))"
proof (induction ls arbitrary: info)
  case (Cons l ls)
  then obtain mid where mid: "(case json_loads l of Inl _ \<Rightarrow> Inr info | Inr m \<Rightarrow> if strip l = [] then Inr info else handle_message info m) = Inr mid"
    "handle_lines mid ls = Inr info'" by auto
  have "wk_authorized mid \<Longrightarrow> \<not> wk_authorized info \<Longrightarrow> \<exists>m. json_loads l = Inr m \<and> says_authorised m"
    "has_job mid \<Longrightarrow> \<not> has_job info \<Longrightarrow> \<exists>m. json_loads l = Inr m \<and> gives_job m"
    using mid(1) handle_message_work by (auto split: sum.splits if_splits)
  with Cons.IH [OF mid(2)] show ?case by (auto simp: among_def)
qed simp


section \<open>Evidence\<close>

text \<open>A port that passed: it was asked, and among what it sent are the authorisation and a job.\<close>

definition gives_work :: "'n pool_outside \<Rightarrow> pool_args \<Rightarrow> json \<Rightarrow> bool" where
  "gives_work o' a p \<longleftrightarrow> (\<exists>n port tls rs. jget p ''port'' JNull = Inr port \<and> jget p ''tls'' JNull = Inr tls \<and>
     fst (po_connect o' n (pa_stratum a) port (jtruthy tls) (pa_address a)) = Inr rs \<and>
     (\<exists>k m. among (split_char LF (received (take k rs))) m \<and> says_authorised m) \<and>
     (\<exists>k m. among (split_char LF (received (take k rs))) m \<and> gives_job m))"

lemma stratum_job_gives:
  assumes "stratum_job o' host port address tls w = (Inr (Some info), w')" "wk_authorized info" "has_job info"
  shows "\<exists>n rs. fst (po_connect o' n host port tls address) = Inr rs \<and>
     (\<exists>k m. among (split_char LF (received (take k rs))) m \<and> says_authorised m) \<and>
     (\<exists>k m. among (split_char LF (received (take k rs))) m \<and> gives_job m)"
proof -
  from assms(1) obtain rs where rs: "fst (po_connect o' (hw_node w) host port tls address) = Inr rs"
    and info: "read_work 25 0 rs [] no_work = Inr info"
    by (auto simp: stratum_job_def split: prod.splits sum.splits)
  from read_work_lines [OF info] obtain k where
    k: "handle_lines no_work (butlast (split_char LF (received (take k rs)))) = Inr info" by auto
  have "\<not> wk_authorized no_work" "\<not> has_job no_work" by (simp_all add: no_work_def has_job_def)
  with handle_lines_work [OF k] assms(2,3) obtain m1 m2 where
    "among (butlast (split_char LF (received (take k rs)))) m1" "says_authorised m1"
    "among (butlast (split_char LF (received (take k rs)))) m2" "gives_job m2" by blast
  moreover have "among (butlast ls) m \<Longrightarrow> among ls m" for ls m by (auto simp: among_def dest: in_set_butlastD)
  ultimately show ?thesis using rs by blast
qed

lemma judge_port_passes:
  "judge_port net port r = Inr [] \<Longrightarrow> \<exists>info. r = Some info \<and> wk_authorized info \<and> has_job info"
  by (auto simp: judge_port_def has_job_def split: option.splits if_splits)

lemma check_ports_pass:
  "check_ports o' a net ps w = (Inr [], w') \<Longrightarrow> p \<in> set ps \<Longrightarrow> gives_work o' a p"
proof (induction ps arbitrary: w)
  case (Cons q ps)
  from Cons.prems(1) obtain port tls r v where f: "Inr port = jget q ''port'' JNull" "Inr tls = jget q ''tls'' JNull"
      "Inr [] = judge_port net port r"
    and q: "stratum_job o' (pa_stratum a) port (pa_address a) (jtruthy tls) w = (Inr r, v)"
    and rest: "check_ports o' a net ps v = (Inr [], w')"
    by (auto simp: bnd_ok_iff)
  note q = f(1,2) [symmetric] q f(3) [symmetric]
  from judge_port_passes [OF q(4)] obtain info where "r = Some info" "wk_authorized info" "has_job info" by blast
  with stratum_job_gives q have "gives_work o' a q" unfolding gives_work_def by blast
  with Cons.IH [OF rest] Cons.prems(2) show ?case by auto
qed simp

text \<open>The wallet covers what is owed, by an answer of the node that is on record.\<close>

definition covers :: "'n host_world \<Rightarrow> json \<Rightarrow> bool" where
  "covers w pool \<longleftrightarrow> (\<exists>argv out err trusted immature owed fees.
     (argv, [], Exited 0 out err) \<in> set (hw_calls w) \<and> rbind (json_loads out) wallet_balance = Inr (trusted, immature) \<and>
     check_number pool ''totalOwed'' = Inr owed \<and> check_number pool ''poolFeesCollected'' = Inr fees \<and>
     owed + fees \<le> trusted + immature)"

lemma read_iff: "Some x = (case r of Inl _ \<Rightarrow> None | Inr b \<Rightarrow> Some b) \<longleftrightarrow> r = Inr x"
  by (cases r) auto

lemma ssh_is_logged:
  "pool_ssh o' host cmd w = (Inr (rc, out, err), w') \<Longrightarrow> \<exists>argv. (argv, [], Exited rc out err) \<in> set (hw_calls w')"
  by (auto simp: pool_ssh_def subprocess_run_def split: prod.splits outcome.splits)

lemma check_cover_passes:
  assumes "check_cover o' a pool w = (Inr [], w')" "pa_node a \<noteq> []"
  shows "covers w' pool"
proof -
  from assms obtain trusted immature v fees owed where
    b: "pool_wallet o' (pa_node a) (pa_network a) w = (Inr (Some (trusted, immature)), w')"
    and n: "Inr fees = check_number pool ''poolFeesCollected''" "Inr owed = check_number pool ''totalOwed''"
    and le: "owed + fees \<le> trusted + immature"
    by (auto simp: check_cover_def bnd_ok_iff Let_def not_less split: option.splits if_splits)
  from b obtain cmd out err where
    r: "pool_ssh o' (pa_node a) cmd w = (Inr (0, out, err), w')" "rbind (json_loads out) wallet_balance = Inr (trusted, immature)"
    by (auto simp: pool_wallet_def bnd_ok_iff read_iff split: if_splits simp del: rbind_eq_Inr)
  then obtain argv where "(argv, [], Exited 0 out err) \<in> set (hw_calls w')" using ssh_is_logged by blast
  with r(2) n [symmetric] le show ?thesis unfolding covers_def by blast
qed

lemma check_split_passes:
  "check_split net cfg = Inr [] \<Longrightarrow> \<exists>sub mine tre jsub jmine jtre.
     jget net ''blockSubsidy'' JNull = Inr jsub \<and> json_int jsub = Inr sub \<and>
     jget net ''minerSubsidy'' JNull = Inr jmine \<and> json_int jmine = Inr mine \<and>
     jget net ''treasurySubsidy'' JNull = Inr jtre \<and> json_int jtre = Inr tre \<and> mine + tre = sub"
  by (auto simp: check_split_def split: if_splits)

lemma check_paid_passes:
  "check_paid a clock pool cfg = Inr [] \<Longrightarrow>
   \<exists>confirmed paid. check_number pool ''blocksConfirmed'' = Inr confirmed \<and> check_number pool ''totalPaid'' = Inr paid \<and>
     (confirmed \<noteq> 0 \<longrightarrow> paid \<noteq> 0)"
  by (auto simp: check_paid_def split: if_splits)

text \<open>C9: "Exit 0 only if all of it holds."  A run that ends with 0 has found nothing, and on what it was
  shown: the split of the subsidy adds up; there are ports, and each of them sent an authorisation and
  a job; once a block was confirmed, something was paid; and when a node was named, the node answered
  with a wallet that covers what is owed to the miners and the fee that was not taken.\<close>

theorem a_pass_means_the_pool_works:
  assumes "pool_main o' a w = (Inr (0, fails), w')"
  shows "fails = [] \<and> (\<exists>d pool net cfg ports. fst (po_fetch o' (hw_node w) (pa_api a)) = Inr d \<and>
     jget d ''pool'' (JObj []) = Inr pool \<and> jget d ''network'' (JObj []) = Inr net \<and> jget d ''config'' (JObj []) = Inr cfg \<and>
     (\<exists>sub mine tre jsub jmine jtre. jget net ''blockSubsidy'' JNull = Inr jsub \<and> json_int jsub = Inr sub \<and>
        jget net ''minerSubsidy'' JNull = Inr jmine \<and> json_int jmine = Inr mine \<and>
        jget net ''treasurySubsidy'' JNull = Inr jtre \<and> json_int jtre = Inr tre \<and> mine + tre = sub) \<and>
     rbind (get_or cfg ''ports'' (JArr [])) jiter = Inr ports \<and> ports \<noteq> [] \<and> (\<forall>p \<in> set ports. gives_work o' a p) \<and>
     (\<exists>confirmed paid. check_number pool ''blocksConfirmed'' = Inr confirmed \<and> check_number pool ''totalPaid'' = Inr paid \<and>
        (confirmed \<noteq> 0 \<longrightarrow> paid \<noteq> 0)) \<and>
     (pa_node a \<noteq> [] \<longrightarrow> covers w' pool))"
proof -
  obtain q n where q: "po_fetch o' (hw_node w) (pa_api a) = (q, n)" by fastforce
  let ?v = "w\<lparr>hw_node := n\<rparr>"
  from assms q obtain d where d: "q = Inr d" by (cases q) (auto simp: pool_main_def bnd_def attempt_def fetch_def ret_def split: if_splits)
  with assms q obtain pool net cfg where j: "Inr pool = jget d ''pool'' (JObj [])" "Inr net = jget d ''network'' (JObj [])"
      "Inr cfg = jget d ''config'' (JObj [])"
    and sections: "check_sections o' a pool net cfg ?v = (Inr fails, w')" and f: "fails = []"
    by (auto simp: pool_main_def bnd_ok_iff attempt_def fetch_def split: if_splits)
  have d: "fst (po_fetch o' (hw_node w) (pa_api a)) = Inr d" using d q by simp
  note d = d j [symmetric]
  from sections [unfolded f] obtain v1 v2 clock where
    s: "Inr [] = check_split net cfg" "check_all_ports o' a net cfg v1 = (Inr [], v2)" "Inr [] = check_paid a clock pool cfg"
      "check_cover o' a pool v2 = (Inr [], w')"
    by (auto simp: check_sections_def bnd_ok_iff pool_now_def)
  from s(2) obtain ports where p: "Inr ports = rbind (get_or cfg ''ports'' (JArr [])) jiter" "ports \<noteq> []"
    "check_ports o' a net ports v1 = (Inr [], v2)"
    by (auto simp: check_all_ports_def bnd_ok_iff split: if_splits simp del: rbind_eq_Inr)
  show ?thesis
    using f d check_split_passes [OF s(1) [symmetric]] p(1) [symmetric] p(2) check_ports_pass [OF p(3)]
      check_paid_passes [OF s(3) [symmetric]] check_cover_passes [OF s(4)]
    by blast
qed


text \<open>A pool with one port, a block that was paid for, and a wallet with two coins against one owed.\<close>

definition quoted :: "string \<Rightarrow> string" where
  "quoted s = [CHR 0x22] @ s @ [CHR 0x22]"

definition small_pool :: json where
  "small_pool = JObj [(''blocksConfirmed'', JInt 1), (''totalPaid'', JInt 5), (''totalOwed'', JInt 100000000)]"

definition small_net :: json where
  "small_net = JObj [(''blocks'', JInt 7), (''blockSubsidy'', JInt 10), (''minerSubsidy'', JInt 9), (''treasurySubsidy'', JInt 1)]"

definition small_config :: json where
  "small_config = JObj [(''ports'', JArr [JObj [(''port'', JInt 3333)]])]"

definition small_page :: json where
  "small_page = JObj [(''pool'', small_pool), (''network'', small_net), (''config'', small_config)]"

definition port_text :: string where
  "port_text = ''{'' @ quoted ''id'' @ '':2,'' @ quoted ''result'' @ '':true}'' @ LF #
     ''{'' @ quoted ''method'' @ '':'' @ quoted ''mining.notify'' @ '','' @ quoted ''params'' @ '':['' @ quoted ''j1'' @ '']}'' @ [LF]"

definition balances_text :: string where
  "balances_text = ''{'' @ quoted ''mine'' @ '':{'' @ quoted ''trusted'' @ '':2}}''"

definition small_args :: pool_args where
  "small_args = \<lparr>pa_api = ''api'', pa_stratum = ''host'', pa_node = ''node'', pa_network = ''mainnet'', pa_address = ''a'',
     pa_lag = 5, pa_interval = 600\<rparr>"

definition small_outside :: "nat pool_outside" where
  "small_outside = \<lparr>po_shell = (\<lambda>n argv stdin t. (Exited 0 (if n = 0 then ''7'' else balances_text) [], Suc n)),
     po_clock = (\<lambda>n. 1000), po_fetch = (\<lambda>n url. (Inr small_page, n)),
     po_connect = (\<lambda>n host port tls address. (Inr [(1, Chunk port_text)], n))\<rparr>"

definition small_host :: "nat host_world" where
  "small_host = \<lparr>hw_node = 0, hw_calls = [], hw_files = [], hw_dirs = (\<lambda>_. False), hw_denied = (\<lambda>_. False)\<rparr>"

lemma small_texts:
  "read_work 25 0 [(1, Chunk port_text)] [] no_work =
     Inr \<lparr>wk_authorized = True, wk_difficulty = None, wk_seedheight = JNull, wk_job = Some (JStr ''j1'')\<rparr>"
  "json_loads balances_text = Inr (JObj [(''mine'', JObj [(''trusted'', JInt 2)])])"
  "strip ''7'' = ''7''" "list_all is_digit ''7''" "string_nat ''7'' = 7"
  by code_simp+

lemma fl_int: "\<bar>m\<bar> \<le> 2 ^ 53 \<Longrightarrow> fl (of_int m) = Fin (of_int m)"
  by (rule fl_exact [of m 0]) simp_all

lemma small_balance: "wallet_balance (JObj [(''mine'', JObj [(''trusted'', JInt 2)])]) = Inr (200000000, 0)"
proof -
  have "fl 2 = Fin 2" "fl 200000000 = Fin 200000000" "fl 0 = Fin 0"
    using fl_int [of 2] fl_int [of 200000000] fl_int [of 0] by simp_all
  moreover have "round_half_even 200000000 = 200000000" "round_half_even 0 = 0"
    using round_half_even_int [of 200000000] round_half_even_int [of 0] by simp_all
  ultimately show ?thesis by (simp add: wallet_balance_def float_of_int_def atoms_of_float_def float_round_def COIN_def)
qed

lemma small_sections:
  "\<exists>v. check_height small_outside small_args small_net small_host = (Inr [], v) \<and> hw_node v = 1"
  "check_split small_net small_config = Inr []"
  "check_all_ports small_outside small_args small_net small_config w = (Inr [], w)"
  "check_paid small_args clock small_pool small_config = Inr []"
  "hw_node v = 1 \<Longrightarrow> \<exists>u. check_cover small_outside small_args small_pool v = (Inr [], u)"
proof -
  show "\<exists>v. check_height small_outside small_args small_net small_host = (Inr [], v) \<and> hw_node v = 1"
    by (simp add: check_height_def node_height_def small_args_def wamcli_flags_def pool_ssh_def subprocess_run_def
        small_outside_def small_host_def bnd_def lift_def ret_def small_texts get_or_def small_net_def)
  show "check_split small_net small_config = Inr []"
    by (simp add: check_split_def small_net_def check_share_def small_config_def)
  have port: "stratum_job small_outside ''host'' (JInt 3333) ''a'' False w =
      (Inr (Some \<lparr>wk_authorized = True, wk_difficulty = None, wk_seedheight = JNull, wk_job = Some (JStr ''j1'')\<rparr>), w)"
    by (simp add: stratum_job_def small_outside_def small_texts(1) del: read_work.simps)
  show "check_all_ports small_outside small_args small_net small_config w = (Inr [], w)"
    by (simp add: check_all_ports_def small_config_def get_or_def bnd_def lift_def small_args_def port judge_port_def ret_def
        small_net_def)
  show "check_paid small_args clock small_pool small_config = Inr []"
    by (simp add: check_paid_def check_number_def small_pool_def get_or_def minimum_payout_def small_config_def is_due_def)
  show "hw_node v = 1 \<Longrightarrow> \<exists>u. check_cover small_outside small_args small_pool v = (Inr [], u)"
    by (simp add: check_cover_def pool_wallet_def small_args_def wamcli_flags_def pool_ssh_def subprocess_run_def
        small_outside_def bnd_def lift_def ret_def small_texts small_balance check_number_def small_pool_def)
qed

lemma small_run: "\<exists>w'. pool_main small_outside small_args small_host = (Inr (0, []), w')"
proof -
  obtain v where v: "check_height small_outside small_args small_net small_host = (Inr [], v)" "hw_node v = 1"
    using small_sections(1) by blast
  obtain u where u: "check_cover small_outside small_args small_pool v = (Inr [], u)" using small_sections(5) [OF v(2)] by blast
  have "fetch small_outside (pa_api small_args) small_host = (Inr small_page, small_host)"
    by (simp add: fetch_def small_outside_def)
  moreover have "check_sections small_outside small_args small_pool small_net small_config small_host = (Inr [], u)"
    by (simp add: check_sections_def bnd_def lift_def v u small_sections(2-4) pool_now_def ret_def)
  moreover have "jtruthy small_pool" "jtruthy small_net" by (simp_all add: small_pool_def small_net_def)
  ultimately show ?thesis by (simp add: pool_main_def attempt_def bnd_def lift_def ret_def small_page_def)
qed

lemma a_pass_means_the_pool_works_witness:
  "\<exists>w'. pool_main small_outside small_args small_host = (Inr (0, []), w') \<and>
     gives_work small_outside small_args (JObj [(''port'', JInt 3333)]) \<and> covers w' small_pool"
proof -
  obtain w' where w': "pool_main small_outside small_args small_host = (Inr (0, []), w')" using small_run by blast
  have page: "fst (po_fetch small_outside (hw_node small_host) (pa_api small_args)) = Inr small_page"
    by (simp add: small_outside_def)
  have fields: "jget small_page ''pool'' (JObj []) = Inr small_pool" "jget small_page ''config'' (JObj []) = Inr small_config"
    "rbind (get_or small_config ''ports'' (JArr [])) jiter = Inr [JObj [(''port'', JInt 3333)]]" "pa_node small_args \<noteq> []"
    by (simp_all add: small_page_def small_config_def get_or_def small_args_def)
  from a_pass_means_the_pool_works [OF w'] page fields w' show ?thesis by auto
qed

end
