(* ===== verification/Unit_Alert.thy ===== *)
theory Unit_Alert
  imports Notify
begin

text \<open>
  \<open>scripts/unit_alert.py\<close>: called for every unit that fails. The first failure of a unit is sent at
  once; later ones are counted, and one message an hour says that it is still failing and how often.
  A time or a count in the state file that is no integer raises. The dash of the texts is \<open>DASH\<close>.
\<close>

section \<open>Asking the machine\<close>

definition ALERTED :: string where
  "ALERTED = ''/var/lib/wam-login-watch/alerted.json''"

definition COOLDOWN :: int where
  "COOLDOWN = 3600"

definition prop_of :: "'n outside \<Rightarrow> string \<Rightarrow> string \<Rightarrow> ('n, string) watch_task" where
  "prop_of o' unit name =
     bnd (attempt is_exception (subprocess_run (o_shell o') [''systemctl'', ''show'', unit, ''-p'', name, ''--value''] [] 20)) (\<lambda>r.
     ret (case r of Inl _ \<Rightarrow> [] | Inr (rc, out, err) \<Rightarrow> strip out))"

definition worth_keeping :: "string \<Rightarrow> bool" where
  "worth_keeping l \<longleftrightarrow> strip l \<noteq> [] \<and> \<not> starts_with ''Starting '' l \<and> \<not> contains ''Consumed'' l"

definition tail_of :: "'n outside \<Rightarrow> string \<Rightarrow> ('n, string) watch_task" where
  "tail_of o' unit =
     bnd (attempt is_exception (subprocess_run (o_shell o')
       [''journalctl'', ''-u'', unit, ''-n'', ''12'', ''--no-pager'', ''-o'', ''cat''] [] 30)) (\<lambda>r.
     ret (case r of Inl _ \<Rightarrow> []
       | Inr (rc, out, err) \<Rightarrow> join_char [LF] (newest 6 (filter worth_keeping (text_lines out)))))"

definition load_alerted :: "('n, json) watch_task" where
  "load_alerted = bnd (load_json_file ALERTED) (\<lambda>r. ret (case r of None \<Rightarrow> JObj [] | Some j \<Rightarrow> j))"

section \<open>Send now, or count it\<close>

definition entry_number :: "json \<Rightarrow> string \<Rightarrow> int \<Rightarrow> py_error + int" where
  "entry_number e k d = rbind (jget e k (JInt d)) (\<lambda>v. case v of
     JInt n \<Rightarrow> Inr n | JBool b \<Rightarrow> Inr (if b then 1 else 0) | _ \<Rightarrow> Inl TypeError)"

definition fresh_entry :: "int \<Rightarrow> json \<Rightarrow> json" where
  "fresh_entry now first = JObj [(''last_sent'', JInt now), (''since'', JInt 0), (''first'', first)]"

definition due :: "string \<Rightarrow> int \<Rightarrow> json \<Rightarrow> py_error + (bool \<times> int) \<times> json" where
  "due unit now state =
     rbind (jget state unit JNull) (\<lambda>e.
     if \<not> jtruthy e then
       rbind (jset unit (fresh_entry now (JInt now)) state) (\<lambda>state. Inr ((True, 0), state))
     else
       rbind (entry_number e ''last_sent'' 0) (\<lambda>sent.
       rbind (entry_number e ''since'' 0) (\<lambda>since.
       if now - sent \<ge> COOLDOWN then
         rbind (jget e ''first'' (JInt now)) (\<lambda>first.
         rbind (jset unit (fresh_entry now first) state) (\<lambda>state. Inr ((True, since), state)))
       else
         rbind (jset ''since'' (JInt (since + 1)) e) (\<lambda>e.
         rbind (jset unit e state) (\<lambda>state. Inr ((False, since + 1), state))))))"

section \<open>One failure\<close>

definition failing_text :: "string \<Rightarrow> string \<Rightarrow> string \<Rightarrow> string \<Rightarrow> int \<Rightarrow> string \<Rightarrow> string" where
  "failing_text unit host result status suppressed body =
     (if suppressed \<noteq> 0
      then ''ALARM  '' @ unit @ '' is STILL FAILING on '' @ host @ '' (result='' @ result @ '', exit='' @ status @ '') '' @ [DASH] @
        '' '' @ int_string suppressed @ '' more failure(s) in the last hour.'' @ [LF]
      else ''ALARM  '' @ unit @ '' FAILED on '' @ host @ '' (result='' @ result @ '', exit='' @ status @ '').'' @ [LF] @
        ''Whatever that unit was watching has not been watched since it started failing.'' @ [LF]) @
     ''Nothing will tell you when it recovers '' @ [DASH] @ '' this only speaks on failure.'' @ [LF] @
     (if body \<noteq> [] then [LF] @ ''last lines:'' @ [LF] @ body else [])"

definition host_line :: "('n, string) watch_task" where
  "host_line = (\<lambda>w. (case map_of (hw_files w) ''/etc/hostname'' of
     Some (Text t) \<Rightarrow> Inr (strip (universal_newlines t)) | _ \<Rightarrow> Inl OSError, w))"

definition or_unknown :: "string \<Rightarrow> string" where
  "or_unknown s = (if s = [] then ''?'' else s)"

definition alert_main :: "'n outside \<Rightarrow> string list \<Rightarrow> ('n, int) watch_task" where
  "alert_main o' argv =
     (if length argv < 2 then ret 2
      else
        let unit = argv ! 1; dry = ''--dry-run'' \<in> set argv
        in bnd (if dry then ret ''test'' else host_line) (\<lambda>host.
           bnd (prop_of o' unit ''ExecMainStatus'') (\<lambda>status.
           bnd (prop_of o' unit ''Result'') (\<lambda>result.
           bnd (now_is o') (\<lambda>now.
           bnd (if dry then ret (JObj []) else load_alerted) (\<lambda>state.
           bnd (lift (due unit now state)) (\<lambda>((send_it, suppressed), state).
           bnd (if dry then ret () else save_state_file ALERTED state) (\<lambda>_.
           if \<not> send_it then ret 0
           else bnd (tail_of o' unit) (\<lambda>body.
             bnd (send o' dry (failing_text unit host (or_unknown result) (or_unknown status) suppressed body)) (\<lambda>_.
             ret 0))))))))))"

end
