(* ===== verification/Unit_Alert_Facts.thy ===== *)
theory Unit_Alert_Facts
  imports Unit_Alert Notify_Facts
begin

text \<open>
  What \<^theory_text>\<open>Unit_Alert\<close> promises: of the failures of a unit none is lost from the count, no two
  messages are closer than an hour, and no failure goes without a message in the hour before it.
\<close>

section \<open>One unit over time\<close>

fun alerts :: "string \<Rightarrow> int list \<Rightarrow> json \<Rightarrow> py_error + (bool \<times> int) list \<times> json" where
  "alerts unit [] state = Inr ([], state)"
| "alerts unit (t # ts) state =
     rbind (due unit t state) (\<lambda>(r, state).
     rbind (alerts unit ts state) (\<lambda>(rs, state). Inr (r # rs, state)))"

text \<open>The entry of a unit: when the last message went, and how many failures since.\<close>

definition entry :: "(string \<times> json) list \<Rightarrow> string \<Rightarrow> int \<Rightarrow> int \<Rightarrow> bool" where
  "entry kvs unit sent n \<longleftrightarrow> (\<exists>es. map_of kvs unit = Some (JObj es) \<and> map_of es ''last_sent'' = Some (JInt sent) \<and>
     map_of es ''since'' = Some (JInt n))"

fun spaced :: "int \<Rightarrow> int \<Rightarrow> int list \<Rightarrow> (bool \<times> int) list" where
  "spaced sent n [] = []"
| "spaced sent n (t # ts) =
     (if t - sent \<ge> COOLDOWN then (True, n) # spaced t 0 ts else (False, n + 1) # spaced sent (n + 1) ts)"

lemma due_first: "map_of kvs unit = None \<Longrightarrow> \<exists>kvs'. due unit t (JObj kvs) = Inr ((True, 0), JObj kvs') \<and> entry kvs' unit t 0"
  by (simp add: due_def fresh_entry_def entry_def)

lemma due_again:
  assumes "entry kvs unit sent n"
  shows "\<exists>kvs'. due unit t (JObj kvs) = Inr ((t - sent \<ge> COOLDOWN, if t - sent \<ge> COOLDOWN then n else n + 1), JObj kvs') \<and>
    entry kvs' unit (if t - sent \<ge> COOLDOWN then t else sent) (if t - sent \<ge> COOLDOWN then 0 else n + 1)"
proof -
  obtain es where e: "map_of kvs unit = Some (JObj es)" "map_of es ''last_sent'' = Some (JInt sent)"
    "map_of es ''since'' = Some (JInt n)" using assms by (auto simp: entry_def)
  then have "es \<noteq> []" by auto
  with e show ?thesis by (auto simp: due_def entry_number_def fresh_entry_def entry_def)
qed

lemma alerts_spaced:
  "entry kvs unit sent n \<Longrightarrow> \<exists>state. alerts unit ts (JObj kvs) = Inr (spaced sent n ts, state)"
proof (induction ts arbitrary: kvs sent n)
  case (Cons t ts)
  obtain kvs' where k: "due unit t (JObj kvs) = Inr ((t - sent \<ge> COOLDOWN, if t - sent \<ge> COOLDOWN then n else n + 1), JObj kvs')"
    "entry kvs' unit (if t - sent \<ge> COOLDOWN then t else sent) (if t - sent \<ge> COOLDOWN then 0 else n + 1)"
    using due_again [OF Cons.prems, of t] by blast
  from Cons.IH [OF k(2)] k(1) show ?case by (cases "t - sent \<ge> COOLDOWN") auto
qed simp

section \<open>Nothing is lost\<close>

definition reported :: "(bool \<times> int) list \<Rightarrow> int" where
  "reported rs = sum_list (map (\<lambda>(sent, n). if sent then n + 1 else 0) rs)"

definition pending :: "int \<Rightarrow> (bool \<times> int) list \<Rightarrow> int" where
  "pending n rs = (if rs = [] then n else if fst (last rs) then 0 else snd (last rs))"

lemma length_spaced [simp]: "length (spaced sent n ts) = length ts"
  by (induction ts arbitrary: sent n) auto

lemma spaced_counts: "reported (spaced sent n ts) + pending n (spaced sent n ts) = n + int (length ts)"
proof (induction ts arbitrary: sent n)
  case (Cons t ts)
  have p: "pending n (r # rs) = pending (if fst r then 0 else snd r) rs" for r rs by (simp add: pending_def)
  show ?case
    using Cons.IH [of t 0] Cons.IH [of sent "n + 1"] by (auto simp: p) (simp_all add: reported_def)
qed (simp add: reported_def pending_def)

lemma spaced_apart:
  "j < length ts \<Longrightarrow> fst (spaced sent n ts ! j) \<Longrightarrow> COOLDOWN \<le> ts ! j - sent \<and>
   (\<forall>i < j. fst (spaced sent n ts ! i) \<longrightarrow> COOLDOWN \<le> ts ! j - ts ! i)"
proof (induction ts arbitrary: j sent n)
  case (Cons t ts)
  show ?case
  proof (cases j)
    case 0
    with Cons.prems show ?thesis by (simp split: if_splits)
  next
    case (Suc k)
    have c: "0 \<le> COOLDOWN" by (simp add: COOLDOWN_def)
    show ?thesis
    proof (cases "t - sent \<ge> COOLDOWN")
      case True
      with Cons.prems Suc Cons.IH [of k t 0] c show ?thesis by (auto simp: nth_Cons split: nat.splits)
    next
      case False
      with Cons.prems Suc Cons.IH [of k sent "n + 1"] show ?thesis by (auto simp: nth_Cons split: nat.splits)
    qed
  qed
qed simp

lemma spaced_covered:
  "j < length ts \<Longrightarrow> \<not> fst (spaced sent n ts ! j) \<Longrightarrow> ts ! j - sent < COOLDOWN \<or>
   (\<exists>i < j. fst (spaced sent n ts ! i) \<and> ts ! j - ts ! i < COOLDOWN)"
proof (induction ts arbitrary: j sent n)
  case (Cons t ts)
  show ?case
  proof (cases j)
    case 0
    with Cons.prems show ?thesis by (simp split: if_splits)
  next
    case (Suc k)
    show ?thesis
    proof (cases "t - sent \<ge> COOLDOWN")
      case True
      with Cons.prems Suc Cons.IH [of k t 0] have "ts ! k - t < COOLDOWN \<or> (\<exists>i < k. fst (spaced t 0 ts ! i) \<and> ts ! k - ts ! i < COOLDOWN)"
        by simp
      with True Suc show ?thesis by (force simp: nth_Cons split: nat.splits intro: exI [of _ 0])
    next
      case False
      with Cons.prems Suc Cons.IH [of k sent "n + 1"] show ?thesis by (force simp: nth_Cons split: nat.splits)
    qed
  qed
qed simp

text \<open>C23: "The first failure of a unit is sent at once.  After that it is counted, and one line an hour
  says it is still failing and how many times.  Nothing is lost."  Over any sequence of failures of a
  unit, at any times: the first is sent; two messages are at least an hour apart; a failure that is not
  sent follows a message of the hour before it; and the failures that the messages stand for, each for
  itself and those it counts, with those still counted are all of them.\<close>

theorem failures_are_accounted_for:
  "\<exists>rs state. alerts unit ts (JObj []) = Inr (rs, state) \<and> length rs = length ts \<and>
     reported rs + pending 0 rs = int (length ts) \<and>
     (\<forall>j < length ts. fst (rs ! j) \<longrightarrow> (\<forall>i < j. fst (rs ! i) \<longrightarrow> COOLDOWN \<le> ts ! j - ts ! i)) \<and>
     (\<forall>j < length ts. \<not> fst (rs ! j) \<longrightarrow> (\<exists>i < j. fst (rs ! i) \<and> ts ! j - ts ! i < COOLDOWN))"
proof (cases ts)
  case Nil
  then show ?thesis by (simp add: reported_def pending_def)
next
  case (Cons t us)
  obtain kvs' where k: "due unit t (JObj []) = Inr ((True, 0), JObj kvs')" "entry kvs' unit t 0"
    using due_first [of "[]" unit t] by auto
  obtain state where s: "alerts unit us (JObj kvs') = Inr (spaced t 0 us, state)" using alerts_spaced [OF k(2)] by blast
  let ?rs = "(True, 0) # spaced t 0 us"
  have "alerts unit ts (JObj []) = Inr (?rs, state)" using Cons k(1) s by simp
  moreover have "reported ?rs + pending 0 ?rs = int (length ts)"
    using spaced_counts [of t 0 us] Cons
    by (cases "spaced t 0 us = []") (auto simp: reported_def pending_def split: if_splits)
  moreover have "\<forall>j < length ts. fst (?rs ! j) \<longrightarrow> (\<forall>i < j. fst (?rs ! i) \<longrightarrow> COOLDOWN \<le> ts ! j - ts ! i)"
    using spaced_apart [of _ us t 0] Cons by (auto simp: nth_Cons split: nat.splits)
  moreover have "\<forall>j < length ts. \<not> fst (?rs ! j) \<longrightarrow> (\<exists>i < j. fst (?rs ! i) \<and> ts ! j - ts ! i < COOLDOWN)"
    using spaced_covered [of _ us t 0] Cons by (force simp: nth_Cons split: nat.splits)
  ultimately show ?thesis using Cons by (intro exI [of _ ?rs]) auto
qed

lemma failures_are_accounted_for_witness:
  "\<exists>state. alerts ''wam-pool'' [0, 10, 20, 3700] (JObj []) = Inr ([(True, 0), (False, 1), (False, 2), (True, 2)], state) \<and>
     reported [(True, 0), (False, 1), (False, 2), (True, 2)] = 4"
proof -
  obtain rs state where r: "alerts ''wam-pool'' [0, 10, 20, 3700] (JObj []) = Inr (rs, state)"
    "reported rs + pending 0 rs = int (length [0 :: int, 10, 20, 3700])"
    using failures_are_accounted_for [of "''wam-pool''" "[0, 10, 20, 3700]"] by blast
  from r(1) have rs: "rs = [(True, 0), (False, 1), (False, 2), (True, 2)]"
    by (simp add: due_def fresh_entry_def entry_number_def COOLDOWN_def Inr_eq_rbind)
  have "reported [(True, 0), (False, 1), (False, 2), (True, 2)] = 4" using r(2) unfolding rs by (simp add: pending_def)
  with r(1) [unfolded rs] show ?thesis by blast
qed

end
