(* ===== verification/Min_Work.thy ===== *)
theory Min_Work
  imports Quoted Ledger
begin

text \<open>
  \<open>scripts/check_min_chain_work.py\<close>: the least work compiled into a network's parameters is compared
  with the chain of a node that is running, in both directions. The file of the parameters is read
  with the author's quotations blanked (\<^theory_text>\<open>Quoted\<close>); the commands are a parameter. A height that is no
  integer raises. What is printed is not modelled.
\<close>

section \<open>What is declared\<close>

definition CHAINPARAMS :: string where
  "CHAINPARAMS = ''src/wam/chainparams.cpp''"

definition YOUNG :: int where
  "YOUNG = 1000"

definition class_names :: "(string \<times> string) list" where
  "class_names = [(''CMainParams'', ''mainnet''), (''CTestNetParams'', ''testnet''), (''CRegTestParams'', ''regtest'')]"

text \<open>\<open>^class (\w+Params)\s*:\<close> at the start of a line.\<close>

definition class_here :: "string \<Rightarrow> string option" where
  "class_here s =
     Option.bind (lit ''class '' s) (\<lambda>r.
     Option.bind (some_of is_word r) (\<lambda>(name, r).
     if ends_with ''Params'' name \<and> 6 < length name
     then map_option (\<lambda>_. name) (lit '':'' (lstrip r)) else None))"

text \<open>The classes with the text from each to the next.\<close>

fun class_sections :: "bool \<Rightarrow> string \<Rightarrow> string \<times> (string \<times> string) list" where
  "class_sections at_start [] = ([], [])"
| "class_sections at_start (c # s) =
     (case class_sections (c = LF) s of (text, found) \<Rightarrow>
        (case (if at_start then class_here (c # s) else None) of
           None \<Rightarrow> (c # text, found)
         | Some name \<Rightarrow> ([], (name, c # text) # found)))"

definition optional_lit :: "string \<Rightarrow> string \<Rightarrow> string" where
  "optional_lit n s = (case lit n s of None \<Rightarrow> s | Some r \<Rightarrow> r)"

definition one_of :: "string \<Rightarrow> string \<Rightarrow> string option" where
  "one_of cs s = (case s of c # r \<Rightarrow> if c \<in> set cs then Some r else None | [] \<Rightarrow> None)"

text \<open>The digits of the value, none for an empty one.\<close>

definition work_here :: "string \<Rightarrow> string option" where
  "work_here s =
     Option.bind (lit ''nMinimumChainWork'' s) (\<lambda>s.
     Option.bind (lit ''='' (lstrip s)) (\<lambda>s.
     Option.bind (lit ''uint256'' (lstrip s)) (\<lambda>s.
     Option.bind (one_of ''{('' (optional_lit ''S'' s)) (\<lambda>s.
       case lit [CHR 0x22] s of
         None \<Rightarrow> map_option (\<lambda>_. []) (one_of ''})'' s)
       | Some r \<Rightarrow>
           let r = optional_lit ''0x'' r
           in Option.bind (lit [CHR 0x22] (dropWhile is_hex r)) (\<lambda>t.
              map_option (\<lambda>_. takeWhile is_hex r) (one_of ''})'' t))))))"

definition work_value :: "string \<Rightarrow> int" where
  "work_value ds = int (undigs 16 (rev (map hex_val ds)))"

definition section_value :: "string \<times> string \<Rightarrow> (string \<times> int) option" where
  "section_value sec =
     (case sec of (cls, text) \<Rightarrow>
        (case (map_of class_names cls, search work_here text) of
           (Some network, Some ds) \<Rightarrow> Some (network, work_value ds) | _ \<Rightarrow> None))"

text \<open>A class that comes twice leaves its last value.\<close>

definition declared :: "string \<Rightarrow> (string \<times> int) list" where
  "declared source =
     foldl (\<lambda>m (network, v). dict_set network v m) []
       (List.map_filter section_value (snd (class_sections True (strip_quoted (universal_newlines source) []))))"

section \<open>What a node answers\<close>

definition CHAIN_FIELD :: "(string \<times> string) list" where
  "CHAIN_FIELD = [(''mainnet'', ''main''), (''testnet'', ''test''), (''regtest'', ''regtest'')]"

datatype answer = Silent | Wrong_Chain | Chain int int

definition node_argv :: "string \<Rightarrow> string \<Rightarrow> string list" where
  "node_argv flags host =
     (let cmd = [''wam-cli''] @ words flags @ [''getblockchaininfo'']
      in if host = [] then cmd
         else [''ssh'', ''-o'', ''ConnectTimeout=12'', ''-o'', ''BatchMode=yes'', ''root@'' @ host, join_char '' '' cmd])"

definition hex_of_json :: "json \<Rightarrow> py_error + int" where
  "hex_of_json j = (case j of JStr s \<Rightarrow> int_of_hex s | _ \<Rightarrow> Inl TypeError)"

definition node_answer :: "string \<Rightarrow> json \<Rightarrow> py_error + answer" where
  "node_answer network info =
     rbind (jget info ''chain'' JNull) (\<lambda>chain.
     case map_of CHAIN_FIELD network of
       None \<Rightarrow> Inl (KeyError network)
     | Some want \<Rightarrow>
         if chain \<noteq> JStr want then rbind (jget info ''blocks'' JNull) (\<lambda>_. Inr Wrong_Chain)
         else rbind (jitem info ''blocks'') (\<lambda>blocks.
           rbind (case blocks of JInt n \<Rightarrow> Inr n | _ \<Rightarrow> Inl TypeError) (\<lambda>height.
           rbind (rbind (jitem info ''chainwork'') hex_of_json) (\<lambda>work. Inr (Chain height work)))))"

definition ask_node :: "'n shell \<Rightarrow> string \<Rightarrow> string \<Rightarrow> ('n, 'r, answer) host_task" where
  "ask_node sh network host =
     bnd (lift (wamcli_flags network None)) (\<lambda>flags.
     bnd (attempt is_exception
       (bnd (subprocess_run sh (node_argv flags host) [] 60) (\<lambda>(rc, out, err). lift (json_loads out)))) (\<lambda>r.
     case r of Inl _ \<Rightarrow> ret Silent | Inr info \<Rightarrow> lift (node_answer network info)))"

section \<open>The verdict\<close>

definition floor_verdict :: "int \<Rightarrow> int \<Rightarrow> int \<Rightarrow> int" where
  "floor_verdict want height work =
     (if want = 0 then (if height < YOUNG then 0 else 1)
      else if want > work then 1 else 0)"

definition params_text :: "('n, 'r, string option) host_task" where
  "params_text = (\<lambda>w. (Inr (case map_of (hw_files w) CHAINPARAMS of Some (Text t) \<Rightarrow> Some t | _ \<Rightarrow> None), w))"

definition min_work_main :: "'n shell \<Rightarrow> string \<Rightarrow> string \<Rightarrow> ('n, 'r, int) host_task" where
  "min_work_main sh network host =
     bnd params_text (\<lambda>source. case source of
       None \<Rightarrow> ret 2
     | Some source \<Rightarrow>
         (case map_of (declared source) network of
            None \<Rightarrow> ret 2
          | Some want \<Rightarrow>
              bnd (ask_node sh network host) (\<lambda>a. case a of
                  Chain height work \<Rightarrow> ret (floor_verdict want height work)
                | _ \<Rightarrow> ret 2)))"

section \<open>What a pass means\<close>



text \<open>A main network with a floor of five, and a node whose chain carries ten.\<close>

definition dq :: char where
  "dq = CHR 0x22"

definition five_source :: string where
  "five_source = ''class CMainParams : public CChainParams {'' @ [LF] @ ''nMinimumChainWork = uint256S('' @ [dq] @ ''0x05'' @ [dq] @ '');'' @ [LF]"

definition ten_reply :: string where
  "ten_reply = ''{'' @ [dq] @ ''chain'' @ [dq] @ '':'' @ [dq] @ ''main'' @ [dq] @ '','' @ [dq] @ ''blocks'' @ [dq] @ '':2000,'' @
     [dq] @ ''chainwork'' @ [dq] @ '':'' @ [dq] @ ''0a'' @ [dq] @ ''}''"

definition ten_shell :: "nat shell" where
  "ten_shell n argv stdin t = (Exited 0 ten_reply [], n)"

definition ten_host :: "nat host_world" where
  "ten_host = \<lparr>hw_node = 0, hw_calls = [], hw_files = [(CHAINPARAMS, Text five_source)], hw_dirs = (\<lambda>_. False), hw_denied = (\<lambda>_. False)\<rparr>"

lemma ten_texts:
  "map_of (declared five_source) ''mainnet'' = Some 5"
  "json_loads ten_reply = Inr (JObj [(''chain'', JStr ''main''), (''blocks'', JInt 2000), (''chainwork'', JStr ''0a'')])"
  "int_of_hex ''0a'' = Inr 10"
  by code_simp+

lemma ten_asks: "fst (ask_node ten_shell ''mainnet'' [] ten_host) = Inr (Chain 2000 10)"
  by (simp add: ask_node_def wamcli_flags_def lift_def bnd_def attempt_def subprocess_run_def ten_shell_def ten_texts
      node_answer_def CHAIN_FIELD_def hex_of_json_def)


end
