(* ===== verification/Spec2Isabelle.thy ===== *)
theory Spec2Isabelle
  imports Emission Treasury_Plan Treasury_Sign Treasury_Broadcast Genesis_Main Upstream_Patcher Dgw Reorg_Findings Ledger_Facts Ops_Facts Seeds_Facts Sweep_Facts Notify_Facts Peer_Watch_Facts Login_Watch_Facts Verify_Address Pool_Check_Facts Unit_Alert_Facts Min_Work
begin

text \<open>A verification development for the WAM Coin repository.\<close>

end
